(* ===== verification/Team_Prelude.thy ===== *)
theory Team_Prelude
  imports Main "HOL-Library.Word" "HOL-Library.List_Lexorder" "HOL-Library.Char_ord"
begin

text \<open>
  Shared vocabulary of the development.

  \<^item> Rust's \<open>Result<T, E>\<close> is the sum \<open>'e + 'a\<close> (\<open>Inl\<close> the error); \<open>rbind\<close> is the \<open>?\<close> operator.
  \<^item> A Rust \<open>String\<close> or \<open>Vec<u8>\<close> is a \<open>string\<close>: a list of bytes (\<open>char\<close> has 256 values), so
    lengths are byte lengths and the order is the byte-wise order of Rust's \<open>str::cmp\<close>.
  \<^item> An \<open>i64\<close> is an \<open>int\<close>; \<open>in_i64\<close> is its range, and the checked and saturating operations the
    code uses are written out.
  \<^item> A random source is the list of its answers, consumed in order (\<open>fill\<close>).
  \<^item> A vector searched by a key (Routines, runs, notices, database rows) is a list with
    \<open>find_by\<close> and \<open>replace_by\<close>; the locale \<open>keyed_table\<close> states the laws the components rely on.
\<close>

named_theorems table_simps \<open>laws of keyed tables\<close>
named_theorems result_simps \<open>unfolding of results\<close>

section \<open>Results\<close>

definition rbind :: "'e + 'a \<Rightarrow> ('a \<Rightarrow> 'e + 'b) \<Rightarrow> 'e + 'b" where
  "rbind m f = (case m of Inl e \<Rightarrow> Inl e | Inr x \<Rightarrow> f x)"

definition ok_or :: "'a option \<Rightarrow> 'e \<Rightarrow> 'e + 'a" where
  "ok_or m e = (case m of None \<Rightarrow> Inl e | Some x \<Rightarrow> Inr x)"

definition require :: "bool \<Rightarrow> 'e \<Rightarrow> 'e + unit" where
  "require b e = (if b then Inr () else Inl e)"

definition is_ok :: "'e + 'a \<Rightarrow> bool" where
  "is_ok m = (case m of Inl _ \<Rightarrow> False | Inr _ \<Rightarrow> True)"

lemma rbind_simps [simp, result_simps]:
  "rbind (Inl e) f = Inl e" "rbind (Inr x) f = f x"
  by (simp_all add: rbind_def)

lemma ok_or_simps [simp, result_simps]:
  "ok_or None e = Inl e" "ok_or (Some x) e = Inr x"
  by (simp_all add: ok_or_def)

lemma require_simps [simp, result_simps]:
  "require True e = Inr ()" "require False e = Inl e"
  by (simp_all add: require_def)

lemma is_ok_simps [simp]: "is_ok (Inl e) = False" "is_ok (Inr x) = True"
  by (simp_all add: is_ok_def)

lemma rbind_eq_Inr: "rbind m f = Inr y \<longleftrightarrow> (\<exists>x. m = Inr x \<and> f x = Inr y)"
  by (cases m) auto

lemma rbind_eq_Inl: "rbind m f = Inl e \<longleftrightarrow> m = Inl e \<or> (\<exists>x. m = Inr x \<and> f x = Inl e)"
  by (cases m) auto

lemma rbind_InrE:
  assumes "rbind m f = Inr y"
  obtains x where "m = Inr x" "f x = Inr y"
  using assms by (auto simp: rbind_eq_Inr)

lemma ok_or_eq_Inr [simp]: "ok_or m e = Inr x \<longleftrightarrow> m = Some x"
  by (cases m) auto

lemma require_eq_Inr [simp]: "require b e = Inr u \<longleftrightarrow> b"
  by (cases b) auto

lemmas result_conv = rbind_eq_Inr rbind_eq_Inl

section \<open>Machine integers\<close>

type_synonym byte = "8 word"

definition i64_max :: int where "i64_max = 2 ^ 63 - 1"
definition i64_min :: int where "i64_min = - (2 ^ 63)"

definition in_i64 :: "int \<Rightarrow> bool" where
  "in_i64 x \<longleftrightarrow> i64_min \<le> x \<and> x \<le> i64_max"

definition checked_add_i64 :: "int \<Rightarrow> int \<Rightarrow> int option" where
  "checked_add_i64 a b = (if in_i64 (a + b) then Some (a + b) else None)"

definition saturating_add_i64 :: "int \<Rightarrow> int \<Rightarrow> int" where
  "saturating_add_i64 a b = max i64_min (min i64_max (a + b))"

definition saturating_mul_i64 :: "int \<Rightarrow> int \<Rightarrow> int" where
  "saturating_mul_i64 a b = max i64_min (min i64_max (a * b))"

definition i64_of_nat :: "nat \<Rightarrow> int" where
  \<comment> \<open>\<open>i64::try_from(n).unwrap_or(i64::MAX)\<close> of a \<open>usize\<close>\<close>
  "i64_of_nat n = min (int n) i64_max"

definition usize_of_int :: "int \<Rightarrow> nat option" where
  \<comment> \<open>\<open>usize::try_from(x).ok()\<close> on a 64-bit target: a negative value does not fit\<close>
  "usize_of_int x = (if x < 0 then None else Some (nat x))"

lemma in_i64_bounds: "in_i64 x \<longleftrightarrow> - 9223372036854775808 \<le> x \<and> x \<le> 9223372036854775807"
  by (simp add: in_i64_def i64_min_def i64_max_def)

lemma saturating_add_in_i64: "in_i64 (saturating_add_i64 a b)"
  by (simp add: saturating_add_i64_def in_i64_def i64_min_def i64_max_def)

lemma checked_add_Some: "checked_add_i64 a b = Some c \<longleftrightarrow> c = a + b \<and> in_i64 c"
  by (auto simp: checked_add_i64_def)

section \<open>Random source\<close>

type_synonym entropy = "byte list option list"

text \<open>One draw of \<open>n\<close> bytes: the next answer, cut or zero-padded to the buffer's length; a failed
  answer, or an exhausted supply, is \<open>EntropyUnavailable\<close>.\<close>

definition fill :: "entropy \<Rightarrow> nat \<Rightarrow> (byte list \<times> entropy) option" where
  "fill ent n = (case ent of
      Some bs # rest \<Rightarrow> Some (take n (bs @ replicate n 0), rest)
    | _ \<Rightarrow> None)"

lemma fill_length: "fill ent n = Some (bs, rest) \<Longrightarrow> length bs = n"
  by (auto simp: fill_def split: list.splits option.splits)

section \<open>Lists searched by a key\<close>

definition find_by :: "('a \<Rightarrow> 'k) \<Rightarrow> 'k \<Rightarrow> 'a list \<Rightarrow> 'a option" where
  "find_by key k xs = List.find (\<lambda>x. key x = k) xs"

fun replace_by :: "('a \<Rightarrow> 'k) \<Rightarrow> 'a \<Rightarrow> 'a list \<Rightarrow> 'a list" where
  "replace_by key y [] = []"
| "replace_by key y (x # xs) = (if key x = key y then y # xs else x # replace_by key y xs)"

lemma find_by_simps [simp]:
  "find_by key k [] = None"
  "find_by key k (x # xs) = (if key x = k then Some x else find_by key k xs)"
  by (simp_all add: find_by_def)

lemma find_by_Some_key: "find_by key k xs = Some x \<Longrightarrow> key x = k"
  by (induction xs) (auto split: if_splits)

lemma find_by_Some_mem: "find_by key k xs = Some x \<Longrightarrow> x \<in> set xs"
  by (induction xs) (auto split: if_splits)

lemma find_by_None: "find_by key k xs = None \<longleftrightarrow> k \<notin> key ` set xs"
  by (induction xs) auto

lemma find_by_distinct:
  "distinct (map key xs) \<Longrightarrow> x \<in> set xs \<Longrightarrow> key x = k \<Longrightarrow> find_by key k xs = Some x"
  by (induction xs) auto

lemma find_by_append: "find_by key k (xs @ ys) =
    (case find_by key k xs of None \<Rightarrow> find_by key k ys | Some x \<Rightarrow> Some x)"
  by (induction xs) auto

lemma find_by_filter_key:
  "find_by key k (filter (\<lambda>x. key x \<noteq> j) xs) = (if k = j then None else find_by key k xs)"
  by (induction xs) auto

lemma find_by_map_key:
  "(\<And>x. key (f x) = key x) \<Longrightarrow> find_by key k (map f xs) = map_option f (find_by key k xs)"
  by (induction xs) auto

lemma map_key_replace_by [simp]: "map key (replace_by key y xs) = map key xs"
  by (induction xs) auto

lemma length_replace_by [simp]: "length (replace_by key y xs) = length xs"
  by (induction xs) auto

lemma find_by_replace_by:
  "find_by key k (replace_by key y xs) =
     (if k = key y then (case find_by key k xs of None \<Rightarrow> None | Some _ \<Rightarrow> Some y) else find_by key k xs)"
  by (induction xs) auto

lemma set_replace_by_subset: "set (replace_by key y xs) \<subseteq> insert y (set xs)"
  by (induction xs) auto

lemma replace_by_mem_cases:
  assumes "x \<in> set (replace_by key y xs)" "distinct (map key xs)"
  shows "x = y \<or> (x \<in> set xs \<and> key x \<noteq> key y)"
  using assms by (induction xs) (auto split: if_splits simp: image_iff)

lemma replace_by_absent: "key y \<notin> key ` set xs \<Longrightarrow> replace_by key y xs = xs"
  by (induction xs) auto

lemma replace_by_twice: "key y = key z \<Longrightarrow> replace_by key z (replace_by key y xs) = replace_by key z xs"
  by (induction xs) auto

lemma length_filter_replace_by_eq:
  "find_by key (key y) xs = Some x \<Longrightarrow> P x = P y \<Longrightarrow>
   length (filter P (replace_by key y xs)) = length (filter P xs)"
  by (induction xs) (auto split: if_splits)

lemma length_filter_replace_by:
  "find_by key (key y) xs = Some x \<Longrightarrow>
   length (filter P (replace_by key y xs)) + (if P x then 1 else 0)
     = length (filter P xs) + (if P y then 1 else 0)"
  by (induction xs) (auto split: if_splits)

lemma length_filter_remove_le: "length (filter P (filter Q xs)) \<le> length (filter P xs)"
  by (induction xs) auto

lemma one_of_key:
  "distinct (map key xs) \<Longrightarrow> x \<in> set xs \<Longrightarrow> P x \<Longrightarrow> (\<And>y. y \<in> set xs \<Longrightarrow> P y \<Longrightarrow> y = x) \<Longrightarrow>
   length (filter P xs) = 1"
proof (induction xs)
  case (Cons a xs)
  show ?case
  proof (cases "a = x")
    case True
    then have "x \<notin> set xs" using Cons.prems(1) by auto
    then have "filter P xs = []" using Cons.prems(4) by (auto simp: filter_empty_conv)
    then show ?thesis using True Cons.prems(3) by simp
  next
    case False
    then have "\<not> P a" using Cons.prems(4) by auto
    moreover have "length (filter P xs) = 1"
      by (rule Cons.IH) (use Cons.prems False in auto)
    ultimately show ?thesis by simp
  qed
qed simp

locale keyed_table =
  fixes items :: "'s \<Rightarrow> 'a list"
    and key :: "'a \<Rightarrow> 'k"
    and lookup :: "'s \<Rightarrow> 'k \<Rightarrow> 'a option"
    and replace :: "'s \<Rightarrow> 'a \<Rightarrow> 's"
  assumes lookup_items: "lookup s k = find_by key k (items s)"
    and items_replace: "items (replace s y) = replace_by key y (items s)"
begin

lemma lookup_replace:
  "lookup (replace s y) k =
     (if k = key y then (case lookup s k of None \<Rightarrow> None | Some _ \<Rightarrow> Some y) else lookup s k)"
  by (simp add: lookup_items items_replace find_by_replace_by)

lemma keys_replace: "map key (items (replace s y)) = map key (items s)"
  by (simp add: items_replace)

lemma lookup_replace_same: "lookup s (key y) = Some x \<Longrightarrow> lookup (replace s y) (key y) = Some y"
  by (simp add: lookup_replace)

lemma lookup_replace_other: "k \<noteq> key y \<Longrightarrow> lookup (replace s y) k = lookup s k"
  by (simp add: lookup_replace)

lemma lookup_Some_key: "lookup s k = Some x \<Longrightarrow> key x = k"
  unfolding lookup_items by (rule find_by_Some_key)

lemma lookup_Some_mem: "lookup s k = Some x \<Longrightarrow> x \<in> set (items s)"
  unfolding lookup_items by (rule find_by_Some_mem)

lemma replace_replace: "key y = key z \<Longrightarrow> items (replace (replace s y) z) = items (replace s z)"
  by (simp add: items_replace replace_by_twice)

lemma count_replace:
  "lookup s (key y) = Some x \<Longrightarrow>
   length (filter P (items (replace s y))) + (if P x then 1 else 0)
     = length (filter P (items s)) + (if P y then 1 else 0)"
  by (simp add: lookup_items items_replace length_filter_replace_by)

lemma items_replace_cases:
  "x \<in> set (items (replace s y)) \<Longrightarrow> distinct (map key (items s)) \<Longrightarrow>
   x = y \<or> (x \<in> set (items s) \<and> key x \<noteq> key y)"
  by (simp add: items_replace replace_by_mem_cases)

end

end
