(* ===== verification/Strict_Json.thy ===== *)
theory Strict_Json
  imports Team_Prelude
begin

text \<open>
  JSON values and their canonical bytes.

  \<^item> \<open>json\<close> and \<open>number\<close>: \<^verbatim>\<open>vendor/strict-json/src/value.rs\<close>. A finite \<open>f64\<close> is carried as what
    Rust's \<open>{:e}\<close> prints of it, its sign, its shortest decimal digits and its decimal exponent, which
    determines it; all the code here does with a float is print it.
  \<^item> the readers and builders of \<^verbatim>\<open>routine/src/json.rs\<close> and \<^verbatim>\<open>protocol/http/rust/src/python/value.rs\<close>;
  \<^item> the canonical writer of \<^verbatim>\<open>protocol/http/rust/src/python/json.rs\<close> for the option sets the Team code
    uses (\<open>ensure_ascii\<close> off);
  \<^item> the bounds of an Action result, \<^verbatim>\<open>action/src/result.rs\<close>, with the loop over an explicit stack
    proved equal to the recursive bounds on depth and node count.
\<close>

section \<open>Values\<close>

datatype number = Int64 int | BigInt string | Float64 bool string int

datatype json =
    Null
  | Bool bool
  | Number number
  | Str string
  | Array "json list"
  | Object "(string \<times> json) list"

fun get :: "json \<Rightarrow> string \<Rightarrow> json option" where
  "get (Object members) key = map_option snd (find_by fst key members)"
| "get _ key = None"

section \<open>Reading and building values\<close>

definition text_value :: "string \<Rightarrow> json" where "text_value s = Str s"
definition int_value :: "int \<Rightarrow> json" where "int_value i = Number (Int64 i)"
definition object :: "(string \<times> json) list \<Rightarrow> json" where "object members = Object members"

fun members :: "json \<Rightarrow> (string \<times> json) list" where
  "members (Object ms) = ms"
| "members _ = []"

fun elements :: "json \<Rightarrow> json list" where
  "elements (Array xs) = xs"
| "elements _ = []"

fun is_object :: "json \<Rightarrow> bool" where
  "is_object (Object _) = True"
| "is_object _ = False"

fun as_str :: "json \<Rightarrow> string option" where
  "as_str (Str s) = Some s"
| "as_str _ = None"

definition at :: "json \<Rightarrow> string \<Rightarrow> json" where
  "at v key = (case get v key of None \<Rightarrow> Null | Some x \<Rightarrow> x)"

definition has_fields :: "json \<Rightarrow> string list \<Rightarrow> bool" where
  "has_fields v fields = (case v of
      Object ms \<Rightarrow> length ms = length fields \<and> list_all (\<lambda>(name, _). name \<in> set fields) ms
    | _ \<Rightarrow> False)"

fun set_pairs :: "(string \<times> json) list \<Rightarrow> string \<Rightarrow> json \<Rightarrow> (string \<times> json) list" where
  "set_pairs [] key m = [(key, m)]"
| "set_pairs ((k, v) # rest) key m = (if k = key then (k, m) # rest else (k, v) # set_pairs rest key m)"

fun set_member :: "json \<Rightarrow> string \<Rightarrow> json \<Rightarrow> json" where
  "set_member (Object ms) key m = Object (set_pairs ms key m)"
| "set_member v key m = v"

fun small_int :: "json \<Rightarrow> int option" where
  "small_int (Number (Int64 i)) = Some i"
| "small_int _ = None"

fun is_integer :: "json \<Rightarrow> bool" where
  "is_integer (Number (Int64 _)) = True"
| "is_integer (Number (BigInt _)) = True"
| "is_integer _ = False"

definition whole :: "json \<Rightarrow> int \<Rightarrow> int \<Rightarrow> bool" where
  "whole v low high = (case small_int v of None \<Rightarrow> False | Some i \<Rightarrow> low \<le> i \<and> i \<le> high)"

definition exact_object :: "json \<Rightarrow> string list \<Rightarrow> (string \<times> json) list option" where
  "exact_object v fields = (if has_fields v fields then Some (members v) else None)"

definition field :: "(string \<times> json) list \<Rightarrow> string \<Rightarrow> json" where
  "field ms key = (case find_by fst key ms of None \<Rightarrow> Null | Some (_, v) \<Rightarrow> v)"

text \<open>The derived \<open>PartialEq\<close>: structural, but for the two zeros of \<open>f64\<close>, which are equal.\<close>

fun number_eq :: "number \<Rightarrow> number \<Rightarrow> bool" where
  "number_eq (Float64 s d e) (Float64 s' d' e') =
     (d = d' \<and> e = e' \<and> (s = s' \<or> list_all (\<lambda>c. c = CHR ''0'') d))"
| "number_eq a b = (a = b)"

fun value_eq :: "json \<Rightarrow> json \<Rightarrow> bool" and values_eq :: "json list \<Rightarrow> json list \<Rightarrow> bool"
  and members_eq :: "(string \<times> json) list \<Rightarrow> (string \<times> json) list \<Rightarrow> bool" where
  "value_eq Null Null = True"
| "value_eq (Bool a) (Bool b) = (a = b)"
| "value_eq (Number a) (Number b) = number_eq a b"
| "value_eq (Str a) (Str b) = (a = b)"
| "value_eq (Array xs) (Array ys) = values_eq xs ys"
| "value_eq (Object xs) (Object ys) = members_eq xs ys"
| "value_eq _ _ = False"
| "values_eq [] [] = True"
| "values_eq (x # xs) (y # ys) = (value_eq x y \<and> values_eq xs ys)"
| "values_eq _ _ = False"
| "members_eq [] [] = True"
| "members_eq ((k, x) # xs) ((l, y) # ys) = (k = l \<and> value_eq x y \<and> members_eq xs ys)"
| "members_eq _ _ = False"

lemma get_object_set_member:
  "get (set_member (Object ms) key m) k = (if k = key then Some m else get (Object ms) k)"
  by (induction ms key m rule: set_pairs.induct) auto

lemma at_simps [simp]:
  "at (Object ms) key = (case find_by fst key ms of None \<Rightarrow> Null | Some (_, v) \<Rightarrow> v)"
  by (auto simp: at_def split: option.splits)

section \<open>The canonical writer\<close>

record options =
  sort_keys :: bool
  compact :: bool

definition CANONICAL :: options where
  "CANONICAL = \<lparr>sort_keys = True, compact = True\<rparr>"

definition digit_char :: "nat \<Rightarrow> char" where
  "digit_char d = char_of (48 + d)"

fun show_nat :: "nat \<Rightarrow> string" where
  "show_nat n = (if n < 10 then [digit_char n] else show_nat (n div 10) @ [digit_char (n mod 10)])"

declare show_nat.simps [simp del]

definition show_int :: "int \<Rightarrow> string" where
  "show_int i = (if i < 0 then CHR ''-'' # show_nat (nat (- i)) else show_nat (nat i))"

text \<open>\<open>repr\<close> of a float from the digits and exponent of \<open>{:e}\<close>.\<close>

definition positional :: "string \<Rightarrow> int \<Rightarrow> string" where
  "positional digits exponent =
     (let point = exponent + 1; count = int (length digits) in
      if point \<le> 0 then ''0.'' @ replicate (nat (- point)) (CHR ''0'') @ digits
      else if point \<ge> count then digits @ replicate (nat (point - count)) (CHR ''0'') @ ''.0''
      else take (nat point) digits @ ''.'' @ drop (nat point) digits)"

definition two_digits :: "nat \<Rightarrow> string" where
  "two_digits n = (if n < 10 then CHR ''0'' # show_nat n else show_nat n)"

definition float_repr :: "bool \<Rightarrow> string \<Rightarrow> int \<Rightarrow> string" where
  "float_repr negative digits exponent =
     (if negative then ''-'' else '''') @
     (if - 4 \<le> exponent \<and> exponent < 16 then positional digits exponent
      else take 1 digits @ (if drop 1 digits = [] then '''' else CHR ''.'' # drop 1 digits) @ ''e''
           @ (if exponent < 0 then ''-'' else ''+'') @ two_digits (nat \<bar>exponent\<bar>))"

fun number_text :: "number \<Rightarrow> string" where
  "number_text (Int64 i) = show_int i"
| "number_text (BigInt digits) = digits"
| "number_text (Float64 s d e) = float_repr s d e"

definition hex_digit :: "nat \<Rightarrow> char" where
  "hex_digit d = (if d < 10 then char_of (48 + d) else char_of (87 + d))"

definition escape_char :: "char \<Rightarrow> string" where
  "escape_char c = (let n = of_char c :: nat in
     if n = 34 then [CHR 0x5C, CHR 0x22]
     else if n = 92 then [CHR 0x5C, CHR 0x5C]
     else if n = 10 then [CHR 0x5C, CHR ''n'']
     else if n = 13 then [CHR 0x5C, CHR ''r'']
     else if n = 9 then [CHR 0x5C, CHR ''t'']
     else if n = 8 then [CHR 0x5C, CHR ''b'']
     else if n = 12 then [CHR 0x5C, CHR ''f'']
     else if n < 32 then [CHR 0x5C, CHR ''u'', CHR ''0'', CHR ''0'', hex_digit (n div 16), hex_digit (n mod 16)]
     else [c])"

definition write_string :: "string \<Rightarrow> string" where
  "write_string s = CHR 0x22 # concat (map escape_char s) @ [CHR 0x22]"

definition item_separator :: "options \<Rightarrow> string" where
  "item_separator opts = (if compact opts then '','' else '', '')"

fun join :: "string \<Rightarrow> string list \<Rightarrow> string" where
  "join sep [] = ''''"
| "join sep [x] = x"
| "join sep (x # y # xs) = x @ sep @ join sep (y # xs)"

function write_value :: "options \<Rightarrow> json \<Rightarrow> string" where
  "write_value opts Null = ''null''"
| "write_value opts (Bool b) = (if b then ''true'' else ''false'')"
| "write_value opts (Number n) = number_text n"
| "write_value opts (Str s) = write_string s"
| "write_value opts (Array xs) = ''['' @ join (item_separator opts) (map (write_value opts) xs) @ '']''"
| "write_value opts (Object ms) =
     (let ordered = (if sort_keys opts then sort_key fst ms else ms) in
      ''{'' @ join (item_separator opts)
        (map (\<lambda>(k, v). write_string k @ (if compact opts then '':'' else '': '') @ write_value opts v) ordered)
      @ ''}'')"
  by pat_completeness auto
termination
proof (relation "measure (size \<circ> snd)", goal_cases)
  case 1
  show ?case by simp
next
  case (2 opts xs x)
  then show ?case by (simp add: less_Suc_eq_le size_list_estimation')
next
  case (3 opts ms ordered kv k v)
  then have mem: "(k, v) \<in> set ms" by (auto split: if_splits)
  then have "size (k, v) \<le> size_list size ms" by (simp add: size_list_estimation')
  moreover from mem have "size v < Suc (size_list (size_prod (\<lambda>x. 0) size) ms)"
    by (auto simp: less_Suc_eq_le intro: size_list_estimation')
  ultimately show ?case by simp
qed

definition dumps :: "json \<Rightarrow> options \<Rightarrow> string" where
  "dumps v opts = write_value opts v"

definition canonical :: "json \<Rightarrow> string" where
  "canonical v = dumps v CANONICAL"

definition encoded_bytes :: "json \<Rightarrow> nat" where
  "encoded_bytes v = length (dumps v CANONICAL)"

section \<open>The bounds of an Action result\<close>

datatype result_error = Structure | Size

definition MAX_RESULT_BYTES :: nat where "MAX_RESULT_BYTES = 512 * 1024"
definition MAX_JSON_DEPTH :: nat where "MAX_JSON_DEPTH = 32"
definition MAX_JSON_NODES :: nat where "MAX_JSON_NODES = 4096"

fun children :: "json \<Rightarrow> json list" where
  "children (Array items) = items"
| "children (Object ms) = map snd ms"
| "children _ = []"

text \<open>The loop of \<open>walk\<close>: the top of the stack is the head of the list; the budget is what
  \<open>checked_sub\<close> counts down.\<close>

fun walk_loop :: "nat \<Rightarrow> (json \<times> nat) list \<Rightarrow> result_error + unit" where
  "walk_loop budget [] = Inr ()"
| "walk_loop 0 (p # pending) = Inl Structure"
| "walk_loop (Suc budget) ((v, depth) # pending) =
     (if depth > MAX_JSON_DEPTH then Inl Structure
      else walk_loop budget (rev (map (\<lambda>item. (item, depth + 1)) (children v)) @ pending))"

definition walk :: "json \<Rightarrow> result_error + unit" where
  "walk v = walk_loop MAX_JSON_NODES [(v, 0)]"

definition canonical_result :: "json \<Rightarrow> nat \<Rightarrow> result_error + string" where
  "canonical_result v max_bytes =
     rbind (walk v) (\<lambda>_. let encoded = canonical v in
       if length encoded > max_bytes then Inl Size else Inr encoded)"

definition require_durable :: "json \<Rightarrow> result_error + unit" where
  "require_durable v = rbind (canonical_result v MAX_RESULT_BYTES) (\<lambda>_. Inr ())"

text \<open>What the bounds mean: the number of values a value holds, itself included, and its nesting.\<close>

fun nodes :: "json \<Rightarrow> nat" where
  "nodes (Array items) = Suc (sum_list (map nodes items))"
| "nodes (Object ms) = Suc (sum_list (map (\<lambda>(k, v). nodes v) ms))"
| "nodes _ = 1"

fun nesting :: "json \<Rightarrow> nat" where
  "nesting (Array items) = (if items = [] then 0 else Suc (Max (set (map nesting items))))"
| "nesting (Object ms) = (if ms = [] then 0 else Suc (Max (set (map (\<lambda>(k, v). nesting v) ms))))"
| "nesting _ = 0"

lemma nodes_children: "nodes v = Suc (sum_list (map nodes (children v)))"
  by (cases v) (auto simp: o_def split_def)

lemma Suc_Max_le_iff:
  fixes f :: "'a \<Rightarrow> nat"
  assumes "finite A" "A \<noteq> {}"
  shows "Suc (Max (f ` A)) + d \<le> m \<longleftrightarrow> (\<forall>a \<in> A. f a + Suc d \<le> m)"
proof
  assume le: "Suc (Max (f ` A)) + d \<le> m"
  have "f a \<le> Max (f ` A)" if "a \<in> A" for a using that assms(1) by simp
  with le show "\<forall>a \<in> A. f a + Suc d \<le> m" by fastforce
next
  assume "\<forall>a \<in> A. f a + Suc d \<le> m"
  moreover have "Max (f ` A) \<in> f ` A" using assms by (intro Max_in) auto
  ultimately show "Suc (Max (f ` A)) + d \<le> m" by auto
qed

lemma nesting_le_children:
  "nesting v + d \<le> m \<longleftrightarrow> d \<le> m \<and> (\<forall>c \<in> set (children v). nesting c + Suc d \<le> m)"
proof (cases v)
  case (Array items)
  show ?thesis
    using Suc_Max_le_iff [of "set items" nesting d m]
    by (cases "items = []") (force simp: Array neq_Nil_conv)+
next
  case (Object ms)
  show ?thesis
    using Suc_Max_le_iff [of "set ms" "\<lambda>(k, v). nesting v" d m]
    by (cases "ms = []") (force simp: Object neq_Nil_conv)+
qed auto

lemma nodes_pos: "1 \<le> nodes v"
  by (cases v) auto

lemma walk_loop_iff:
  "walk_loop budget pending = Inr () \<longleftrightarrow>
     sum_list (map (nodes \<circ> fst) pending) \<le> budget \<and>
     (\<forall>(v, d) \<in> set pending. nesting v + d \<le> MAX_JSON_DEPTH)"
proof (induction budget pending rule: walk_loop.induct)
  case (2 p pending)
  then show ?case using nodes_pos [of "fst p"] by (auto simp: comp_def)
next
  case (3 budget v depth pending)
  let ?next = "rev (map (\<lambda>item. (item, depth + 1)) (children v)) @ pending"
  have sum: "sum_list (map (nodes \<circ> fst) ?next)
      = sum_list (map nodes (children v)) + sum_list (map (nodes \<circ> fst) pending)"
    by (simp add: rev_map [symmetric] comp_def)
  show ?case
  proof (cases "depth > MAX_JSON_DEPTH")
    case True
    then show ?thesis by (auto simp: comp_def)
  next
    case False
    have "(\<forall>(v, d) \<in> set ?next. nesting v + d \<le> MAX_JSON_DEPTH) \<longleftrightarrow>
        (\<forall>(v, d) \<in> set ((v, depth) # pending). nesting v + d \<le> MAX_JSON_DEPTH)"
      using False nesting_le_children [of v depth MAX_JSON_DEPTH] by (simp add: ball_Un not_less)
    moreover have "nodes v = Suc (sum_list (map nodes (children v)))"
      by (rule nodes_children)
    ultimately show ?thesis
      using False "3.IH" [OF False] sum by (simp add: comp_def)
  qed
qed auto

lemma walk_iff: "walk v = Inr () \<longleftrightarrow> nodes v \<le> MAX_JSON_NODES \<and> nesting v \<le> MAX_JSON_DEPTH"
  by (simp add: walk_def walk_loop_iff)

lemma canonical_result_Inr:
  "canonical_result v n = Inr raw \<longleftrightarrow>
     nodes v \<le> MAX_JSON_NODES \<and> nesting v \<le> MAX_JSON_DEPTH \<and> raw = canonical v \<and> length raw \<le> n"
  using walk_iff [of v] by (cases "walk v") (auto simp: canonical_result_def Let_def)

end
