(* ===== verification/Text_Patterns.thy ===== *)
theory Text_Patterns
  imports Strict_Json
begin

text \<open>
  The identifier grammars of \<^verbatim>\<open>protocol/http/rust\<close> as executable predicates. Each definition states the
  language of one declared pattern: \<open>SAFE_ID_RE\<close>, \<open>SHA256_RE\<close>, \<open>ROUTINE_ID_RE\<close>, \<open>OPERATION_ID_RE\<close>,
  \<open>GENERATION_RE\<close> and their relatives; \<open>is_full\<close> asks for a match of the whole text. All classes are
  ASCII, so a character is a byte. The index-wise check \<open>valid_operation_id\<close> of the journal is proved
  to accept exactly the language of \<open>OPERATION_ID_RE\<close>.
\<close>

definition between :: "char \<Rightarrow> char \<Rightarrow> char \<Rightarrow> bool" where
  "between lo hi c \<longleftrightarrow> (of_char lo :: nat) \<le> of_char c \<and> (of_char c :: nat) \<le> of_char hi"

definition digit :: "char \<Rightarrow> bool" where "digit c = between (CHR ''0'') (CHR ''9'') c"
definition lower :: "char \<Rightarrow> bool" where "lower c = between (CHR ''a'') (CHR ''z'') c"
definition upper :: "char \<Rightarrow> bool" where "upper c = between (CHR ''A'') (CHR ''Z'') c"
definition hex :: "char \<Rightarrow> bool" where "hex c \<longleftrightarrow> digit c \<or> between (CHR ''a'') (CHR ''f'') c"
definition alnum :: "char \<Rightarrow> bool" where "alnum c \<longleftrightarrow> digit c \<or> lower c \<or> upper c"

text \<open>\<open>[first][rest]{0,n}\<close>\<close>

definition first_rest :: "(char \<Rightarrow> bool) \<Rightarrow> (char \<Rightarrow> bool) \<Rightarrow> nat \<Rightarrow> string \<Rightarrow> bool" where
  "first_rest p q n s = (case s of [] \<Rightarrow> False | c # cs \<Rightarrow> p c \<and> list_all q cs \<and> length cs \<le> n)"

text \<open>\<open>[class]{n}\<close>\<close>

definition exactly :: "(char \<Rightarrow> bool) \<Rightarrow> nat \<Rightarrow> string \<Rightarrow> bool" where
  "exactly p n s \<longleftrightarrow> length s = n \<and> list_all p s"

definition safe_id_re :: "string \<Rightarrow> bool" where
  "safe_id_re = first_rest alnum (\<lambda>c. alnum c \<or> c \<in> set ''._:/-'') 255"

definition sha256_re :: "string \<Rightarrow> bool" where
  "sha256_re = exactly hex 64"

definition routine_id_re :: "string \<Rightarrow> bool" where
  "routine_id_re = exactly hex 32"

definition boot_re :: "string \<Rightarrow> bool" where
  "boot_re = exactly hex 32"

definition workload_re :: "string \<Rightarrow> bool" where
  "workload_re = first_rest alnum (\<lambda>c. alnum c \<or> c \<in> set ''_.-'') 127"

definition step_id_re :: "string \<Rightarrow> bool" where
  "step_id_re = first_rest lower (\<lambda>c. lower c \<or> digit c \<or> c \<in> set ''_-'') 31"

definition plan_digest_re :: "string \<Rightarrow> bool" where
  "plan_digest_re s \<longleftrightarrow> take 7 s = ''sha256:'' \<and> exactly hex 64 (drop 7 s)"

definition error_code_re :: "string \<Rightarrow> bool" where
  "error_code_re = first_rest lower (\<lambda>c. lower c \<or> digit c \<or> c = CHR ''-'') 63"

text \<open>\<open>[a-z][a-z0-9]*(?:[seps][a-z0-9]+)*\<close>: a separator is always followed by a letter or digit.\<close>

fun segments :: "(char \<Rightarrow> bool) \<Rightarrow> string \<Rightarrow> bool" where
  "segments sep [] = True"
| "segments sep (c # cs) =
     (if lower c \<or> digit c then segments sep cs
      else sep c \<and> (case cs of [] \<Rightarrow> False | d # ds \<Rightarrow> (lower d \<or> digit d) \<and> segments sep ds))"

definition identifier_re :: "string \<Rightarrow> bool" where
  "identifier_re s = (case s of [] \<Rightarrow> False | c # cs \<Rightarrow> lower c \<and> segments (\<lambda>x. x = CHR ''-'') cs)"

definition action_id_re :: "string \<Rightarrow> bool" where
  "action_id_re s = (case s of [] \<Rightarrow> False | c # cs \<Rightarrow> lower c \<and> segments (\<lambda>x. x \<in> set ''._-'') cs)"

definition canonical_assistant_id :: "json \<Rightarrow> string option" where
  "canonical_assistant_id v = (case v of
      Str s \<Rightarrow> if length s \<le> 40 \<and> identifier_re s then Some s else None
    | _ \<Rightarrow> None)"

definition canonical_action_id :: "json \<Rightarrow> string option" where
  "canonical_action_id v = (case v of
      Str s \<Rightarrow> if length s \<le> 128 \<and> action_id_re s then Some s else None
    | _ \<Rightarrow> None)"

text \<open>\<open>OPERATION_ID_RE\<close>: the groups of a canonical lowercase version 4 UUID.\<close>

definition operation_id_re :: "string \<Rightarrow> bool" where
  "operation_id_re s \<longleftrightarrow> (\<exists>a b c x d e. s = a @ ''-'' @ b @ ''-4'' @ c @ ''-'' @ (x # d) @ ''-'' @ e \<and>
      exactly hex 8 a \<and> exactly hex 4 b \<and> exactly hex 3 c \<and>
      x \<in> set ''89ab'' \<and> exactly hex 3 d \<and> exactly hex 12 e)"

text \<open>\<open>handle::valid_operation_id\<close>: the class each index admits.\<close>

definition operation_id_char :: "nat \<Rightarrow> char \<Rightarrow> bool" where
  "operation_id_char i c =
     (if i \<in> {8, 13, 18, 23} then c = CHR ''-''
      else if i = 14 then c = CHR ''4''
      else if i = 19 then c \<in> set ''89ab''
      else hex c)"

definition valid_operation_id :: "string \<Rightarrow> bool" where
  "valid_operation_id s \<longleftrightarrow> length s = 36 \<and> list_all (\<lambda>(i, c). operation_id_char i c) (enumerate 0 s)"

text \<open>\<open>GENERATION_RE\<close>: the network's class holds no colon, so the first colon ends it.\<close>

definition network_re :: "string \<Rightarrow> bool" where
  "network_re = first_rest alnum (\<lambda>c. alnum c \<or> c \<in> set ''._/-'') 127"

definition generation_parts :: "string \<Rightarrow> (string \<times> string) option" where
  "generation_parts g =
     (let network = takeWhile (\<lambda>c. c \<noteq> CHR '':'') g;
          rest = drop (length network) g;
          run = take 32 (drop 9 rest);
          suffix = drop 41 rest
      in if network_re network \<and> take 9 rest = '':routine:'' \<and> routine_id_re run
            \<and> suffix \<in> {'''', '':s1'', '':v1''}
         then Some (network, run) else None)"

definition valid_revision :: "int \<Rightarrow> bool" where
  "valid_revision n = whole (int_value n) 1 (2 ^ 31 - 1)"

section \<open>Random identifiers\<close>

definition hex_byte :: "byte \<Rightarrow> string" where
  "hex_byte b = [hex_digit (unat b div 16), hex_digit (unat b mod 16)]"

definition token_hex :: "entropy \<Rightarrow> nat \<Rightarrow> (string \<times> entropy) option" where
  "token_hex ent n = map_option (\<lambda>(bs, rest). (concat (map hex_byte bs), rest)) (fill ent n)"

section \<open>Lemmas\<close>

lemma valid_operation_id_alt:
  "valid_operation_id s \<longleftrightarrow> length s = 36 \<and> (\<forall>i < 36. operation_id_char i (s ! i))"
  by (auto simp: valid_operation_id_def list_all_length nth_enumerate_eq)

lemma exactly_simps [simp]:
  "exactly p 0 s = (s = [])"
  "exactly p (Suc n) s = (\<exists>c cs. s = c # cs \<and> p c \<and> exactly p n cs)"
  by (auto simp: exactly_def length_Suc_conv)

lemma operation_id_re_iff [code]: "operation_id_re s = valid_operation_id s"
proof
  assume "operation_id_re s"
  then obtain a b c x d e where s: "s = a @ ''-'' @ b @ ''-4'' @ c @ ''-'' @ (x # d) @ ''-'' @ e"
    and parts: "exactly hex 8 a" "exactly hex 4 b" "exactly hex 3 c" "exactly hex 3 d" "exactly hex 12 e"
    and x: "x \<in> set ''89ab''"
    unfolding operation_id_re_def by blast
  then show "valid_operation_id s"
    unfolding valid_operation_id_def
    by (auto simp: numeral_eq_Suc operation_id_char_def)
next
  assume v: "valid_operation_id s"
  have c: "operation_id_char i (s ! i)" if "i < 36" for i
    using v that by (simp add: valid_operation_id_alt)
  have len: "length s = 36" using v by (simp add: valid_operation_id_alt)
  have part: "exactly hex m (take m (drop n s))" if "n + m \<le> 36" "{n..<n + m} \<inter> {8, 13, 14, 18, 19, 23} = {}" for n m
    unfolding exactly_def list_all_length
  proof (intro conjI allI impI)
    show "length (take m (drop n s)) = m" using len that by simp
    fix j assume "j < length (take m (drop n s))"
    then have j: "n + j < 36" "n + j \<in> {n..<n + m}" using len that by auto
    then have "n + j \<notin> {8, 13, 14, 18, 19, 23}" using that(2) by blast
    with c [OF j(1)] j len show "hex (take m (drop n s) ! j)" by (auto simp: operation_id_char_def)
  qed
  show "operation_id_re s"
    unfolding operation_id_re_def
  proof (intro exI conjI)
    show "exactly hex 8 (take 8 (drop 0 s))" by (rule part) auto
    show "exactly hex 4 (take 4 (drop 9 s))" by (rule part) auto
    show "exactly hex 3 (take 3 (drop 15 s))" by (rule part) auto
    show "exactly hex 12 (take 12 (drop 24 s))" by (rule part) auto
    show "exactly hex 3 (take 3 (drop 20 s))" by (rule part) auto
    show "s ! 19 \<in> set ''89ab''" using c [of 19] by (simp add: operation_id_char_def)
    have fixed: "s ! 8 = CHR ''-''" "s ! 13 = CHR ''-''" "s ! 14 = CHR ''4''" "s ! 18 = CHR ''-''" "s ! 23 = CHR ''-''"
      using c [of 8] c [of 13] c [of 14] c [of 18] c [of 23] by (simp_all add: operation_id_char_def)
    have step: "drop n s = s ! n # drop (Suc n) s" if "n < 36" for n
      using that len by (simp add: Cons_nth_drop_Suc)
    have tail: "take 12 (drop 24 s) = drop 24 s" using len by simp
    have "s = take 8 (drop 0 s) @ drop 8 s" by simp
    also have "drop 8 s = CHR ''-'' # take 4 (drop 9 s) @ drop 13 s"
      using step [of 8] fixed append_take_drop_id [of 4 "drop 9 s"] by simp
    also have "drop 13 s = CHR ''-'' # CHR ''4'' # take 3 (drop 15 s) @ drop 18 s"
      using step [of 13] step [of 14] fixed append_take_drop_id [of 3 "drop 15 s"] by simp
    also have "drop 18 s = CHR ''-'' # (s ! 19 # take 3 (drop 20 s)) @ drop 23 s"
      using step [of 18] step [of 19] fixed append_take_drop_id [of 3 "drop 20 s"] by simp
    also have "drop 23 s = CHR ''-'' # take 12 (drop 24 s)"
      using step [of 23] fixed tail by simp
    finally show "s = take 8 (drop 0 s) @ ''-'' @ take 4 (drop 9 s) @ ''-4'' @ take 3 (drop 15 s) @ ''-''
        @ (s ! 19 # take 3 (drop 20 s)) @ ''-'' @ take 12 (drop 24 s)" by simp
  qed
qed

end
