(* ===== verification/Json_Parser.thy ===== *)
theory Json_Parser
  imports Text_Patterns
begin

text \<open>
  The strict JSON parser every document of the Team is admitted by: \<^verbatim>\<open>vendor/strict-json/src/lib.rs\<close>, \<^verbatim>\<open>parser.rs\<close>,
  \<^verbatim>\<open>parser/string.rs\<close>, \<^verbatim>\<open>parser/number.rs\<close> and the errors of \<^verbatim>\<open>error.rs\<close>.

  The parser's state \<open>text, pos, depth\<close> is the unread suffix of the text (\<open>pos\<close> is the text's length less the
  suffix's, \<open>offset\<close>) and the levels still free (\<open>room = MAX_DEPTH - depth\<close>), on which \<open>parse_value\<close> recurs. The loops
  over items and members carry fuel, the length of the suffix they start at: every turn reads at least one byte, and with
  no byte left the code answers the same error as a loop without fuel (\<open>array_loop_fuel\<close>, \<open>object_loop_fuel\<close>).
  \<open>str::parse::<f64>\<close> is an argument, a function from a literal to the sign, the shortest digits and the exponent
  \<open>Strict_Json\<close> carries a finite float as, or nothing for an infinite one.
\<close>

section \<open>Errors and positions\<close>

datatype json_error =
    ByteOrderMark
  | InvalidUtf8 nat
  | Syntax nat
  | ControlCharacter nat
  | InvalidEscape nat
  | LoneSurrogate nat
  | DuplicateKey nat
  | NonFiniteNumber nat
  | IntegerTooLong nat
  | TooDeep nat
  | TrailingData nat

type_synonym 'a parsed = "json_error + 'a \<times> string"
type_synonym f64_reader = "string \<Rightarrow> (bool \<times> string \<times> int) option"

definition MAX_DEPTH :: nat where "MAX_DEPTH = 512"
definition MAX_INTEGER_DIGITS :: nat where "MAX_INTEGER_DIGITS = 4300"
definition BYTE_ORDER_MARK :: string where "BYTE_ORDER_MARK = [char_of (0xEF :: nat), char_of (0xBB :: nat), char_of (0xBF :: nat)]"

definition offset :: "nat \<Rightarrow> string \<Rightarrow> nat" where
  "offset n s = n - length s"

fun starts_with :: "char \<Rightarrow> string \<Rightarrow> bool" where
  "starts_with c [] = False"
| "starts_with c (x # xs) = (x = c)"

definition eat :: "char \<Rightarrow> string \<Rightarrow> string" where
  "eat c s = (if starts_with c s then tl s else s)"

definition json_space :: "char \<Rightarrow> bool" where
  "json_space c \<longleftrightarrow> of_char c \<in> {32 :: nat, 9, 10, 13}"

definition skip_whitespace :: "string \<Rightarrow> string" where
  "skip_whitespace s = dropWhile json_space s"

section \<open>Numbers\<close>

definition required_digits :: "nat \<Rightarrow> string \<Rightarrow> json_error + string" where
  "required_digits n s = (let rest = dropWhile digit s in
     if length rest = length s then Inl (Syntax (offset n s)) else Inr rest)"

definition decimal_digit :: "char \<Rightarrow> int" where
  "decimal_digit c = int (of_char c - 48)"

definition decimal_value :: "string \<Rightarrow> int" where
  "decimal_value ds = foldl (\<lambda>value c. value * 10 + decimal_digit c) 0 ds"

definition literal_value :: "string \<Rightarrow> int" where
  "literal_value literal = (if starts_with (CHR ''-'') literal then - decimal_value (tl literal) else decimal_value literal)"

definition integer :: "string \<Rightarrow> nat \<Rightarrow> json_error + number" where
  "integer literal pos =
     (if length (eat (CHR ''-'') literal) > MAX_INTEGER_DIGITS then Inl (IntegerTooLong pos)
      else if in_i64 (literal_value literal) then Inr (Int64 (literal_value literal))
      else Inr (BigInt literal))"

definition float :: "f64_reader \<Rightarrow> string \<Rightarrow> nat \<Rightarrow> json_error + number" where
  "float read literal pos = (case read literal of
      None \<Rightarrow> Inl (NonFiniteNumber pos) | Some (sign, digits, exponent) \<Rightarrow> Inr (Float64 sign digits exponent))"

definition exponent_sign :: "string \<Rightarrow> string" where
  "exponent_sign s = (if starts_with (CHR ''+'') s then tl s else eat (CHR ''-'') s)"

definition integral_part :: "nat \<Rightarrow> string \<Rightarrow> json_error + string" where
  "integral_part n s = (let s1 = eat (CHR ''-'') s in
     if starts_with (CHR ''0'') s1 then Inr (tl s1) else required_digits n s1)"

definition fraction_part :: "nat \<Rightarrow> string \<Rightarrow> json_error + string" where
  "fraction_part n s = (if starts_with (CHR ''.'') s then required_digits n (tl s) else Inr s)"

definition exponent_part :: "nat \<Rightarrow> string \<Rightarrow> json_error + string" where
  "exponent_part n s = (if starts_with (CHR ''e'') s \<or> starts_with (CHR ''E'') s
     then required_digits n (exponent_sign (tl s)) else Inr s)"

definition parse_number :: "f64_reader \<Rightarrow> nat \<Rightarrow> string \<Rightarrow> number parsed" where
  "parse_number read n s =
     rbind (integral_part n s) (\<lambda>integral.
     rbind (fraction_part n integral) (\<lambda>s1.
     rbind (exponent_part n s1) (\<lambda>rest.
       let literal = take (length s - length rest) s in
       rbind (if length rest = length integral then integer literal (offset n s) else float read literal (offset n s))
         (\<lambda>v. Inr (v, rest)))))"

section \<open>Strings\<close>

definition hex_value :: "char \<Rightarrow> nat option" where
  "hex_value c = (let x = of_char c in
     if digit c then Some (x - 48)
     else if between (CHR ''a'') (CHR ''f'') c then Some (x - 87)
     else if between (CHR ''A'') (CHR ''F'') c then Some (x - 55)
     else None)"

fun hex_fold :: "nat \<Rightarrow> string \<Rightarrow> nat option" where
  "hex_fold unit [] = Some unit"
| "hex_fold unit (c # cs) = (case hex_value c of None \<Rightarrow> None | Some d \<Rightarrow> hex_fold (unit * 16 + d) cs)"

definition hex4 :: "nat \<Rightarrow> string \<Rightarrow> nat parsed" where
  "hex4 pos s = (if length s < 4 then Inl (InvalidEscape pos)
     else case hex_fold 0 (take 4 s) of None \<Rightarrow> Inl (InvalidEscape pos) | Some unit \<Rightarrow> Inr (unit, drop 4 s))"

definition low_surrogate :: "nat \<Rightarrow> nat \<Rightarrow> string \<Rightarrow> nat parsed" where
  "low_surrogate n pos s =
     (if take 2 s = [CHR 0x5C, CHR ''u''] then
        rbind (hex4 (offset n s) (drop 2 s)) (\<lambda>(unit, rest).
          if 0xDC00 \<le> unit \<and> unit < 0xE000 then Inr (unit, rest) else Inl (LoneSurrogate pos))
      else Inl (LoneSurrogate pos))"

definition scalar_value :: "nat \<Rightarrow> bool" where
  "scalar_value code \<longleftrightarrow> code < 0xD800 \<or> (0xE000 \<le> code \<and> code < 0x110000)"

definition utf8_encode :: "nat \<Rightarrow> string" where
  "utf8_encode code =
     (if code < 0x80 then [char_of code]
      else if code < 0x800 then [char_of (0xC0 + code div 64), char_of (0x80 + code mod 64)]
      else if code < 0x10000 then
        [char_of (0xE0 + code div 4096), char_of (0x80 + code div 64 mod 64), char_of (0x80 + code mod 64)]
      else [char_of (0xF0 + code div 262144), char_of (0x80 + code div 4096 mod 64),
            char_of (0x80 + code div 64 mod 64), char_of (0x80 + code mod 64)])"

text \<open>\<open>unicode\<close> of the escape at \<open>pos\<close>, with the text after its \<open>u\<close>; the character is pushed as its UTF-8 bytes.\<close>

definition unicode :: "nat \<Rightarrow> nat \<Rightarrow> string \<Rightarrow> string parsed" where
  "unicode n pos s =
     rbind (hex4 pos s) (\<lambda>(unit, rest).
     rbind (if 0xD800 \<le> unit \<and> unit < 0xDC00 then
              rbind (low_surrogate n pos rest) (\<lambda>(low, rest').
                Inr (0x10000 + (unit - 0xD800) * 1024 + (low - 0xDC00), rest'))
            else Inr (unit, rest)) (\<lambda>(code, rest').
       if scalar_value code then Inr (utf8_encode code, rest') else Inl (LoneSurrogate pos)))"

definition escape :: "nat \<Rightarrow> string \<Rightarrow> string parsed" where
  "escape n s = (case tl s of
      [] \<Rightarrow> Inl (InvalidEscape (offset n s))
    | x # rest \<Rightarrow>
        if x = CHR 0x22 then Inr ([CHR 0x22], rest)
        else if x = CHR 0x5C then Inr ([CHR 0x5C], rest)
        else if x = CHR ''/'' then Inr ([CHR ''/''], rest)
        else if x = CHR ''b'' then Inr ([char_of (8 :: nat)], rest)
        else if x = CHR ''f'' then Inr ([char_of (12 :: nat)], rest)
        else if x = CHR ''n'' then Inr ([char_of (10 :: nat)], rest)
        else if x = CHR ''r'' then Inr ([char_of (13 :: nat)], rest)
        else if x = CHR ''t'' then Inr ([char_of (9 :: nat)], rest)
        else if x = CHR ''u'' then unicode n (offset n s) rest
        else Inl (InvalidEscape (offset n s)))"

lemma hex4_shorter: "hex4 a s = Inr (u, rest) \<Longrightarrow> length rest < length s"
  by (auto simp: hex4_def split: if_splits option.splits)

lemma low_surrogate_shorter: "low_surrogate n a s = Inr (u, rest) \<Longrightarrow> length rest < length s"
  by (auto simp: low_surrogate_def rbind_eq_Inr dest!: hex4_shorter split: if_splits)

lemma unicode_shorter: "unicode n a s = Inr (u, rest) \<Longrightarrow> length rest < length s"
  by (auto simp: unicode_def rbind_eq_Inr dest!: hex4_shorter low_surrogate_shorter split: if_splits)

lemma escape_shorter: "s \<noteq> [] \<Longrightarrow> escape n s = Inr (c, rest) \<Longrightarrow> length rest < length s"
  by (auto simp: escape_def dest: unicode_shorter split: list.splits if_splits) (cases s; auto dest: unicode_shorter)+

text \<open>The loop of \<open>string\<close> after the opening quote: a raw run is pushed byte by byte.\<close>

function string_body :: "nat \<Rightarrow> string \<Rightarrow> string parsed" where
  "string_body n [] = Inl (Syntax n)"
| "string_body n (c # cs) =
     (if c = CHR 0x22 then Inr ([], cs)
      else if c = CHR 0x5C then
        (case escape n (c # cs) of
           Inl e \<Rightarrow> Inl e
         | Inr (decoded, rest) \<Rightarrow> rbind (string_body n rest) (\<lambda>(more, rest'). Inr (decoded @ more, rest')))
      else if of_char c < (32 :: nat) then Inl (ControlCharacter (offset n (c # cs)))
      else rbind (string_body n cs) (\<lambda>(more, rest). Inr (c # more, rest)))"
  by pat_completeness auto
termination
  by (relation "measure (length \<circ> snd)") (auto dest: escape_shorter [rotated])

definition parse_string :: "nat \<Rightarrow> string \<Rightarrow> string parsed" where
  "parse_string n s = string_body n (tl s)"

section \<open>Values\<close>

definition parse_literal :: "nat \<Rightarrow> string \<Rightarrow> json \<Rightarrow> string \<Rightarrow> json parsed" where
  "parse_literal n word v s =
     (if take (length word) s = word then Inr (v, drop (length word) s) else Inl (Syntax (offset n s)))"

text \<open>\<open>True\<close> when the container closed, \<open>False\<close> after a comma.\<close>

definition separator :: "nat \<Rightarrow> char \<Rightarrow> string \<Rightarrow> bool parsed" where
  "separator n close s = (let s1 = skip_whitespace s in
     if starts_with close s1 then Inr (True, tl s1)
     else if starts_with (CHR '','') s1 then Inr (False, skip_whitespace (tl s1))
     else Inl (Syntax (offset n s1)))"

fun array_loop :: "(string \<Rightarrow> json parsed) \<Rightarrow> nat \<Rightarrow> nat \<Rightarrow> string \<Rightarrow> json list parsed" where
  "array_loop value n 0 s = Inl (Syntax (offset n s))"
| "array_loop value n (Suc fuel) s =
     rbind (value s) (\<lambda>(v, s1).
     rbind (separator n (CHR '']'') s1) (\<lambda>(closed, s2).
       if closed then Inr ([v], s2)
       else rbind (array_loop value n fuel s2) (\<lambda>(vs, s3). Inr (v # vs, s3))))"

definition parse_array :: "(string \<Rightarrow> json parsed) \<Rightarrow> nat \<Rightarrow> string \<Rightarrow> json parsed" where
  "parse_array value n s = (let s1 = skip_whitespace (tl s) in
     if starts_with (CHR '']'') s1 then Inr (Array [], tl s1)
     else rbind (array_loop value n (length s1) s1) (\<lambda>(vs, rest). Inr (Array vs, rest)))"

definition parse_member :: "(string \<Rightarrow> json parsed) \<Rightarrow> nat \<Rightarrow> string \<Rightarrow> (string \<times> json) parsed" where
  "parse_member value n s =
     (if starts_with (CHR 0x22) s then
        rbind (parse_string n s) (\<lambda>(key, s1). let s2 = skip_whitespace s1 in
          if starts_with (CHR '':'') s2 then
            rbind (value (skip_whitespace (tl s2))) (\<lambda>(v, s3). Inr ((key, v), s3))
          else Inl (Syntax (offset n s2)))
      else Inl (Syntax (offset n s)))"

fun object_loop :: "(string \<Rightarrow> json parsed) \<Rightarrow> nat \<Rightarrow> nat \<Rightarrow> string \<Rightarrow> (string \<times> json) list parsed" where
  "object_loop value n 0 s = Inl (Syntax (offset n s))"
| "object_loop value n (Suc fuel) s =
     rbind (parse_member value n s) (\<lambda>(m, s1).
     rbind (separator n (CHR ''}'') s1) (\<lambda>(closed, s2).
       if closed then Inr ([m], s2)
       else rbind (object_loop value n fuel s2) (\<lambda>(ms, s3). Inr (m # ms, s3))))"

definition unique :: "(string \<times> json) list \<Rightarrow> nat \<Rightarrow> json_error + json" where
  "unique ms pos = (let keys = sort (map fst ms) in
     if list_ex (\<lambda>(a, b). a = b) (zip keys (tl keys)) then Inl (DuplicateKey pos) else Inr (Object ms))"

definition parse_object :: "(string \<Rightarrow> json parsed) \<Rightarrow> nat \<Rightarrow> string \<Rightarrow> json parsed" where
  "parse_object value n s = (let s1 = skip_whitespace (tl s) in
     if starts_with (CHR ''}'') s1 then Inr (Object [], tl s1)
     else rbind (object_loop value n (length s1) s1) (\<lambda>(ms, rest).
          rbind (unique ms (offset n s)) (\<lambda>v. Inr (v, rest))))"

definition dispatch ::
    "f64_reader \<Rightarrow> nat \<Rightarrow> (string \<Rightarrow> json parsed) \<Rightarrow> (string \<Rightarrow> json parsed) \<Rightarrow> string \<Rightarrow> json parsed" where
  "dispatch read n obj arr s = (case s of
      [] \<Rightarrow> Inl (Syntax (offset n s))
    | c # _ \<Rightarrow>
        if c = CHR ''{'' then obj s
        else if c = CHR ''['' then arr s
        else if c = CHR 0x22 then rbind (parse_string n s) (\<lambda>(t, rest). Inr (Str t, rest))
        else if c = CHR ''t'' then parse_literal n ''true'' (Bool True) s
        else if c = CHR ''f'' then parse_literal n ''false'' (Bool False) s
        else if c = CHR ''n'' then parse_literal n ''null'' Null s
        else if c = CHR ''-'' \<or> digit c then rbind (parse_number read n s) (\<lambda>(v, rest). Inr (Number v, rest))
        else Inl (Syntax (offset n s)))"

fun parse_value :: "f64_reader \<Rightarrow> nat \<Rightarrow> nat \<Rightarrow> string \<Rightarrow> json parsed" where
  "parse_value read n 0 s =
     dispatch read n (\<lambda>s. Inl (TooDeep (offset n s))) (\<lambda>s. Inl (TooDeep (offset n s))) s"
| "parse_value read n (Suc room) s =
     dispatch read n (parse_object (parse_value read n room) n) (parse_array (parse_value read n room) n) s"

definition document_value :: "f64_reader \<Rightarrow> string \<Rightarrow> json_error + json" where
  "document_value read text =
     rbind (parse_value read (length text) MAX_DEPTH (skip_whitespace text)) (\<lambda>(v, rest).
       let s = skip_whitespace rest in
       if s = [] then Inr v else Inl (TrailingData (offset (length text) s)))"

section \<open>UTF-8\<close>

definition continuation :: "nat \<Rightarrow> nat \<Rightarrow> char \<Rightarrow> bool" where
  "continuation lo hi c \<longleftrightarrow> lo \<le> of_char c \<and> of_char c \<le> hi"

text \<open>The bytes of the first well-formed sequence, by the table of well-formed UTF-8 byte sequences; 0 when there is none.\<close>

definition sequence_tail :: "nat \<Rightarrow> (nat \<times> nat) list" where
  "sequence_tail b =
     (if 0xC2 \<le> b \<and> b \<le> 0xDF then [(0x80, 0xBF)]
      else if b = 0xE0 then [(0xA0, 0xBF), (0x80, 0xBF)]
      else if b = 0xED then [(0x80, 0x9F), (0x80, 0xBF)]
      else if 0xE1 \<le> b \<and> b \<le> 0xEF then [(0x80, 0xBF), (0x80, 0xBF)]
      else if b = 0xF0 then [(0x90, 0xBF), (0x80, 0xBF), (0x80, 0xBF)]
      else if 0xF1 \<le> b \<and> b \<le> 0xF3 then [(0x80, 0xBF), (0x80, 0xBF), (0x80, 0xBF)]
      else if b = 0xF4 then [(0x80, 0x8F), (0x80, 0xBF), (0x80, 0xBF)]
      else [])"

fun matches_tail :: "(nat \<times> nat) list \<Rightarrow> string \<Rightarrow> bool" where
  "matches_tail [] s = True"
| "matches_tail ((lo, hi) # ps) [] = False"
| "matches_tail ((lo, hi) # ps) (c # cs) = (continuation lo hi c \<and> matches_tail ps cs)"

fun utf8_step :: "string \<Rightarrow> nat" where
  "utf8_step [] = 0"
| "utf8_step (c # cs) =
     (if of_char c < (0x80 :: nat) then 1
      else let tail = sequence_tail (of_char c) in
        if tail = [] \<or> \<not> matches_tail tail cs then 0 else Suc (length tail))"

function valid_up_to :: "string \<Rightarrow> nat" where
  "valid_up_to s = (if s = [] \<or> utf8_step s = 0 then 0 else utf8_step s + valid_up_to (drop (utf8_step s) s))"
  by pat_completeness auto
termination
  by (relation "measure length") auto

declare valid_up_to.simps [simp del]

definition parse :: "f64_reader \<Rightarrow> string \<Rightarrow> json_error + json" where
  "parse read input =
     (if take 3 input = BYTE_ORDER_MARK then Inl ByteOrderMark
      else if valid_up_to input < length input then Inl (InvalidUtf8 (valid_up_to input))
      else document_value read input)"

end
