(* ===== verification/Action_Journal.thy ===== *)
theory Action_Journal
  imports Json_Parser
begin

text \<open>
  The crash-safe idempotency journal of Assistant Actions: \<^verbatim>\<open>action/src/journal/mod.rs\<close>,
  \<^verbatim>\<open>handle.rs\<close> and \<^verbatim>\<open>lifecycle.rs\<close>.

  The SQLite database is the record \<open>db\<close>: the rows of the tables \<open>batches\<close> and \<open>operations\<close>. The
  statements the code executes are functions on it that answer \<open>None\<close> where SQLite reports a violated
  constraint: primary and unique keys, the foreign key with its cascade, and the CHECK clauses of the
  schema, whose closed text columns are datatypes here. \<open>writing\<close> is the serialized transaction: the
  argument \<open>io\<close> says whether the storage answers, so every operation is also modelled where it fails; that a
  rolled back transaction leaves the earlier database is SQLite's and taken as such.

  Parameters for code outside the model: \<open>sha\<close> is the SHA-256 hexadecimal digest (crate \<open>sha2\<close>) and
  \<open>read\<close> reads the literal of a float, as the strict parser that \<open>decode\<close> calls takes it; the answers of the random source are arguments.
\<close>

unbundle bit_operations_syntax

section \<open>Errors, handles and rows\<close>

datatype journal_error =
    Failure string | Conflict string | Uncertain | Corrupt string | Archived_generation

datatype batch_state = Open | Ended | Archived
datatype operation_state = Prepared | Executing | Completed | No_effect
datatype origin = Execution_origin

record operation =
  op_interrupt :: string
  op_fingerprint :: string
  op_id :: "string option"

record batch =
  bt_generation :: string
  bt_fingerprint :: string
  bt_operations :: "operation list"

record execution =
  ex_execute :: bool
  ex_result :: "json option"
  ex_operation_id :: string

record limits =
  max_generations :: nat
  max_operations :: nat
  max_result_bytes :: nat
  max_archived :: nat

record batch_row =
  b_generation :: string
  b_fingerprint :: string
  b_count :: int
  b_state :: batch_state
  b_archivable :: bool

record op_row =
  o_generation :: string
  o_ordinal :: int
  o_interrupt :: string
  o_fingerprint :: string
  o_operation_id :: string
  o_attempts :: int
  o_state :: operation_state
  o_origin :: "origin option"
  o_result :: "string option"

record operation_record =
  r_interrupt :: string
  r_operation_id :: string
  r_state :: operation_state
  r_attempts :: int
  r_origin :: "origin option"

record db =
  batches :: "batch_row list"
  operations :: "op_row list"

record journal =
  j_limits :: limits
  j_connection :: "db option"

definition default_limits :: limits where
  "default_limits = \<lparr>max_generations = 1024, max_operations = 64,
     max_result_bytes = MAX_RESULT_BYTES, max_archived = 4096\<rparr>"

section \<open>The schema's constraints and the statements\<close>

definition check_batch :: "batch_row \<Rightarrow> bool" where
  "check_batch b \<longleftrightarrow> b_count b > 0 \<and> (b_state b \<noteq> Archived \<or> b_archivable b)"

definition check_operation :: "op_row \<Rightarrow> bool" where
  "check_operation r \<longleftrightarrow> o_ordinal r \<ge> 0 \<and> o_attempts r \<ge> 0 \<and>
     ((o_state r \<in> {Prepared, Executing} \<and> o_origin r = None \<and> o_result r = None) \<or>
      (o_state r = Completed \<and> o_origin r \<noteq> None \<and> o_result r \<noteq> None) \<or>
      (o_state r = No_effect \<and> o_origin r \<noteq> None \<and> o_result r = None))"

definition find_batch :: "db \<Rightarrow> string \<Rightarrow> batch_row option" where
  "find_batch d g = find_by b_generation g (batches d)"

definition rows_of :: "db \<Rightarrow> string \<Rightarrow> op_row list" where
  \<comment> \<open>\<open>SELECT ... FROM operations WHERE generation = ? ORDER BY ordinal\<close>\<close>
  "rows_of d g = sort_key o_ordinal (filter (\<lambda>r. o_generation r = g) (operations d))"

definition insert_batch :: "batch_row \<Rightarrow> db \<Rightarrow> db option" where
  "insert_batch b d =
     (if b_generation b \<in> b_generation ` set (batches d) \<or> \<not> check_batch b then None
      else Some (d\<lparr>batches := batches d @ [b]\<rparr>))"

definition insert_operation :: "op_row \<Rightarrow> db \<Rightarrow> db option" where
  "insert_operation r d =
     (if (\<exists>q \<in> set (operations d). o_generation q = o_generation r \<and>
            (o_interrupt q = o_interrupt r \<or> o_ordinal q = o_ordinal r \<or> o_operation_id q = o_operation_id r))
         \<or> o_generation r \<notin> b_generation ` set (batches d) \<or> \<not> check_operation r then None
      else Some (d\<lparr>operations := operations d @ [r]\<rparr>))"

definition update_operations ::
    "(op_row \<Rightarrow> bool) \<Rightarrow> (op_row \<Rightarrow> op_row) \<Rightarrow> db \<Rightarrow> (nat \<times> db) option" where
  "update_operations p f d =
     (if list_all (\<lambda>r. p r \<longrightarrow> check_operation (f r)) (operations d)
      then Some (length (filter p (operations d)),
                 d\<lparr>operations := map (\<lambda>r. if p r then f r else r) (operations d)\<rparr>)
      else None)"

definition update_batches ::
    "(batch_row \<Rightarrow> bool) \<Rightarrow> (batch_row \<Rightarrow> batch_row) \<Rightarrow> db \<Rightarrow> (nat \<times> db) option" where
  "update_batches p f d =
     (if list_all (\<lambda>b. p b \<longrightarrow> check_batch (f b)) (batches d)
      then Some (length (filter p (batches d)),
                 d\<lparr>batches := map (\<lambda>b. if p b then f b else b) (batches d)\<rparr>)
      else None)"

definition delete_batches :: "(batch_row \<Rightarrow> bool) \<Rightarrow> db \<Rightarrow> nat \<times> db" where
  \<comment> \<open>with \<open>ON DELETE CASCADE\<close> on the operations of the deleted generations\<close>
  "delete_batches p d =
     (let gone = map b_generation (filter p (batches d)) in
      (length gone,
       d\<lparr>batches := filter (\<lambda>b. \<not> p b) (batches d),
         operations := filter (\<lambda>r. o_generation r \<notin> set gone) (operations d)\<rparr>))"

definition delete_operations :: "(op_row \<Rightarrow> bool) \<Rightarrow> db \<Rightarrow> db" where
  "delete_operations p d = d\<lparr>operations := filter (\<lambda>r. \<not> p r) (operations d)\<rparr>"

definition require_changed :: "nat \<Rightarrow> string \<Rightarrow> journal_error + unit" where
  "require_changed changed message = (if changed = 1 then Inr () else Inl (Conflict message))"

section \<open>Handles\<close>

definition batch_require :: "batch \<Rightarrow> operation \<Rightarrow> journal_error + unit" where
  "batch_require b x = (if x \<in> set (bt_operations b) then Inr ()
     else Inl (Conflict ''operation does not belong to this Action batch''))"

definition new_operation_id :: "entropy \<Rightarrow> (string \<times> entropy) option" where
  "new_operation_id ent = (case fill ent 16 of
      None \<Rightarrow> None
    | Some (bs, rest) \<Rightarrow>
        let bs1 = bs[6 := (bs ! 6 AND 0x0F) OR 0x40];
            bs2 = bs1[8 := (bs1 ! 8 AND 0x3F) OR 0x80];
            h = concat (map hex_byte bs2)
        in Some (take 8 h @ ''-'' @ take 4 (drop 8 h) @ ''-'' @ take 4 (drop 12 h) @ ''-''
                 @ take 4 (drop 16 h) @ ''-'' @ drop 20 h, rest))"

definition safe_id :: "string \<Rightarrow> journal_error + string" where
  "safe_id s = (if safe_id_re s then Inr s else Inl (Conflict ''an Action journal identifier is invalid''))"

definition handle_operation :: "operation \<Rightarrow> journal_error + unit" where
  "handle_operation x =
     rbind (safe_id (op_interrupt x)) (\<lambda>_.
       if \<not> sha256_re (op_fingerprint x) then Inl (Conflict ''operation fingerprint is invalid'')
       else if (case op_id x of None \<Rightarrow> False | Some i \<Rightarrow> \<not> valid_operation_id i)
         then Inl (Conflict ''operation id is invalid'')
       else Inr ())"

fun try_for_each :: "('a \<Rightarrow> 'e + unit) \<Rightarrow> 'a list \<Rightarrow> 'e + unit" where
  "try_for_each f [] = Inr ()"
| "try_for_each f (x # xs) = rbind (f x) (\<lambda>_. try_for_each f xs)"

definition repeated :: "'a list \<Rightarrow> bool" where
  "repeated ids = list_ex (\<lambda>i. ids ! i \<in> set (take i ids)) [0..<length ids]"

definition identity :: "(string \<Rightarrow> string) \<Rightarrow> string \<Rightarrow> string \<Rightarrow> operation list \<Rightarrow> json" where
  "identity sha generation thread xs = Object [
     (''generation'', Str generation),
     (''operations'', Array (map (\<lambda>x. Array ([Str (op_interrupt x), Str (op_fingerprint x)]
         @ (case op_id x of None \<Rightarrow> [] | Some i \<Rightarrow> [Str i]))) xs)),
     (''thread'', Str (sha thread))]"

definition build ::
    "(string \<Rightarrow> string) \<Rightarrow> string \<Rightarrow> string \<Rightarrow> operation list \<Rightarrow> nat \<Rightarrow> journal_error + batch" where
  "build sha generation thread xs maximum =
     rbind (safe_id generation) (\<lambda>generation.
     rbind (safe_id thread) (\<lambda>thread.
     rbind (try_for_each handle_operation xs) (\<lambda>_.
       if xs = [] \<or> length xs > maximum then Inl (Conflict ''Action batch exceeds the operation count limit'')
       else if repeated (map op_interrupt xs) then Inl (Conflict ''Action batch repeats an interrupt id'')
       else if repeated (List.map_filter op_id xs) then Inl (Conflict ''Action batch repeats an operation id'')
       else Inr \<lparr>bt_generation = generation,
                 bt_fingerprint = sha (canonical (identity sha generation thread xs)),
                 bt_operations = xs\<rparr>)))"

definition row_matches :: "nat \<Rightarrow> op_row \<Rightarrow> operation \<Rightarrow> bool" where
  "row_matches index r x \<longleftrightarrow>
     o_ordinal r = int index \<and> o_interrupt r = op_interrupt x \<and> o_fingerprint r = op_fingerprint x \<and>
     valid_operation_id (o_operation_id r) \<and>
     (case op_id x of None \<Rightarrow> True | Some i \<Rightarrow> i = o_operation_id r)"

definition load :: "batch \<Rightarrow> db \<Rightarrow> journal_error + op_row list" where
  "load b d = (case find_batch d (bt_generation b) of
      None \<Rightarrow> Inl (Conflict ''Action batch is no longer current'')
    | Some h \<Rightarrow>
        if b_fingerprint h = bt_fingerprint b \<and> b_state h \<noteq> Open
        then Inl (Conflict ''Action batch has ended'')
        else let rows = rows_of d (bt_generation b) in
          if b_fingerprint h = bt_fingerprint b
             \<and> b_count h = int (length (bt_operations b))
             \<and> length rows = length (bt_operations b)
             \<and> list_all (\<lambda>(i, r, x). row_matches i r x) (enumerate 0 (zip rows (bt_operations b)))
          then Inr rows
          else Inl (Conflict ''Action batch changed or is corrupt''))"

section \<open>Transactions\<close>

type_synonym 'a work = "db \<Rightarrow> journal_error + 'a \<times> db"

datatype io = Io_ok | Begin_fails | Statement_fails journal_error | Commit_fails

definition writing :: "io \<Rightarrow> string \<Rightarrow> 'a work \<Rightarrow> journal \<Rightarrow> (journal_error + 'a) \<times> journal" where
  \<comment> \<open>the source ignores what ROLLBACK answers: SQLite refuses it only where no transaction is active, so where it has
     rolled back by itself, and the database is the earlier one either way\<close>
  "writing io failure work j = (case j_connection j of
      None \<Rightarrow> (Inl (Failure ''Action journal is closed''), j)
    | Some d \<Rightarrow>
        if io = Begin_fails then (Inl (Failure ''Action journal transaction could not start''), j)
        else (case (case io of Statement_fails e \<Rightarrow> Inl e | _ \<Rightarrow> work d) of
            Inl e \<Rightarrow> (Inl (case e of Failure _ \<Rightarrow> Failure failure | _ \<Rightarrow> e), j)
          | Inr (answer, d') \<Rightarrow>
              if io = Commit_fails then (Inl (Failure ''Action journal transaction could not commit''), j)
              else (Inr answer, j\<lparr>j_connection := Some d'\<rparr>)))"

definition close :: "journal \<Rightarrow> journal" where
  "close j = j\<lparr>j_connection := None\<rparr>"

definition open_journal :: "limits \<Rightarrow> db \<Rightarrow> journal_error + journal" where
  \<comment> \<open>over a database whose file custody, durability mode and schema were proven (\<open>configure\<close>, \<open>validate_schema\<close>)\<close>
  "open_journal lim d =
     (if 0 \<in> {max_generations lim, max_operations lim, max_result_bytes lim, max_archived lim}
      then Inl (Conflict ''Action journal limits must be positive'')
      else Inr \<lparr>j_limits = lim, j_connection = Some d\<rparr>)"

definition empty_db :: db where
  "empty_db = \<lparr>batches = [], operations = []\<rparr>"

section \<open>Preparing a batch\<close>

definition reserve :: "limits \<Rightarrow> bool \<Rightarrow> db \<Rightarrow> journal_error + unit" where
  "reserve lim archivable d =
     (if length (filter (\<lambda>b. b_state b \<noteq> Archived) (batches d)) \<ge> max_generations lim
      then Inl (Conflict ''Action journal generation capacity is exhausted'')
      else if archivable \<and> length (filter b_archivable (batches d)) \<ge> max_archived lim
      then Inl (Conflict ''Action journal archive capacity is exhausted'')
      else Inr ())"

definition new_row :: "string \<Rightarrow> nat \<Rightarrow> operation \<Rightarrow> string \<Rightarrow> op_row" where
  "new_row generation ordinal x i =
     \<lparr>o_generation = generation, o_ordinal = int ordinal, o_interrupt = op_interrupt x,
      o_fingerprint = op_fingerprint x, o_operation_id = i, o_attempts = 0,
      o_state = Prepared, o_origin = None, o_result = None\<rparr>"

fun insert_operations ::
    "string \<Rightarrow> nat \<Rightarrow> operation list \<Rightarrow> entropy \<Rightarrow> db \<Rightarrow> journal_error + db" where
  "insert_operations generation ordinal [] ent d = Inr d"
| "insert_operations generation ordinal (x # xs) ent d =
     (case (case op_id x of Some i \<Rightarrow> Some (i, ent) | None \<Rightarrow> new_operation_id ent) of
        None \<Rightarrow> Inl (Failure ''Action batch could not be prepared'')
      | Some (i, ent') \<Rightarrow>
          rbind (ok_or (insert_operation (new_row generation ordinal x i) d)
                       (Failure ''Action batch could not be prepared''))
                (\<lambda>d'. insert_operations generation (Suc ordinal) xs ent' d'))"

definition insert_prepared :: "batch \<Rightarrow> bool \<Rightarrow> entropy \<Rightarrow> unit work" where
  "insert_prepared b archivable ent d =
     rbind (ok_or (insert_batch \<lparr>b_generation = bt_generation b, b_fingerprint = bt_fingerprint b,
                     b_count = int (length (bt_operations b)), b_state = Open, b_archivable = archivable\<rparr> d)
                  (Failure ''Action batch could not be prepared''))
       (\<lambda>d1. rbind (insert_operations (bt_generation b) 0 (bt_operations b) ent d1) (\<lambda>d2. Inr ((), d2)))"

definition reopen :: "batch \<Rightarrow> batch_state \<Rightarrow> unit work" where
  "reopen b st d =
     rbind (if st = Ended
            then rbind (ok_or (update_batches (\<lambda>h. b_generation h = bt_generation b
                          \<and> b_fingerprint h = bt_fingerprint b \<and> b_state h = Ended)
                        (\<lambda>h. h\<lparr>b_state := Open\<rparr>) d) (Failure ''Action batch could not be prepared''))
                   (\<lambda>(changed, d'). rbind (require_changed changed ''ended Action batch changed before replay'')
                     (\<lambda>_. Inr d'))
            else Inr d)
       (\<lambda>d'. rbind (load b d') (\<lambda>_. Inr ((), d')))"

definition retire_ended :: "batch \<Rightarrow> unit work" where
  "retire_ended b d =
     (let ended = map o_interrupt (filter (\<lambda>r. o_generation r = bt_generation b) (operations d)) in
      if list_ex (\<lambda>x. op_interrupt x \<in> set ended) (bt_operations b)
      then Inl (Conflict ''Action batch repeats an ended Action interrupt'')
      else let (changed, d') = delete_batches (\<lambda>h. b_generation h = bt_generation b \<and> b_state h = Ended) d in
        rbind (require_changed changed ''ended Action batch changed before replacement'') (\<lambda>_. Inr ((), d')))"

definition prepare_work :: "limits \<Rightarrow> batch \<Rightarrow> bool \<Rightarrow> entropy \<Rightarrow> unit work" where
  "prepare_work lim b archivable ent d = (case find_batch d (bt_generation b) of
      None \<Rightarrow> rbind (reserve lim archivable d) (\<lambda>_. insert_prepared b archivable ent d)
    | Some h \<Rightarrow>
        if b_state h = Archived then Inl Archived_generation
        else if b_fingerprint h = bt_fingerprint b then
          (if b_archivable h \<noteq> archivable then Inl (Conflict ''Action batch changed its archive reservation'')
           else reopen b (b_state h) d)
        else if b_state h = Open
          then Inl (Conflict ''another Action batch is pending for this generation'')
        else rbind (retire_ended b d) (\<lambda>(_, d').
               rbind (reserve lim archivable d') (\<lambda>_. insert_prepared b archivable ent d')))"

definition prepare_batch ::
    "(string \<Rightarrow> string) \<Rightarrow> io \<Rightarrow> entropy \<Rightarrow> string \<Rightarrow> string \<Rightarrow> operation list \<Rightarrow> bool \<Rightarrow> journal
       \<Rightarrow> (journal_error + batch) \<times> journal" where
  "prepare_batch sha io ent generation thread xs archivable j =
     (case build sha generation thread xs (max_operations (j_limits j)) of
        Inl e \<Rightarrow> (Inl e, j)
      | Inr b \<Rightarrow>
          (case writing io ''Action batch could not be prepared'' (prepare_work (j_limits j) b archivable ent) j of
             (Inl e, j') \<Rightarrow> (Inl e, j')
           | (Inr _, j') \<Rightarrow> (Inr b, j')))"

section \<open>One operation\<close>

definition find_operation :: "batch \<Rightarrow> operation \<Rightarrow> db \<Rightarrow> journal_error + op_row" where
  "find_operation b x d = rbind (load b d) (\<lambda>rows.
     ok_or (find_by o_interrupt (op_interrupt x) rows)
       (Conflict ''Action operation changed, ended, or is corrupt''))"

definition decode :: "f64_reader \<Rightarrow> limits \<Rightarrow> string option \<Rightarrow> journal_error + json" where
  "decode read lim raw =
     (let corrupt = Corrupt ''cached Action result is invalid'' in
      case raw of None \<Rightarrow> Inl corrupt
      | Some bytes \<Rightarrow>
          if length bytes > max_result_bytes lim then Inl corrupt
          else (case parse read bytes of Inl _ \<Rightarrow> Inl corrupt
            | Inr v \<Rightarrow> (case canonical_result v (max_result_bytes lim) of
                  Inl _ \<Rightarrow> Inl corrupt
                | Inr again \<Rightarrow> if again \<noteq> bytes then Inl corrupt else Inr v)))"

definition selects :: "batch \<Rightarrow> operation \<Rightarrow> operation_state \<Rightarrow> op_row \<Rightarrow> bool" where
  \<comment> \<open>\<open>WHERE generation = ? AND interrupt_id = ? AND state = ?\<close>\<close>
  "selects b x st r \<longleftrightarrow> o_generation r = bt_generation b \<and> o_interrupt r = op_interrupt x \<and> o_state r = st"

definition update_one ::
    "(op_row \<Rightarrow> bool) \<Rightarrow> (op_row \<Rightarrow> op_row) \<Rightarrow> string \<Rightarrow> string \<Rightarrow> unit work" where
  "update_one p f failure message d =
     rbind (ok_or (update_operations p f d) (Failure failure))
       (\<lambda>(changed, d'). rbind (require_changed changed message) (\<lambda>_. Inr ((), d')))"

definition begin_work :: "f64_reader \<Rightarrow> limits \<Rightarrow> batch \<Rightarrow> operation \<Rightarrow> execution work" where
  "begin_work read lim b x d = rbind (find_operation b x d) (\<lambda>r.
     case o_state r of
       Executing \<Rightarrow> Inl Uncertain
     | No_effect \<Rightarrow> Inl (Conflict ''Action operation already ended without effect'')
     | Completed \<Rightarrow> rbind (decode read lim (o_result r)) (\<lambda>v.
         Inr (\<lparr>ex_execute = False, ex_result = Some v, ex_operation_id = o_operation_id r\<rparr>, d))
     | Prepared \<Rightarrow>
         if o_result r \<noteq> None then Inl (Corrupt ''Action operation has an invalid durable state'')
         else rbind (update_one (selects b x Prepared)
                       (\<lambda>r. r\<lparr>o_state := Executing, o_attempts := o_attempts r + 1\<rparr>)
                       ''Action execution could not begin'' ''Action operation changed before execution'' d)
                (\<lambda>(_, d'). Inr (\<lparr>ex_execute = True, ex_result = None, ex_operation_id = o_operation_id r\<rparr>, d')))"

definition begin_operation ::
    "f64_reader \<Rightarrow> io \<Rightarrow> batch \<Rightarrow> operation \<Rightarrow> journal \<Rightarrow> (journal_error + execution) \<times> journal" where
  "begin_operation read io b x j = (case batch_require b x of
      Inl e \<Rightarrow> (Inl e, j)
    | Inr _ \<Rightarrow> writing io ''Action execution could not begin'' (begin_work read (j_limits j) b x) j)"

definition settle_work :: "batch \<Rightarrow> operation \<Rightarrow> operation_state \<Rightarrow> string option \<Rightarrow> unit work" where
  "settle_work b x st encoded d = rbind (find_operation b x d) (\<lambda>r.
     if o_state r = st \<and> o_origin r = Some Execution_origin then
       (if o_result r = encoded then Inr ((), d)
        else Inl (Conflict ''Action result changed after completion''))
     else if o_state r \<noteq> Executing \<or> o_result r \<noteq> None
       then Inl (Conflict ''Action operation was not executing'')
     else update_one (selects b x Executing)
            (\<lambda>r. r\<lparr>o_state := st, o_origin := Some Execution_origin, o_result := encoded\<rparr>)
            ''Action result could not be committed'' ''Action operation changed before completion'' d)"

definition settle ::
    "io \<Rightarrow> batch \<Rightarrow> operation \<Rightarrow> operation_state \<Rightarrow> string option \<Rightarrow> journal \<Rightarrow> (journal_error + unit) \<times> journal" where
  "settle io b x st encoded j = (case batch_require b x of
      Inl e \<Rightarrow> (Inl e, j)
    | Inr _ \<Rightarrow> writing io ''Action result could not be committed'' (settle_work b x st encoded) j)"

definition complete ::
    "io \<Rightarrow> batch \<Rightarrow> operation \<Rightarrow> json \<Rightarrow> journal \<Rightarrow> (journal_error + unit) \<times> journal" where
  "complete io b x v j = (case canonical_result v (max_result_bytes (j_limits j)) of
      Inl _ \<Rightarrow> (Inl (Conflict ''Action result is not bounded canonical JSON''), j)
    | Inr encoded \<Rightarrow> settle io b x Completed (Some encoded) j)"

definition fail_without_effect ::
    "io \<Rightarrow> batch \<Rightarrow> operation \<Rightarrow> journal \<Rightarrow> (journal_error + unit) \<times> journal" where
  "fail_without_effect io b x j = settle io b x No_effect None j"

definition reprepare_work :: "batch \<Rightarrow> operation \<Rightarrow> string \<Rightarrow> unit work" where
  "reprepare_work b x failure d = rbind (find_operation b x d) (\<lambda>r.
     if o_state r \<noteq> Executing \<or> o_result r \<noteq> None
     then Inl (Conflict ''Action operation was not executing'')
     else update_one (\<lambda>r. selects b x Executing r \<and> o_result r = None) (\<lambda>r. r\<lparr>o_state := Prepared\<rparr>)
            failure ''Action operation changed before it returned to prepared'' d)"

definition reprepare ::
    "io \<Rightarrow> batch \<Rightarrow> operation \<Rightarrow> string \<Rightarrow> journal \<Rightarrow> (journal_error + unit) \<times> journal" where
  "reprepare io b x failure j = (case batch_require b x of
      Inl e \<Rightarrow> (Inl e, j)
    | Inr _ \<Rightarrow> writing io failure (reprepare_work b x failure) j)"

definition suspend :: "io \<Rightarrow> batch \<Rightarrow> operation \<Rightarrow> journal \<Rightarrow> (journal_error + unit) \<times> journal" where
  "suspend io b x j = reprepare io b x ''Action suspension could not be committed'' j"

definition not_dispatched :: "io \<Rightarrow> batch \<Rightarrow> operation \<Rightarrow> journal \<Rightarrow> (journal_error + unit) \<times> journal" where
  "not_dispatched io b x j = reprepare io b x ''Action dispatch refusal could not be committed'' j"

section \<open>Ending a batch\<close>

definition current :: "batch \<Rightarrow> string \<Rightarrow> db \<Rightarrow> journal_error + bool" where
  "current b replaced d = (case find_batch d (bt_generation b) of
      None \<Rightarrow> Inr False
    | Some h \<Rightarrow> if b_fingerprint h = bt_fingerprint b then Inr True else Inl (Conflict replaced))"

definition delete_batch :: "batch \<Rightarrow> string \<Rightarrow> unit work" where
  "delete_batch b message d =
     (let (changed, d') = delete_batches (\<lambda>h. b_generation h = bt_generation b
                                            \<and> b_fingerprint h = bt_fingerprint b) d
      in rbind (require_changed changed message) (\<lambda>_. Inr ((), d')))"

definition delivered_work :: "f64_reader \<Rightarrow> limits \<Rightarrow> batch \<Rightarrow> unit work" where
  "delivered_work read lim b d =
     rbind (current b ''a newer Action batch replaced this delivery handle'' d) (\<lambda>is_current.
       if \<not> is_current then Inr ((), d)
       else rbind (load b d) (\<lambda>rows.
         if list_ex (\<lambda>r. o_state r \<noteq> Completed) rows
         then Inl (Conflict ''Action batch cannot be delivered before every result exists'')
         else rbind (try_for_each (\<lambda>r. rbind (decode read lim (o_result r)) (\<lambda>_. Inr ())) rows) (\<lambda>_.
           delete_batch b ''Action batch changed before delivery'' d)))"

definition delivered ::
    "f64_reader \<Rightarrow> io \<Rightarrow> batch \<Rightarrow> journal \<Rightarrow> (journal_error + unit) \<times> journal" where
  "delivered read io b j =
     writing io ''Action batch delivery could not be committed'' (delivered_work read (j_limits j) b) j"

definition abandon_work :: "batch \<Rightarrow> bool work" where
  "abandon_work b d =
     rbind (current b ''a newer Action batch replaced this abandonment handle'' d) (\<lambda>is_current.
       if \<not> is_current then Inr (False, d)
       else rbind (load b d) (\<lambda>rows.
         if list_all (\<lambda>r. o_state r \<noteq> Executing) rows then Inr (False, d)
         else rbind (delete_batch b ''Action batch changed before terminal abandonment'' d)
                (\<lambda>(_, d'). Inr (True, d'))))"

definition abandon_uncertain :: "io \<Rightarrow> batch \<Rightarrow> journal \<Rightarrow> (journal_error + bool) \<times> journal" where
  "abandon_uncertain io b j =
     writing io ''uncertain Action batch could not be abandoned'' (abandon_work b) j"

definition end_settled_work :: "string \<Rightarrow> operation_state list \<Rightarrow> bool work" where
  "end_settled_work g states d =
     (if Executing \<in> set states then Inr (False, d)
      else rbind (ok_or (update_batches (\<lambda>h. b_generation h = g \<and> b_state h = Open) (\<lambda>h. h\<lparr>b_state := Ended\<rparr>) d)
                        (Failure ''Action batch could not be ended''))
             (\<lambda>(changed, d'). rbind (require_changed changed ''Action batch changed before it ended'')
               (\<lambda>_. Inr (True, d'))))"

definition end_work :: "batch \<Rightarrow> bool work" where
  "end_work b d = (case find_batch d (bt_generation b) of
      None \<Rightarrow> Inr (False, d)
    | Some h \<Rightarrow>
        if b_fingerprint h = bt_fingerprint b \<and> b_state h = Ended then Inr (False, d)
        else if b_fingerprint h \<noteq> bt_fingerprint b
          then Inl (Conflict ''a newer Action batch replaced this ending handle'')
        else rbind (load b d) (\<lambda>rows. end_settled_work (bt_generation b) (map o_state rows) d))"

definition end_batch :: "io \<Rightarrow> batch \<Rightarrow> journal \<Rightarrow> (journal_error + bool) \<times> journal" where
  "end_batch io b j = writing io ''Action batch could not be ended'' (end_work b) j"

definition end_generation_work :: "string \<Rightarrow> unit work" where
  "end_generation_work g d =
     (let states = (case find_batch d g of
            Some h \<Rightarrow> if b_state h = Open
                      then map o_state (filter (\<lambda>r. o_generation r = g) (operations d)) else []
          | None \<Rightarrow> []) in
      if states = [] then Inr ((), d)
      else rbind (end_settled_work g states d) (\<lambda>(_, d'). Inr ((), d')))"

definition end_settled :: "io \<Rightarrow> string \<Rightarrow> journal \<Rightarrow> (journal_error + unit) \<times> journal" where
  "end_settled io generation j = (case safe_id generation of
      Inl e \<Rightarrow> (Inl e, j)
    | Inr g \<Rightarrow> writing io ''settled Action generation could not be ended'' (end_generation_work g) j)"

section \<open>Whole generations\<close>

definition header :: "bool \<Rightarrow> string \<Rightarrow> journal \<Rightarrow> journal_error + batch_row option" where
  \<comment> \<open>the flag: the read succeeds\<close>
  "header readable generation j = rbind (safe_id generation) (\<lambda>g.
     case j_connection j of
       None \<Rightarrow> Inl (Failure ''Action journal is closed'')
     | Some d \<Rightarrow> if readable then Inr (find_batch d g)
                 else Inl (Failure ''Action journal state could not be read''))"

definition snapshot ::
    "bool \<Rightarrow> string \<Rightarrow> string \<Rightarrow> journal \<Rightarrow> journal_error + operation_record list" where
  "snapshot readable generation fingerprint j = rbind (header readable generation j) (\<lambda>h.
     case h of
       None \<Rightarrow> Inl (Conflict ''Action batch is no longer current'')
     | Some row \<Rightarrow>
         if b_fingerprint row \<noteq> fingerprint then Inl (Conflict ''Action batch is no longer current'')
         else if b_state row = Archived then Inl Archived_generation
         else (case j_connection j of
             None \<Rightarrow> Inl (Failure ''Action journal is closed'')
           | Some d \<Rightarrow> Inr (map (\<lambda>r. \<lparr>r_interrupt = o_interrupt r, r_operation_id = o_operation_id r,
                 r_state = o_state r, r_attempts = o_attempts r, r_origin = o_origin r\<rparr>) (rows_of d generation))))"

definition archive_work :: "string \<Rightarrow> string \<Rightarrow> unit work" where
  "archive_work g fingerprint d = (case find_batch d g of
      None \<Rightarrow> Inl (Conflict ''Action batch is no longer current'')
    | Some h \<Rightarrow>
        if b_fingerprint h \<noteq> fingerprint then Inl (Conflict ''Action batch is no longer current'')
        else if b_state h = Archived then Inr ((), d)
        else if \<not> b_archivable h then Inl (Conflict ''Action batch holds no archive reservation'')
        else rbind (ok_or (update_batches (\<lambda>h'. b_generation h' = g \<and> b_fingerprint h' = fingerprint)
                       (\<lambda>h'. h'\<lparr>b_state := Archived\<rparr>) d) (Failure ''Action batch could not be archived''))
               (\<lambda>(changed, d'). rbind (require_changed changed ''Action batch changed before it was archived'')
                 (\<lambda>_. Inr ((), delete_operations (\<lambda>r. o_generation r = g) d'))))"

definition archive :: "io \<Rightarrow> string \<Rightarrow> string \<Rightarrow> journal \<Rightarrow> (journal_error + unit) \<times> journal" where
  "archive io generation fingerprint j = (case safe_id generation of
      Inl e \<Rightarrow> (Inl e, j)
    | Inr g \<Rightarrow> writing io ''Action batch could not be archived'' (archive_work g fingerprint) j)"

definition release_work :: "string \<Rightarrow> string \<Rightarrow> unit work" where
  "release_work g fingerprint d = (case find_batch d g of
      None \<Rightarrow> Inr ((), d)
    | Some h \<Rightarrow>
        if b_fingerprint h = fingerprint \<and> b_state h = Archived
        then Inr ((), snd (delete_batches (\<lambda>h'. b_generation h' = g) d))
        else Inl (Conflict ''Action generation holds no such archived batch''))"

definition release_archive :: "io \<Rightarrow> string \<Rightarrow> string \<Rightarrow> journal \<Rightarrow> (journal_error + unit) \<times> journal" where
  "release_archive io generation fingerprint j = (case safe_id generation of
      Inl e \<Rightarrow> (Inl e, j)
    | Inr g \<Rightarrow> writing io ''Action archive could not be released'' (release_work g fingerprint) j)"

definition remove :: "io \<Rightarrow> string \<Rightarrow> (string \<Rightarrow> batch_row \<Rightarrow> bool) \<Rightarrow> string \<Rightarrow> journal
    \<Rightarrow> (journal_error + unit) \<times> journal" where
  "remove io failure p generation j = (case safe_id generation of
      Inl e \<Rightarrow> (Inl e, j)
    | Inr g \<Rightarrow> writing io failure (\<lambda>d. Inr ((), snd (delete_batches (p g) d))) j)"

definition discard :: "io \<Rightarrow> string \<Rightarrow> journal \<Rightarrow> (journal_error + unit) \<times> journal" where
  "discard io generation j =
     remove io ''Action generation could not be discarded''
       (\<lambda>g h. b_generation h = g \<and> b_state h \<noteq> Archived) generation j"

definition purge :: "io \<Rightarrow> string \<Rightarrow> journal \<Rightarrow> (journal_error + unit) \<times> journal" where
  "purge io generation j =
     remove io ''Action generation could not be purged'' (\<lambda>g h. b_generation h = g) generation j"

definition purge_batch :: "io \<Rightarrow> string \<Rightarrow> string \<Rightarrow> journal \<Rightarrow> (journal_error + unit) \<times> journal" where
  "purge_batch io generation fingerprint j =
     (if \<not> sha256_re fingerprint then (Inl (Conflict ''Action batch fingerprint is invalid''), j)
      else remove io ''Action batch could not be purged''
             (\<lambda>g h. b_generation h = g \<and> b_fingerprint h = fingerprint) generation j)"

definition current_batch :: "bool \<Rightarrow> string \<Rightarrow> journal \<Rightarrow> journal_error + (string \<times> batch_state) option" where
  "current_batch readable generation j =
     rbind (header readable generation j) (\<lambda>h. Inr (map_option (\<lambda>r. (b_fingerprint r, b_state r)) h))"

definition uncertain_fingerprint :: "bool \<Rightarrow> string \<Rightarrow> journal \<Rightarrow> journal_error + string option" where
  "uncertain_fingerprint readable generation j = rbind (safe_id generation) (\<lambda>g.
     case j_connection j of
       None \<Rightarrow> Inl (Failure ''Action journal is closed'')
     | Some d \<Rightarrow> if \<not> readable then Inl (Failure ''Action journal state could not be read'')
         else Inr (case find_batch d g of None \<Rightarrow> None
           | Some h \<Rightarrow> if list_ex (\<lambda>r. o_generation r = g \<and> o_state r = Executing) (operations d)
                       then Some (b_fingerprint h) else None))"

end
