(* ===== verification/Journal_Invariant.thy ===== *)
theory Journal_Invariant
  imports Action_Journal
begin

text \<open>
  The invariant of the Action journal's database and its preservation by every operation.

  \<open>ops_of d g\<close> is the slice of the operations table one generation owns; \<open>slice_ok\<close> is what holds
  between a batch row and its slice: the slice is exactly the batch's operations in order, with
  distinct interrupts and logical ids, empty once archived, and without an executing operation once
  ended. \<open>db_inv\<close> adds the schema's constraints and the two capacities.
\<close>

definition ops_of :: "db \<Rightarrow> string \<Rightarrow> op_row list" where
  "ops_of d g = filter (\<lambda>r. o_generation r = g) (operations d)"

definition slice_ok :: "limits \<Rightarrow> batch_row \<Rightarrow> op_row list \<Rightarrow> bool" where
  "slice_ok lim b rs \<longleftrightarrow>
     map o_ordinal rs = map int [0..<length rs] \<and>
     distinct (map o_interrupt rs) \<and> distinct (map o_operation_id rs) \<and>
     (b_state b \<noteq> Archived \<longrightarrow> int (length rs) = b_count b \<and> length rs \<le> max_operations lim) \<and>
     (b_state b = Archived \<longrightarrow> rs = []) \<and>
     (b_state b = Ended \<longrightarrow> (\<forall>r \<in> set rs. o_state r \<noteq> Executing))"

definition live_batches :: "db \<Rightarrow> nat" where
  "live_batches d = length (filter (\<lambda>b. b_state b \<noteq> Archived) (batches d))"

definition markers :: "db \<Rightarrow> nat" where
  "markers d = length (filter b_archivable (batches d))"

definition row_ok :: "db \<Rightarrow> op_row \<Rightarrow> bool" where
  "row_ok d r \<longleftrightarrow> check_operation r \<and> valid_operation_id (o_operation_id r) \<and>
     o_generation r \<in> b_generation ` set (batches d)"

definition db_inv :: "limits \<Rightarrow> db \<Rightarrow> bool" where
  "db_inv lim d \<longleftrightarrow>
     distinct (map b_generation (batches d)) \<and>
     (\<forall>b \<in> set (batches d). check_batch b \<and> slice_ok lim b (ops_of d (b_generation b))) \<and>
     (\<forall>r \<in> set (operations d). row_ok d r) \<and>
     live_batches d \<le> max_generations lim \<and> markers d \<le> max_archived lim"

definition journal_ok :: "journal \<Rightarrow> bool" where
  "journal_ok j = (case j_connection j of None \<Rightarrow> True | Some d \<Rightarrow> db_inv (j_limits j) d)"

section \<open>Reading the database\<close>

lemma find_batch_mem: "find_batch d g = Some h \<Longrightarrow> h \<in> set (batches d) \<and> b_generation h = g"
  unfolding find_batch_def using find_by_Some_mem find_by_Some_key by metis

lemma find_batch_unique:
  "db_inv lim d \<Longrightarrow> b \<in> set (batches d) \<Longrightarrow> find_batch d (b_generation b) = Some b"
  by (simp add: db_inv_def find_batch_def find_by_distinct)

lemma same_generation:
  "db_inv lim d \<Longrightarrow> b \<in> set (batches d) \<Longrightarrow> c \<in> set (batches d) \<Longrightarrow>
   b_generation b = b_generation c \<Longrightarrow> b = c"
  by (metis find_batch_unique option.inject)

lemma mem_ops_of: "r \<in> set (ops_of d g) \<longleftrightarrow> r \<in> set (operations d) \<and> o_generation r = g"
  by (auto simp: ops_of_def)

lemma ops_of_absent:
  assumes "db_inv lim d" "find_batch d g = None"
  shows "ops_of d g = []"
proof -
  have "g \<notin> b_generation ` set (batches d)" using assms(2) by (simp add: find_batch_def find_by_None)
  then show ?thesis using assms(1) by (auto simp: ops_of_def db_inv_def row_ok_def filter_empty_conv)
qed

lemma sorted_of_ordinals:
  "map o_ordinal rs = map int [0..<length rs] \<Longrightarrow> sort_key o_ordinal rs = rs"
  by (rule sort_key_id_if_sorted) (simp add: sorted_iff_nth_mono)

lemma rows_of_ops_of:
  assumes "db_inv lim d"
  shows "rows_of d g = ops_of d g"
proof (cases "find_batch d g")
  case None
  with assms show ?thesis using ops_of_absent by (auto simp: rows_of_def ops_of_def)
next
  case (Some h)
  then have "slice_ok lim h (ops_of d g)" using assms find_batch_mem by (auto simp: db_inv_def)
  then show ?thesis by (simp add: rows_of_def slice_ok_def sorted_of_ordinals flip: ops_of_def)
qed

lemma load_Inr:
  assumes "load b d = Inr rows"
  obtains h where "find_batch d (bt_generation b) = Some h" "b_fingerprint h = bt_fingerprint b"
    "b_state h = Open" "rows = rows_of d (bt_generation b)" "length rows = length (bt_operations b)"
    "\<And>i. i < length rows \<Longrightarrow> row_matches i (rows ! i) (bt_operations b ! i)"
  using assms
  by (force simp: load_def Let_def list_all_length nth_enumerate_eq split: option.splits if_splits)

lemma find_operation_Inr:
  assumes "find_operation b x d = Inr r" "db_inv lim d"
  obtains h where "find_batch d (bt_generation b) = Some h" "b_fingerprint h = bt_fingerprint b"
    "b_state h = Open" "r \<in> set (operations d)" "o_generation r = bt_generation b"
    "o_interrupt r = op_interrupt x"
proof -
  from assms(1) obtain rows where l: "load b d = Inr rows"
    and f: "find_by o_interrupt (op_interrupt x) rows = Some r"
    by (auto simp: find_operation_def rbind_eq_Inr)
  from f have r: "r \<in> set rows" "o_interrupt r = op_interrupt x"
    using find_by_Some_mem find_by_Some_key by metis+
  from l show ?thesis
    by (rule load_Inr) (use that r rows_of_ops_of [OF assms(2)] mem_ops_of in auto)
qed

section \<open>The statements keep the invariant\<close>

lemma update_operations_inv:
  assumes inv: "db_inv lim d" and upd: "update_operations p f d = Some (n, d')"
    and keep: "\<And>r. o_generation (f r) = o_generation r" "\<And>r. o_ordinal (f r) = o_ordinal r"
      "\<And>r. o_interrupt (f r) = o_interrupt r" "\<And>r. o_operation_id (f r) = o_operation_id r"
    and open_only: "\<And>r b. r \<in> set (operations d) \<Longrightarrow> p r \<Longrightarrow> b \<in> set (batches d) \<Longrightarrow>
      b_generation b = o_generation r \<Longrightarrow> b_state b = Open"
  shows "db_inv lim d'"
proof -
  define u where "u = (\<lambda>r. if p r then f r else r)"
  have d': "d' = d\<lparr>operations := map u (operations d)\<rparr>"
    and chk: "\<forall>r \<in> set (operations d). p r \<longrightarrow> check_operation (f r)"
    using upd by (auto simp: update_operations_def list_all_iff u_def split: if_splits)
  have ku: "o_generation (u r) = o_generation r" "o_ordinal (u r) = o_ordinal r"
    "o_interrupt (u r) = o_interrupt r" "o_operation_id (u r) = o_operation_id r" for r
    by (simp_all add: u_def keep)
  have ops: "ops_of d' g = map u (ops_of d g)" for g
    by (simp add: ops_of_def d' filter_map comp_def ku)
  have "slice_ok lim b (ops_of d' (b_generation b))" if b: "b \<in> set (batches d)" for b
  proof -
    have old: "slice_ok lim b (ops_of d (b_generation b))" using inv b by (simp add: db_inv_def)
    have "u r = r" if "b_state b = Ended" "r \<in> set (ops_of d (b_generation b))" for r
      using open_only [of r b] that b by (auto simp: u_def mem_ops_of)
    then show ?thesis using old by (auto simp: slice_ok_def ops comp_def ku)
  qed
  moreover have "row_ok d' r" if "r \<in> set (operations d')" for r
  proof -
    from that obtain q where q: "q \<in> set (operations d)" "r = u q" by (auto simp: d')
    then have "row_ok d q" using inv by (simp add: db_inv_def)
    then show ?thesis using q chk by (auto simp: row_ok_def d' u_def keep)
  qed
  ultimately show ?thesis using inv by (simp add: db_inv_def d' live_batches_def markers_def)
qed

lemma delete_batches_inv:
  assumes inv: "db_inv lim d"
  shows "db_inv lim (snd (delete_batches p d))"
proof -
  define gone where "gone = b_generation ` set (filter p (batches d))"
  let ?d = "snd (delete_batches p d)"
  have b: "batches ?d = filter (\<lambda>b. \<not> p b) (batches d)"
    and o: "operations ?d = filter (\<lambda>r. o_generation r \<notin> gone) (operations d)"
    by (simp_all add: delete_batches_def Let_def gone_def)
  have kept: "b_generation c \<notin> gone" if "c \<in> set (batches ?d)" for c
  proof
    assume "b_generation c \<in> gone"
    then obtain q where q: "q \<in> set (batches d)" "p q" "b_generation c = b_generation q"
      by (auto simp: gone_def)
    have c: "c \<in> set (batches d)" "\<not> p c" using that by (auto simp: b)
    from same_generation [OF inv c(1) q(1) q(3)] q(2) c(2) show False by simp
  qed
  have "ops_of ?d (b_generation c) = ops_of d (b_generation c)" if "c \<in> set (batches ?d)" for c
    using kept [OF that] by (auto simp: ops_of_def o intro!: filter_cong)
  then have "\<forall>c \<in> set (batches ?d). check_batch c \<and> slice_ok lim c (ops_of ?d (b_generation c))"
    using inv by (auto simp: db_inv_def b)
  moreover have "distinct (map b_generation (batches ?d))"
    using inv by (simp add: b db_inv_def distinct_map_filter)
  moreover have "row_ok ?d r" if "r \<in> set (operations ?d)" for r
  proof -
    from that have r: "r \<in> set (operations d)" "o_generation r \<notin> gone" by (auto simp: o)
    then have "row_ok d r" using inv by (simp add: db_inv_def)
    then show ?thesis using r by (auto simp: row_ok_def b gone_def image_iff)
  qed
  moreover have "live_batches ?d \<le> live_batches d" "markers ?d \<le> markers d"
    unfolding live_batches_def markers_def b by (rule length_filter_remove_le)+
  ultimately show ?thesis using inv by (auto simp: db_inv_def)
qed

lemma update_batches_frame:
  assumes "update_batches p f d = Some (n, d')"
  shows "operations d' = operations d"
    "batches d' = map (\<lambda>b. if p b then f b else b) (batches d)"
    "\<And>b. b \<in> set (batches d) \<Longrightarrow> p b \<Longrightarrow> check_batch (f b)"
  using assms by (auto simp: update_batches_def list_all_iff split: if_splits)

lemma length_filter_map_le:
  "(\<And>b. b \<in> set xs \<Longrightarrow> Q (f b) \<Longrightarrow> Q b) \<Longrightarrow> length (filter Q (map f xs)) \<le> length (filter Q xs)"
  by (induction xs) auto

lemma update_batches_inv:
  assumes inv: "db_inv lim d" and upd: "update_batches p (\<lambda>b. b\<lparr>b_state := st\<rparr>) d = Some (n, d1)"
    and del: "d' = (if st = Archived then d1\<lparr>operations := filter (\<lambda>r. o_generation r \<notin> gone) (operations d1)\<rparr> else d1)"
    and gone: "gone = b_generation ` {b \<in> set (batches d). p b}"
    and live: "\<And>b. b \<in> set (batches d) \<Longrightarrow> p b \<Longrightarrow> b_state b \<noteq> Archived"
    and settled: "\<And>b r. st = Ended \<Longrightarrow> b \<in> set (batches d) \<Longrightarrow> p b \<Longrightarrow> r \<in> set (ops_of d (b_generation b)) \<Longrightarrow>
      o_state r \<noteq> Executing"
  shows "db_inv lim d'"
proof -
  define u where "u = (\<lambda>b. if p b then b\<lparr>b_state := st\<rparr> else b)"
  note fr = update_batches_frame [OF upd]
  have b': "batches d' = map u (batches d)" by (simp add: del fr u_def)
  have gu: "b_generation (u b) = b_generation b" "b_archivable (u b) = b_archivable b"
    "b_count (u b) = b_count b" for b by (simp_all add: u_def)
  have ops: "ops_of d' (b_generation b)
      = (if st = Archived \<and> p b then [] else ops_of d (b_generation b))" if "b \<in> set (batches d)" for b
  proof -
    have gone_iff: "b_generation b \<in> gone \<longleftrightarrow> p b"
      using same_generation [OF inv] that unfolding gone by blast
    show ?thesis
      by (auto simp: ops_of_def del fr gone_iff filter_empty_conv intro!: filter_cong)
  qed
  have "check_batch (u b) \<and> slice_ok lim (u b) (ops_of d' (b_generation b))" if b: "b \<in> set (batches d)" for b
  proof -
    have old: "slice_ok lim b (ops_of d (b_generation b))" "check_batch b" using inv b by (auto simp: db_inv_def)
    show ?thesis
    proof (cases "p b")
      case True
      then show ?thesis
        using old fr(3) [OF b] live [OF b] settled [of b] b
        by (cases st) (auto simp: u_def ops slice_ok_def)
    next
      case False
      then show ?thesis using old by (simp add: u_def ops b)
    qed
  qed
  moreover have "row_ok d' r" if "r \<in> set (operations d')" for r
  proof -
    have "r \<in> set (operations d)" using that by (auto simp: del fr split: if_splits)
    then have "row_ok d r" using inv by (simp add: db_inv_def)
    then show ?thesis by (auto simp: row_ok_def b' gu image_image)
  qed
  moreover have "live_batches d' \<le> live_batches d"
    unfolding live_batches_def b' using live by (intro length_filter_map_le) (auto simp: u_def split: if_splits)
  moreover have "markers d' = markers d"
    by (simp add: markers_def b' filter_map comp_def gu)
  moreover have "distinct (map (b_generation \<circ> u) (batches d))"
    using inv by (simp add: db_inv_def comp_def gu)
  ultimately show ?thesis using inv by (auto simp: db_inv_def b' gu)
qed

section \<open>Preparing keeps the invariant\<close>

text \<open>What \<open>build\<close> guarantees of a handle it returns.\<close>

definition batch_ok :: "limits \<Rightarrow> batch \<Rightarrow> bool" where
  "batch_ok lim b \<longleftrightarrow> bt_operations b \<noteq> [] \<and> length (bt_operations b) \<le> max_operations lim \<and>
     (\<forall>x \<in> set (bt_operations b). \<forall>i. op_id x = Some i \<longrightarrow> valid_operation_id i)"

lemma try_for_each_Inr: "try_for_each f xs = Inr u \<longleftrightarrow> (\<forall>x \<in> set xs. f x = Inr ())"
  by (induction xs) (auto simp: rbind_eq_Inr)

lemma build_batch_ok:
  assumes "build sha g t xs (max_operations lim) = Inr b"
  shows "batch_ok lim b" "bt_generation b = g" "safe_id_re g" "bt_operations b = xs"
  using assms
  by (auto simp: build_def rbind_eq_Inr try_for_each_Inr handle_operation_def batch_ok_def safe_id_def
      split: if_splits option.splits)

lemma hex_hex_digit: "n < 16 \<Longrightarrow> hex (hex_digit n)"
  by (simp only: less_Suc_eq numeral_eq_Suc)
     (auto simp: hex_digit_def hex_def digit_def between_def)

lemma hex_digit_values:
  "hex_digit 4 = CHR ''4''" "hex_digit 8 = CHR ''8''" "hex_digit 9 = CHR ''9''"
  "hex_digit 10 = CHR ''a''" "hex_digit 11 = CHR ''b''"
  by code_simp+

lemma hex_byte_nibbles: "unat b div 16 < 16" "unat b mod 16 < 16" for b :: byte
proof -
  have "unat b < 2 ^ LENGTH(8)" by (rule unsigned_less)
  then show "unat b div 16 < 16" by simp
qed simp

lemma unat_high_nibble: "unat (drop_bit 4 b) = unat b div 16" for b :: byte
  by (simp add: drop_bit_eq_div unat_div)

lemma list_of_16:
  "length bs = 16 \<Longrightarrow> \<exists>a0 a1 a2 a3 a4 a5 a6 a7 a8 a9 a10 a11 a12 a13 a14 a15.
     bs = [a0, a1, a2, a3, a4, a5, a6, a7, a8, a9, a10, a11, a12, a13, a14, a15]"
  by (auto simp: numeral_eq_Suc length_Suc_conv)

lemma version_nibble: "unat ((b AND 0x0F) OR 0x40) div 16 = 4" for b :: byte
proof -
  have "drop_bit 4 ((b AND 0x0F) OR 0x40) = (4 :: byte)" by simp
  then show ?thesis by (simp flip: unat_high_nibble)
qed

lemma variant_nibble: "unat ((b AND 0x3F) OR 0x80) div 16 \<in> {8, 9, 10, 11}" for b :: byte
proof -
  define y where "y = drop_bit 4 b AND 3"
  have "drop_bit 4 ((b AND 0x3F) OR 0x80) = y OR 8" by (simp add: y_def)
  moreover have "y = 0 \<or> y = 1 \<or> y = 2 \<or> y = 3"
  proof -
    have "unat y < 4" using and_mask_less' [of 2 "drop_bit 4 b"] by (simp add: y_def mask_eq_exp_minus_1 word_less_nat_alt)
    then have "unat y = 0 \<or> unat y = 1 \<or> unat y = 2 \<or> unat y = 3" by linarith
    then show ?thesis by (simp add: word_unat_eq_iff)
  qed
  ultimately have "unat (drop_bit 4 ((b AND 0x3F) OR 0x80)) \<in> {8, 9, 10, 11}" by auto
  then show ?thesis by (simp only: unat_high_nibble)
qed

lemma new_operation_id_valid:
  assumes "new_operation_id ent = Some (i, rest)"
  shows "valid_operation_id i"
proof -
  from assms obtain bs where bs: "fill ent 16 = Some (bs, rest)"
    by (auto simp: new_operation_id_def Let_def split: option.splits)
  from list_of_16 [OF fill_length [OF bs]]
  obtain a0 a1 a2 a3 a4 a5 a6 a7 a8 a9 a10 a11 a12 a13 a14 a15
    where b: "bs = [a0, a1, a2, a3, a4, a5, a6, a7, a8, a9, a10, a11, a12, a13, a14, a15]" by blast
  define v where "v = (a6 AND 0x0F) OR 0x40"
  define w where "w = (a8 AND 0x3F) OR 0x80"
  have vw: "hex_digit (unat v div 16) = CHR ''4''" "hex_digit (unat w div 16) \<in> set ''89ab''"
    using version_nibble [of a6] variant_nibble [of a8] by (auto simp: v_def w_def hex_digit_values)
  have i: "i = hex_byte a0 @ hex_byte a1 @ hex_byte a2 @ hex_byte a3 @ ''-'' @ hex_byte a4 @ hex_byte a5 @ ''-''
      @ hex_byte v @ hex_byte a7 @ ''-'' @ hex_byte w @ hex_byte a9 @ ''-''
      @ hex_byte a10 @ hex_byte a11 @ hex_byte a12 @ hex_byte a13 @ hex_byte a14 @ hex_byte a15"
    using assms by (simp add: new_operation_id_def bs b v_def w_def hex_byte_def Let_def)
  show ?thesis
    using vw unfolding i
    by (simp add: valid_operation_id_def hex_byte_def operation_id_char_def hex_hex_digit hex_byte_nibbles)
qed

text \<open>The rows one \<open>insert\<close> appends: the batch's operations in order, each with a valid id.\<close>

definition fresh_rows :: "string \<Rightarrow> nat \<Rightarrow> operation list \<Rightarrow> op_row list \<Rightarrow> bool" where
  "fresh_rows g k xs rows \<longleftrightarrow> length rows = length xs \<and>
     (\<forall>n < length xs. rows ! n = new_row g (k + n) (xs ! n) (o_operation_id (rows ! n)) \<and>
        valid_operation_id (o_operation_id (rows ! n)) \<and>
        (\<forall>i. op_id (xs ! n) = Some i \<longrightarrow> o_operation_id (rows ! n) = i))"

lemma new_row_simps [simp]:
  "o_generation (new_row g k x i) = g" "o_ordinal (new_row g k x i) = int k"
  "o_interrupt (new_row g k x i) = op_interrupt x" "o_fingerprint (new_row g k x i) = op_fingerprint x"
  "o_operation_id (new_row g k x i) = i" "o_state (new_row g k x i) = Prepared"
  "o_result (new_row g k x i) = None" "o_attempts (new_row g k x i) = 0"
  "check_operation (new_row g k x i)"
  by (simp_all add: new_row_def check_operation_def)

lemma fresh_rows_Nil [simp]: "fresh_rows g k [] rows \<longleftrightarrow> rows = []"
  by (auto simp: fresh_rows_def)

lemma fresh_rows_Cons:
  "fresh_rows g k (x # xs) rows \<longleftrightarrow> (\<exists>i rs. rows = new_row g k x i # rs \<and> valid_operation_id i \<and>
     (\<forall>j. op_id x = Some j \<longrightarrow> i = j) \<and> fresh_rows g (Suc k) xs rs)"
  by (cases rows) (auto simp: fresh_rows_def All_less_Suc2 simp del: All_less_Suc)

lemma fresh_rows_facts:
  assumes "fresh_rows g k xs rows"
  shows "map o_ordinal rows = map int [k..<k + length rows]" "length rows = length xs"
    "\<And>r. r \<in> set rows \<Longrightarrow> o_generation r = g \<and> o_state r = Prepared \<and> o_attempts r = 0 \<and>
       check_operation r \<and> valid_operation_id (o_operation_id r)"
    "map o_interrupt rows = map op_interrupt xs" "map o_fingerprint rows = map op_fingerprint xs"
proof -
  show len: "length rows = length xs" using assms by (simp add: fresh_rows_def)
  have nth: "\<exists>i. rows ! n = new_row g (k + n) (xs ! n) i \<and> valid_operation_id i" if "n < length rows" for n
    using assms that by (auto simp: fresh_rows_def)
  show "map o_ordinal rows = map int [k..<k + length rows]"
    by (rule nth_equalityI) (use nth in force)+
  show "map o_interrupt rows = map op_interrupt xs" "map o_fingerprint rows = map op_fingerprint xs"
    by (rule nth_equalityI, use nth len in force, use nth len in force)+
  show "o_generation r = g \<and> o_state r = Prepared \<and> o_attempts r = 0 \<and>
       check_operation r \<and> valid_operation_id (o_operation_id r)" if "r \<in> set rows" for r
    using that nth by (fastforce simp: in_set_conv_nth)
qed

lemma insert_operation_Some:
  assumes "insert_operation r d = Some d'"
  shows "d' = d\<lparr>operations := operations d @ [r]\<rparr>"
    "o_interrupt r \<notin> o_interrupt ` set (ops_of d (o_generation r))"
    "o_operation_id r \<notin> o_operation_id ` set (ops_of d (o_generation r))"
    "o_generation r \<in> b_generation ` set (batches d)" "check_operation r"
  using assms by (auto simp: insert_operation_def ops_of_def split: if_splits)

lemma insert_operations_Inr:
  assumes "insert_operations g k xs ent d = Inr d'"
    and "\<forall>x \<in> set xs. \<forall>i. op_id x = Some i \<longrightarrow> valid_operation_id i"
    and "distinct (map o_interrupt (ops_of d g))" "distinct (map o_operation_id (ops_of d g))"
  shows "\<exists>rows. d' = d\<lparr>operations := operations d @ rows\<rparr> \<and> fresh_rows g k xs rows \<and>
     distinct (map o_interrupt (ops_of d' g)) \<and> distinct (map o_operation_id (ops_of d' g))"
  using assms
proof (induction g k xs ent d rule: insert_operations.induct)
  case (2 g k x xs ent d)
  from "2.prems"(1) obtain i ent' d1 where
    i: "(case op_id x of Some i \<Rightarrow> Some (i, ent) | None \<Rightarrow> new_operation_id ent) = Some (i, ent')"
    and d1: "insert_operation (new_row g k x i) d = Some d1"
    and rest: "insert_operations g (Suc k) xs ent' d1 = Inr d'"
    by (auto simp: rbind_eq_Inr split: option.splits prod.splits)
  have valid: "valid_operation_id i" "\<forall>j. op_id x = Some j \<longrightarrow> i = j"
    using i "2.prems"(2) new_operation_id_valid by (auto split: option.splits)
  note ins = insert_operation_Some [OF d1]
  have ops: "ops_of d1 g = ops_of d g @ [new_row g k x i]" by (simp add: ins(1) ops_of_def)
  from "2.IH" [OF i refl rest] "2.prems" ins(2,3) obtain rows where
    rows: "d' = d1\<lparr>operations := operations d1 @ rows\<rparr>" "fresh_rows g (Suc k) xs rows"
    "distinct (map o_interrupt (ops_of d' g))" "distinct (map o_operation_id (ops_of d' g))"
    by (auto simp: ops)
  then show ?case
    using valid by (intro exI [of _ "new_row g k x i # rows"]) (auto simp: ins(1) fresh_rows_Cons)
qed simp

lemma insert_prepared_Inr:
  assumes inv: "db_inv lim d" and ok: "batch_ok lim b" and ins: "insert_prepared b a ent d = Inr (u, d')"
  obtains rows where "find_batch d (bt_generation b) = None"
    "d' = d\<lparr>batches := batches d @ [\<lparr>b_generation = bt_generation b, b_fingerprint = bt_fingerprint b,
        b_count = int (length (bt_operations b)), b_state = Open, b_archivable = a\<rparr>],
      operations := operations d @ rows\<rparr>"
    "fresh_rows (bt_generation b) 0 (bt_operations b) rows"
    "distinct (map o_interrupt rows)" "distinct (map o_operation_id rows)" "ops_of d (bt_generation b) = []"
proof -
  let ?row = "\<lparr>b_generation = bt_generation b, b_fingerprint = bt_fingerprint b,
        b_count = int (length (bt_operations b)), b_state = Open, b_archivable = a\<rparr>"
  from ins obtain d1 where d1: "insert_batch ?row d = Some d1"
    and more: "insert_operations (bt_generation b) 0 (bt_operations b) ent d1 = Inr d'"
    by (auto simp: insert_prepared_def rbind_eq_Inr)
  have absent: "find_batch d (bt_generation b) = None" and d1': "d1 = d\<lparr>batches := batches d @ [?row]\<rparr>"
    using d1 by (auto simp: insert_batch_def find_batch_def find_by_None split: if_splits)
  have none: "ops_of d1 (bt_generation b) = []"
    using ops_of_absent [OF inv absent] by (simp add: d1' ops_of_def)
  from insert_operations_Inr [OF more] ok none obtain rows where
    rows: "d' = d1\<lparr>operations := operations d1 @ rows\<rparr>" "fresh_rows (bt_generation b) 0 (bt_operations b) rows"
    and dist: "distinct (map o_interrupt (ops_of d' (bt_generation b)))"
      "distinct (map o_operation_id (ops_of d' (bt_generation b)))"
    by (auto simp: batch_ok_def)
  have "ops_of d' (bt_generation b) = rows"
    using none fresh_rows_facts(3) [OF rows(2)] by (auto simp: rows(1) ops_of_def intro: filter_True)
  with that [of rows] absent rows dist d1' none show ?thesis by (simp add: ops_of_def)
qed

lemma insert_prepared_inv:
  assumes inv: "db_inv lim d" and ok: "batch_ok lim b" and ins: "insert_prepared b a ent d = Inr (u, d')"
    and res: "reserve lim a d = Inr ()"
  shows "db_inv lim d'"
proof -
  from insert_prepared_Inr [OF inv ok ins] obtain rows where
    absent: "find_batch d (bt_generation b) = None"
    and d': "d' = d\<lparr>batches := batches d @ [\<lparr>b_generation = bt_generation b, b_fingerprint = bt_fingerprint b,
        b_count = int (length (bt_operations b)), b_state = Open, b_archivable = a\<rparr>],
      operations := operations d @ rows\<rparr>"
    and rows: "fresh_rows (bt_generation b) 0 (bt_operations b) rows"
    and dist: "distinct (map o_interrupt rows)" "distinct (map o_operation_id rows)"
    and none: "ops_of d (bt_generation b) = []" .
  note facts = fresh_rows_facts [OF rows]
  have new: "bt_generation b \<notin> b_generation ` set (batches d)"
    using absent by (simp add: find_batch_def find_by_None)
  have own: "ops_of d' (bt_generation b) = rows"
    using none facts(3) by (auto simp: d' ops_of_def intro: filter_True)
  have others: "ops_of d' g = ops_of d g" if "g \<noteq> bt_generation b" for g
    using facts(3) that by (auto simp: d' ops_of_def filter_empty_conv)
  have cap: "live_batches d < max_generations lim" "a \<Longrightarrow> markers d < max_archived lim"
    using res by (auto simp: reserve_def live_batches_def markers_def split: if_splits)
  have "slice_ok lim h (ops_of d' (b_generation h))" if "h \<in> set (batches d)" for h
  proof -
    have "b_generation h \<noteq> bt_generation b" using new that by force
    then show ?thesis using others that inv by (simp add: db_inv_def)
  qed
  moreover have "row_ok d' r" if "r \<in> set (operations d)" for r
    using inv that by (auto simp: db_inv_def row_ok_def d')
  moreover have "row_ok d' r" if "r \<in> set rows" for r
    using facts(3) [OF that] by (auto simp: row_ok_def d')
  moreover have "live_batches d' \<le> max_generations lim" "markers d' \<le> max_archived lim"
    using cap inv by (auto simp: d' live_batches_def markers_def db_inv_def)
  ultimately show ?thesis
    using inv new own facts(1,2) dist ok
    by (auto simp: db_inv_def slice_ok_def check_batch_def batch_ok_def d')
qed

lemma load_frame:
  "find_batch d' g = find_batch d g \<Longrightarrow> ops_of d' g = ops_of d g \<Longrightarrow> bt_generation b = g \<Longrightarrow> load b d' = load b d"
  by (cases "find_batch d g") (simp_all add: load_def rows_of_def ops_of_def)

lemma reopen_inv:
  assumes inv: "db_inv lim d" and w: "reopen b st d = Inr (u, d')"
  shows "db_inv lim d'"
proof (cases "st = Ended")
  case True
  let ?p = "\<lambda>h. b_generation h = bt_generation b \<and> b_fingerprint h = bt_fingerprint b \<and> b_state h = Ended"
  from w True obtain n where "update_batches ?p (\<lambda>h. h\<lparr>b_state := Open\<rparr>) d = Some (n, d')"
    by (auto simp: reopen_def rbind_eq_Inr)
  then show ?thesis
    by (rule update_batches_inv [OF inv]) auto
next
  case False
  with w inv show ?thesis by (auto simp: reopen_def rbind_eq_Inr)
qed

lemma retire_ended_Inr:
  assumes "retire_ended b d = Inr (u, d')"
  shows "d' = snd (delete_batches (\<lambda>h. b_generation h = bt_generation b \<and> b_state h = Ended) d)"
    "\<forall>x \<in> set (bt_operations b). op_interrupt x \<notin> o_interrupt ` set (ops_of d (bt_generation b))"
  using assms
  by (auto simp: retire_ended_def Let_def rbind_eq_Inr list_ex_iff ops_of_def split: if_splits prod.splits)

lemma prepare_work_inv:
  assumes inv: "db_inv lim d" and ok: "batch_ok lim b" and w: "prepare_work lim b a ent d = Inr (u, d')"
  shows "db_inv lim d'"
proof (cases "find_batch d (bt_generation b)")
  case None
  with w inv ok show ?thesis
    by (auto simp: prepare_work_def rbind_eq_Inr intro: insert_prepared_inv)
next
  case (Some h)
  consider (same) "b_fingerprint h = bt_fingerprint b" "reopen b (b_state h) d = Inr (u, d')"
    | (fresh) d1 where "retire_ended b d = Inr ((), d1)" "reserve lim a d1 = Inr ()"
        "insert_prepared b a ent d1 = Inr (u, d')"
    using w Some by (auto simp: prepare_work_def rbind_eq_Inr split: if_splits)
  then show ?thesis
  proof cases
    case same
    then show ?thesis using reopen_inv [OF inv] by blast
  next
    case fresh
    then have "db_inv lim d1" using delete_batches_inv [OF inv] retire_ended_Inr(1) by metis
    then show ?thesis using insert_prepared_inv ok fresh by blast
  qed
qed

section \<open>Operations and endings keep the invariant\<close>

lemma update_one_Inr:
  assumes "update_one p f failure message d = Inr (u, d')"
  shows "update_operations p f d = Some (1, d')"
  using assms by (auto simp: update_one_def rbind_eq_Inr require_changed_def split: if_splits)

lemma update_one_inv:
  assumes inv: "db_inv lim d" and found: "find_operation b x d = Inr r"
    and w: "update_one p f failure message d = Inr (u, d')"
    and keep: "\<And>r. o_generation (f r) = o_generation r" "\<And>r. o_ordinal (f r) = o_ordinal r"
      "\<And>r. o_interrupt (f r) = o_interrupt r" "\<And>r. o_operation_id (f r) = o_operation_id r"
    and sel: "\<And>r. p r \<Longrightarrow> o_generation r = bt_generation b"
  shows "db_inv lim d'"
proof (rule update_operations_inv [OF inv update_one_Inr [OF w] keep])
  fix q h assume "p q" and h: "h \<in> set (batches d)" "b_generation h = o_generation q"
  then have "find_batch d (bt_generation b) = Some h"
    using find_batch_unique [OF inv h(1)] sel by metis
  then show "b_state h = Open" by (rule_tac find_operation_Inr [OF found inv]) simp
qed

lemma begin_work_inv:
  assumes "db_inv lim d" "begin_work read lim b x d = Inr (u, d')"
  shows "db_inv lim d'"
proof -
  from assms(2) obtain r where r: "find_operation b x d = Inr r" by (auto simp: begin_work_def rbind_eq_Inr)
  show ?thesis
  proof (cases "d' = d")
    case False
    with assms(2) r have "update_one (selects b x Prepared)
        (\<lambda>r. r\<lparr>o_state := Executing, o_attempts := o_attempts r + 1\<rparr>)
        ''Action execution could not begin'' ''Action operation changed before execution'' d = Inr ((), d')"
      by (auto simp: begin_work_def rbind_eq_Inr split: operation_state.splits if_splits)
    from update_one_inv [OF assms(1) r this] show ?thesis by (simp add: selects_def)
  qed (use assms in simp)
qed

lemma settle_work_inv:
  assumes "db_inv lim d" "settle_work b x st enc d = Inr (u, d')"
  shows "db_inv lim d'"
  using assms by (auto simp: settle_work_def rbind_eq_Inr selects_def elim!: update_one_inv split: if_splits)

lemma reprepare_work_inv:
  assumes "db_inv lim d" "reprepare_work b x f d = Inr (u, d')"
  shows "db_inv lim d'"
  using assms by (auto simp: reprepare_work_def rbind_eq_Inr selects_def elim!: update_one_inv split: if_splits)

lemma delete_batch_inv:
  assumes "db_inv lim d" "delete_batch b m d = Inr (u, d')"
  shows "db_inv lim d'"
  using assms delete_batches_inv by (auto simp: delete_batch_def rbind_eq_Inr split: prod.splits) (metis snd_conv)

lemma delivered_work_inv:
  assumes "db_inv lim d" "delivered_work read lim b d = Inr (u, d')"
  shows "db_inv lim d'"
  using assms by (auto simp: delivered_work_def rbind_eq_Inr intro: delete_batch_inv split: if_splits)

lemma abandon_work_inv:
  assumes "db_inv lim d" "abandon_work b d = Inr (u, d')"
  shows "db_inv lim d'"
  using assms by (auto simp: abandon_work_def rbind_eq_Inr intro: delete_batch_inv split: if_splits)

lemma end_settled_work_inv:
  assumes inv: "db_inv lim d" and w: "end_settled_work g states d = Inr (u, d')"
    and states: "set states = o_state ` set (ops_of d g)"
  shows "db_inv lim d'"
proof (cases "Executing \<in> set states")
  case False
  with w obtain n where
    "update_batches (\<lambda>h. b_generation h = g \<and> b_state h = Open) (\<lambda>h. h\<lparr>b_state := Ended\<rparr>) d = Some (n, d')"
    by (auto simp: end_settled_work_def rbind_eq_Inr)
  then show ?thesis
    by (rule update_batches_inv [OF inv]) (use False states in \<open>auto simp: image_iff\<close>)
qed (use w inv in \<open>auto simp: end_settled_work_def\<close>)

lemma end_work_inv:
  assumes inv: "db_inv lim d" and w: "end_work b d = Inr (u, d')"
  shows "db_inv lim d'"
proof (cases "d' = d")
  case False
  with w obtain rows where l: "load b d = Inr rows"
    and e: "end_settled_work (bt_generation b) (map o_state rows) d = Inr (u, d')"
    by (auto simp: end_work_def rbind_eq_Inr split: option.splits if_splits)
  from l have "rows = ops_of d (bt_generation b)"
    by (rule load_Inr) (simp add: rows_of_ops_of [OF inv])
  with end_settled_work_inv [OF inv e] show ?thesis by simp
qed (use inv in simp)

lemma end_generation_work_inv:
  assumes inv: "db_inv lim d" and w: "end_generation_work g d = Inr (u, d')"
  shows "db_inv lim d'"
  using assms
  by (auto simp: end_generation_work_def Let_def rbind_eq_Inr intro!: end_settled_work_inv [of lim d] simp flip: ops_of_def
      split: option.splits if_splits)

section \<open>Generations keep the invariant\<close>

lemma archive_work_inv:
  assumes inv: "db_inv lim d" and w: "archive_work g fp d = Inr (u, d')"
  shows "db_inv lim d'"
proof (cases "d' = d")
  case False
  let ?p = "\<lambda>h. b_generation h = g \<and> b_fingerprint h = fp"
  from w False obtain h n d1 where h: "find_batch d g = Some h" "b_fingerprint h = fp" "b_state h \<noteq> Archived"
    and upd: "update_batches ?p (\<lambda>h. h\<lparr>b_state := Archived\<rparr>) d = Some (n, d1)"
    and d': "d' = delete_operations (\<lambda>r. o_generation r = g) d1"
    by (auto simp: archive_work_def rbind_eq_Inr split: option.splits if_splits)
  have one: "q = h" if "q \<in> set (batches d)" "?p q" for q
    using same_generation [OF inv that(1), of h] find_batch_mem [OF h(1)] that(2) by simp
  have gone: "b_generation ` {q \<in> set (batches d). ?p q} = {g}"
    using find_batch_mem [OF h(1)] h(2) by auto
  show ?thesis
    by (rule update_batches_inv [OF inv upd _ gone [symmetric]])
       (use one h in \<open>auto simp: d' delete_operations_def\<close>)
qed (use inv in simp)

lemma release_work_inv:
  assumes "db_inv lim d" "release_work g fp d = Inr (u, d')"
  shows "db_inv lim d'"
  using assms by (auto simp: release_work_def intro: delete_batches_inv split: option.splits if_splits)

end
