(* ===== verification/Journal_Machine.thy ===== *)
theory Journal_Machine
  imports Journal_Invariant
begin

text \<open>
  The Action journal as a state machine: every public operation that changes it is a \<open>command\<close>,
  \<open>perform\<close> runs one, and \<open>reachable\<close> closes the empty database under commands and restarts.

  The abstract specification is per generation: \<open>slot d g\<close> is what the database holds of generation
  \<open>g\<close>, and \<open>slot_step\<close> lists the transitions a slot may take. \<open>perform_slot\<close> is the refinement: every
  command either leaves the database alone or moves the slot of its own generation by one
  \<open>slot_step\<close>, and no command touches another generation. The properties of whole executions (an
  executing operation is never granted again, a completed one replays its result) are then proved on slots.
\<close>

section \<open>Commands\<close>

datatype command =
    Prepare string string "operation list" bool
  | Begin batch operation
  | Complete batch operation json
  | Fail_without_effect batch operation
  | Suspend batch operation
  | Not_dispatched batch operation
  | Delivered batch
  | Abandon batch
  | End_batch batch
  | End_settled string
  | Archive string string
  | Release string string
  | Discard string
  | Purge string
  | Purge_batch string string

datatype reply = Handle batch | Granted execution | Done | Answer bool

definition answer :: "('a \<Rightarrow> reply) \<Rightarrow> (journal_error + 'a) \<times> journal \<Rightarrow> (journal_error + reply) \<times> journal" where
  "answer f p = (map_sum id f (fst p), snd p)"

fun perform :: "(string \<Rightarrow> string) \<Rightarrow> f64_reader \<Rightarrow> io \<Rightarrow> entropy \<Rightarrow> command \<Rightarrow> journal
    \<Rightarrow> (journal_error + reply) \<times> journal" where
  "perform sha read io ent (Prepare g t xs a) j = answer Handle (prepare_batch sha io ent g t xs a j)"
| "perform sha read io ent (Begin b x) j = answer Granted (begin_operation read io b x j)"
| "perform sha read io ent (Complete b x v) j = answer (\<lambda>_. Done) (complete io b x v j)"
| "perform sha read io ent (Fail_without_effect b x) j = answer (\<lambda>_. Done) (fail_without_effect io b x j)"
| "perform sha read io ent (Suspend b x) j = answer (\<lambda>_. Done) (suspend io b x j)"
| "perform sha read io ent (Not_dispatched b x) j = answer (\<lambda>_. Done) (not_dispatched io b x j)"
| "perform sha read io ent (Delivered b) j = answer (\<lambda>_. Done) (delivered read io b j)"
| "perform sha read io ent (Abandon b) j = answer Answer (abandon_uncertain io b j)"
| "perform sha read io ent (End_batch b) j = answer Answer (end_batch io b j)"
| "perform sha read io ent (End_settled g) j = answer (\<lambda>_. Done) (end_settled io g j)"
| "perform sha read io ent (Archive g fp) j = answer (\<lambda>_. Done) (archive io g fp j)"
| "perform sha read io ent (Release g fp) j = answer (\<lambda>_. Done) (release_archive io g fp j)"
| "perform sha read io ent (Discard g) j = answer (\<lambda>_. Done) (discard io g j)"
| "perform sha read io ent (Purge g) j = answer (\<lambda>_. Done) (purge io g j)"
| "perform sha read io ent (Purge_batch g fp) j = answer (\<lambda>_. Done) (purge_batch io g fp j)"

fun target :: "command \<Rightarrow> string" where
  "target (Prepare g _ _ _) = g"
| "target (Begin b _) = bt_generation b"
| "target (Complete b _ _) = bt_generation b"
| "target (Fail_without_effect b _) = bt_generation b"
| "target (Suspend b _) = bt_generation b"
| "target (Not_dispatched b _) = bt_generation b"
| "target (Delivered b) = bt_generation b"
| "target (Abandon b) = bt_generation b"
| "target (End_batch b) = bt_generation b"
| "target (End_settled g) = g"
| "target (Archive g _) = g"
| "target (Release g _) = g"
| "target (Discard g) = g"
| "target (Purge g) = g"
| "target (Purge_batch g _) = g"

text \<open>A command's transaction, once its handle is admitted.\<close>

fun command_work :: "(string \<Rightarrow> string) \<Rightarrow> f64_reader \<Rightarrow> entropy \<Rightarrow> limits \<Rightarrow> command
    \<Rightarrow> db \<Rightarrow> db \<Rightarrow> bool" where
  "command_work sha read ent lim (Prepare g t xs a) d d' \<longleftrightarrow>
     (\<exists>b u. build sha g t xs (max_operations lim) = Inr b \<and> prepare_work lim b a ent d = Inr (u, d'))"
| "command_work sha read ent lim (Begin b x) d d' \<longleftrightarrow> (\<exists>e. begin_work read lim b x d = Inr (e, d'))"
| "command_work sha read ent lim (Complete b x v) d d' \<longleftrightarrow>
     (\<exists>enc u. canonical_result v (max_result_bytes lim) = Inr enc \<and>
        settle_work b x Completed (Some enc) d = Inr (u, d'))"
| "command_work sha read ent lim (Fail_without_effect b x) d d' \<longleftrightarrow>
     (\<exists>u. settle_work b x No_effect None d = Inr (u, d'))"
| "command_work sha read ent lim (Suspend b x) d d' \<longleftrightarrow> (\<exists>f u. reprepare_work b x f d = Inr (u, d'))"
| "command_work sha read ent lim (Not_dispatched b x) d d' \<longleftrightarrow> (\<exists>f u. reprepare_work b x f d = Inr (u, d'))"
| "command_work sha read ent lim (Delivered b) d d' \<longleftrightarrow> (\<exists>u. delivered_work read lim b d = Inr (u, d'))"
| "command_work sha read ent lim (Abandon b) d d' \<longleftrightarrow> (\<exists>u. abandon_work b d = Inr (u, d'))"
| "command_work sha read ent lim (End_batch b) d d' \<longleftrightarrow> (\<exists>u. end_work b d = Inr (u, d'))"
| "command_work sha read ent lim (End_settled g) d d' \<longleftrightarrow> (\<exists>u. end_generation_work g d = Inr (u, d'))"
| "command_work sha read ent lim (Archive g fp) d d' \<longleftrightarrow> (\<exists>u. archive_work g fp d = Inr (u, d'))"
| "command_work sha read ent lim (Release g fp) d d' \<longleftrightarrow> (\<exists>u. release_work g fp d = Inr (u, d'))"
| "command_work sha read ent lim (Discard g) d d' \<longleftrightarrow>
     d' = snd (delete_batches (\<lambda>h. b_generation h = g \<and> b_state h \<noteq> Archived) d)"
| "command_work sha read ent lim (Purge g) d d' \<longleftrightarrow> d' = snd (delete_batches (\<lambda>h. b_generation h = g) d)"
| "command_work sha read ent lim (Purge_batch g fp) d d' \<longleftrightarrow>
     d' = snd (delete_batches (\<lambda>h. b_generation h = g \<and> b_fingerprint h = fp) d)"

text \<open>\<open>outcome R j p\<close>: the answer \<open>p\<close> refuses and leaves the journal alone, or it commits a change in \<open>R\<close>.\<close>

definition outcome :: "(db \<Rightarrow> db \<Rightarrow> bool) \<Rightarrow> journal \<Rightarrow> (journal_error + 'a) \<times> journal \<Rightarrow> bool" where
  "outcome R j p \<longleftrightarrow> (\<exists>e. p = (Inl e, j)) \<or>
     (\<exists>d d' a. j_connection j = Some d \<and> R d d' \<and> p = (Inr a, j\<lparr>j_connection := Some d'\<rparr>))"

lemma outcome_Inl [simp]: "outcome R j (Inl e, j)"
  by (simp add: outcome_def)

lemma outcome_answer [intro!]: "outcome R j p \<Longrightarrow> outcome R j (answer f p)"
  by (auto simp: outcome_def answer_def)

lemma outcome_writing:
  "(\<And>d a d'. work d = Inr (a, d') \<Longrightarrow> R d d') \<Longrightarrow> outcome R j (writing io failure work j)"
  by (auto simp: outcome_def writing_def split: option.splits if_splits io.splits sum.splits prod.splits)

lemma outcome_handle:
  "outcome R j (case p of (Inl e, j') \<Rightarrow> (Inl e, j') | (Inr _, j') \<Rightarrow> (Inr b, j'))" if "outcome R j p"
  using that by (auto simp: outcome_def)

lemma safe_id_Inr [simp]: "safe_id g = Inr s \<longleftrightarrow> s = g \<and> safe_id_re g"
  by (auto simp: safe_id_def)

lemma batch_require_Inr [simp]: "batch_require b x = Inr u \<longleftrightarrow> x \<in> set (bt_operations b)"
  by (auto simp: batch_require_def)

lemmas command_defs = prepare_batch_def begin_operation_def complete_def fail_without_effect_def
  suspend_def not_dispatched_def delivered_def abandon_uncertain_def end_batch_def end_settled_def archive_def
  release_archive_def discard_def purge_def purge_batch_def remove_def settle_def reprepare_def

text \<open>Every command refuses and changes nothing, or commits exactly its transaction.\<close>

lemma perform_outcome:
  "outcome (command_work sha read ent (j_limits j) c) j (perform sha read io ent c j)"
  by (cases c)
     (auto simp: command_defs intro!: outcome_writing outcome_handle split: sum.splits)

section \<open>Reachable journals keep the invariant\<close>

lemma command_work_inv:
  assumes "db_inv lim d" "command_work sha read ent lim c d d'"
  shows "db_inv lim d'"
  using assms
  by (cases c)
     (auto intro: prepare_work_inv begin_work_inv settle_work_inv reprepare_work_inv delivered_work_inv
        abandon_work_inv end_work_inv end_generation_work_inv archive_work_inv release_work_inv
        delete_batches_inv dest: build_batch_ok)

lemma perform_outcomes:
  assumes "perform sha read io ent c j = (res, j')"
  obtains (refused) e where "res = Inl e" "j' = j"
    | (committed) d d' a where "j_connection j = Some d" "command_work sha read ent (j_limits j) c d d'"
        "res = Inr a" "j' = j\<lparr>j_connection := Some d'\<rparr>"
  using perform_outcome [of sha read ent j c io] assms by (auto simp: outcome_def)

lemma perform_ok:
  assumes "journal_ok j" "perform sha read io ent c j = (res, j')"
  shows "journal_ok j'" "j_limits j' = j_limits j"
  using assms(1) by (rule_tac [!] perform_outcomes [OF assms(2)]) (auto simp: journal_ok_def intro: command_work_inv)

text \<open>A journal opens on an empty database, runs commands, and reopens on its own database after a restart.\<close>

inductive reachable :: "(string \<Rightarrow> string) \<Rightarrow> f64_reader \<Rightarrow> limits \<Rightarrow> journal \<Rightarrow> bool"
  for sha read lim where
  opened: "open_journal lim empty_db = Inr j \<Longrightarrow> reachable sha read lim j"
| commanded: "reachable sha read lim j \<Longrightarrow> perform sha read io ent c j = (res, j') \<Longrightarrow> reachable sha read lim j'"
| restarted: "reachable sha read lim j \<Longrightarrow> j_connection j = Some d \<Longrightarrow> open_journal lim d = Inr j' \<Longrightarrow>
    reachable sha read lim j'"
| closed: "reachable sha read lim j \<Longrightarrow> reachable sha read lim (close j)"

lemma empty_db_inv: "db_inv lim empty_db"
  by (simp add: db_inv_def empty_db_def live_batches_def markers_def)

lemma reachable_ok:
  assumes "reachable sha read lim j"
  shows "journal_ok j \<and> j_limits j = lim"
  using assms
proof (induction rule: reachable.induct)
  case (commanded j io ent c res j')
  then show ?case using perform_ok by metis
qed (auto simp: open_journal_def journal_ok_def empty_db_inv close_def split: if_splits)

section \<open>One generation's slot\<close>

type_synonym slot = "batch_row option \<times> op_row list"

definition slot :: "db \<Rightarrow> string \<Rightarrow> slot" where
  "slot d g = (find_batch d g, ops_of d g)"

definition set_row :: "string \<Rightarrow> (op_row \<Rightarrow> op_row) \<Rightarrow> op_row list \<Rightarrow> op_row list" where
  "set_row i f rs = map (\<lambda>r. if o_interrupt r = i then f r else r) rs"

fun removes :: "command \<Rightarrow> batch_row \<Rightarrow> op_row list \<Rightarrow> bool" where
  "removes (Delivered b) h rs \<longleftrightarrow> b_state h = Open \<and> (\<forall>r \<in> set rs. o_state r = Completed)"
| "removes (Abandon b) h rs \<longleftrightarrow> b_state h = Open \<and> (\<exists>r \<in> set rs. o_state r = Executing)"
| "removes (Release g fp) h rs \<longleftrightarrow> b_state h = Archived \<and> b_fingerprint h = fp"
| "removes (Discard g) h rs \<longleftrightarrow> b_state h \<noteq> Archived"
| "removes (Purge g) h rs \<longleftrightarrow> True"
| "removes (Purge_batch g fp) h rs \<longleftrightarrow> b_fingerprint h = fp"
| "removes _ h rs \<longleftrightarrow> False"

fun settlement :: "command \<Rightarrow> (batch \<times> operation \<times> (op_row \<Rightarrow> op_row)) option" where
  "settlement (Complete b x v) = Some (b, x, \<lambda>r. r\<lparr>o_state := Completed, o_origin := Some Execution_origin,
      o_result := Some (canonical v)\<rparr>)"
| "settlement (Fail_without_effect b x) = Some (b, x, \<lambda>r. r\<lparr>o_state := No_effect, o_origin := Some Execution_origin,
      o_result := None\<rparr>)"
| "settlement (Suspend b x) = Some (b, x, \<lambda>r. r\<lparr>o_state := Prepared\<rparr>)"
| "settlement (Not_dispatched b x) = Some (b, x, \<lambda>r. r\<lparr>o_state := Prepared\<rparr>)"
| "settlement _ = None"

inductive slot_step :: "command \<Rightarrow> slot \<Rightarrow> slot \<Rightarrow> bool" where
  fresh: "fresh_rows g 0 xs rows \<Longrightarrow>
    slot_step (Prepare g t xs a) (None, [])
      (Some \<lparr>b_generation = g, b_fingerprint = fp, b_count = int (length xs), b_state = Open, b_archivable = a\<rparr>, rows)"
| replaced: "b_state h = Ended \<Longrightarrow> fp \<noteq> b_fingerprint h \<Longrightarrow>
    \<forall>x \<in> set xs. op_interrupt x \<notin> o_interrupt ` set rs \<Longrightarrow> fresh_rows g 0 xs rows \<Longrightarrow>
    slot_step (Prepare g t xs a) (Some h, rs)
      (Some \<lparr>b_generation = g, b_fingerprint = fp, b_count = int (length xs), b_state = Open, b_archivable = a\<rparr>, rows)"
| reopened: "b_state h = Ended \<Longrightarrow> b_archivable h = a \<Longrightarrow>
    slot_step (Prepare g t xs a) (Some h, rs) (Some (h\<lparr>b_state := Open\<rparr>), rs)"
| granted: "b_state h = Open \<Longrightarrow> b_fingerprint h = bt_fingerprint b \<Longrightarrow> r \<in> set rs \<Longrightarrow>
    o_interrupt r = op_interrupt x \<Longrightarrow> o_state r = Prepared \<Longrightarrow>
    slot_step (Begin b x) (Some h, rs)
      (Some h, set_row (op_interrupt x) (\<lambda>r. r\<lparr>o_state := Executing, o_attempts := o_attempts r + 1\<rparr>) rs)"
| settled: "settlement c = Some (b, x, f) \<Longrightarrow> b_state h = Open \<Longrightarrow> b_fingerprint h = bt_fingerprint b \<Longrightarrow>
    r \<in> set rs \<Longrightarrow> o_interrupt r = op_interrupt x \<Longrightarrow> o_state r = Executing \<Longrightarrow>
    slot_step c (Some h, rs) (Some h, set_row (op_interrupt x) f rs)"
| ended: "c = End_batch b \<or> c = End_settled g \<Longrightarrow> b_state h = Open \<Longrightarrow> \<forall>r \<in> set rs. o_state r \<noteq> Executing \<Longrightarrow>
    slot_step c (Some h, rs) (Some (h\<lparr>b_state := Ended\<rparr>), rs)"
| archived: "b_fingerprint h = fp \<Longrightarrow> b_archivable h \<Longrightarrow> b_state h \<noteq> Archived \<Longrightarrow>
    slot_step (Archive g fp) (Some h, rs) (Some (h\<lparr>b_state := Archived\<rparr>), [])"
| removed: "removes c h rs \<Longrightarrow> slot_step c (Some h, rs) (None, [])"

inductive_cases slot_step_NoneE: "slot_step c (None, rs) s'"
inductive_cases slot_step_SomeE: "slot_step c (Some h, rs) s'"

section \<open>The journal refines its slots\<close>

lemma slot_update_operations:
  assumes "update_operations p f d = Some (n, d')" "\<And>r. o_generation (f r) = o_generation r"
  shows "slot d' g = (find_batch d g, map (\<lambda>r. if p r then f r else r) (ops_of d g))"
proof -
  have d': "d' = d\<lparr>operations := map (\<lambda>r. if p r then f r else r) (operations d)\<rparr>"
    using assms(1) by (auto simp: update_operations_def split: if_splits)
  have "o_generation (if p r then f r else r) = o_generation r" for r by (simp add: assms(2))
  then show ?thesis by (simp add: slot_def d' find_batch_def ops_of_def filter_map comp_def)
qed

lemma slot_update_batches:
  assumes "update_batches p f d = Some (n, d')" "\<And>b. b_generation (f b) = b_generation b"
  shows "slot d' g = (map_option (\<lambda>b. if p b then f b else b) (find_batch d g), ops_of d g)"
proof -
  have "b_generation (if p b then f b else b) = b_generation b" for b by (simp add: assms(2))
  then show ?thesis
    using update_batches_frame [OF assms(1)] by (simp add: slot_def ops_of_def find_batch_def find_by_map_key)
qed

lemma slot_absent: "db_inv lim d \<Longrightarrow> find_batch d g = None \<Longrightarrow> slot d g = (None, [])"
  by (simp add: slot_def ops_of_absent)

lemma slot_delete_batches:
  assumes inv: "db_inv lim d"
  shows "slot (snd (delete_batches p d)) g =
    (case find_batch d g of None \<Rightarrow> (None, []) | Some h \<Rightarrow> if p h then (None, []) else slot d g)"
proof (cases "find_batch d g")
  case None
  have "find_batch (snd (delete_batches p d)) g = None"
    using None by (auto simp: find_batch_def find_by_None delete_batches_def Let_def)
  then show ?thesis using None slot_absent [OF delete_batches_inv [OF inv]] by simp
next
  case (Some h)
  note mem = find_batch_mem [OF Some]
  have only: "q = h" if "q \<in> set (batches d)" "b_generation q = g" for q
    using same_generation [OF inv that(1), of h] mem that(2) by simp
  show ?thesis
  proof (cases "p h")
    case True
    then have "find_batch (snd (delete_batches p d)) g = None"
      using only by (auto simp: find_batch_def find_by_None delete_batches_def Let_def)
    then show ?thesis using Some True slot_absent [OF delete_batches_inv [OF inv]] by simp
  next
    case False
    let ?d = "snd (delete_batches p d)"
    have "h \<in> set (batches ?d)" using False mem by (auto simp: delete_batches_def Let_def)
    then have "find_batch ?d g = Some h" using find_batch_unique [OF delete_batches_inv [OF inv]] mem by metis
    moreover have "ops_of ?d g = ops_of d g"
      using only False by (auto simp: ops_of_def delete_batches_def Let_def intro!: filter_cong)
    ultimately show ?thesis using Some False by (simp add: slot_def)
  qed
qed

lemma slot_insert_prepared:
  assumes inv: "db_inv lim d" and ok: "batch_ok lim b" and ins: "insert_prepared b a ent d = Inr (u, d')"
  shows "\<exists>rows. fresh_rows (bt_generation b) 0 (bt_operations b) rows \<and>
     slot d' (bt_generation b) = (Some \<lparr>b_generation = bt_generation b, b_fingerprint = bt_fingerprint b,
        b_count = int (length (bt_operations b)), b_state = Open, b_archivable = a\<rparr>, rows)"
    "g \<noteq> bt_generation b \<Longrightarrow> slot d' g = slot d g" "slot d (bt_generation b) = (None, [])"
proof -
  from insert_prepared_Inr [OF inv ok ins] obtain rows where
    absent: "find_batch d (bt_generation b) = None"
    and d': "d' = d\<lparr>batches := batches d @ [\<lparr>b_generation = bt_generation b, b_fingerprint = bt_fingerprint b,
        b_count = int (length (bt_operations b)), b_state = Open, b_archivable = a\<rparr>],
      operations := operations d @ rows\<rparr>"
    and rows: "fresh_rows (bt_generation b) 0 (bt_operations b) rows"
    and none: "ops_of d (bt_generation b) = []" .
  have gen: "\<And>r. r \<in> set rows \<Longrightarrow> o_generation r = bt_generation b" using fresh_rows_facts(3) [OF rows] by blast
  show "slot d (bt_generation b) = (None, [])" using absent none by (simp add: slot_def)
  have "ops_of d' (bt_generation b) = rows"
    using none gen by (auto simp: d' ops_of_def intro: filter_True)
  then show "\<exists>rows. fresh_rows (bt_generation b) 0 (bt_operations b) rows \<and>
     slot d' (bt_generation b) = (Some \<lparr>b_generation = bt_generation b, b_fingerprint = bt_fingerprint b,
        b_count = int (length (bt_operations b)), b_state = Open, b_archivable = a\<rparr>, rows)"
    using rows absent by (auto simp: slot_def d' find_batch_def find_by_append)
  show "slot d' g = slot d g" if "g \<noteq> bt_generation b"
    using that gen
    by (auto simp: slot_def d' find_batch_def find_by_append ops_of_def filter_empty_conv split: option.splits)
qed

text \<open>\<open>moves c d d'\<close>: only the command's own generation moves, by one step of its slot.\<close>

definition moves :: "command \<Rightarrow> db \<Rightarrow> db \<Rightarrow> bool" where
  "moves c d d' \<longleftrightarrow> (\<forall>g. g \<noteq> target c \<longrightarrow> slot d' g = slot d g) \<and>
     (slot d' (target c) = slot d (target c) \<or> slot_step c (slot d (target c)) (slot d' (target c)))"

lemma moves_refl [simp]: "moves c d d"
  by (simp add: moves_def)

lemma slice_of:
  "db_inv lim d \<Longrightarrow> find_batch d g = Some h \<Longrightarrow> slice_ok lim h (ops_of d g) \<and> check_batch h"
  using find_batch_mem by (fastforce simp: db_inv_def)

lemma one_interrupt:
  assumes "db_inv lim d" "r \<in> set (ops_of d g)" "q \<in> set (ops_of d g)" "o_interrupt r = o_interrupt q"
  shows "r = q"
proof -
  have "find_batch d g \<noteq> None" using assms ops_of_absent by fastforce
  then obtain h where "find_batch d g = Some h" by auto
  then have "distinct (map o_interrupt (ops_of d g))" using slice_of [OF assms(1)] by (simp add: slice_ok_def)
  then show ?thesis using assms by (simp add: distinct_map inj_on_def)
qed

lemma moves_update_one:
  assumes inv: "db_inv lim d" and found: "find_operation b x d = Inr r"
    and w: "update_one p f m n d = Inr (u, d')" and gen: "\<And>r. o_generation (f r) = o_generation r"
    and p: "\<And>q. p q \<longleftrightarrow> o_generation q = bt_generation b \<and> o_interrupt q = op_interrupt x \<and> P q" and r: "P r"
  obtains h where "b_state h = Open" "b_fingerprint h = bt_fingerprint b"
    "slot d (bt_generation b) = (Some h, ops_of d (bt_generation b))"
    "r \<in> set (ops_of d (bt_generation b))" "o_interrupt r = op_interrupt x"
    "slot d' (bt_generation b) = (Some h, set_row (op_interrupt x) f (ops_of d (bt_generation b)))"
    "\<And>g. g \<noteq> bt_generation b \<Longrightarrow> slot d' g = slot d g"
proof -
  note sl = slot_update_operations [OF update_one_Inr [OF w] gen]
  from find_operation_Inr [OF found inv] obtain h where h: "find_batch d (bt_generation b) = Some h"
    "b_fingerprint h = bt_fingerprint b" "b_state h = Open" "r \<in> set (operations d)"
    "o_generation r = bt_generation b" "o_interrupt r = op_interrupt x" .
  have r': "r \<in> set (ops_of d (bt_generation b))" using h by (simp add: mem_ops_of)
  have "p q \<longleftrightarrow> o_interrupt q = op_interrupt x" if "q \<in> set (ops_of d (bt_generation b))" for q
    using one_interrupt [OF inv r' that] that h(6) r by (auto simp: p mem_ops_of)
  then have own: "slot d' (bt_generation b) = (Some h, set_row (op_interrupt x) f (ops_of d (bt_generation b)))"
    by (auto simp: sl h(1) set_row_def)
  have "\<not> p q" if "g \<noteq> bt_generation b" "q \<in> set (ops_of d g)" for g q
    using that by (auto simp: p mem_ops_of)
  then have "slot d' g = slot d g" if "g \<noteq> bt_generation b" for g
    using that by (subst sl) (auto simp: slot_def intro!: map_idI)
  then show ?thesis using that h r' own by (simp add: slot_def)
qed

lemma moves_begin:
  assumes inv: "db_inv lim d" and w: "begin_work read lim b x d = Inr (e, d')"
  shows "moves (Begin b x) d d'"
proof -
  from w obtain r where r: "find_operation b x d = Inr r" by (auto simp: begin_work_def rbind_eq_Inr)
  show ?thesis
  proof (cases "d' = d")
    case False
    with w r have "o_state r = Prepared" and u: "update_one (selects b x Prepared)
        (\<lambda>r. r\<lparr>o_state := Executing, o_attempts := o_attempts r + 1\<rparr>)
        ''Action execution could not begin'' ''Action operation changed before execution'' d = Inr ((), d')"
      by (auto simp: begin_work_def rbind_eq_Inr split: operation_state.splits if_splits)
    then show ?thesis
      by (rule_tac moves_update_one [OF inv r u, where P = "\<lambda>q. o_state q = Prepared"])
         (auto simp: selects_def moves_def intro: slot_step.granted)
  qed simp
qed

lemma moves_settle:
  assumes inv: "db_inv lim d" and w: "settle_work b x st enc d = Inr (u, d')"
    and c: "settlement c = Some (b, x, \<lambda>r. r\<lparr>o_state := st, o_origin := Some Execution_origin, o_result := enc\<rparr>)"
    and t: "target c = bt_generation b"
  shows "moves c d d'"
proof -
  from w obtain r where r: "find_operation b x d = Inr r" by (auto simp: settle_work_def rbind_eq_Inr)
  show ?thesis
  proof (cases "d' = d")
    case False
    with w r have "o_state r = Executing" and u: "update_one (selects b x Executing)
        (\<lambda>r. r\<lparr>o_state := st, o_origin := Some Execution_origin, o_result := enc\<rparr>)
        ''Action result could not be committed'' ''Action operation changed before completion'' d = Inr (u, d')"
      by (auto simp: settle_work_def rbind_eq_Inr split: if_splits)
    then show ?thesis
      by (rule_tac moves_update_one [OF inv r u, where P = "\<lambda>q. o_state q = Executing"])
         (auto simp: selects_def moves_def t intro: slot_step.settled [OF c])
  qed simp
qed

lemma moves_reprepare:
  assumes inv: "db_inv lim d" and w: "reprepare_work b x m d = Inr (u, d')"
    and c: "settlement c = Some (b, x, \<lambda>r. r\<lparr>o_state := Prepared\<rparr>)" and t: "target c = bt_generation b"
  shows "moves c d d'"
proof -
  from w obtain r where r: "find_operation b x d = Inr r" by (auto simp: reprepare_work_def rbind_eq_Inr)
  with w have "o_state r = Executing \<and> o_result r = None"
    and u: "update_one (\<lambda>r. selects b x Executing r \<and> o_result r = None) (\<lambda>r. r\<lparr>o_state := Prepared\<rparr>)
        m ''Action operation changed before it returned to prepared'' d = Inr (u, d')"
    by (auto simp: reprepare_work_def split: if_splits)
  then show ?thesis
    by (rule_tac moves_update_one [OF inv r u, where P = "\<lambda>q. o_state q = Executing \<and> o_result q = None"])
       (auto simp: selects_def moves_def t intro: slot_step.settled [OF c])
qed

lemma moves_delete:
  assumes inv: "db_inv lim d" and d': "d' = snd (delete_batches p d)"
    and p: "\<And>h. p h \<Longrightarrow> b_generation h = target c"
    and r: "\<And>h. find_batch d (target c) = Some h \<Longrightarrow> p h \<Longrightarrow> removes c h (ops_of d (target c))"
  shows "moves c d d'"
proof -
  have "slot d' g = slot d g" if "g \<noteq> target c" for g
    using that p find_batch_mem [of d g] slot_absent [OF inv]
    by (auto simp: d' slot_delete_batches [OF inv] split: option.splits)
  moreover have "slot d' (target c) = slot d (target c) \<or> slot_step c (slot d (target c)) (slot d' (target c))"
  proof (cases "find_batch d (target c)")
    case None
    then show ?thesis using slot_absent [OF inv None] by (simp add: d' slot_delete_batches [OF inv])
  next
    case (Some h)
    then have "slot d (target c) = (Some h, ops_of d (target c))" by (simp add: slot_def)
    then show ?thesis using Some r by (auto simp: d' slot_delete_batches [OF inv] intro: slot_step.removed)
  qed
  ultimately show ?thesis by (simp add: moves_def)
qed

lemma delete_batch_Inr:
  "delete_batch b m d = Inr (u, d') \<Longrightarrow>
   d' = snd (delete_batches (\<lambda>h. b_generation h = bt_generation b \<and> b_fingerprint h = bt_fingerprint b) d)"
  by (auto simp: delete_batch_def rbind_eq_Inr split: prod.splits)

lemma load_slot:
  assumes "db_inv lim d" "load b d = Inr rows"
  obtains h where "find_batch d (bt_generation b) = Some h" "b_fingerprint h = bt_fingerprint b" "b_state h = Open"
    "rows = ops_of d (bt_generation b)"
  using load_Inr [OF assms(2)] rows_of_ops_of [OF assms(1)] by metis

lemma moves_delivered:
  assumes inv: "db_inv lim d" and w: "delivered_work read lim b d = Inr (u, d')"
  shows "moves (Delivered b) d d'"
proof (cases "d' = d")
  case False
  with w obtain rows where l: "load b d = Inr rows" and all: "\<forall>r \<in> set rows. o_state r = Completed"
    and del: "delete_batch b ''Action batch changed before delivery'' d = Inr ((), d')"
    by (auto simp: delivered_work_def rbind_eq_Inr list_ex_iff split: if_splits)
  show ?thesis
    by (rule moves_delete [OF inv delete_batch_Inr [OF del]]; rule load_slot [OF inv l])
       (use all in auto)
qed simp

lemma moves_abandon:
  assumes inv: "db_inv lim d" and w: "abandon_work b d = Inr (u, d')"
  shows "moves (Abandon b) d d'"
proof (cases "d' = d")
  case False
  with w obtain rows where l: "load b d = Inr rows" and ex: "\<exists>r \<in> set rows. o_state r = Executing"
    and del: "delete_batch b ''Action batch changed before terminal abandonment'' d = Inr ((), d')"
    by (auto simp: abandon_work_def rbind_eq_Inr list_all_iff split: if_splits)
  show ?thesis
    by (rule moves_delete [OF inv delete_batch_Inr [OF del]]; rule load_slot [OF inv l])
       (use ex in auto)
qed simp

lemma moves_end_settled:
  assumes inv: "db_inv lim d" and w: "end_settled_work g states d = Inr (u, d')"
    and states: "set states = o_state ` set (ops_of d g)" and c: "c = End_batch b \<and> bt_generation b = g \<or> c = End_settled g"
  shows "moves c d d'"
proof (cases "Executing \<in> set states")
  case False
  from w False obtain n where
    u: "update_batches (\<lambda>h. b_generation h = g \<and> b_state h = Open) (\<lambda>h. h\<lparr>b_state := Ended\<rparr>) d = Some (n, d')"
    and n: "n = 1"
    by (auto simp: end_settled_work_def rbind_eq_Inr require_changed_def split: if_splits)
  have t: "target c = g" using c by auto
  have sl: "slot d' k = (map_option (\<lambda>h. if b_generation h = g \<and> b_state h = Open then h\<lparr>b_state := Ended\<rparr> else h)
      (find_batch d k), ops_of d k)" for k by (rule slot_update_batches [OF u]) simp
  have idle: "\<forall>r \<in> set (ops_of d g). o_state r \<noteq> Executing" using False states by force
  have "slot d' k = slot d k" if "k \<noteq> g" for k
    using that find_batch_mem [of d k] by (cases "find_batch d k") (simp_all add: sl, auto simp: slot_def)
  moreover have "slot d' g = slot d g \<or> slot_step c (slot d g) (slot d' g)"
  proof (cases "find_batch d g")
    case (Some h)
    then show ?thesis
      using find_batch_mem [OF Some] idle c
      by (subst (1 2) sl) (auto simp: slot_def intro!: slot_step.ended)
  qed (subst sl, simp add: slot_def)
  ultimately show ?thesis by (simp add: moves_def t)
qed (use w in \<open>auto simp: end_settled_work_def\<close>)

lemma moves_end:
  assumes inv: "db_inv lim d" and w: "end_work b d = Inr (u, d')"
  shows "moves (End_batch b) d d'"
proof (cases "d' = d")
  case False
  with w obtain rows where l: "load b d = Inr rows"
    and e: "end_settled_work (bt_generation b) (map o_state rows) d = Inr (u, d')"
    by (auto simp: end_work_def rbind_eq_Inr split: option.splits if_splits)
  from l have "rows = ops_of d (bt_generation b)"
    by (rule load_Inr) (simp add: rows_of_ops_of [OF inv])
  with moves_end_settled [OF inv e] show ?thesis by simp
qed simp

lemma moves_end_generation:
  assumes inv: "db_inv lim d" and w: "end_generation_work g d = Inr (u, d')"
  shows "moves (End_settled g) d d'"
proof (cases "d' = d")
  case False
  with w obtain v where "end_settled_work g (map o_state (ops_of d g)) d = Inr (v, d')"
    by (auto simp: end_generation_work_def Let_def rbind_eq_Inr ops_of_def split: option.splits if_splits)
  from moves_end_settled [OF inv this] show ?thesis by simp
qed simp

lemma moves_archive:
  assumes inv: "db_inv lim d" and w: "archive_work g fp d = Inr (u, d')"
  shows "moves (Archive g fp) d d'"
proof (cases "d' = d")
  case False
  let ?p = "\<lambda>h. b_generation h = g \<and> b_fingerprint h = fp"
  from w False obtain h n d1 where h: "find_batch d g = Some h" "b_fingerprint h = fp" "b_state h \<noteq> Archived"
    "b_archivable h"
    and upd: "update_batches ?p (\<lambda>h. h\<lparr>b_state := Archived\<rparr>) d = Some (n, d1)"
    and d': "d' = delete_operations (\<lambda>r. o_generation r = g) d1"
    by (auto simp: archive_work_def rbind_eq_Inr split: option.splits if_splits)
  have sl: "slot d1 k = (map_option (\<lambda>h. if ?p h then h\<lparr>b_state := Archived\<rparr> else h) (find_batch d k), ops_of d k)" for k
    by (rule slot_update_batches [OF upd]) simp
  have del: "slot d' k = (fst (slot d1 k), if k = g then [] else snd (slot d1 k))" for k
    by (auto simp: d' delete_operations_def slot_def find_batch_def ops_of_def intro!: filter_cong)
  have "slot d' k = slot d k" if "k \<noteq> g" for k
    using that find_batch_mem [of d k] by (cases "find_batch d k") (simp_all add: del sl, auto simp: slot_def)
  moreover have "slot d g = (Some h, ops_of d g)" using h by (simp add: slot_def)
  moreover have "slot d' g = (Some (h\<lparr>b_state := Archived\<rparr>), [])"
    using h find_batch_mem [OF h(1)] by (simp add: del sl)
  ultimately show ?thesis using h by (auto simp: moves_def intro: slot_step.archived)
qed simp

lemma moves_release:
  assumes inv: "db_inv lim d" and w: "release_work g fp d = Inr (u, d')"
  shows "moves (Release g fp) d d'"
proof (cases "d' = d")
  case False
  with w obtain h where "find_batch d g = Some h" "b_fingerprint h = fp" "b_state h = Archived"
    "d' = snd (delete_batches (\<lambda>h. b_generation h = g) d)"
    by (auto simp: release_work_def split: option.splits if_splits)
  then show ?thesis by (rule_tac moves_delete [OF inv]) auto
qed simp

lemma moves_prepare:
  assumes inv: "db_inv lim d" and b: "build sha g t xs (max_operations lim) = Inr b"
    and w: "prepare_work lim b a ent d = Inr (u, d')"
  shows "moves (Prepare g t xs a) d d'"
proof (cases "find_batch d g")
  case None
  note ok = build_batch_ok [OF b]
  from None w ok have ins: "insert_prepared b a ent d = Inr (u, d')"
    by (auto simp: prepare_work_def rbind_eq_Inr)
  from slot_insert_prepared [OF inv ok(1) ins] ok show ?thesis
    by (auto simp: moves_def intro: slot_step.fresh)
next
  case (Some h)
  note ok = build_batch_ok [OF b]
  have own: "slot d g = (Some h, ops_of d g)" using Some by (simp add: slot_def)
  consider (same) "b_fingerprint h = bt_fingerprint b" "b_archivable h = a" "reopen b (b_state h) d = Inr (u, d')"
    | (fresh) d1 where "b_state h = Ended" "b_fingerprint h \<noteq> bt_fingerprint b" "retire_ended b d = Inr ((), d1)"
        "insert_prepared b a ent d1 = Inr (u, d')"
    using w Some ok by (cases "b_state h") (auto simp: prepare_work_def rbind_eq_Inr split: if_splits)
  then show ?thesis
  proof cases
    case same
    show ?thesis
    proof (cases "b_state h = Ended")
      case True
      let ?p = "\<lambda>h. b_generation h = bt_generation b \<and> b_fingerprint h = bt_fingerprint b \<and> b_state h = Ended"
      from same True obtain n where u: "update_batches ?p (\<lambda>h. h\<lparr>b_state := Open\<rparr>) d = Some (n, d')"
        by (auto simp: reopen_def rbind_eq_Inr)
      have sl: "slot d' k = (map_option (\<lambda>h. if ?p h then h\<lparr>b_state := Open\<rparr> else h) (find_batch d k), ops_of d k)" for k
        by (rule slot_update_batches [OF u]) simp
      have "slot d' k = slot d k" if "k \<noteq> g" for k
        using that find_batch_mem [of d k] ok by (cases "find_batch d k") (simp_all add: sl, auto simp: slot_def)
      moreover have "slot d' g = (Some (h\<lparr>b_state := Open\<rparr>), ops_of d g)"
        using Some True same ok find_batch_mem [OF Some] by (simp add: sl)
      ultimately show ?thesis using own same True by (auto simp: moves_def intro: slot_step.reopened)
    qed (use same in \<open>auto simp: reopen_def rbind_eq_Inr\<close>)
  next
    case fresh
    note ret = retire_ended_Inr [OF fresh(3)]
    have inv1: "db_inv lim d1" unfolding ret(1) by (rule delete_batches_inv [OF inv])
    note ins = slot_insert_prepared [OF inv1 ok(1) fresh(4)]
    have "slot d1 k = slot d k" if "k \<noteq> g" for k
      using that ok find_batch_mem [of d k] slot_absent [OF inv]
      by (auto simp: ret(1) slot_delete_batches [OF inv] split: option.splits)
    then have "slot d' k = slot d k" if "k \<noteq> g" for k using that ins(2) ok by simp
    with ins(1) fresh(1,2) ret(2) ok own show ?thesis
      by (auto simp: moves_def intro!: slot_step.replaced)
  qed
qed

lemma command_work_moves:
  assumes inv: "db_inv lim d" and w: "command_work sha read ent lim c d d'"
  shows "moves c d d'"
proof (cases c)
  case (Complete b x v)
  with w obtain u where "settle_work b x Completed (Some (canonical v)) d = Inr (u, d')"
    by (auto simp: canonical_result_Inr)
  from moves_settle [OF inv this] Complete show ?thesis by simp
next
  case (Fail_without_effect b x)
  with w obtain u where "settle_work b x No_effect None d = Inr (u, d')" by auto
  from moves_settle [OF inv this] Fail_without_effect show ?thesis by simp
next
  case (Suspend b x)
  with w obtain m u where "reprepare_work b x m d = Inr (u, d')" by auto
  from moves_reprepare [OF inv this] Suspend show ?thesis by simp
next
  case (Not_dispatched b x)
  with w obtain m u where "reprepare_work b x m d = Inr (u, d')" by auto
  from moves_reprepare [OF inv this] Not_dispatched show ?thesis by simp
qed (use w moves_prepare [OF inv] moves_begin [OF inv] moves_delivered [OF inv] moves_abandon [OF inv]
      moves_end [OF inv] moves_end_generation [OF inv] moves_archive [OF inv] moves_release [OF inv]
      moves_delete [OF inv] in \<open>auto\<close>)

end
