(* ===== verification/Json_Roundtrip.thy ===== *)
theory Json_Roundtrip
  imports Json_Parser "HOL-Library.Multiset"
begin

text \<open>
  What the strict parser and the canonical writer promise each other. \<open>admissible\<close> is the shape of every value the
  parser answers: distinct member names, valid UTF-8 texts, integers typed by their range. Parsing the canonical bytes of
  an admissible value answers that value with its members sorted (\<open>ordered\<close>), and whatever parses is admissible.
\<close>

section \<open>The values of the parser\<close>

definition utf8 :: "string \<Rightarrow> bool" where
  "utf8 s \<longleftrightarrow> valid_up_to s = length s"

text \<open>An integer literal without a leading zero, signed or not; \<open>number_ok\<close> types it as the parser does. What a float's
  digits and exponent are is an argument, as the reader of floats is.\<close>

definition digits_text :: "string \<Rightarrow> bool" where
  "digits_text ds \<longleftrightarrow> ds \<noteq> [] \<and> list_all digit ds \<and> (starts_with (CHR ''0'') ds \<longrightarrow> ds = ''0'')"

definition integer_text :: "string \<Rightarrow> bool" where
  "integer_text t \<longleftrightarrow> digits_text (eat (CHR ''-'') t) \<and> length (eat (CHR ''-'') t) \<le> MAX_INTEGER_DIGITS"

fun number_ok :: "(bool \<Rightarrow> string \<Rightarrow> int \<Rightarrow> bool) \<Rightarrow> number \<Rightarrow> bool" where
  "number_ok fl (Int64 i) \<longleftrightarrow> in_i64 i"
| "number_ok fl (BigInt t) \<longleftrightarrow> integer_text t \<and> \<not> in_i64 (literal_value t)"
| "number_ok fl (Float64 s d e) \<longleftrightarrow> fl s d e"

fun admissible :: "(bool \<Rightarrow> string \<Rightarrow> int \<Rightarrow> bool) \<Rightarrow> json \<Rightarrow> bool" where
  "admissible fl Null = True"
| "admissible fl (Bool b) = True"
| "admissible fl (Number x) = number_ok fl x"
| "admissible fl (Str s) = utf8 s"
| "admissible fl (Array xs) \<longleftrightarrow> (\<forall>x \<in> set xs. admissible fl x)"
| "admissible fl (Object ms) \<longleftrightarrow> distinct (map fst ms) \<and> (\<forall>(k, v) \<in> set ms. utf8 k \<and> admissible fl v)"

text \<open>The brackets a value's text nests, an empty container's included.\<close>

fun levels :: "json \<Rightarrow> nat" where
  "levels (Array xs) = Suc (fold max (map levels xs) 0)"
| "levels (Object ms) = Suc (fold max (map (\<lambda>(k, v). levels v) ms) 0)"
| "levels _ = 0"

fun ordered :: "json \<Rightarrow> json" where
  "ordered (Array xs) = Array (map ordered xs)"
| "ordered (Object ms) = Object (sort_key fst (map (\<lambda>(k, v). (k, ordered v)) ms))"
| "ordered v = v"

lemma fold_max_le: "fold max xs a \<le> (m :: nat) \<longleftrightarrow> a \<le> m \<and> (\<forall>x \<in> set xs. x \<le> m)"
  by (induction xs arbitrary: a) auto

lemma levels_le_Suc [simp]:
  "levels (Array xs) \<le> Suc m \<longleftrightarrow> (\<forall>x \<in> set xs. levels x \<le> m)"
  "levels (Object ms) \<le> Suc m \<longleftrightarrow> (\<forall>(k, v) \<in> set ms. levels v \<le> m)"
  by (auto simp: fold_max_le)

lemma levels_le_0 [simp]: "levels (Array xs) \<noteq> 0" "levels (Object ms) \<noteq> 0"
  by auto

declare levels.simps(1,2) [simp del]

section \<open>UTF-8 texts\<close>

definition ascii :: "char \<Rightarrow> bool" where
  "ascii c \<longleftrightarrow> of_char c < (0x80 :: nat)"

lemma matches_tail_length: "matches_tail ps s \<Longrightarrow> length ps \<le> length s"
  by (induction ps s rule: matches_tail.induct) auto

lemma matches_tail_append: "matches_tail ps s \<Longrightarrow> matches_tail ps (s @ t)"
  by (induction ps s rule: matches_tail.induct) auto

lemma matches_tail_take: "matches_tail ps s \<Longrightarrow> matches_tail ps (take (length ps) s)"
  by (induction ps s rule: matches_tail.induct) auto

lemma utf8_step_le: "utf8_step s \<le> length s"
  by (cases s) (auto simp: Let_def dest: matches_tail_length)

lemma utf8_step_append: "utf8_step s \<noteq> 0 \<Longrightarrow> utf8_step (s @ t) = utf8_step s"
  by (cases s) (auto simp: Let_def matches_tail_append split: if_splits)

lemma utf8_step_take: "utf8_step s \<noteq> 0 \<Longrightarrow> utf8_step (take (utf8_step s) s) = utf8_step s"
  by (cases s) (auto simp: Let_def matches_tail_take split: if_splits)

lemma valid_up_to_le: "valid_up_to s \<le> length s"
proof (induction s rule: valid_up_to.induct)
  case (1 s)
  then show ?case using utf8_step_le [of s] by (subst valid_up_to.simps) auto
qed

lemma utf8_unfold: "utf8 s \<longleftrightarrow> s = [] \<or> (utf8_step s \<noteq> 0 \<and> utf8 (drop (utf8_step s) s))"
  using utf8_step_le [of s] by (subst utf8_def, subst valid_up_to.simps) (auto simp: utf8_def)

lemma utf8_Nil [simp]: "utf8 []"
  by (subst utf8_unfold) simp

lemma utf8_ascii [simp]: "ascii c \<Longrightarrow> utf8 (c # s) = utf8 s"
  by (subst utf8_unfold) (simp add: ascii_def)

lemma utf8_append: "utf8 s \<Longrightarrow> utf8 (s @ t) = utf8 t"
proof (induction s rule: valid_up_to.induct)
  case (1 s)
  show ?case
  proof (cases "s = []")
    case False
    then have s: "utf8_step s \<noteq> 0" "utf8 (drop (utf8_step s) s)" using 1(2) utf8_unfold [of s] by auto
    then have "utf8 (s @ t) \<longleftrightarrow> utf8 (drop (utf8_step s) s @ t)"
      using False utf8_step_le [of s] by (subst utf8_unfold) (simp add: utf8_step_append)
    with 1(1) False s show ?thesis by simp
  qed simp
qed

lemma utf8_ascii_text: "list_all ascii s \<Longrightarrow> utf8 s"
  by (induction s) auto

lemma utf8_dropWhile: "utf8 s \<Longrightarrow> (\<And>c. p c \<Longrightarrow> ascii c) \<Longrightarrow> utf8 (dropWhile p s)"
  by (induction s) auto

lemma utf8_drop: "utf8 s \<Longrightarrow> list_all ascii (take k s) \<Longrightarrow> utf8 (drop k s)"
  using utf8_append [of "take k s" "drop k s"] utf8_ascii_text [of "take k s"] by simp

lemma ascii_digit: "digit c \<Longrightarrow> ascii c"
  by (simp add: digit_def between_def ascii_def)

text \<open>A sequence of several bytes holds no ASCII byte.\<close>

lemma matches_tail_high:
  "matches_tail ps s \<Longrightarrow> \<forall>(lo, hi) \<in> set ps. 0x80 \<le> lo \<Longrightarrow> list_all (\<lambda>c. \<not> ascii c) (take (length ps) s)"
  by (induction ps s rule: matches_tail.induct) (auto simp: continuation_def ascii_def)

lemma sequence_tail_high: "\<forall>(lo, hi) \<in> set (sequence_tail b). 0x80 \<le> lo"
  by (auto simp: sequence_tail_def)

lemma utf8_step_high:
  assumes "utf8_step s \<noteq> 0" "\<not> ascii (hd s)"
  shows "list_all (\<lambda>c. \<not> ascii c) (take (utf8_step s) s)"
proof (cases s)
  case (Cons c cs)
  then show ?thesis
    using assms matches_tail_high [OF _ sequence_tail_high, of "of_char c" cs]
    by (auto simp: ascii_def Let_def split: if_splits)
qed (use assms in auto)

lemma utf8_induct [consumes 1, case_names Nil ascii sequence]:
  assumes "utf8 s"
    and "P []"
    and "\<And>c s. ascii c \<Longrightarrow> utf8 s \<Longrightarrow> P s \<Longrightarrow> P (c # s)"
    and "\<And>p s. p \<noteq> [] \<Longrightarrow> list_all (\<lambda>c. \<not> ascii c) p \<Longrightarrow> utf8 p \<Longrightarrow> utf8 s \<Longrightarrow> P s \<Longrightarrow> P (p @ s)"
  shows "P s"
  using assms(1)
proof (induction s rule: valid_up_to.induct)
  case (1 s)
  show ?case
  proof (cases s)
    case Nil
    then show ?thesis using assms(2) by simp
  next
    case (Cons c cs)
    then have s: "utf8_step s \<noteq> 0" "utf8 (drop (utf8_step s) s)" using 1(2) utf8_unfold [of s] by auto
    have P: "P (drop (utf8_step s) s)" using 1(1) Cons s by simp
    show ?thesis
    proof (cases "ascii c")
      case True
      then have "utf8_step s = 1" using Cons by (simp add: ascii_def)
      then show ?thesis using assms(3) [OF True s(2) P] Cons by simp
    next
      case False
      let ?p = "take (utf8_step s) s"
      have "utf8_step ?p = utf8_step s"
        by (rule utf8_step_take [OF s(1)])
      then have "utf8 ?p" using s(1) by (subst utf8_unfold) simp
      moreover have "list_all (\<lambda>c. \<not> ascii c) ?p" using utf8_step_high [OF s(1)] False Cons by simp
      moreover have "?p \<noteq> []" using s(1) Cons by simp
      ultimately have "P (?p @ drop (utf8_step s) s)" using assms(4) s(2) P by blast
      then show ?thesis by simp
    qed
  qed
qed

section \<open>Reading numbers back\<close>

lemma starts_with_iff: "starts_with c s \<longleftrightarrow> (\<exists>xs. s = c # xs)"
  by (cases s) auto

lemma eat_simps [simp]:
  "eat c (c # s) = s" "x \<noteq> c \<Longrightarrow> eat c (x # s) = x # s" "eat c [] = []"
  by (simp_all add: eat_def)

lemma digit_simps [simp]: "\<not> digit (CHR ''-'')" "\<not> digit (CHR ''.'')" "\<not> digit (CHR ''e'')" "digit (CHR ''0'')"
  "\<not> digit (CHR '','')" "\<not> digit (CHR '']'')" "\<not> digit (CHR ''}'')" "\<not> digit (CHR ''+'')"
  by (simp_all add: digit_def between_def)

text \<open>What may follow a value: nothing, or a separator.\<close>

definition delimited :: "string \<Rightarrow> bool" where
  "delimited s \<longleftrightarrow> (case s of [] \<Rightarrow> True | c # _ \<Rightarrow> c \<in> set '',]}'')"

lemma required_digits_append:
  assumes "list_all digit ds" "ds \<noteq> []" "rest = [] \<or> \<not> digit (hd rest)"
  shows "required_digits n (ds @ rest) = Inr rest"
proof -
  have "dropWhile digit (ds @ rest) = rest"
    using assms by (cases rest) (auto simp: dropWhile_append list_all_iff)
  then show ?thesis using assms(2) by (simp add: required_digits_def Let_def)
qed

lemma integral_part_append:
  assumes "digits_text (eat (CHR ''-'') t)" "rest = [] \<or> \<not> digit (hd rest)"
  shows "integral_part n (t @ rest) = Inr rest"
proof -
  let ?ds = "eat (CHR ''-'') t"
  have ds: "?ds \<noteq> []" "list_all digit ?ds" "starts_with (CHR ''0'') ?ds \<longrightarrow> ?ds = ''0''"
    using assms(1) by (auto simp: digits_text_def)
  have "eat (CHR ''-'') (t @ rest) = ?ds @ rest" using ds(1) by (cases t) (auto simp: eat_def)
  moreover have "starts_with (CHR ''0'') (?ds @ rest) = starts_with (CHR ''0'') ?ds" using ds(1) by (cases ?ds) auto
  ultimately show ?thesis
    using ds required_digits_append [OF ds(2,1) assms(2)] by (auto simp: integral_part_def Let_def)
qed

lemma delimited_parts:
  assumes "delimited rest"
  shows "rest = [] \<or> \<not> digit (hd rest)" "fraction_part n rest = Inr rest" "exponent_part n rest = Inr rest"
  using assms by (auto simp: delimited_def fraction_part_def exponent_part_def split: list.splits)

lemma parse_integer_text:
  assumes "digits_text (eat (CHR ''-'') t)" "delimited rest"
  shows "parse_number read n (t @ rest) = rbind (integer t (offset n (t @ rest))) (\<lambda>v. Inr (v, rest))"
  using integral_part_append [OF assms(1) delimited_parts(1) [OF assms(2)]] delimited_parts [OF assms(2)]
  by (simp add: parse_number_def)

lemma digit_char_digit: "d < 10 \<Longrightarrow> digit (digit_char d) \<and> decimal_digit (digit_char d) = int d"
  by (simp add: digit_char_def digit_def between_def decimal_digit_def)

lemma decimal_value_append: "decimal_value (ds @ [c]) = decimal_value ds * 10 + decimal_digit c"
  by (simp add: decimal_value_def)

lemma digit_char_zero: "d < 10 \<Longrightarrow> digit_char d = CHR ''0'' \<longleftrightarrow> d = 0"
  by (simp add: digit_char_def char_of_eq_iff take_bit_nat_eq_self)

lemma show_nat_digits:
  "show_nat k \<noteq> [] \<and> list_all digit (show_nat k) \<and> decimal_value (show_nat k) = int k \<and>
   (starts_with (CHR ''0'') (show_nat k) \<longleftrightarrow> k = 0)"
proof (induction k rule: show_nat.induct)
  case (1 k)
  show ?case
  proof (cases "k < 10")
    case True
    then show ?thesis
      by (subst (1 2 3 4) show_nat.simps) (simp add: digit_char_digit decimal_value_def digit_char_zero)
  next
    case False
    note ih = "1.IH" [OF False]
    have "starts_with (CHR ''0'') (show_nat (k div 10) @ [digit_char (k mod 10)]) = starts_with (CHR ''0'') (show_nat (k div 10))"
      using ih by (cases "show_nat (k div 10)") auto
    moreover have "k div 10 \<noteq> 0" using False by simp
    moreover have eq: "show_nat k = show_nat (k div 10) @ [digit_char (k mod 10)]" using False by (subst show_nat.simps) simp
    moreover have "int (k div 10) * 10 + int (k mod 10) = int k" by presburger
    ultimately show ?thesis
      unfolding eq using ih digit_char_digit [of "k mod 10"] by (simp add: decimal_value_append)
  qed
qed

lemma show_nat_zero: "show_nat 0 = ''0''"
  by (subst show_nat.simps) (simp add: digit_char_def char_of_eq_iff)

lemma show_nat_length: "k < 10 ^ m \<Longrightarrow> 0 < m \<Longrightarrow> length (show_nat k) \<le> m"
proof (induction m arbitrary: k)
  case (Suc m)
  show ?case
  proof (cases "k < 10")
    case True
    then show ?thesis by (subst show_nat.simps) simp
  next
    case False
    then have "0 < m" "k div 10 < 10 ^ m" using Suc.prems by (cases m; simp add: less_mult_imp_div_less)+
    then show ?thesis using Suc.IH [of "k div 10"] False by (subst show_nat.simps) simp
  qed
qed simp

lemma show_int_text:
  assumes "in_i64 i"
  shows "integer_text (show_int i)" "literal_value (show_int i) = i"
proof -
  have bound: "nat \<bar>i\<bar> < 10 ^ 19" using assms by (simp add: in_i64_bounds) linarith
  have digits: "digits_text (show_nat k)" for k
    using show_nat_digits [of k] by (cases "k = 0") (auto simp: digits_text_def show_nat_zero)
  have minus: "eat (CHR ''-'') (show_nat k) = show_nat k" "\<not> starts_with (CHR ''-'') (show_nat k)" for k
    using show_nat_digits [of k] by (cases "show_nat k"; auto simp: eat_def)+
  have len: "length (show_nat (nat \<bar>i\<bar>)) \<le> 19" using show_nat_length [OF bound] by simp
  show "integer_text (show_int i)"
    using digits len minus by (auto simp: integer_text_def show_int_def MAX_INTEGER_DIGITS_def)
  show "literal_value (show_int i) = i"
    using minus show_nat_digits by (auto simp: literal_value_def show_int_def)
qed

text \<open>The digits and exponent Rust prints of a finite float: no leading zero but for zero itself.\<close>

definition float_shape :: "string \<Rightarrow> int \<Rightarrow> bool" where
  "float_shape d e \<longleftrightarrow> digits_text d \<and> (d = ''0'' \<longrightarrow> e = 0)"

lemma parse_float_text:
  assumes sign: "sg \<in> {[], ''-''}"
    and ip: "digits_text ip"
    and fp: "fp = [] \<or> (\<exists>ds. fp = CHR ''.'' # ds \<and> ds \<noteq> [] \<and> list_all digit ds)"
    and ep: "ep = [] \<or> (\<exists>x ds. ep = CHR ''e'' # x # ds \<and> x \<in> set ''+-'' \<and> ds \<noteq> [] \<and> list_all digit ds)"
    and some: "fp @ ep \<noteq> []" and rest: "delimited rest"
  shows "parse_number read n ((sg @ ip @ fp @ ep) @ rest) =
    rbind (float read (sg @ ip @ fp @ ep) (offset n ((sg @ ip @ fp @ ep) @ rest))) (\<lambda>v. Inr (v, rest))"
proof -
  have ip0: "eat (CHR ''-'') (sg @ ip) = ip"
    using sign ip by (cases ip) (auto simp: digits_text_def eat_def)
  have follow: "ep @ rest = [] \<or> \<not> digit (hd (ep @ rest))" "fp @ ep @ rest = [] \<or> \<not> digit (hd (fp @ ep @ rest))"
    using fp ep delimited_parts(1) [OF rest] by auto
  have i: "integral_part n ((sg @ ip) @ fp @ ep @ rest) = Inr (fp @ ep @ rest)"
    using integral_part_append [OF _ follow(2), of "sg @ ip" n] ip ip0 by simp
  have f: "fraction_part n (fp @ ep @ rest) = Inr (ep @ rest)"
  proof (cases "fp = []")
    case True
    then show ?thesis
      using ep delimited_parts(2) [OF rest] by (auto simp: fraction_part_def)
  next
    case False
    then show ?thesis using fp required_digits_append [OF _ _ follow(1)] by (auto simp: fraction_part_def)
  qed
  have e: "exponent_part n (ep @ rest) = Inr rest"
  proof (cases "ep = []")
    case True
    then show ?thesis using delimited_parts(3) [OF rest] by simp
  next
    case False
    then show ?thesis
      using ep required_digits_append [OF _ _ delimited_parts(1) [OF rest]]
      by (auto simp: exponent_part_def exponent_sign_def)
  qed
  show ?thesis using i f e some by (auto simp: parse_number_def)
qed

lemma show_nat_all_digits: "list_all digit (show_nat k)" "show_nat k \<noteq> []"
  using show_nat_digits [of k] by auto

lemma two_digits_digits: "list_all digit (two_digits k)" "two_digits k \<noteq> []"
  by (auto simp: two_digits_def show_nat_all_digits)

lemma list_all_take_drop: "list_all p xs \<Longrightarrow> list_all p (take k xs)" "list_all p xs \<Longrightarrow> list_all p (drop k xs)"
  by (auto simp: list_all_iff dest: in_set_takeD in_set_dropD)

lemma digits_text_take: "digits_text d \<Longrightarrow> d \<noteq> ''0'' \<Longrightarrow> 0 < k \<Longrightarrow> digits_text (take k d)"
  by (cases d; cases k) (auto simp: digits_text_def list_all_take_drop)

lemma digits_text_zeros: "digits_text d \<Longrightarrow> d \<noteq> ''0'' \<or> k = 0 \<Longrightarrow> digits_text (d @ replicate k (CHR ''0''))"
  by (cases d) (auto simp: digits_text_def list_all_iff)

lemma float_repr_parts:
  assumes "float_shape d e"
  obtains ip fp ep where "float_repr s d e = (if s then ''-'' else []) @ ip @ fp @ ep" "digits_text ip"
    "fp = [] \<or> (\<exists>ds. fp = CHR ''.'' # ds \<and> ds \<noteq> [] \<and> list_all digit ds)"
    "ep = [] \<or> (\<exists>x ds. ep = CHR ''e'' # x # ds \<and> x \<in> set ''+-'' \<and> ds \<noteq> [] \<and> list_all digit ds)"
    "fp @ ep \<noteq> []"
proof -
  have d: "digits_text d" "d \<noteq> []" "list_all digit d" "d = ''0'' \<longrightarrow> e = 0"
    using assms unfolding float_shape_def digits_text_def by blast+
  let ?p = "e + 1"
  consider "- 4 \<le> e" "e < 16" "?p \<le> 0" | "- 4 \<le> e" "e < 16" "0 < ?p" "int (length d) \<le> ?p"
    | "- 4 \<le> e" "e < 16" "0 < ?p" "?p < int (length d)" | "\<not> (- 4 \<le> e \<and> e < 16)" by linarith
  then show thesis
  proof cases
    case 1
    show thesis
      by (rule that [of "''0''" "CHR ''.'' # replicate (nat (- ?p)) (CHR ''0'') @ d" "[]"])
        (use 1 d in \<open>auto simp: float_repr_def positional_def digits_text_def list_all_iff\<close>)
  next
    case 2
    have "digits_text (d @ replicate (nat (?p - int (length d))) (CHR ''0''))"
      by (rule digits_text_zeros) (use d 2 in auto)
    then show thesis
      by (rule that [of _ "''.0''" "[]", rotated]) (use 2 in \<open>auto simp: float_repr_def positional_def Let_def\<close>)
  next
    case 3
    have "digits_text (take (nat ?p) d)" by (rule digits_text_take) (use d 3 in auto)
    then show thesis
      by (rule that [of _ "CHR ''.'' # drop (nat ?p) d" "[]", rotated])
        (use 3 d in \<open>auto simp: float_repr_def positional_def Let_def list_all_take_drop\<close>)
  next
    case 4
    have "digits_text (take 1 d)" by (rule digits_text_take) (use d 4 in auto)
    then show thesis
      by (rule that [of _ "if drop 1 d = [] then [] else CHR ''.'' # drop 1 d"
            "CHR ''e'' # (if e < 0 then CHR ''-'' else CHR ''+'') # two_digits (nat \<bar>e\<bar>)", rotated])
        (use 4 d in \<open>auto simp: float_repr_def two_digits_digits list_all_take_drop\<close>)
  qed
qed

text \<open>A reader of floats reads back what the writer prints of the floats \<open>fl\<close> names: the shortest digits of a finite
  float determine it.\<close>

definition reads_back :: "f64_reader \<Rightarrow> (bool \<Rightarrow> string \<Rightarrow> int \<Rightarrow> bool) \<Rightarrow> bool" where
  "reads_back read fl \<longleftrightarrow> (\<forall>s d e. fl s d e \<longrightarrow> float_shape d e \<and> read (float_repr s d e) = Some (s, d, e))"

lemma number_text_back:
  assumes rb: "reads_back read fl" and ok: "number_ok fl x" and rest: "delimited rest"
  shows "parse_number read n (number_text x @ rest) = Inr (x, rest)"
proof (cases x)
  case (Int64 i)
  then show ?thesis
    using ok show_int_text [of i] parse_integer_text [OF _ rest, of "show_int i"]
    by (simp add: integer_def integer_text_def)
next
  case (BigInt t)
  then show ?thesis
    using ok parse_integer_text [OF _ rest, of t] by (simp add: integer_def integer_text_def)
next
  case (Float64 s d e)
  then have fl: "float_shape d e" "read (float_repr s d e) = Some (s, d, e)"
    using ok rb by (auto simp: reads_back_def)
  obtain ip fp ep where repr: "float_repr s d e = (if s then ''-'' else []) @ ip @ fp @ ep" and parts: "digits_text ip"
    "fp = [] \<or> (\<exists>ds. fp = CHR ''.'' # ds \<and> ds \<noteq> [] \<and> list_all digit ds)"
    "ep = [] \<or> (\<exists>x ds. ep = CHR ''e'' # x # ds \<and> x \<in> set ''+-'' \<and> ds \<noteq> [] \<and> list_all digit ds)" "fp @ ep \<noteq> []"
    by (rule float_repr_parts [OF fl(1), of s])
  have "parse_number read n (float_repr s d e @ rest) =
      rbind (float read (float_repr s d e) (offset n (float_repr s d e @ rest))) (\<lambda>v. Inr (v, rest))"
    unfolding repr by (rule parse_float_text [OF _ parts rest]) simp
  then show ?thesis using Float64 fl(2) by (simp add: float_def)
qed

section \<open>Reading texts back\<close>

lemma hex_value_digit: "d < 16 \<Longrightarrow> hex_value (hex_digit d) = Some d"
  by (auto simp: hex_value_def hex_digit_def digit_def between_def Let_def)

lemma char_code_eq: "c = d \<longleftrightarrow> of_char c = (of_char d :: nat)"
  by simp

lemma string_body_escape:
  "escape n (CHR 0x5C # s) = Inr (decoded, t) \<Longrightarrow>
   string_body n (CHR 0x5C # s) = rbind (string_body n t) (\<lambda>(more, rest). Inr (decoded @ more, rest))"
  by simp

lemma escape_control:
  assumes "of_char c < (32 :: nat)"
  shows "escape n (CHR 0x5C # CHR ''u'' # CHR ''0'' # CHR ''0'' # hex_digit (of_char c div 16) # hex_digit (of_char c mod 16) # t)
    = Inr ([c], t)"
proof -
  have "hex_value (hex_digit (of_char c div 16)) = Some (of_char c div 16)"
    "hex_value (hex_digit (of_char c mod 16)) = Some (of_char c mod 16)"
    using assms by (auto intro!: hex_value_digit)
  moreover have "hex_value (CHR ''0'') = Some 0" by (simp add: hex_value_def digit_def between_def)
  ultimately show ?thesis
    using assms by (simp add: escape_def unicode_def hex4_def scalar_value_def utf8_encode_def)
qed

lemma string_body_escape_char:
  "string_body n (escape_char c @ t) = rbind (string_body n t) (\<lambda>(more, rest). Inr (c # more, rest))"
proof -
  let ?x = "of_char c :: nat"
  consider "?x = 34" | "?x = 92" | "?x = 10" | "?x = 13" | "?x = 9" | "?x = 8" | "?x = 12"
    | "?x < 32" "?x \<notin> {10, 13, 9, 8, 12}" | "32 \<le> ?x" "?x \<noteq> 34" "?x \<noteq> 92"
    by fastforce
  then show ?thesis
  proof cases
    case 1
    then have "c = CHR 0x22" by (simp add: char_code_eq [of c] del: of_char_eq_iff)
    then show ?thesis by (simp add: escape_char_def escape_def)
  next
    case 2
    then have "c = CHR 0x5C" by (simp add: char_code_eq [of c] del: of_char_eq_iff)
    then show ?thesis by (simp add: escape_char_def escape_def)
  next
    case 3
    then have "c = char_of (10 :: nat)" by (metis char_of_char)
    then show ?thesis by (simp add: escape_char_def escape_def)
  next
    case 4
    then have "c = char_of (13 :: nat)" by (metis char_of_char)
    then show ?thesis by (simp add: escape_char_def escape_def)
  next
    case 5
    then have "c = char_of (9 :: nat)" by (metis char_of_char)
    then show ?thesis by (simp add: escape_char_def escape_def)
  next
    case 6
    then have "c = char_of (8 :: nat)" by (metis char_of_char)
    then show ?thesis by (simp add: escape_char_def escape_def)
  next
    case 7
    then have "c = char_of (12 :: nat)" by (metis char_of_char)
    then show ?thesis by (simp add: escape_char_def escape_def)
  next
    case 8
    then have "escape_char c = [CHR 0x5C, CHR ''u'', CHR ''0'', CHR ''0'', hex_digit (?x div 16), hex_digit (?x mod 16)]"
      by (simp add: escape_char_def Let_def)
    then show ?thesis using string_body_escape [OF escape_control [OF 8(1)]] by simp
  next
    case 9
    then have "escape_char c = [c]" by (simp add: escape_char_def Let_def)
    moreover have "c \<noteq> CHR 0x22" "c \<noteq> CHR 0x5C" using 9 by auto
    ultimately show ?thesis using 9(1) by simp
  qed
qed

lemma write_string_back: "parse_string n (write_string s @ rest) = Inr (s, rest)"
proof -
  have "string_body n (concat (map escape_char s) @ CHR 0x22 # rest) = Inr (s, rest)"
    by (induction s) (simp_all add: string_body_escape_char)
  then show ?thesis by (simp add: parse_string_def write_string_def)
qed

section \<open>Reading values back\<close>

lemma sort_key_map_snd: "sort_key fst (map (\<lambda>(k, v). (k, f v)) ms) = map (\<lambda>(k, v). (k, f v)) (sort_key fst ms)"
proof -
  have ins: "insort_key fst (k, f v) (map (\<lambda>(k, v). (k, f v)) ms) = map (\<lambda>(k, v). (k, f v)) (insort_key fst (k, v) ms)" for k v ms
    by (induction ms) auto
  show ?thesis by (induction ms) (auto simp: ins)
qed

lemma unique_iff: "unique ms n = (if distinct (map fst ms) then Inr (Object ms) else Inl (DuplicateKey n))"
proof -
  have "list_ex (\<lambda>(a, b). a = b) (zip xs (tl xs)) \<longleftrightarrow> \<not> distinct xs" if "sorted xs" for xs :: "string list"
    using that
  proof (induction xs rule: induct_list012)
    case (3 x y zs)
    then show ?case by (auto simp: less_le)
  qed auto
  from this [of "sort (map fst ms)"] show ?thesis by (simp add: unique_def)
qed

lemma number_text_start:
  assumes "number_ok fl x" "reads_back read fl"
  shows "\<exists>c cs. number_text x = c # cs \<and> (c = CHR ''-'' \<or> digit c)"
proof (cases x)
  case (Int64 i)
  show ?thesis using show_nat_digits [of "nat i"] by (cases "show_nat (nat i)") (auto simp: Int64 show_int_def)
next
  case (BigInt t)
  then show ?thesis using assms(1) by (cases t) (auto simp: integer_text_def digits_text_def eat_def split: if_splits)
next
  case (Float64 s d e)
  have "float_shape d e" using assms Float64 by (auto simp: reads_back_def)
  then show ?thesis by (rule float_repr_parts [of d e s]) (auto simp: Float64 digits_text_def neq_Nil_conv)
qed

definition member_text :: "string \<times> json \<Rightarrow> string" where
  "member_text m = write_string (fst m) @ CHR '':'' # canonical (snd m)"

lemma canonical_simps:
  "canonical Null = ''null''"
  "canonical (Bool b) = (if b then ''true'' else ''false'')"
  "canonical (Number x) = number_text x"
  "canonical (Str s) = write_string s"
  "canonical (Array xs) = CHR ''['' # join '','' (map canonical xs) @ '']''"
  "canonical (Object ms) = CHR ''{'' # join '','' (map member_text (sort_key fst ms)) @ ''}''"
  by (simp_all add: canonical_def [abs_def] dumps_def CANONICAL_def item_separator_def member_text_def [abs_def] split_def Let_def)

text \<open>No text of a value, a member or a member name starts with white space, ends a container or leaves ASCII.\<close>

definition opens :: "string \<Rightarrow> bool" where
  "opens s \<longleftrightarrow> (case s of [] \<Rightarrow> False | c # _ \<Rightarrow> ascii c \<and> \<not> json_space c \<and> c \<noteq> CHR '']'' \<and> c \<noteq> CHR ''}'')"

lemma opens_append [simp]: "opens s \<Longrightarrow> skip_whitespace (s @ t) = s @ t"
  "opens s \<Longrightarrow> \<not> starts_with (CHR '']'') (s @ t)" "opens s \<Longrightarrow> \<not> starts_with (CHR ''}'') (s @ t)"
  by (auto simp: opens_def skip_whitespace_def split: list.splits)

lemma opens_not_Nil: "opens s \<Longrightarrow> s \<noteq> []"
  by (auto simp: opens_def split: list.splits)

lemma opens_member [simp]: "opens (member_text m)"
  by (simp add: opens_def member_text_def write_string_def json_space_def ascii_def)

lemma opens_canonical:
  assumes "admissible fl v" "reads_back read fl"
  shows "opens (canonical v)"
proof (cases v)
  case (Number x)
  have "number_ok fl x" using assms(1) Number by simp
  from number_text_start [OF this assms(2)] obtain c cs where "number_text x = c # cs" "c = CHR ''-'' \<or> digit c" by blast
  then show ?thesis
    by (auto simp: Number canonical_simps opens_def json_space_def digit_def between_def ascii_def)
qed (auto simp: canonical_simps opens_def json_space_def write_string_def ascii_def)

lemma skip_delimiters [simp]:
  "skip_whitespace (CHR '','' # s) = CHR '','' # s" "skip_whitespace (CHR '']'' # s) = CHR '']'' # s"
  "skip_whitespace (CHR ''}'' # s) = CHR ''}'' # s" "skip_whitespace (CHR '':'' # s) = CHR '':'' # s"
  "skip_whitespace [] = []"
  by (simp_all add: skip_whitespace_def json_space_def)

lemma delimited_simps [simp]: "delimited []" "delimited (CHR '','' # s)" "delimited (CHR '']'' # s)" "delimited (CHR ''}'' # s)"
  by (simp_all add: delimited_def)

lemma join_length: "\<forall>x \<in> set xs. f x \<noteq> [] \<Longrightarrow> length xs \<le> length (join '','' (map f xs))"
proof (induction xs rule: induct_list012)
  case (2 x)
  then show ?case by (cases "f x") auto
next
  case (3 x y zs)
  then show ?case by simp
qed auto

lemma opens_join: "xs \<noteq> [] \<Longrightarrow> opens (f (hd xs)) \<Longrightarrow> opens (join '','' (map f xs))"
  by (cases xs; cases "tl xs") (auto simp: opens_def split: list.splits)

text \<open>The loops read back a list of texts, each of which the element's parser reads back.\<close>

lemma array_loop_back:
  assumes "xs \<noteq> []" "length xs \<le> fuel"
    and "\<And>x rest. x \<in> set xs \<Longrightarrow> delimited rest \<Longrightarrow> value (f x @ rest) = Inr (g x, rest)"
    and "\<And>x. x \<in> set xs \<Longrightarrow> opens (f x)"
  shows "array_loop value n fuel (join '','' (map f xs) @ CHR '']'' # rest) = Inr (map g xs, rest)"
  using assms
proof (induction xs arbitrary: fuel rule: induct_list012)
  case (2 x)
  then show ?case by (cases fuel) (auto simp: separator_def)
next
  case (3 x y zs)
  then obtain m where m: "fuel = Suc m" by (cases fuel) auto
  have ih: "array_loop value n m (join '','' (map f (y # zs)) @ CHR '']'' # rest) = Inr (map g (y # zs), rest)"
    by (rule "3.IH"(2)) (use "3.prems" m in auto)
  have "opens (join '','' (map f (y # zs)))"
    using "3.prems"(4) [of y] by (intro opens_join) auto
  then show ?case using "3.prems"(3) [of x] ih by (simp add: m separator_def)
qed simp

lemma object_loop_back:
  assumes "xs \<noteq> []" "length xs \<le> fuel"
    and "\<And>x rest. x \<in> set xs \<Longrightarrow> delimited rest \<Longrightarrow> parse_member value n (f x @ rest) = Inr (g x, rest)"
    and "\<And>x. x \<in> set xs \<Longrightarrow> opens (f x)"
  shows "object_loop value n fuel (join '','' (map f xs) @ CHR ''}'' # rest) = Inr (map g xs, rest)"
  using assms
proof (induction xs arbitrary: fuel rule: induct_list012)
  case (2 x)
  then show ?case by (cases fuel) (auto simp: separator_def)
next
  case (3 x y zs)
  then obtain m where m: "fuel = Suc m" by (cases fuel) auto
  have ih: "object_loop value n m (join '','' (map f (y # zs)) @ CHR ''}'' # rest) = Inr (map g (y # zs), rest)"
    by (rule "3.IH"(2)) (use "3.prems" m in auto)
  have "opens (join '','' (map f (y # zs)))"
    using "3.prems"(4) [of y] by (intro opens_join) auto
  then show ?case using "3.prems"(3) [of x] ih by (simp add: m separator_def)
qed simp

lemma parse_array_back:
  assumes "\<And>x rest. x \<in> set xs \<Longrightarrow> delimited rest \<Longrightarrow> value (canonical x @ rest) = Inr (ordered x, rest)"
    and "\<And>x. x \<in> set xs \<Longrightarrow> opens (canonical x)"
  shows "parse_array value n (canonical (Array xs) @ rest) = Inr (ordered (Array xs), rest)"
proof (cases "xs = []")
  case True
  then show ?thesis by (simp add: parse_array_def canonical_simps)
next
  case False
  let ?t = "join '','' (map canonical xs)"
  have "opens ?t"
    using False assms(2) [of "hd xs"] by (intro opens_join) auto
  moreover have "length xs \<le> length (?t @ CHR '']'' # rest)"
    using join_length [of xs canonical] opens_not_Nil assms(2) by fastforce
  moreover have "array_loop value n (length (?t @ CHR '']'' # rest)) (?t @ CHR '']'' # rest) = Inr (map ordered xs, rest)"
    by (rule array_loop_back) (use False assms calculation(2) in auto)
  ultimately show ?thesis by (simp add: parse_array_def canonical_simps)
qed

lemma parse_member_back:
  assumes "\<And>rest. delimited rest \<Longrightarrow> value (canonical v @ rest) = Inr (ordered v, rest)" "opens (canonical v)" "delimited rest"
  shows "parse_member value n (member_text (k, v) @ rest) = Inr ((k, ordered v), rest)"
proof -
  have "starts_with (CHR 0x22) (write_string k @ t)" for t by (simp add: write_string_def)
  then show ?thesis
    using assms by (simp add: parse_member_def member_text_def write_string_back)
qed

lemma parse_object_back:
  assumes "distinct (map fst ms)"
    and "\<And>k v rest. (k, v) \<in> set ms \<Longrightarrow> delimited rest \<Longrightarrow> value (canonical v @ rest) = Inr (ordered v, rest)"
    and "\<And>k v. (k, v) \<in> set ms \<Longrightarrow> opens (canonical v)"
  shows "parse_object value n (canonical (Object ms) @ rest) = Inr (ordered (Object ms), rest)"
proof (cases "ms = []")
  case True
  then show ?thesis by (simp add: parse_object_def canonical_simps)
next
  case False
  let ?ms = "sort_key fst ms"
  let ?t = "join '','' (map member_text ?ms)"
  let ?g = "\<lambda>(k, v). (k, ordered v)"
  have ms: "?ms \<noteq> []" using False by (metis length_0_conv length_sort)
  then have "opens ?t" by (intro opens_join) auto
  moreover have len: "length ?ms \<le> length (?t @ CHR ''}'' # rest)"
    using join_length [of ?ms member_text] opens_not_Nil [OF opens_member] by fastforce
  have "object_loop value n (length (?t @ CHR ''}'' # rest)) (?t @ CHR ''}'' # rest) = Inr (map ?g ?ms, rest)"
    by (rule object_loop_back [OF ms len]) (use assms in \<open>auto intro!: parse_member_back\<close>)
  moreover have "map fst (map ?g ?ms) = map fst ?ms" by (simp add: split_def comp_def)
  moreover have "distinct (map fst ?ms)" using assms(1) by (simp add: distinct_map)
  ultimately show ?thesis
    by (simp add: parse_object_def canonical_simps unique_iff sort_key_map_snd del: map_map)
qed

text \<open>Reading back one value, whatever separator follows it.\<close>

lemma canonical_back:
  assumes rb: "reads_back read fl"
  shows "admissible fl v \<Longrightarrow> levels v \<le> room \<Longrightarrow> delimited rest \<Longrightarrow>
    parse_value read n room (canonical v @ rest) = Inr (ordered v, rest)"
proof (induction v arbitrary: room rest)
  case (Array xs)
  then obtain m where room: "room = Suc m" by (cases room) auto
  have "parse_array (parse_value read n m) n (canonical (Array xs) @ rest) = Inr (ordered (Array xs), rest)"
    by (rule parse_array_back) (use Array room opens_canonical [OF _ rb] in auto)
  then show ?case using room by (simp add: dispatch_def canonical_simps(5))
next
  case (Object ms)
  then obtain m where room: "room = Suc m" by (cases room) auto
  have "parse_object (parse_value read n m) n (canonical (Object ms) @ rest) = Inr (ordered (Object ms), rest)"
    by (rule parse_object_back) (use Object room opens_canonical [OF _ rb] in \<open>auto split: prod.splits\<close>)
  then show ?case using room by (simp add: dispatch_def canonical_simps(6))
next
  case (Number x)
  then have "number_ok fl x" by simp
  from number_text_start [OF this rb] obtain c cs where x: "number_text x = c # cs" "c = CHR ''-'' \<or> digit c" by blast
  have c: "c \<noteq> CHR ''{''" "c \<noteq> CHR ''[''" "c \<noteq> CHR 0x22" "c \<noteq> CHR ''t''" "c \<noteq> CHR ''f''" "c \<noteq> CHR ''n''"
    using x(2) by (auto simp: digit_def between_def)
  have p: "parse_number read n (c # cs @ rest) = Inr (x, rest)"
    using number_text_back [OF rb _ Number.prems(3), of x n] Number.prems(1) x(1) by simp
  have "dispatch read n obj arr (c # cs @ rest) = Inr (Number x, rest)" for obj arr
    using c x(2) by (simp add: dispatch_def p)
  then show ?case by (cases room) (simp_all add: canonical_simps x(1))
next
  case (Str s)
  obtain t where t: "write_string s @ rest = CHR 0x22 # t" by (simp add: write_string_def)
  have "parse_string n (CHR 0x22 # t) = Inr (s, rest)" using write_string_back [of n s rest] unfolding t .
  then have "dispatch read n obj arr (CHR 0x22 # t) = Inr (Str s, rest)" for obj arr by (simp add: dispatch_def)
  then show ?case unfolding canonical_simps t by (cases room) simp_all
next
  case Null
  have "dispatch read n obj arr (''null'' @ rest) = Inr (Null, rest)" for obj arr
    by (simp add: dispatch_def parse_literal_def)
  then show ?case by (cases room) (simp_all add: canonical_simps)
next
  case (Bool b)
  have "dispatch read n obj arr ((if b then ''true'' else ''false'') @ rest) = Inr (Bool b, rest)" for obj arr
    by (simp add: dispatch_def parse_literal_def)
  then show ?case by (cases room) (simp_all add: canonical_simps)
qed

section \<open>The canonical bytes are UTF-8\<close>

lemma ascii_text_numbers: "list_all digit s \<Longrightarrow> list_all ascii s"
  by (auto simp: list_all_iff intro: ascii_digit)

lemma ascii_marks [simp]: "ascii (CHR ''-'')" "ascii (CHR ''.'')" "ascii (CHR ''e'')" "ascii (CHR ''+'')" "ascii (CHR '','')"
  "ascii (CHR ''['')" "ascii (CHR '']'')" "ascii (CHR ''{'')" "ascii (CHR ''}'')" "ascii (CHR '':'')" "ascii (CHR 0x22)" "ascii (CHR 0x5C)"
  "ascii (CHR ''0'')" "ascii (CHR ''u'')" "ascii (CHR ''n'')" "ascii (CHR ''r'')" "ascii (CHR ''t'')" "ascii (CHR ''b'')" "ascii (CHR ''f'')"
  by (simp_all add: ascii_def)

lemma ascii_hex_digit: "d < 16 \<Longrightarrow> ascii (hex_digit d)"
  by (simp add: ascii_def hex_digit_def)

lemma ascii_escape_char: "ascii c \<Longrightarrow> list_all ascii (escape_char c)"
  by (simp add: escape_char_def Let_def ascii_hex_digit)

lemma escape_char_high: "\<not> ascii c \<Longrightarrow> escape_char c = [c]"
  by (simp add: escape_char_def Let_def ascii_def)

lemma utf8_write_string: "utf8 s \<Longrightarrow> utf8 (write_string s)"
proof -
  assume "utf8 s"
  then have "utf8 (concat (map escape_char s))"
  proof (induction rule: utf8_induct)
    case (ascii c s)
    then show ?case using utf8_append [OF utf8_ascii_text [OF ascii_escape_char]] by simp
  next
    case (sequence p s)
    have "concat (map escape_char p) = p"
      using sequence(2) by (induction p) (auto simp: escape_char_high)
    then show ?case using sequence utf8_append [of p] by simp
  qed simp
  then show ?thesis by (simp add: write_string_def utf8_append)
qed

lemma ascii_number_text:
  assumes "number_ok fl x" "reads_back read fl"
  shows "list_all ascii (number_text x)"
proof (cases x)
  case (Int64 i)
  then show ?thesis using show_nat_all_digits(1) by (simp add: show_int_def ascii_text_numbers)
next
  case (BigInt t)
  then show ?thesis
    using assms(1) by (cases t) (auto simp: integer_text_def digits_text_def eat_def ascii_text_numbers ascii_digit split: if_splits)
next
  case (Float64 s d e)
  have "float_shape d e" using assms Float64 by (auto simp: reads_back_def)
  then show ?thesis
    by (rule float_repr_parts [of d e s]) (auto simp: Float64 digits_text_def ascii_text_numbers)
qed

lemma utf8_join: "\<forall>x \<in> set xs. utf8 (f x) \<Longrightarrow> utf8 (join '','' (map f xs))"
proof (induction xs rule: induct_list012)
  case (3 x y zs)
  then show ?case by (simp add: utf8_append)
qed auto

lemma utf8_canonical: "admissible fl v \<Longrightarrow> reads_back read fl \<Longrightarrow> utf8 (canonical v)"
proof (induction v)
  case (Number x)
  then show ?case using utf8_ascii_text ascii_number_text by (simp add: canonical_simps)
next
  case (Array xs)
  then show ?case using utf8_append [OF utf8_join [of xs canonical]] by (simp add: canonical_simps)
next
  case (Object ms)
  have "\<forall>m \<in> set (sort_key fst ms). utf8 (member_text m)"
    using Object by (auto simp: member_text_def utf8_append utf8_write_string)
  from utf8_append [OF utf8_join [OF this]] show ?case by (simp add: canonical_simps)
qed (simp_all add: canonical_simps utf8_write_string, simp_all add: utf8_ascii_text ascii_def)

lemma parse_canonical:
  assumes "reads_back read fl" "admissible fl v" "levels v \<le> MAX_DEPTH"
  shows "parse read (canonical v) = Inr (ordered v)"
proof -
  have o: "opens (canonical v)" by (rule opens_canonical [OF assms(2,1)])
  have "take 3 (canonical v) \<noteq> BYTE_ORDER_MARK"
    using o by (cases "canonical v") (auto simp: opens_def BYTE_ORDER_MARK_def ascii_def)
  moreover have "valid_up_to (canonical v) = length (canonical v)"
    using utf8_canonical [OF assms(2,1)] by (simp add: utf8_def)
  moreover have "skip_whitespace (canonical v) = canonical v" using opens_append(1) [OF o, of "[]"] by simp
  ultimately show ?thesis
    using canonical_back [OF assms, of "[]" "length (canonical v)"] by (simp add: parse_def document_value_def)
qed

section \<open>What sorting the members keeps\<close>

lemma sort_key_sorted: "sorted (map f xs) \<Longrightarrow> sort_key f xs = xs"
  by (rule sort_key_id_if_sorted)

lemma canonical_ordered: "canonical (ordered v) = canonical v"
proof (induction v)
  case (Object ms)
  have "member_text (k, ordered w) = member_text (k, w)" if "(k, w) \<in> set ms" for k w
    using Object that by (fastforce simp: member_text_def)
  then have "map member_text (map (\<lambda>(k, v). (k, ordered v)) (sort_key fst ms)) = map member_text (sort_key fst ms)" by auto
  then show ?case by (simp add: canonical_simps sort_key_sorted sort_key_map_snd del: map_map)
qed (auto simp: canonical_simps cong: map_cong)

lemma nodes_ordered [simp]: "nodes (ordered v) = nodes v"
proof (induction v rule: ordered.induct)
  case (2 ms)
  have "map (\<lambda>(k, v). nodes v) (map (\<lambda>(k, v). (k, ordered v)) ms) = map (\<lambda>(k, v). nodes v) ms"
    using 2 by (auto simp: case_prod_beta)
  moreover have "sum_list (map f (sort_key fst xs)) = sum_list (map f xs)" for f :: "string \<times> json \<Rightarrow> nat" and xs
    by (simp add: sum_mset_sum_list [symmetric])
  ultimately show ?case by (simp del: map_map)
qed (auto intro: arg_cong [of _ _ sum_list])

lemma nesting_ordered [simp]: "nesting (ordered v) = nesting v"
proof (induction v rule: ordered.induct)
  case (2 ms)
  have "(\<lambda>(k, v). nesting v) ` (\<lambda>(k, v). (k, ordered v)) ` set ms = (\<lambda>(k, v). nesting v) ` set ms"
    unfolding image_image using 2 by (intro image_cong) (auto simp: case_prod_beta)
  moreover have "sort_key fst (map (\<lambda>(k, v). (k, ordered v)) ms) = [] \<longleftrightarrow> ms = []"
    by (metis length_0_conv length_map length_sort)
  ultimately show ?case by auto
next
  case (1 xs)
  then show ?case by (auto simp: image_image intro: arg_cong [of _ _ Max])
qed auto

lemma levels_nesting: "levels v \<le> Suc (nesting v)"
proof (induction v rule: levels.induct)
  case (1 xs)
  have "levels x \<le> nesting (Array xs)" if "x \<in> set xs" for x
    using 1 [OF that] that by (cases "xs = []") (auto intro: le_trans)
  then show ?case by (simp add: fold_max_le del: nesting.simps)
next
  case (2 ms)
  have "levels v \<le> nesting (Object ms)" if m: "(k, v) \<in> set ms" for k v
  proof -
    have "nesting v \<le> Max (set (map (\<lambda>(k, v). nesting v) ms))" using m by (intro Max_ge) force+
    moreover have "levels v \<le> Suc (nesting v)" using 2 [OF m] by simp
    ultimately show ?thesis using m by (cases "ms = []") auto
  qed
  then show ?case by (auto simp: fold_max_le simp del: nesting.simps)
qed simp_all

end
