(* ===== verification/Journal_Properties.thy ===== *)
theory Journal_Properties
  imports Journal_Machine Json_Roundtrip
begin

text \<open>
  What the Action journal promises over whole executions, proved on the slots that
  \<open>Journal_Machine\<close> refines it to: an operation that began is never granted again before its outcome
  is known, a completed operation replays its result, a retired generation stays retired, and the
  capacities hold in every reachable state.
\<close>

fun run :: "(string \<Rightarrow> string) \<Rightarrow> f64_reader \<Rightarrow> (io \<times> entropy \<times> command) list \<Rightarrow> journal \<Rightarrow> journal" where
  "run sha read [] j = j"
| "run sha read ((io, ent, c) # es) j = run sha read es (snd (perform sha read io ent c j))"

text \<open>Commands that may take an executing operation's interrupt out of \<open>executing\<close>.\<close>

fun settles :: "string \<Rightarrow> string \<Rightarrow> command \<Rightarrow> bool" where
  "settles g i (Complete b x v) \<longleftrightarrow> bt_generation b = g \<and> op_interrupt x = i"
| "settles g i (Fail_without_effect b x) \<longleftrightarrow> bt_generation b = g \<and> op_interrupt x = i"
| "settles g i (Suspend b x) \<longleftrightarrow> bt_generation b = g \<and> op_interrupt x = i"
| "settles g i (Not_dispatched b x) \<longleftrightarrow> bt_generation b = g \<and> op_interrupt x = i"
| "settles g i (Abandon b) \<longleftrightarrow> bt_generation b = g"
| "settles g i (Archive g' fp) \<longleftrightarrow> g' = g"
| "settles g i (Discard g') \<longleftrightarrow> g' = g"
| "settles g i (Purge g') \<longleftrightarrow> g' = g"
| "settles g i (Purge_batch g' fp) \<longleftrightarrow> g' = g"
| "settles g i _ \<longleftrightarrow> False"

text \<open>Commands that may end or remove a generation's open batch.\<close>

fun closes :: "string \<Rightarrow> command \<Rightarrow> bool" where
  "closes g (Delivered b) \<longleftrightarrow> bt_generation b = g"
| "closes g (Abandon b) \<longleftrightarrow> bt_generation b = g"
| "closes g (End_batch b) \<longleftrightarrow> bt_generation b = g"
| "closes g (End_settled g') \<longleftrightarrow> g' = g"
| "closes g (Archive g' fp) \<longleftrightarrow> g' = g"
| "closes g (Discard g') \<longleftrightarrow> g' = g"
| "closes g (Purge g') \<longleftrightarrow> g' = g"
| "closes g (Purge_batch g' fp) \<longleftrightarrow> g' = g"
| "closes g _ \<longleftrightarrow> False"

text \<open>Commands that may free an archived generation.\<close>

fun frees :: "string \<Rightarrow> command \<Rightarrow> bool" where
  "frees g (Release g' fp) \<longleftrightarrow> g' = g"
| "frees g (Purge g') \<longleftrightarrow> g' = g"
| "frees g (Purge_batch g' fp) \<longleftrightarrow> g' = g"
| "frees g _ \<longleftrightarrow> False"

section \<open>Invariants of a slot along a run\<close>

lemma perform_moves:
  assumes "journal_ok j" "perform sha read io ent c j = (res, j')" "j_connection j = Some d"
  obtains d' where "j_connection j' = Some d'" "moves c d d'" "db_inv (j_limits j) d'" "db_inv (j_limits j) d"
    "j_limits j' = j_limits j"
  using assms(2)
  by (rule perform_outcomes)
     (use that assms(1,3) in \<open>auto simp: journal_ok_def intro: command_work_moves command_work_inv\<close>)

text \<open>A property of one slot that no step of the allowed commands breaks holds after every run of them.\<close>

lemma run_slot_invariant:
  assumes "journal_ok j" "j_connection j = Some d" "P (slot d g)"
    and allowed: "\<forall>(io, ent, c) \<in> set es. A c"
    and keeps: "\<And>lim d c s'. db_inv lim d \<Longrightarrow> P (slot d g) \<Longrightarrow> A c \<Longrightarrow> target c = g \<Longrightarrow> slot_step c (slot d g) s' \<Longrightarrow> P s'"
  shows "\<exists>d'. j_connection (run sha read es j) = Some d' \<and> P (slot d' g) \<and> db_inv (j_limits j) d' \<and>
    journal_ok (run sha read es j) \<and> j_limits (run sha read es j) = j_limits j"
  using assms(1-4)
proof (induction es arbitrary: j d)
  case Nil
  then show ?case by (auto simp: journal_ok_def)
next
  case (Cons e es)
  obtain io ent c where e: "e = (io, ent, c)" by (cases e)
  obtain res j' where p: "perform sha read io ent c j = (res, j')" by fastforce
  from perform_moves [OF Cons.prems(1) p Cons.prems(2)] obtain d' where
    d': "j_connection j' = Some d'" "moves c d d'" "db_inv (j_limits j) d" "j_limits j' = j_limits j" .
  have A: "A c" "\<forall>(io, ent, c) \<in> set es. A c" using Cons.prems(4) e by auto
  have "slot d' g = slot d g \<or> (target c = g \<and> slot_step c (slot d g) (slot d' g))"
    using d'(2) unfolding moves_def by metis
  then have "P (slot d' g)" using Cons.prems(3) keeps [OF d'(3) Cons.prems(3) A(1)] by metis
  from Cons.IH [OF perform_ok(1) [OF Cons.prems(1) p] d'(1) this A(2)] d'(4)
  show ?case by (simp add: e p)
qed

definition executing_in :: "string \<Rightarrow> slot \<Rightarrow> bool" where
  "executing_in i s \<longleftrightarrow> (\<exists>r \<in> set (snd s). o_interrupt r = i \<and> o_state r = Executing)"

lemma slot_ended:
  "db_inv lim d \<Longrightarrow> slot d g = (Some h, rs) \<Longrightarrow> b_state h = Ended \<Longrightarrow> \<forall>r \<in> set rs. o_state r \<noteq> Executing"
  using slice_of [of lim d g h] by (auto simp: slot_def slice_ok_def)

lemma slot_archived: "db_inv lim d \<Longrightarrow> slot d g = (Some h, rs) \<Longrightarrow> b_state h = Archived \<Longrightarrow> rs = []"
  using slice_of [of lim d g h] by (auto simp: slot_def slice_ok_def)

lemma executing_in_set_row:
  assumes "executing_in i (h, rs)" "\<And>r. o_interrupt r = i \<Longrightarrow> o_interrupt r = k \<Longrightarrow> o_interrupt (f r) = i \<and> o_state (f r) = Executing"
  shows "executing_in i (h, set_row k f rs)"
proof -
  from assms(1) obtain r where "r \<in> set rs" "o_interrupt r = i" "o_state r = Executing"
    by (auto simp: executing_in_def)
  then show ?thesis
    using assms(2) [of r]
    by (intro executing_in_def [THEN iffD2] bexI [of _ "if o_interrupt r = k then f r else r"]) (auto simp: set_row_def)
qed

lemma executing_in_set_rowI:
  "r \<in> set rs \<Longrightarrow> o_interrupt r = i \<Longrightarrow> o_interrupt (f r) = i \<Longrightarrow> o_state (f r) = Executing \<Longrightarrow>
   executing_in i (h, set_row i f rs)"
  by (force simp: executing_in_def set_row_def)

lemma executing_kept:
  assumes inv: "db_inv lim d" and ex: "executing_in i (slot d g)" and c: "\<not> settles g i c" "target c = g"
    and step: "slot_step c (slot d g) s'"
  shows "executing_in i s'"
  using step
proof cases
  case (replaced h fp xs rs g' rows t a)
  then show ?thesis using slot_ended [OF inv replaced(2)] ex by (auto simp: executing_in_def)
next
  case (reopened h a g' t xs rs)
  then show ?thesis using ex by (auto simp: executing_in_def)
next
  case (granted h b r rs x)
  then show ?thesis using ex by (auto intro!: executing_in_set_row)
next
  case (settled b x f h r rs)
  then have "op_interrupt x \<noteq> i" using c by (cases c) auto
  then show ?thesis using settled ex by (auto intro!: executing_in_set_row)
next
  case (ended b g' h rs)
  then show ?thesis using ex by (auto simp: executing_in_def)
next
  case (removed h rs)
  then show ?thesis
    using ex c slot_archived [OF inv removed(1)] by (cases c) (auto simp: executing_in_def)
qed (use ex c in \<open>auto simp: executing_in_def\<close>)

lemma load_Inr_iff:
  assumes inv: "db_inv lim d"
  shows "load b d = Inr rows \<longleftrightarrow> rows = ops_of d (bt_generation b) \<and>
    (\<exists>h. find_batch d (bt_generation b) = Some h \<and> b_fingerprint h = bt_fingerprint b \<and> b_state h = Open) \<and>
    length rows = length (bt_operations b) \<and>
    (\<forall>n < length rows. row_matches n (rows ! n) (bt_operations b ! n))"
proof -
  have "b_count h = int (length (ops_of d (bt_generation b)))"
    if "find_batch d (bt_generation b) = Some h" "b_state h = Open" for h
    using slice_of [OF inv that(1)] that(2) by (simp add: slice_ok_def)
  then show ?thesis
    by (auto simp: load_def Let_def rows_of_ops_of [OF inv] list_all_length nth_enumerate_eq split: option.splits)
qed

lemma begin_executing_refused:
  assumes inv: "db_inv lim d" and ex: "executing_in (op_interrupt x) (slot d (bt_generation b))"
  shows "\<exists>e. begin_work read lim b x d = Inl e"
proof (cases "find_operation b x d")
  case (Inr r)
  from find_operation_Inr [OF Inr inv] have r: "r \<in> set (ops_of d (bt_generation b))" "o_interrupt r = op_interrupt x"
    by (auto simp: mem_ops_of)
  from ex obtain q where "q \<in> set (ops_of d (bt_generation b))" "o_interrupt q = op_interrupt x" "o_state q = Executing"
    by (auto simp: executing_in_def slot_def)
  with one_interrupt [OF inv r(1)] r have "o_state r = Executing" by metis
  with Inr show ?thesis by (simp add: begin_work_def)
qed (simp add: begin_work_def)

lemma begin_granted:
  assumes inv: "db_inv lim d" and w: "begin_work read lim b x d = Inr (e, d')" and ex: "ex_execute e"
  shows "executing_in (op_interrupt x) (slot d' (bt_generation b))"
proof -
  from w obtain r where r: "find_operation b x d = Inr r" by (auto simp: begin_work_def rbind_eq_Inr)
  with w ex have st: "o_state r = Prepared" and u: "update_one (selects b x Prepared)
      (\<lambda>r. r\<lparr>o_state := Executing, o_attempts := o_attempts r + 1\<rparr>)
      ''Action execution could not begin'' ''Action operation changed before execution'' d = Inr ((), d')"
    by (auto simp: begin_work_def rbind_eq_Inr split: operation_state.splits if_splits)
  show ?thesis
    by (rule moves_update_one [OF inv r u, where P = "\<lambda>q. o_state q = Prepared"])
       (use st in \<open>auto simp: selects_def intro!: executing_in_set_rowI\<close>)
qed

section \<open>A completed operation\<close>

definition ident :: "op_row \<Rightarrow> int \<times> string \<times> string \<times> string" where
  "ident r = (o_ordinal r, o_interrupt r, o_fingerprint r, o_operation_id r)"

definition completed_in :: "batch \<Rightarrow> operation \<Rightarrow> string \<Rightarrow> (int \<times> string \<times> string \<times> string) list \<Rightarrow> slot \<Rightarrow> bool" where
  "completed_in b x enc ids s \<longleftrightarrow>
     (\<exists>h. fst s = Some h \<and> b_state h = Open \<and> b_fingerprint h = bt_fingerprint b) \<and> map ident (snd s) = ids \<and>
     (\<exists>r \<in> set (snd s). o_interrupt r = op_interrupt x \<and> o_state r = Completed \<and> o_result r = Some enc)"

lemma row_matches_ident: "ident r = ident q \<Longrightarrow> row_matches n r x = row_matches n q x"
  by (cases "op_id x") (simp_all add: ident_def row_matches_def)

lemma load_ident:
  assumes "db_inv lim d" "db_inv lim d'" "load b d = Inr rows"
    "\<exists>h. find_batch d' (bt_generation b) = Some h \<and> b_state h = Open \<and> b_fingerprint h = bt_fingerprint b"
    "map ident (ops_of d' (bt_generation b)) = map ident (ops_of d (bt_generation b))"
  shows "load b d' = Inr (ops_of d' (bt_generation b))"
proof -
  have len: "length (ops_of d' (bt_generation b)) = length (ops_of d (bt_generation b))"
    using assms(5) by (rule map_eq_imp_length_eq)
  have same: "row_matches n (ops_of d' (bt_generation b) ! n) y = row_matches n (ops_of d (bt_generation b) ! n) y"
    if "n < length (ops_of d (bt_generation b))" for n y
    by (rule row_matches_ident) (metis assms(5) len that nth_map)
  from assms(3) have "length (ops_of d (bt_generation b)) = length (bt_operations b)"
    "\<forall>n < length (ops_of d (bt_generation b)). row_matches n (ops_of d (bt_generation b) ! n) (bt_operations b ! n)"
    by (auto simp: load_Inr_iff [OF assms(1)])
  then show ?thesis using assms(4) len same by (auto simp: load_Inr_iff [OF assms(2)])
qed

lemma map_ident_set_row: "(\<And>r. ident (f r) = ident r) \<Longrightarrow> map ident (set_row k f rs) = map ident rs"
  by (simp add: set_row_def)

lemma settlement_ident: "settlement c = Some (b, x, f) \<Longrightarrow> ident (f r) = ident r"
  by (cases c) (auto simp: ident_def)

lemma completed_set_row:
  assumes inv: "db_inv lim d" and sl: "slot d g = (Some h, rs)" and c: "completed_in b x enc ids (Some h, rs)"
    and r: "r \<in> set rs" "o_interrupt r = k" "o_state r \<noteq> Completed" and f: "\<And>r. ident (f r) = ident r"
  shows "completed_in b x enc ids (Some h, set_row k f rs)"
proof -
  from c obtain q where q: "q \<in> set rs" "o_interrupt q = op_interrupt x" "o_state q = Completed" "o_result q = Some enc"
    by (auto simp: completed_in_def)
  have "rs = ops_of d g" using sl by (simp add: slot_def)
  then have "o_interrupt q \<noteq> k" using one_interrupt [OF inv, of q g r] q r by auto
  then have "q \<in> set (set_row k f rs)" using q by (force simp: set_row_def)
  then show ?thesis using c q by (auto simp: completed_in_def map_ident_set_row [OF f])
qed

lemma completed_kept:
  assumes inv: "db_inv lim d" and c: "completed_in b x enc ids (slot d g)" "\<not> closes g c" "target c = g"
    and step: "slot_step c (slot d g) s'"
  shows "completed_in b x enc ids s'"
  using step
proof cases
  case (granted h b' r rs x')
  then show ?thesis using c completed_set_row [OF inv granted(2)] by (auto simp: ident_def)
next
  case (settled b' x' f h r rs)
  then show ?thesis using c completed_set_row [OF inv settled(1)] settlement_ident [OF settled(3)] by auto
next
  case (removed h rs)
  then show ?thesis using c by (cases c) (auto simp: completed_in_def)
qed (use c in \<open>auto simp: completed_in_def\<close>)

lemma settled_row:
  assumes inv: "db_inv lim d" and r: "find_operation b x d = Inr r" "o_state r = Executing"
    and u: "update_one (selects b x Executing) (\<lambda>r. r\<lparr>o_state := Completed, o_origin := Some Execution_origin,
           o_result := Some enc\<rparr>) m n d = Inr (u, d')"
  shows "completed_in b x enc (map ident (ops_of d (bt_generation b))) (slot d' (bt_generation b))"
proof (rule moves_update_one [OF inv r(1) u, where P = "\<lambda>q. o_state q = Executing"])
  let ?f = "\<lambda>r. r\<lparr>o_state := Completed, o_origin := Some Execution_origin, o_result := Some enc\<rparr>"
  fix h assume h: "b_state h = Open" "b_fingerprint h = bt_fingerprint b"
    "r \<in> set (ops_of d (bt_generation b))" "o_interrupt r = op_interrupt x"
    "slot d' (bt_generation b) = (Some h, set_row (op_interrupt x) ?f (ops_of d (bt_generation b)))"
  then have "?f r \<in> set (set_row (op_interrupt x) ?f (ops_of d (bt_generation b)))"
    by (force simp: set_row_def)
  with h show ?thesis
    by (auto simp: completed_in_def map_ident_set_row ident_def intro!: bexI [of _ "?f r"])
qed (use r in \<open>auto simp: selects_def\<close>)

lemma settle_completes:
  assumes inv: "db_inv lim d" and w: "settle_work b x Completed (Some enc) d = Inr (u, d')"
  shows "\<exists>rows. load b d = Inr rows \<and>
    completed_in b x enc (map ident (ops_of d (bt_generation b))) (slot d' (bt_generation b))"
proof -
  from w obtain r where r: "find_operation b x d = Inr r" by (auto simp: settle_work_def rbind_eq_Inr)
  then obtain rows where l: "load b d = Inr rows" by (auto simp: find_operation_def rbind_eq_Inr)
  from find_operation_Inr [OF r inv] obtain h where h: "find_batch d (bt_generation b) = Some h"
    "b_fingerprint h = bt_fingerprint b" "b_state h = Open" "r \<in> set (ops_of d (bt_generation b))"
    "o_interrupt r = op_interrupt x" by (auto simp: mem_ops_of)
  consider (already) "o_state r = Completed" "o_result r = Some enc" "d' = d"
    | (now) m n where "o_state r = Executing" "update_one (selects b x Executing)
        (\<lambda>r. r\<lparr>o_state := Completed, o_origin := Some Execution_origin, o_result := Some enc\<rparr>) m n d = Inr (u, d')"
    using w r by (auto simp: settle_work_def split: if_splits)
  then show ?thesis
  proof cases
    case already
    then show ?thesis using l h by (auto simp: completed_in_def slot_def)
  next
    case now
    then show ?thesis using settled_row [OF inv r] l by blast
  qed
qed

lemma begin_replays:
  assumes inv: "db_inv lim d" and l: "load b d = Inr rows" and c: "completed_in b x (canonical v) ids (slot d (bt_generation b))"
    and v: "canonical_result v (max_result_bytes lim) = Inr (canonical v)" and p: "parse read (canonical v) = Inr (ordered v)"
  shows "\<exists>i. begin_work read lim b x d = Inr (\<lparr>ex_execute = False, ex_result = Some (ordered v), ex_operation_id = i\<rparr>, d)"
proof -
  from c obtain r where r: "r \<in> set (ops_of d (bt_generation b))" "o_interrupt r = op_interrupt x"
    "o_state r = Completed" "o_result r = Some (canonical v)" by (auto simp: completed_in_def slot_def)
  have rows: "rows = ops_of d (bt_generation b)" using l by (simp add: load_Inr_iff [OF inv])
  have "find_by o_interrupt (op_interrupt x) rows = Some r"
  proof (cases "find_by o_interrupt (op_interrupt x) rows")
    case None
    then show ?thesis using r rows by (force simp: find_by_None)
  next
    case (Some q)
    then have "q \<in> set rows" "o_interrupt q = op_interrupt x" using find_by_Some_mem find_by_Some_key by metis+
    then show ?thesis using one_interrupt [OF inv r(1)] r(2) rows Some by metis
  qed
  then have "find_operation b x d = Inr r" by (simp add: find_operation_def l)
  moreover have "length (canonical v) \<le> max_result_bytes lim" using v by (simp add: canonical_result_Inr)
  moreover have "canonical_result (ordered v) (max_result_bytes lim) = Inr (canonical v)"
    using v by (simp add: canonical_result_Inr canonical_ordered)
  ultimately show ?thesis using r p by (simp add: begin_work_def decode_def)
qed

section \<open>An ended or archived generation\<close>

definition archived_in :: "slot \<Rightarrow> bool" where
  "archived_in s \<longleftrightarrow> (\<exists>h. fst s = Some h \<and> b_state h = Archived)"

lemma archived_kept:
  assumes "db_inv lim d" "archived_in (slot d g)" "\<not> frees g c" "target c = g" "slot_step c (slot d g) s'"
  shows "archived_in s'"
  using assms(5)
proof cases
  case (removed h rs)
  then show ?thesis using assms(2-4) by (cases c) (auto simp: archived_in_def)
qed (use assms(2) in \<open>auto simp: archived_in_def\<close>)

lemma prepare_archived: "archived_in (slot d (bt_generation b)) \<Longrightarrow> prepare_work lim b a ent d = Inl Archived_generation"
  by (auto simp: archived_in_def slot_def prepare_work_def)

lemma begin_archived:
  assumes "archived_in (slot d (bt_generation b))"
  shows "\<exists>m. begin_work read lim b x d = Inl (Conflict m)"
  using assms by (auto simp: archived_in_def slot_def begin_work_def find_operation_def load_def)

lemma archive_work_archives:
  "archive_work g fp d = Inr (u, d') \<Longrightarrow> db_inv lim d \<Longrightarrow> archived_in (slot d' g)"
  using moves_archive [of lim d g fp u d'] find_batch_mem [of d g]
  by (auto simp: archive_work_def archived_in_def slot_def rbind_eq_Inr delete_operations_def
      find_batch_def find_by_map_key ops_of_def dest!: update_batches_frame
      split: option.splits if_splits)

section \<open>Preparing the same batch again\<close>

lemma load_fresh:
  assumes inv: "db_inv lim d'" and rows: "fresh_rows (bt_generation b) 0 (bt_operations b) rows"
    and sl: "slot d' (bt_generation b) = (Some h, rows)" "b_state h = Open" "b_fingerprint h = bt_fingerprint b"
  shows "load b d' = Inr rows"
proof -
  have "rows = ops_of d' (bt_generation b)" "find_batch d' (bt_generation b) = Some h" using sl(1) by (auto simp: slot_def)
  moreover have "row_matches n (rows ! n) (bt_operations b ! n)" if "n < length (bt_operations b)" for n
  proof -
    have r: "rows ! n = new_row (bt_generation b) n (bt_operations b ! n) (o_operation_id (rows ! n))"
      "valid_operation_id (o_operation_id (rows ! n))"
      "\<forall>i. op_id (bt_operations b ! n) = Some i \<longrightarrow> o_operation_id (rows ! n) = i"
      using rows that by (simp_all add: fresh_rows_def)
    show ?thesis by (subst r(1)) (use r(2,3) in \<open>auto simp: row_matches_def split: option.splits\<close>)
  qed
  ultimately show ?thesis using sl(2,3) rows by (auto simp: load_Inr_iff [OF inv] fresh_rows_def)
qed

lemma prepared_loads:
  assumes inv: "db_inv lim d" and b: "build sha g t xs (max_operations lim) = Inr b"
    and w: "prepare_work lim b a ent d = Inr (u, d')"
  shows "\<exists>rows h. load b d' = Inr rows \<and> find_batch d' g = Some h \<and> b_state h = Open \<and>
    b_fingerprint h = bt_fingerprint b \<and> b_archivable h = a"
proof -
  note ok = build_batch_ok [OF b]
  have inv': "db_inv lim d'" by (rule prepare_work_inv [OF inv ok(1) w])
  have inserted: ?thesis if "db_inv lim d1" "insert_prepared b a ent d1 = Inr (u, d')" for d1
  proof -
    from slot_insert_prepared(1) [OF that(1) ok(1) that(2)] obtain rows where
      rows: "fresh_rows (bt_generation b) 0 (bt_operations b) rows"
      and sl: "slot d' (bt_generation b) = (Some \<lparr>b_generation = bt_generation b, b_fingerprint = bt_fingerprint b,
        b_count = int (length (bt_operations b)), b_state = Open, b_archivable = a\<rparr>, rows)" by blast
    from load_fresh [OF inv' rows sl] sl ok show ?thesis by (auto simp: slot_def)
  qed
  show ?thesis
  proof (cases "find_batch d g")
    case None
    with w ok inv inserted show ?thesis by (auto simp: prepare_work_def rbind_eq_Inr)
  next
    case (Some h)
    consider (same) "b_fingerprint h = bt_fingerprint b" "b_archivable h = a" "reopen b (b_state h) d = Inr (u, d')"
      | (fresh) d1 where "retire_ended b d = Inr ((), d1)" "insert_prepared b a ent d1 = Inr (u, d')"
      using w Some ok by (cases "b_state h") (auto simp: prepare_work_def rbind_eq_Inr split: if_splits)
    then show ?thesis
    proof cases
      case same
      then obtain rows where l: "load b d' = Inr rows" by (auto simp: reopen_def rbind_eq_Inr)
      then obtain h' where h': "find_batch d' g = Some h'" "b_fingerprint h' = bt_fingerprint b" "b_state h' = Open"
        using ok by (auto simp: load_Inr_iff [OF inv'])
      have "b_archivable h' = a"
        using moves_prepare [OF inv b w] Some same h' slot_def [of d g] slot_def [of d' g]
        by (auto simp: moves_def elim: slot_step_SomeE)
      with l h' show ?thesis by blast
    next
      case fresh
      have "db_inv lim d1" unfolding retire_ended_Inr(1) [OF fresh(1)] by (rule delete_batches_inv [OF inv])
      then show ?thesis using fresh(2) by (rule inserted)
    qed
  qed
qed

lemma prepare_again:
  assumes "load b d = Inr rows" "find_batch d (bt_generation b) = Some h" "b_state h = Open"
    "b_fingerprint h = bt_fingerprint b" "b_archivable h = a"
  shows "prepare_work lim b a ent d = Inr ((), d)"
  using assms by (simp add: prepare_work_def reopen_def)

lemma writing_ok:
  "j_connection j = Some d \<Longrightarrow> work d = Inr (a, d') \<Longrightarrow>
   writing Io_ok failure work j = (Inr a, j\<lparr>j_connection := Some d'\<rparr>)"
  by (simp add: writing_def)

lemma same_connection: "j_connection j = Some d \<Longrightarrow> j\<lparr>j_connection := Some d\<rparr> = j"
  by simp

lemma run_executing:
  assumes "journal_ok j" "j_connection j = Some d" "executing_in i (slot d g)" "\<forall>(io, ent, c) \<in> set es. \<not> settles g i c"
  shows "\<exists>d'. j_connection (run sha read es j) = Some d' \<and> executing_in i (slot d' g) \<and> db_inv (j_limits j) d' \<and>
    journal_ok (run sha read es j) \<and> j_limits (run sha read es j) = j_limits j"
  by (rule run_slot_invariant [where A = "\<lambda>c. \<not> settles g i c" and P = "executing_in i", OF assms]) (rule executing_kept)

lemma run_completed:
  assumes "journal_ok j" "j_connection j = Some d" "completed_in b x enc ids (slot d g)" "\<forall>(io, ent, c) \<in> set es. \<not> closes g c"
  shows "\<exists>d'. j_connection (run sha read es j) = Some d' \<and> completed_in b x enc ids (slot d' g) \<and> db_inv (j_limits j) d' \<and>
    journal_ok (run sha read es j) \<and> j_limits (run sha read es j) = j_limits j"
  by (rule run_slot_invariant [where A = "\<lambda>c. \<not> closes g c" and P = "completed_in b x enc ids", OF assms]) (rule completed_kept)

lemma run_archived:
  assumes "journal_ok j" "j_connection j = Some d" "archived_in (slot d g)" "\<forall>(io, ent, c) \<in> set es. \<not> frees g c"
  shows "\<exists>d'. j_connection (run sha read es j) = Some d' \<and> archived_in (slot d' g) \<and> db_inv (j_limits j) d' \<and>
    journal_ok (run sha read es j) \<and> j_limits (run sha read es j) = j_limits j"
  by (rule run_slot_invariant [where A = "\<lambda>c. \<not> frees g c" and P = "archived_in", OF assms]) (rule archived_kept)

lemma writing_Inr:
  assumes "writing io failure work j = (Inr a, j')"
  obtains d d' where "j_connection j = Some d" "work d = Inr (a, d')" "j' = j\<lparr>j_connection := Some d'\<rparr>"
  using assms by (auto simp: writing_def split: option.splits if_splits io.splits sum.splits prod.splits)

lemma answer_Inr: "answer f p = (Inr y, j') \<longleftrightarrow> (\<exists>a. p = (Inr a, j') \<and> y = f a)"
  by (cases p; cases "fst p") (auto simp: answer_def)

lemma perform_begin_Inr:
  assumes "perform sha read io ent (Begin b x) j = (Inr (Granted e), j1)"
  obtains d d1 where "j_connection j = Some d" "begin_work read (j_limits j) b x d = Inr (e, d1)"
    "j1 = j\<lparr>j_connection := Some d1\<rparr>"
  using assms
  by (auto simp: answer_Inr begin_operation_def batch_require_def elim: writing_Inr split: if_splits)

lemma writing_Inl:
  assumes "j_connection j = Some d" "work d = Inl e"
  shows "\<exists>err. writing io failure work j = (Inl err, j)"
  using assms by (simp add: writing_def split: io.splits)

lemma answer_Inl [simp]: "answer f (Inl e, j) = (Inl e, j)"
  by (simp add: answer_def)

lemma perform_begin_Inl:
  assumes "j_connection j = Some d" "begin_work read (j_limits j) b x d = Inl e"
  shows "\<exists>err. perform sha read io ent (Begin b x) j = (Inl err, j)"
proof -
  from writing_Inl [where work = "begin_work read (j_limits j) b x", OF assms] obtain err where
    "writing io ''Action execution could not begin'' (begin_work read (j_limits j) b x) j = (Inl err, j)" by blast
  then show ?thesis by (auto simp: begin_operation_def split: sum.splits)
qed

lemma run_reachable:
  "reachable sha read lim j \<Longrightarrow> reachable sha read lim (run sha read es j)"
proof (induction sha read es j rule: run.induct)
  case (2 sha read io ent c es j)
  then show ?case by (cases "perform sha read io ent c j") (auto intro: reachable.commanded)
qed simp

section \<open>Concrete inputs\<close>

definition example_limits :: limits where
  "example_limits = \<lparr>max_generations = 2, max_operations = 2, max_result_bytes = 32, max_archived = 2\<rparr>"

definition example_sha :: "string \<Rightarrow> string" where
  "example_sha s = replicate 64 (CHR ''b'')"

definition example_result :: json where
  "example_result = Object [(''ok'', Bool True), (''n'', Number (Float64 False ''15'' 0))]"

definition example_floats :: f64_reader where
  "example_floats literal = (if literal = ''1.5'' then Some (False, ''15'', 0) else None)"

definition example_operation :: operation where
  "example_operation = \<lparr>op_interrupt = ''i1'', op_fingerprint = replicate 64 (CHR ''a''),
     op_id = Some ''00000000-0000-4000-8000-000000000001''\<rparr>"

definition example_batch :: batch where
  "example_batch = \<lparr>bt_generation = ''g1'', bt_fingerprint = replicate 64 (CHR ''b''),
     bt_operations = [example_operation]\<rparr>"

definition example_db :: "operation_state \<Rightarrow> int \<Rightarrow> db" where
  "example_db st n = \<lparr>batches = [\<lparr>b_generation = ''g1'', b_fingerprint = replicate 64 (CHR ''b''), b_count = 1,
       b_state = Open, b_archivable = True\<rparr>],
     operations = [\<lparr>o_generation = ''g1'', o_ordinal = 0, o_interrupt = ''i1'', o_fingerprint = replicate 64 (CHR ''a''),
       o_operation_id = ''00000000-0000-4000-8000-000000000001'', o_attempts = n, o_state = st,
       o_origin = (if st = Completed then Some Execution_origin else None),
       o_result = (if st = Completed then Some ''{\"n\":1.5,\"ok\":true}'' else None)\<rparr>]\<rparr>"

definition example_journal :: "db \<Rightarrow> journal" where
  "example_journal d = \<lparr>j_limits = example_limits, j_connection = Some d\<rparr>"

definition example_prepare :: command where
  "example_prepare = Prepare ''g1'' ''t1'' [example_operation] True"

lemma example_ids:
  "safe_id_re ''g1''" "safe_id_re ''t1''" "safe_id_re ''i1''"
  "sha256_re (replicate 64 (CHR ''a''))" "valid_operation_id ''00000000-0000-4000-8000-000000000001''"
  "canonical example_result = ''{\"n\":1.5,\"ok\":true}''"
  by code_simp+

lemma example_canonical: "canonical_result example_result 32 = Inr ''{\"n\":1.5,\"ok\":true}''"
  by (simp add: canonical_result_Inr example_ids) (simp add: example_result_def MAX_JSON_NODES_def MAX_JSON_DEPTH_def)

lemma example_build: "build example_sha ''g1'' ''t1'' [example_operation] 2 = Inr example_batch"
  by (simp add: build_def safe_id_def example_ids handle_operation_def example_operation_def example_batch_def
      repeated_def example_sha_def)

lemma example_load:
  "load example_batch (example_db st n) = Inr (operations (example_db st n))"
  by (simp add: load_def find_batch_def rows_of_def example_db_def example_batch_def example_operation_def
      row_matches_def example_ids)

lemma example_find:
  "find_operation example_batch example_operation (example_db st n) = Inr (hd (operations (example_db st n)))"
  by (simp add: find_operation_def example_load) (simp add: example_db_def example_operation_def)

lemma example_prepared:
  "perform example_sha example_floats Io_ok [] example_prepare (example_journal empty_db)
     = (Inr (Handle example_batch), example_journal (example_db Prepared 0))"
  by (simp add: example_prepare_def answer_def prepare_batch_def example_journal_def example_limits_def example_build
      writing_def prepare_work_def)
     (simp add: find_batch_def empty_db_def reserve_def insert_prepared_def insert_batch_def check_batch_def
      example_batch_def example_operation_def example_db_def insert_operation_def new_row_def check_operation_def)

lemma example_granted:
  "perform example_sha example_floats Io_ok [] (Begin example_batch example_operation) (example_journal (example_db Prepared 0))
     = (Inr (Granted \<lparr>ex_execute = True, ex_result = None, ex_operation_id = ''00000000-0000-4000-8000-000000000001''\<rparr>),
        example_journal (example_db Executing 1))"
  by (simp add: answer_def begin_operation_def batch_require_def example_journal_def writing_def begin_work_def example_find)
     (simp add: example_db_def example_batch_def example_operation_def update_one_def update_operations_def selects_def
      check_operation_def require_changed_def)

lemma example_completed:
  "perform example_sha example_floats Io_ok [] (Complete example_batch example_operation example_result)
     (example_journal (example_db Executing 1)) = (Inr Done, example_journal (example_db Completed 1))"
  by (simp add: answer_def complete_def settle_def batch_require_def example_journal_def example_limits_def writing_def
      settle_work_def example_find example_canonical)
     (simp add: example_db_def example_batch_def example_operation_def update_one_def update_operations_def selects_def
      check_operation_def require_changed_def)

lemma example_opened: "reachable example_sha example_floats example_limits (example_journal empty_db)"
  by (rule reachable.opened) (simp add: open_journal_def example_journal_def example_limits_def)

lemma example_reachable:
  "reachable example_sha example_floats example_limits (example_journal (example_db Prepared 0))"
  "reachable example_sha example_floats example_limits (example_journal (example_db Executing 1))"
  "reachable example_sha example_floats example_limits (example_journal (example_db Completed 1))"
proof -
  note p = reachable.commanded [OF example_opened example_prepared]
  note e = reachable.commanded [OF p example_granted]
  show "reachable example_sha example_floats example_limits (example_journal (example_db Prepared 0))" by (rule p)
  show "reachable example_sha example_floats example_limits (example_journal (example_db Executing 1))" by (rule e)
  show "reachable example_sha example_floats example_limits (example_journal (example_db Completed 1))"
    by (rule reachable.commanded [OF e example_completed])
qed

section \<open>Properties\<close>

text \<open>C1: At most one execution. Once \<open>begin\<close> grants an operation's execution, no later \<open>begin\<close> of the same
  interrupt in the same generation is granted, through any handle and whatever other commands, storage failures and
  prepared batches happen in between, until one of the commands that settle it (\<open>complete\<close>,
  \<open>fail_without_effect\<close>, \<open>suspend\<close>, \<open>not_dispatched\<close> of that interrupt, or the removal of the generation) is used.\<close>
theorem executing_never_granted_again:
  assumes "reachable sha read lim j"
    and "perform sha read io ent (Begin b x) j = (Inr (Granted e), j1)" "ex_execute e"
    and "\<forall>(io, ent, c) \<in> set es. \<not> settles (bt_generation b) (op_interrupt x) c"
    and "bt_generation b' = bt_generation b" "op_interrupt x' = op_interrupt x"
  shows "\<exists>err. perform sha read io' ent' (Begin b' x') (run sha read es j1) = (Inl err, run sha read es j1)"
proof -
  note ok = reachable_ok [OF assms(1)]
  from perform_begin_Inr [OF assms(2)] obtain d d1 where
    d: "j_connection j = Some d" "begin_work read (j_limits j) b x d = Inr (e, d1)"
    "j1 = j\<lparr>j_connection := Some d1\<rparr>" .
  have inv: "db_inv (j_limits j) d" using ok d(1) by (auto simp: journal_ok_def)
  have ok1: "journal_ok j1" "j_connection j1 = Some d1" "j_limits j1 = j_limits j"
    using perform_ok [OF _ assms(2)] ok d(3) by auto
  from run_executing [OF ok1(1,2) begin_granted [OF inv d(2) assms(3)] assms(4), of sha read]
  obtain d2 where d2: "j_connection (run sha read es j1) = Some d2"
    "executing_in (op_interrupt x') (slot d2 (bt_generation b'))" "db_inv (j_limits (run sha read es j1)) d2"
    using ok1(3) assms(5,6) by auto
  from begin_executing_refused [OF d2(3,2)] obtain err where
    "begin_work read (j_limits (run sha read es j1)) b' x' d2 = Inl err" ..
  from perform_begin_Inl [OF d2(1) this] show ?thesis .
qed

theorem executing_never_granted_again_witness:
  "\<exists>err. perform example_sha example_floats Io_ok [] (Begin example_batch example_operation)
     (run example_sha example_floats [(Io_ok, [], example_prepare), (Commit_fails, [], End_batch example_batch)]
        (example_journal (example_db Executing 1)))
   = (Inl err, run example_sha example_floats [(Io_ok, [], example_prepare), (Commit_fails, [], End_batch example_batch)]
        (example_journal (example_db Executing 1)))"
  by (rule executing_never_granted_again [OF example_reachable(1) example_granted])
     (simp_all add: example_prepare_def)

text \<open>C4: In every state a journal reaches from the empty database by any commands, storage failures, closings and
  restarts, the database satisfies \<open>db_inv\<close>: unique generations, every batch owns exactly its declared operations in
  ordinal order with distinct interrupts and logical ids, an archived batch owns none, an ended batch has no executing
  operation, the schema's CHECK constraints hold, logical ids are canonical, and both capacities are respected.\<close>
theorem journal_invariant:
  assumes "reachable sha read lim j" "j_connection j = Some d"
  shows "db_inv lim d"
  using reachable_ok [OF assms(1)] assms(2) by (auto simp: journal_ok_def)

theorem journal_invariant_witness: "db_inv example_limits (example_db Completed 1)"
  by (rule journal_invariant [OF example_reachable(3)]) (simp add: example_journal_def)

text \<open>C5: Refinement. A committed command moves the database exactly as the abstract per-generation machine allows:
  the slot of its own generation is unchanged or takes one \<open>slot_step\<close> of that command, and every other generation's
  batch and operations are untouched.\<close>
theorem journal_refines_slots:
  assumes "reachable sha read lim j" "j_connection j = Some d"
    and "perform sha read io ent c j = (Inr a, j')"
  shows "\<exists>d'. j' = j\<lparr>j_connection := Some d'\<rparr> \<and> moves c d d'"
  using assms(3)
proof (rule perform_outcomes)
  fix d0 d' a0 assume *: "j_connection j = Some d0" "command_work sha read ent (j_limits j) c d0 d'"
    "j' = j\<lparr>j_connection := Some d'\<rparr>"
  have "db_inv (j_limits j) d" using reachable_ok [OF assms(1)] assms(2) by (auto simp: journal_ok_def)
  with * assms(2) show ?thesis by (auto intro: command_work_moves)
qed simp

theorem journal_refines_slots_witness:
  "\<exists>d'. example_journal (example_db Completed 1) = (example_journal (example_db Executing 1))\<lparr>j_connection := Some d'\<rparr> \<and>
     moves (Complete example_batch example_operation example_result) (example_db Executing 1) d'"
  by (rule journal_refines_slots [OF example_reachable(2) _ example_completed]) (simp add: example_journal_def)

text \<open>C8: A completed operation replays. After \<open>complete\<close> stores a result of the shape every parsed value has, as long as no
  command ends or removes its batch, \<open>begin\<close> reads the stored bytes back with the strict parser and answers that result, its
  members in sorted order, without executing and without changing anything. The float reader is only relied on to read back
  the shortest digits the writer prints.\<close>
theorem completed_replays:
  assumes "reachable sha read lim j"
    and "perform sha read io ent (Complete b x v) j = (Inr Done, j1)"
    and "\<forall>(io, ent, c) \<in> set es. \<not> closes (bt_generation b) c"
    and "reads_back read fl" "admissible fl v"
  shows "\<exists>i. perform sha read Io_ok ent' (Begin b x) (run sha read es j1) =
    (Inr (Granted \<lparr>ex_execute = False, ex_result = Some (ordered v), ex_operation_id = i\<rparr>), run sha read es j1)"
proof -
  note ok = reachable_ok [OF assms(1)]
  from assms(2) have x: "x \<in> set (bt_operations b)"
    and res: "canonical_result v (max_result_bytes (j_limits j)) = Inr (canonical v)"
    and w: "writing io ''Action result could not be committed'' (settle_work b x Completed (Some (canonical v))) j = (Inr (), j1)"
    by (auto simp: answer_Inr complete_def settle_def batch_require_def canonical_result_Inr split: sum.splits if_splits)
  have "levels v \<le> MAX_DEPTH"
    using res levels_nesting [of v] by (simp add: canonical_result_Inr MAX_JSON_DEPTH_def MAX_DEPTH_def)
  with assms(4,5) have parsed: "parse read (canonical v) = Inr (ordered v)" by (rule parse_canonical)
  from w obtain d d1 where d: "j_connection j = Some d" "settle_work b x Completed (Some (canonical v)) d = Inr ((), d1)"
    "j1 = j\<lparr>j_connection := Some d1\<rparr>" by (rule writing_Inr)
  have inv: "db_inv (j_limits j) d" using ok d(1) by (auto simp: journal_ok_def)
  from settle_completes [OF inv d(2)] obtain rows where l: "load b d = Inr rows"
    and c: "completed_in b x (canonical v) (map ident (ops_of d (bt_generation b))) (slot d1 (bt_generation b))" by blast
  have ok1: "journal_ok j1" "j_connection j1 = Some d1" "j_limits j1 = j_limits j"
    using perform_ok [OF _ assms(2)] ok d(3) by auto
  from run_completed [OF ok1(1,2) c assms(3), of sha read] ok1(3)
  obtain d2 where d2: "j_connection (run sha read es j1) = Some d2" "db_inv (j_limits j) d2"
    "completed_in b x (canonical v) (map ident (ops_of d (bt_generation b))) (slot d2 (bt_generation b))"
    "j_limits (run sha read es j1) = j_limits j" by auto
  have "load b d2 = Inr (ops_of d2 (bt_generation b))"
    by (rule load_ident [OF inv d2(2) l]) (use d2(3) in \<open>auto simp: completed_in_def slot_def\<close>)
  from begin_replays [OF d2(2) this d2(3) res parsed] obtain i where
    "begin_work read (j_limits j) b x d2 = Inr (\<lparr>ex_execute = False, ex_result = Some (ordered v), ex_operation_id = i\<rparr>, d2)" ..
  then show ?thesis
    using x d2 by (auto simp: answer_def begin_operation_def batch_require_def writing_ok [OF d2(1)])
qed

theorem completed_replays_witness:
  "\<exists>i. perform example_sha example_floats Io_ok [] (Begin example_batch example_operation)
      (run example_sha example_floats [(Io_ok, [], example_prepare), (Io_ok, [], Suspend example_batch example_operation)]
        (example_journal (example_db Completed 1))) =
    (Inr (Granted \<lparr>ex_execute = False, ex_result = Some (Object [(''n'', Number (Float64 False ''15'' 0)), (''ok'', Bool True)]), ex_operation_id = i\<rparr>),
      run example_sha example_floats [(Io_ok, [], example_prepare), (Io_ok, [], Suspend example_batch example_operation)]
        (example_journal (example_db Completed 1)))"
proof -
  have "reads_back example_floats (\<lambda>s d e. \<not> s \<and> d = ''15'' \<and> e = 0)"
  proof -
    have "float_repr False ''15'' 0 = ''1.5''" "float_shape ''15'' 0" by code_simp+
    then show ?thesis by (simp add: reads_back_def example_floats_def)
  qed
  moreover have "admissible (\<lambda>s d e. \<not> s \<and> d = ''15'' \<and> e = 0) example_result"
    by (simp add: example_result_def ascii_def)
  moreover have "ordered example_result = Object [(''n'', Number (Float64 False ''15'' 0)), (''ok'', Bool True)]" by code_simp
  ultimately show ?thesis
    using completed_replays [OF example_reachable(2) example_completed, of
        "[(Io_ok, [], example_prepare), (Io_ok, [], Suspend example_batch example_operation)]" _ "[]"]
    by (simp add: example_prepare_def)
qed

text \<open>C23: An archived generation stays retired. After \<open>archive\<close> succeeds, and as long as no command releases or
  purges it, whatever batch and storage answers come, no new batch is prepared for that generation and no operation of it
  begins: each attempt is refused and changes nothing. A well-formed batch is refused as \<open>JournalError::Archived\<close>, and a
  begin with a conflict.\<close>
theorem archived_stays_retired:
  assumes "reachable sha read lim j"
    and "perform sha read io ent (Archive g fp) j = (Inr Done, j1)"
    and "\<forall>(io, ent, c) \<in> set es. \<not> frees g c"
  shows "(\<exists>err. perform sha read io' ent' (Prepare g t xs a) (run sha read es j1) = (Inl err, run sha read es j1) \<and>
      (io' = Io_ok \<longrightarrow> is_ok (build sha g t xs (max_operations lim)) \<longrightarrow> err = Archived_generation)) \<and>
    (bt_generation b = g \<longrightarrow>
      (\<exists>err. perform sha read io' ent' (Begin b x) (run sha read es j1) = (Inl err, run sha read es j1) \<and>
        (io' = Io_ok \<longrightarrow> (\<exists>m. err = Conflict m))))"
proof -
  note ok = reachable_ok [OF assms(1)]
  from assms(2) obtain d d1 where d: "j_connection j = Some d" "archive_work g fp d = Inr ((), d1)"
    "j1 = j\<lparr>j_connection := Some d1\<rparr>"
    by (auto simp: answer_Inr archive_def safe_id_def elim: writing_Inr split: if_splits)
  have inv: "db_inv (j_limits j) d" using ok d(1) by (auto simp: journal_ok_def)
  have ok1: "journal_ok j1" "j_connection j1 = Some d1" "j_limits j1 = j_limits j"
    using perform_ok [OF _ assms(2)] ok d(3) by auto
  from run_archived [OF ok1(1,2) archive_work_archives [OF d(2) inv] assms(3), of sha read]
  obtain d2 where d2: "j_connection (run sha read es j1) = Some d2" "archived_in (slot d2 g)"
    "j_limits (run sha read es j1) = lim" using ok ok1(3) by auto
  have "prepare_work lim b a ent' d2 = Inl Archived_generation" if "build sha g t xs (max_operations lim) = Inr b" for b
    using prepare_archived d2(2) build_batch_ok(2) [OF that] by simp
  then have "\<exists>err. perform sha read io' ent' (Prepare g t xs a) (run sha read es j1) = (Inl err, run sha read es j1) \<and>
      (io' = Io_ok \<longrightarrow> is_ok (build sha g t xs (max_operations lim)) \<longrightarrow> err = Archived_generation)"
    using d2(1,3) by (auto simp: prepare_batch_def writing_def split: sum.splits io.splits)
  moreover have "\<exists>err. perform sha read io' ent' (Begin b x) (run sha read es j1) = (Inl err, run sha read es j1) \<and>
      (io' = Io_ok \<longrightarrow> (\<exists>m. err = Conflict m))" if gen: "bt_generation b = g"
  proof -
    obtain m where "begin_work read lim b x d2 = Inl (Conflict m)"
      using begin_archived [of d2 b read lim x] d2(2) gen by auto
    then show ?thesis
      using d2(1,3) by (auto simp: begin_operation_def batch_require_def writing_def split: io.splits)
  qed
  ultimately show ?thesis by blast
qed

definition example_archived :: db where
  "example_archived = \<lparr>batches = [\<lparr>b_generation = ''g1'', b_fingerprint = replicate 64 (CHR ''b''), b_count = 1,
       b_state = Archived, b_archivable = True\<rparr>], operations = []\<rparr>"

lemma example_archive:
  "perform example_sha example_floats Io_ok [] (Archive ''g1'' (replicate 64 (CHR ''b''))) (example_journal (example_db Completed 1))
     = (Inr Done, example_journal example_archived)"
  by (simp add: answer_def archive_def safe_id_def example_ids example_journal_def writing_def archive_work_def)
     (simp add: example_db_def find_batch_def update_batches_def check_batch_def require_changed_def
      delete_operations_def example_archived_def)

theorem archived_stays_retired_witness:
  "let j = run example_sha example_floats [(Io_ok, [], Discard ''g1'')] (example_journal example_archived) in
   perform example_sha example_floats Io_ok [] (Prepare ''g1'' ''t1'' [example_operation] False) j = (Inl Archived_generation, j) \<and>
   (\<exists>m. perform example_sha example_floats Io_ok [] (Begin example_batch example_operation) j = (Inl (Conflict m), j))"
proof -
  have "is_ok (build example_sha ''g1'' ''t1'' [example_operation] (max_operations example_limits))"
    by (simp add: example_build example_limits_def is_ok_def)
  then show ?thesis
    using archived_stays_retired [OF example_reachable(3) example_archive, of "[(Io_ok, [], Discard ''g1'')]" Io_ok "[]" "''t1''"
        "[example_operation]" False example_batch example_operation]
    by (auto simp: Let_def example_batch_def)
qed

text \<open>C24: Archiving never fails for capacity. In a reachable journal whose storage answers, archiving a batch that was
  prepared archivable succeeds whatever the journal's load, removes its operations, keeps its marker, and leaves every
  other generation alone.\<close>
theorem archive_always_possible:
  assumes "reachable sha read lim j" "j_connection j = Some d" "find_batch d g = Some h" "b_archivable h" "safe_id_re g"
  shows "\<exists>d'. perform sha read Io_ok ent (Archive g (b_fingerprint h)) j = (Inr Done, j\<lparr>j_connection := Some d'\<rparr>) \<and>
    slot d' g = (Some (h\<lparr>b_state := Archived\<rparr>), []) \<and> (\<forall>k. k \<noteq> g \<longrightarrow> slot d' k = slot d k)"
proof -
  have inv: "db_inv lim d" using reachable_ok [OF assms(1)] assms(2) by (auto simp: journal_ok_def)
  note mem = find_batch_mem [OF assms(3)]
  let ?p = "\<lambda>q. b_generation q = g \<and> b_fingerprint q = b_fingerprint h"
  have only: "q = h" if "q \<in> set (batches d)" "?p q" for q
    using same_generation [OF inv that(1), of h] mem that(2) by simp
  have chk: "check_batch (h\<lparr>b_state := Archived\<rparr>)" using slice_of [OF inv assms(3)] assms(4) by (simp add: check_batch_def)
  have one: "length (filter ?p (batches d)) = 1"
    using one_of_key [of b_generation "batches d" h ?p] inv mem only by (auto simp: db_inv_def)
  have "\<exists>d'. archive_work g (b_fingerprint h) d = Inr ((), d')"
    using assms(3,4) only chk one
    by (auto simp: archive_work_def update_batches_def require_changed_def list_all_iff)
  then obtain d' where w: "archive_work g (b_fingerprint h) d = Inr ((), d')" ..
  from moves_archive [OF inv w] have "\<forall>k. k \<noteq> g \<longrightarrow> slot d' k = slot d k" by (simp add: moves_def)
  moreover have "slot d' g = (Some (h\<lparr>b_state := Archived\<rparr>), [])"
  proof -
    have a: "archived_in (slot d' g)" by (rule archive_work_archives [OF w inv])
    have s: "slot d g = (Some h, ops_of d g)" using assms(3) by (simp add: slot_def)
    show ?thesis
    proof (cases "slot d' g = slot d g")
      case True
      then have "b_state h = Archived" using a s by (auto simp: archived_in_def)
      then show ?thesis using True s slot_archived [OF inv s] by simp
    next
      case False
      then have "slot_step (Archive g (b_fingerprint h)) (Some h, ops_of d g) (slot d' g)"
        using moves_archive [OF inv w] s by (simp add: moves_def)
      then show ?thesis by cases auto
    qed
  qed
  moreover have "perform sha read Io_ok ent (Archive g (b_fingerprint h)) j = (Inr Done, j\<lparr>j_connection := Some d'\<rparr>)"
    using assms(5) writing_ok [where work = "archive_work g (b_fingerprint h)", OF assms(2) w] by (simp add: answer_def archive_def safe_id_def)
  ultimately show ?thesis by blast
qed

theorem archive_always_possible_witness:
  "\<exists>d'. perform example_sha example_floats Io_ok [] (Archive ''g1'' (b_fingerprint (hd (batches (example_db Executing 1)))))
      (example_journal (example_db Executing 1)) =
      (Inr Done, (example_journal (example_db Executing 1))\<lparr>j_connection := Some d'\<rparr>) \<and>
    slot d' ''g1'' = (Some ((hd (batches (example_db Executing 1)))\<lparr>b_state := Archived\<rparr>), []) \<and>
    (\<forall>k. k \<noteq> ''g1'' \<longrightarrow> slot d' k = slot (example_db Executing 1) k)"
  by (rule archive_always_possible [OF example_reachable(2)])
     (simp_all add: example_journal_def find_batch_def example_db_def example_ids)

text \<open>C22: Preparing is idempotent. After \<open>prepare_batch\<close> answers a handle, preparing the same batch again (as a restarted
  caller does) on a storage that answers gives the same handle and leaves the journal exactly as it is: no row is added, no id is minted anew.\<close>
theorem prepare_idempotent:
  assumes "reachable sha read lim j"
    and "perform sha read io ent (Prepare g t xs a) j = (Inr (Handle b), j1)"
  shows "perform sha read Io_ok ent' (Prepare g t xs a) j1 = (Inr (Handle b), j1)"
proof -
  note ok = reachable_ok [OF assms(1)]
  from assms(2) obtain u d d1 where b: "build sha g t xs (max_operations lim) = Inr b"
    and d: "j_connection j = Some d" "prepare_work lim b a ent d = Inr (u, d1)" "j1 = j\<lparr>j_connection := Some d1\<rparr>"
    using ok by (auto simp: answer_Inr prepare_batch_def elim!: writing_Inr split: sum.splits prod.splits)
  have inv: "db_inv lim d" using ok d(1) by (auto simp: journal_ok_def)
  from prepared_loads [OF inv b d(2)] build_batch_ok(2) [OF b]
  have "prepare_work lim b a ent' d1 = Inr ((), d1)" by (auto intro: prepare_again)
  then show ?thesis using d(3) ok b by (simp add: answer_def prepare_batch_def writing_def)
qed

theorem prepare_idempotent_witness:
  "perform example_sha example_floats Io_ok [] (Prepare ''g1'' ''t1'' [example_operation] True) (example_journal (example_db Prepared 0))
     = (Inr (Handle example_batch), example_journal (example_db Prepared 0))"
  by (rule prepare_idempotent [OF example_opened example_prepared [unfolded example_prepare_def]])

text \<open>A minted operation id is canonical: whatever sixteen bytes the random source answers, \<open>new_operation_id\<close>
  returns, and the id is in the language of \<open>OPERATION_ID_RE\<close> that every reader of ids demands.\<close>
theorem minted_operation_id:
  "\<exists>i. new_operation_id (Some bytes # rest) = Some (i, rest) \<and> operation_id_re i"
proof -
  obtain i where i: "new_operation_id (Some bytes # rest) = Some (i, rest)"
    by (simp add: new_operation_id_def fill_def Let_def)
  then show ?thesis using new_operation_id_valid [OF i] by (simp add: operation_id_re_iff)
qed

end
