(* ===== verification/Calendar.thy ===== *)
theory Calendar
  imports Strict_Json
begin

text \<open>
  The proleptic Gregorian calendar of \<^verbatim>\<open>protocol/http/rust/src/python/datetime.rs\<close> and the date type of
  \<^verbatim>\<open>routine/src/dates/date.rs\<close>: years 1 to 9999, counted by their ordinal. An \<open>i32\<close> is an \<open>int\<close> here; every value
  these functions compute on an admitted date is below 3652060, so nothing wraps. Rust's truncating \<open>/\<close> and \<open>%\<close> are
  \<open>div\<close> and \<open>mod\<close> on the non-negative operands they are applied to.

  The main results are that ordinals and dates are in bijection (both loops of \<open>ord_to_ymd\<close> terminate and invert
  \<open>ymd_to_ord\<close>) and that the derived order of dates is the order of their ordinals.
\<close>

section \<open>Years, months and ordinals\<close>

definition is_leap :: "int \<Rightarrow> bool" where
  "is_leap year \<longleftrightarrow> year mod 4 = 0 \<and> (year mod 100 \<noteq> 0 \<or> year mod 400 = 0)"

definition days_in_month :: "int \<Rightarrow> int \<Rightarrow> int" where
  "days_in_month year month =
     (if month = 2 then (if is_leap year then 29 else 28)
      else if month \<in> {4, 6, 9, 11} then 30 else 31)"

definition days_in_year :: "int \<Rightarrow> int" where
  "days_in_year year = (if is_leap year then 366 else 365)"

definition days_before_year :: "int \<Rightarrow> int" where
  "days_before_year year = (let previous = year - 1 in
     previous * 365 + previous div 4 - previous div 100 + previous div 400)"

definition days_before_month :: "int \<Rightarrow> int \<Rightarrow> int" where
  "days_before_month year month = sum_list (map (days_in_month year) [1..month - 1])"

definition ymd_to_ord :: "int \<Rightarrow> int \<Rightarrow> int \<Rightarrow> int" where
  "ymd_to_ord year month day = days_before_year year + days_before_month year month + day"

definition DAYS_IN_400_YEARS :: int where "DAYS_IN_400_YEARS = 146097"

function year_loop :: "int \<Rightarrow> int \<Rightarrow> int \<times> int" where
  "year_loop year rest = (if rest \<ge> days_in_year year then year_loop (year + 1) (rest - days_in_year year) else (year, rest))"
  by pat_completeness auto
termination
  by (relation "measure (\<lambda>(year, rest). nat rest)") (auto simp: days_in_year_def split: if_splits)

function month_loop :: "int \<Rightarrow> int \<Rightarrow> int \<Rightarrow> int \<times> int" where
  "month_loop year month rest =
     (if rest \<ge> days_in_month year month then month_loop year (month + 1) (rest - days_in_month year month)
      else (month, rest))"
  by pat_completeness auto
termination
  by (relation "measure (\<lambda>(year, month, rest). nat rest)") (auto simp: days_in_month_def split: if_splits)

declare year_loop.simps [simp del] month_loop.simps [simp del]

definition ord_to_ymd :: "int \<Rightarrow> int \<times> int \<times> int" where
  "ord_to_ymd ordinal =
     (let offset = ordinal - 1;
          (year, rest) = year_loop (offset div DAYS_IN_400_YEARS * 400 + 1) (offset mod DAYS_IN_400_YEARS);
          (month, rest) = month_loop year 1 rest
      in (year, month, rest + 1))"

definition weekday :: "int \<Rightarrow> int \<Rightarrow> int \<Rightarrow> int" where
  "weekday year month day = (ymd_to_ord year month day + 6) mod 7"

section \<open>Dates\<close>

definition MAX_YEAR :: int where "MAX_YEAR = 9999"

datatype date = Date (year: int) (month: int) (day: int)

definition date_new :: "int \<Rightarrow> int \<Rightarrow> int \<Rightarrow> date option" where
  "date_new y m d =
     (if y < 1 \<or> y > MAX_YEAR \<or> m < 1 \<or> m > 12 \<or> d < 1 then None
      else if d > days_in_month y m then None
      else Some (Date y m d))"

definition ordinal :: "date \<Rightarrow> int" where
  "ordinal x = ymd_to_ord (year x) (month x) (day x)"

definition LAST_ORDINAL :: int where "LAST_ORDINAL = ymd_to_ord MAX_YEAR 12 31"

definition from_ordinal :: "int \<Rightarrow> date option" where
  "from_ordinal n =
     (if \<not> (1 \<le> n \<and> n \<le> LAST_ORDINAL) then None
      else let (y, m, d) = ord_to_ymd n in Some (Date y m d))"

definition add_days :: "date \<Rightarrow> int \<Rightarrow> date option" where
  "add_days x days = (case checked_add_i64 (ordinal x) days of
      None \<Rightarrow> None
    | Some n \<Rightarrow> if - (2 ^ 31) \<le> n \<and> n < 2 ^ 31 then from_ordinal n else None)"

definition days_since :: "date \<Rightarrow> date \<Rightarrow> int" where
  "days_since x other = ordinal x - ordinal other"

definition date_weekday :: "date \<Rightarrow> int" where
  "date_weekday x = (ordinal x + 6) mod 7"

definition padded :: "nat \<Rightarrow> int \<Rightarrow> string" where
  \<comment> \<open>\<open>{:0width}\<close> of a non-negative number\<close>
  "padded width n = (let s = show_int n in replicate (width - length s) (CHR ''0'') @ s)"

definition isoformat :: "date \<Rightarrow> string" where
  "isoformat x = padded 4 (year x) @ ''-'' @ padded 2 (month x) @ ''-'' @ padded 2 (day x)"

definition valid_date :: "date \<Rightarrow> bool" where
  "valid_date x \<longleftrightarrow> 1 \<le> year x \<and> year x \<le> MAX_YEAR \<and> 1 \<le> month x \<and> month x \<le> 12 \<and>
     1 \<le> day x \<and> day x \<le> days_in_month (year x) (month x)"

text \<open>The derived \<open>Ord\<close> of the struct: year, then month, then day.\<close>

instantiation date :: linorder
begin

definition less_eq_date :: "date \<Rightarrow> date \<Rightarrow> bool" where
  "less_eq_date a b \<longleftrightarrow> year a < year b \<or> (year a = year b \<and> (month a < month b \<or> (month a = month b \<and> day a \<le> day b)))"

definition less_date :: "date \<Rightarrow> date \<Rightarrow> bool" where
  "less_date a b \<longleftrightarrow> year a < year b \<or> (year a = year b \<and> (month a < month b \<or> (month a = month b \<and> day a < day b)))"

instance
  by intro_classes (auto simp: less_eq_date_def less_date_def date.expand)

end

section \<open>Ordinals\<close>

lemma days_in_month_bounds: "28 \<le> days_in_month y m" "days_in_month y m \<le> 31"
  by (auto simp: days_in_month_def)

lemma div_pred: "y div k = (y - 1) div k + (if y mod k = 0 then 1 else 0)" if "0 < k" for y k :: int
proof -
  let ?q = "(y - 1) div k" and ?r = "(y - 1) mod k"
  have y: "y = k * ?q + (?r + 1)" by simp
  have r: "0 \<le> ?r" "?r < k" using that by simp_all
  show ?thesis
  proof (cases "?r + 1 = k")
    case True
    then have "y = k * (?q + 1)" using y by (simp add: algebra_simps)
    then have "y div k = ?q + 1" "y mod k = 0" using that by (metis nonzero_mult_div_cancel_left less_irrefl, metis mod_mult_self1_is_0)
    then show ?thesis by simp
  next
    case False
    then have "0 \<le> ?r + 1" "?r + 1 < k" using r by linarith+
    then have "y div k = ?q" "y mod k = ?r + 1" using y by (metis int_div_pos_eq, metis int_mod_pos_eq)
    then show ?thesis using r by simp
  qed
qed

lemma leap_count:
  "a' = a + (if p then 1 else 0) \<Longrightarrow> b' = b + (if q then 1 else 0) \<Longrightarrow> c' = c + (if r then 1 else 0) \<Longrightarrow>
   (q \<Longrightarrow> p) \<Longrightarrow> (r \<Longrightarrow> q) \<Longrightarrow>
   y * 365 + a' - b' + c' = (y - 1) * 365 + a - b + c + (if p \<and> (\<not> q \<or> r) then 366 else 365)" for y :: int
  by auto

lemma days_before_year_Suc: "days_before_year (y + 1) = days_before_year y + days_in_year y"
proof -
  have 4: "y mod 100 = 0 \<Longrightarrow> y mod 4 = 0" using dvd_trans [of 4 100 y] by (simp only: dvd_eq_mod_eq_0) simp
  have 100: "y mod 400 = 0 \<Longrightarrow> y mod 100 = 0" using dvd_trans [of 100 400 y] by (simp only: dvd_eq_mod_eq_0) simp
  have "days_before_year (y + 1) = y * 365 + y div 4 - y div 100 + y div 400" by (simp add: days_before_year_def)
  also have "\<dots> = (y - 1) * 365 + (y - 1) div 4 - (y - 1) div 100 + (y - 1) div 400
      + (if y mod 4 = 0 \<and> (y mod 100 \<noteq> 0 \<or> y mod 400 = 0) then 366 else 365)"
    by (rule leap_count [OF div_pred div_pred div_pred 4 100]) simp_all
  also have "\<dots> = days_before_year y + days_in_year y"
    by (simp only: days_before_year_def days_in_year_def is_leap_def Let_def)
  finally show ?thesis .
qed

lemma days_before_month_Suc: "1 \<le> m \<Longrightarrow> days_before_month y (m + 1) = days_before_month y m + days_in_month y m"
  by (simp add: days_before_month_def upto_rec2)

lemma days_before_month_1 [simp]: "days_before_month y 1 = 0"
  by (simp add: days_before_month_def)

lemma days_before_month_13: "days_before_month y 13 = days_in_year y"
  by (simp add: days_before_month_def upto_rec1 days_in_month_def days_in_year_def)

lemma days_before_year_cycle: "days_before_year (k * 400 + 1) = k * 146097"
  by (simp add: days_before_year_def Let_def)

lemma days_before_year_strict: "y < y' \<Longrightarrow> days_before_year y + days_in_year y \<le> days_before_year y'"
proof (induction y' rule: int_gr_induct)
  case base
  then show ?case by (simp add: days_before_year_Suc)
next
  case (step i)
  then show ?case by (simp add: days_before_year_Suc days_in_year_def)
qed

lemma days_before_month_strict:
  "m < m' \<Longrightarrow> 1 \<le> m \<Longrightarrow> days_before_month y m + days_in_month y m \<le> days_before_month y m'"
proof (induction m' rule: int_gr_induct)
  case base
  then show ?case by (simp add: days_before_month_Suc)
next
  case (step i)
  then show ?case using days_in_month_bounds(1) [of y i] by (simp add: days_before_month_Suc)
qed

lemma year_loop_spec:
  "year_loop y r = (y', r') \<Longrightarrow> 0 \<le> r \<Longrightarrow>
   y \<le> y' \<and> days_before_year y' + r' = days_before_year y + r \<and> 0 \<le> r' \<and> r' < days_in_year y'"
proof (induction y r rule: year_loop.induct)
  case (1 y r)
  then show ?case
    by (subst (asm) year_loop.simps) (auto simp: days_before_year_Suc split: if_splits)
qed

lemma month_loop_spec:
  "month_loop y m r = (m', r') \<Longrightarrow> 0 \<le> r \<Longrightarrow> 1 \<le> m \<Longrightarrow>
   m \<le> m' \<and> days_before_month y m' + r' = days_before_month y m + r \<and> 0 \<le> r' \<and> r' < days_in_month y m'"
proof (induction y m r rule: month_loop.induct)
  case (1 y m r)
  then show ?case
    by (subst (asm) month_loop.simps) (auto simp: days_before_month_Suc split: if_splits)
qed

lemma ord_to_ymd_spec:
  assumes "1 \<le> n" "ord_to_ymd n = (y, m, d)"
  shows "1 \<le> y" "1 \<le> m" "m \<le> 12" "1 \<le> d" "d \<le> days_in_month y m" "ymd_to_ord y m d = n"
proof -
  let ?k = "(n - 1) div 146097" and ?r = "(n - 1) mod 146097"
  obtain r where yl: "year_loop (?k * 400 + 1) ?r = (y, r)" and ml: "month_loop y 1 r = (m, d - 1)"
    using assms(2) by (auto simp: ord_to_ymd_def Let_def DAYS_IN_400_YEARS_def split: prod.splits)
  have yr: "?k * 400 + 1 \<le> y" "days_before_year y + r = ?k * 146097 + ?r" "0 \<le> r" "r < days_in_year y"
    using year_loop_spec [OF yl] by (simp_all add: days_before_year_cycle)
  have n: "?k * 146097 + ?r = n - 1" by simp
  have md: "1 \<le> m" "days_before_month y m + (d - 1) = r" "0 \<le> d - 1" "d - 1 < days_in_month y m"
    using month_loop_spec [OF ml] yr(3) by simp_all
  show "1 \<le> y" using yr(1) assms(1) pos_imp_zdiv_nonneg_iff [of 146097 "n - 1"] by linarith
  show "1 \<le> m" "1 \<le> d" "d \<le> days_in_month y m" using md by simp_all
  show "m \<le> 12"
  proof (rule ccontr)
    assume "\<not> m \<le> 12"
    then have "days_before_month y 13 \<le> days_before_month y m"
      using days_before_month_strict [of 13 m y] days_in_month_bounds(1) [of y 13] by (cases "m = 13") auto
    then show False using md yr(4) by (simp add: days_before_month_13)
  qed
  show "ymd_to_ord y m d = n" using yr(2) md(2) n by (simp add: ymd_to_ord_def)
qed

section \<open>Dates and ordinals are in bijection\<close>

lemma days_before_month_le:
  assumes "1 \<le> m" "m \<le> 12"
  shows "days_before_month y m + days_in_month y m \<le> days_in_year y"
  using days_before_month_strict [of m 13 y] assms by (simp add: days_before_month_13)

lemma ordinal_less:
  assumes "valid_date a" "valid_date b" "a < b"
  shows "ordinal a < ordinal b"
proof -
  note v = assms(1,2) [unfolded valid_date_def]
  have bm: "0 \<le> days_before_month (year b) (month b)"
    using days_before_month_strict [of 1 "month b" "year b"] days_in_month_bounds(1) [of "year b" 1] v
    by (cases "month b = 1") auto
  consider "year a < year b" | "year a = year b" "month a < month b" | "year a = year b" "month a = month b" "day a < day b"
    using assms(3) by (auto simp: less_date_def)
  then show ?thesis
  proof cases
    case 1
    then show ?thesis
      using days_before_year_strict [OF 1] days_before_month_le [of "month a" "year a"] v bm
      by (simp add: ordinal_def ymd_to_ord_def)
  next
    case 2
    then show ?thesis
      using days_before_month_strict [of "month a" "month b" "year a"] v by (simp add: ordinal_def ymd_to_ord_def)
  next
    case 3
    then show ?thesis by (simp add: ordinal_def ymd_to_ord_def)
  qed
qed

lemma ordinal_less_iff: "valid_date a \<Longrightarrow> valid_date b \<Longrightarrow> ordinal a < ordinal b \<longleftrightarrow> a < b"
  using ordinal_less [of a b] ordinal_less [of b a] by (cases a b rule: linorder_cases) auto

lemma ordinal_inj: "valid_date a \<Longrightarrow> valid_date b \<Longrightarrow> ordinal a = ordinal b \<Longrightarrow> a = b"
  using ordinal_less [of a b] ordinal_less [of b a] by (cases a b rule: linorder_cases) auto

lemma LAST_ORDINAL_value: "LAST_ORDINAL = 3652059"
  by (simp add: LAST_ORDINAL_def MAX_YEAR_def ymd_to_ord_def days_before_year_def days_before_month_def
      upto_rec1 days_in_month_def is_leap_def)

lemma valid_last: "valid_date (Date 9999 12 31)"
  by (simp add: valid_date_def MAX_YEAR_def days_in_month_def)

lemma valid_first: "valid_date (Date 1 1 1)" "ordinal (Date 1 1 1) = 1"
  by (simp_all add: valid_date_def MAX_YEAR_def days_in_month_def ordinal_def ymd_to_ord_def days_before_year_def)

lemma ordinal_range:
  assumes "valid_date x"
  shows "1 \<le> ordinal x" "ordinal x \<le> LAST_ORDINAL"
proof -
  note v = assms [unfolded valid_date_def]
  have "\<not> x < Date 1 1 1" "\<not> Date 9999 12 31 < x"
    using v by (auto simp: less_date_def MAX_YEAR_def days_in_month_def split: if_splits)
  then have "\<not> ordinal x < ordinal (Date 1 1 1)" "\<not> ordinal (Date 9999 12 31) < ordinal x"
    using ordinal_less_iff assms valid_first(1) valid_last by blast+
  then show "1 \<le> ordinal x" "ordinal x \<le> LAST_ORDINAL"
    using valid_first(2) by (simp_all add: LAST_ORDINAL_def MAX_YEAR_def ordinal_def)
qed

lemma from_ordinal_Some:
  assumes "1 \<le> n" "n \<le> LAST_ORDINAL"
  shows "\<exists>x. from_ordinal n = Some x \<and> valid_date x \<and> ordinal x = n"
proof -
  obtain y m d where o: "ord_to_ymd n = (y, m, d)" by (cases "ord_to_ymd n")
  note sp = ord_to_ymd_spec [OF assms(1) o]
  have "y \<le> MAX_YEAR"
  proof (rule ccontr)
    assume "\<not> y \<le> MAX_YEAR"
    then have "days_before_year MAX_YEAR + days_in_year MAX_YEAR \<le> days_before_year y"
      by (intro days_before_year_strict) simp
    moreover have "0 \<le> days_before_month y m"
      using days_before_month_strict [of 1 m y] days_in_month_bounds(1) [of y 1] sp(2) by (cases "m = 1") auto
    moreover have "LAST_ORDINAL = days_before_year MAX_YEAR + days_in_year MAX_YEAR"
      by (simp add: LAST_ORDINAL_value MAX_YEAR_def days_before_year_def days_in_year_def is_leap_def)
    ultimately show False using sp(4,6) assms(2) by (simp add: ymd_to_ord_def)
  qed
  then show ?thesis using sp assms by (simp add: from_ordinal_def o valid_date_def ordinal_def)
qed

lemma from_ordinal_ordinal:
  assumes "valid_date x"
  shows "from_ordinal (ordinal x) = Some x"
proof -
  from from_ordinal_Some [OF ordinal_range [OF assms]] obtain z where
    "from_ordinal (ordinal x) = Some z" "valid_date z" "ordinal z = ordinal x" by blast
  then show ?thesis using ordinal_inj assms by metis
qed

lemma add_days_Some:
  assumes "valid_date x" "add_days x n = Some z"
  shows "valid_date z" "ordinal z = ordinal x + n"
proof -
  from assms(2) have f: "from_ordinal (ordinal x + n) = Some z"
    by (auto simp: add_days_def checked_add_i64_def split: if_splits)
  then have "1 \<le> ordinal x + n" "ordinal x + n \<le> LAST_ORDINAL" by (auto simp: from_ordinal_def split: if_splits)
  from from_ordinal_Some [OF this] f show "valid_date z" "ordinal z = ordinal x + n" by auto
qed

lemma add_days_iff:
  assumes "valid_date x"
  shows "(\<exists>z. add_days x n = Some z) \<longleftrightarrow> 1 \<le> ordinal x + n \<and> ordinal x + n \<le> LAST_ORDINAL"
proof
  assume "\<exists>z. add_days x n = Some z"
  then show "1 \<le> ordinal x + n \<and> ordinal x + n \<le> LAST_ORDINAL"
    by (auto simp: add_days_def from_ordinal_def split: option.splits if_splits simp: checked_add_Some)
next
  assume r: "1 \<le> ordinal x + n \<and> ordinal x + n \<le> LAST_ORDINAL"
  then have "checked_add_i64 (ordinal x) n = Some (ordinal x + n)"
    by (simp add: checked_add_i64_def in_i64_bounds LAST_ORDINAL_value)
  then show "\<exists>z. add_days x n = Some z"
    using from_ordinal_Some [of "ordinal x + n"] r by (auto simp: add_days_def LAST_ORDINAL_value)
qed

lemma date_new_Some: "date_new y m d = Some x \<longleftrightarrow> x = Date y m d \<and> valid_date x"
  by (auto simp: date_new_def valid_date_def)

end
