(* ===== verification/Schedule.thy ===== *)
theory Schedule
  imports Calendar Text_Patterns
begin

text \<open>
  When a Routine fires: \<^verbatim>\<open>routine/src/schedule/mod.rs\<close>, with the canonical schedules, timezones and daily caps of
  \<^verbatim>\<open>protocol/http/rust/src/routine/mod.rs\<close>.

  The timezone database is the crate \<open>jiff\<close>: its three calls are the record \<open>zones\<close>, an argument of everything that
  reads a clock. \<open>zone_known\<close> says whether a zone of exactly this IANA name loads, \<open>zone_date\<close> is the civil date of an
  instant, and \<open>zone_instant\<close> the instant of a civil minute under the compatible disambiguation.
\<close>

record zones =
  zone_known :: "string \<Rightarrow> bool"
  zone_date :: "string \<Rightarrow> int \<Rightarrow> (int \<times> int \<times> int) option"
  zone_instant :: "string \<Rightarrow> int \<Rightarrow> int \<Rightarrow> int \<Rightarrow> int \<Rightarrow> int \<Rightarrow> int option"

section \<open>Canonical schedules and timezones\<close>

definition MIN_CONTINUOUS_GAP_SECONDS :: int where "MIN_CONTINUOUS_GAP_SECONDS = 5"
definition MAX_CONTINUOUS_GAP_SECONDS :: int where "MAX_CONTINUOUS_GAP_SECONDS = 366 * 86400"
definition DAY_SECONDS :: int where "DAY_SECONDS = 86400"

definition SCHEDULE_KINDS :: "string list" where
  "SCHEDULE_KINDS = [''continuous'', ''daily'', ''monthly'', ''weekly'']"

definition schedule_fields :: "string \<Rightarrow> string list" where
  "schedule_fields kind =
     (if kind = ''daily'' then [''kind'', ''time'']
      else if kind = ''weekly'' then [''kind'', ''weekday'', ''time'']
      else if kind = ''monthly'' then [''kind'', ''day'', ''time'']
      else [''kind'', ''gap''])"

text \<open>\<open>(?:[01][0-9]|2[0-3]):[0-5][0-9]\<close>\<close>

definition time_re :: "string \<Rightarrow> bool" where
  "time_re s = (case s of
      [a, b, c, d, e] \<Rightarrow>
        ((between (CHR ''0'') (CHR ''1'') a \<and> digit b) \<or> (a = CHR ''2'' \<and> between (CHR ''0'') (CHR ''3'') b)) \<and>
        c = CHR '':'' \<and> between (CHR ''0'') (CHR ''5'') d \<and> digit e
    | _ \<Rightarrow> False)"

definition full_value :: "(string \<Rightarrow> bool) \<Rightarrow> json \<Rightarrow> bool" where
  \<comment> \<open>\<open>Pattern::is_full_value\<close>: a string that fully matches\<close>
  "full_value re v = (case v of Str s \<Rightarrow> re s | _ \<Rightarrow> False)"

definition canonical_schedule :: "json \<Rightarrow> json option" where
  "canonical_schedule v =
     (case Option.bind (get v ''kind'') as_str of
        None \<Rightarrow> None
      | Some kind \<Rightarrow>
          if kind \<notin> set SCHEDULE_KINDS then None
          else (case exact_object v (schedule_fields kind) of
              None \<Rightarrow> None
            | Some ms \<Rightarrow>
                if (if kind = ''continuous''
                    then whole (field ms ''gap'') MIN_CONTINUOUS_GAP_SECONDS MAX_CONTINUOUS_GAP_SECONDS
                    else full_value time_re (field ms ''time'')
                         \<and> (kind \<noteq> ''weekly'' \<or> whole (field ms ''weekday'') 0 6)
                         \<and> (kind \<noteq> ''monthly'' \<or> whole (field ms ''day'') 1 28))
                then Some v else None))"

definition continuous_cap :: "int \<Rightarrow> int" where
  \<comment> \<open>of a positive gap, on which Rust's division is \<open>div\<close>\<close>
  "continuous_cap gap = (DAY_SECONDS - 1) div gap + 1"

definition daily_cap :: "json \<Rightarrow> int" where
  "daily_cap schedule = (case Option.bind (get schedule ''gap'') small_int of
      Some gap \<Rightarrow> if as_str (at schedule ''kind'') = Some ''continuous'' then continuous_cap gap else 1
    | None \<Rightarrow> 1)"

text \<open>\<open>[A-Za-z][A-Za-z0-9_+-]{0,31}(?:/[A-Za-z0-9][A-Za-z0-9_+-]{0,31}){0,2}\<close>\<close>

fun split_on :: "char \<Rightarrow> string \<Rightarrow> string list" where
  "split_on sep [] = [[]]"
| "split_on sep (c # cs) = (if c = sep then [] # split_on sep cs
     else (case split_on sep cs of [] \<Rightarrow> [[c]] | s # ss \<Rightarrow> (c # s) # ss))"

definition zone_char :: "char \<Rightarrow> bool" where
  "zone_char c \<longleftrightarrow> alnum c \<or> c \<in> set ''_+-''"

definition timezone_re :: "string \<Rightarrow> bool" where
  "timezone_re s = (case split_on (CHR ''/'') s of
      [] \<Rightarrow> False
    | first # rest \<Rightarrow> first_rest (\<lambda>c. lower c \<or> upper c) zone_char 31 first \<and> length rest \<le> 2 \<and>
        list_all (first_rest alnum zone_char 31) rest)"

definition canonical_timezone :: "json \<Rightarrow> string option" where
  "canonical_timezone v = (case as_str v of Some s \<Rightarrow> if timezone_re s then Some s else None | None \<Rightarrow> None)"

definition zoned :: "json \<Rightarrow> json \<Rightarrow> bool" where
  "zoned timezone source = (case as_str source of
      None \<Rightarrow> False
    | Some src \<Rightarrow> src \<in> {''browser'', ''person'', ''none''} \<and>
        (case canonical_timezone timezone of None \<Rightarrow> False | Some zone \<Rightarrow> src \<noteq> ''none'' \<or> zone = ''UTC''))"

section \<open>The next firing\<close>

definition zone_named :: "zones \<Rightarrow> string \<Rightarrow> string + string" where
  "zone_named zs name =
     (if canonical_timezone (Str name) = None then Inl ''invalid timezone''
      else if zone_known zs name then Inr name else Inl ''unknown timezone'')"

definition zone :: "zones \<Rightarrow> json \<Rightarrow> string + string" where
  "zone zs name = (case canonical_timezone name of
      None \<Rightarrow> Inl ''invalid timezone'' | Some n \<Rightarrow> zone_named zs n)"

definition digits_value :: "string \<Rightarrow> int option" where
  "digits_value s = (if s \<noteq> [] \<and> list_all digit s
     then Some (foldl (\<lambda>v c. v * 10 + (of_char c - 48)) 0 s) else None)"

definition parse_i8 :: "string \<Rightarrow> int option" where
  \<comment> \<open>\<open>str::parse::<i8>\<close>\<close>
  "parse_i8 s =
     (let v = (if take 1 s = ''-'' then map_option uminus (digits_value (drop 1 s))
        else if take 1 s = ''+'' then digits_value (drop 1 s)
        else digits_value s)
      in case v of Some n \<Rightarrow> if - 128 \<le> n \<and> n \<le> 127 then Some n else None | None \<Rightarrow> None)"

definition split_once :: "char \<Rightarrow> string \<Rightarrow> (string \<times> string) option" where
  "split_once sep s = (if sep \<in> set s
     then Some (takeWhile (\<lambda>c. c \<noteq> sep) s, drop 1 (dropWhile (\<lambda>c. c \<noteq> sep) s)) else None)"

definition wall_clock :: "zones \<Rightarrow> date \<Rightarrow> string \<Rightarrow> string \<Rightarrow> int option" where
  "wall_clock zs x time zn =
     (case split_once (CHR '':'') time of
        None \<Rightarrow> None
      | Some (hour, minute) \<Rightarrow>
          (case (parse_i8 hour, parse_i8 minute) of
             (Some h, Some m) \<Rightarrow> zone_instant zs zn (year x) (month x) (day x) h m
           | _ \<Rightarrow> None))"

definition date_at :: "zones \<Rightarrow> int \<Rightarrow> string \<Rightarrow> date option" where
  "date_at zs instant zn = (case zone_date zs zn instant of
      None \<Rightarrow> None | Some (y, m, d) \<Rightarrow> date_new y m d)"

definition schedule_matches :: "json \<Rightarrow> date \<Rightarrow> bool" where
  "schedule_matches schedule x =
     (if as_str (at schedule ''kind'') = Some ''weekly'' then value_eq (at schedule ''weekday'') (int_value (date_weekday x))
      else if as_str (at schedule ''kind'') = Some ''monthly'' then value_eq (at schedule ''day'') (int_value (day x))
      else True)"

lemma add_days_bound: "add_days x n = Some z \<Longrightarrow> ordinal z = ordinal x + n \<and> ordinal z \<le> LAST_ORDINAL \<and> valid_date z"
proof -
  assume "add_days x n = Some z"
  then have f: "from_ordinal (ordinal x + n) = Some z"
    by (auto simp: add_days_def checked_add_i64_def split: if_splits)
  then have "1 \<le> ordinal x + n" "ordinal x + n \<le> LAST_ORDINAL" by (auto simp: from_ordinal_def split: if_splits)
  from from_ordinal_Some [OF this] f this show ?thesis by auto
qed

definition firing_on :: "zones \<Rightarrow> json \<Rightarrow> string \<Rightarrow> string \<Rightarrow> int \<Rightarrow> date \<Rightarrow> (string + int) option" where
  \<comment> \<open>one turn of the loop: the answer on this day, or none and the next day is tried\<close>
  "firing_on zs schedule time zn after x =
     (if schedule_matches schedule x then
        (case wall_clock zs x time zn of
           None \<Rightarrow> Some (Inl ''invalid schedule'')
         | Some candidate \<Rightarrow> if candidate > after then Some (Inr candidate) else None)
      else None)"

function firing_loop :: "zones \<Rightarrow> json \<Rightarrow> string \<Rightarrow> string \<Rightarrow> int \<Rightarrow> date \<Rightarrow> string + int" where
  "firing_loop zs schedule time zn after x =
     (case firing_on zs schedule time zn after x of
        Some answer \<Rightarrow> answer
      | None \<Rightarrow> (case add_days x 1 of
            None \<Rightarrow> Inl ''invalid schedule''
          | Some z \<Rightarrow> firing_loop zs schedule time zn after z))"
  by pat_completeness auto
termination
  by (relation "measure (\<lambda>(zs, schedule, time, zn, after, x). nat (LAST_ORDINAL - ordinal x))")
     (auto dest: add_days_bound)

declare firing_loop.simps [simp del]

definition next_run :: "zones \<Rightarrow> json \<Rightarrow> json \<Rightarrow> int \<Rightarrow> int \<Rightarrow> string + int" where
  "next_run zs schedule timezone anchor after0 =
     rbind (ok_or (canonical_schedule schedule) ''invalid schedule'') (\<lambda>canon.
     rbind (zone zs timezone) (\<lambda>zn.
     let after = max after0 anchor in
     case Option.bind (get canon ''gap'') small_int of
       Some gap \<Rightarrow> ok_or (checked_add_i64 after gap) ''invalid schedule''
     | None \<Rightarrow>
         rbind (ok_or (as_str (at canon ''time'')) ''invalid schedule'') (\<lambda>time.
         rbind (ok_or (Option.bind (date_at zs after zn) (\<lambda>x. add_days x (- 1))) ''invalid schedule'') (\<lambda>x.
           firing_loop zs canon time zn after x))))"

section \<open>What the loop finds\<close>

lemma firing_loop_Inr:
  assumes "firing_loop zs s time zn after x = Inr t" "valid_date x"
  shows "t > after \<and> (\<exists>z. valid_date z \<and> x \<le> z \<and> schedule_matches s z \<and> wall_clock zs z time zn = Some t \<and>
     (\<forall>w. valid_date w \<longrightarrow> x \<le> w \<longrightarrow> w < z \<longrightarrow> schedule_matches s w \<longrightarrow>
        (\<exists>c. wall_clock zs w time zn = Some c \<and> c \<le> after)))"
  using assms
proof (induction zs s time zn after x rule: firing_loop.induct)
  case (1 zs s time zn after x)
  show ?case
  proof (cases "schedule_matches s x \<and> (\<exists>c. wall_clock zs x time zn = Some c \<and> c > after)")
    case True
    then obtain c where c: "wall_clock zs x time zn = Some c" "c > after" by blast
    with 1(2) True have "t = c" by (subst (asm) firing_loop.simps) (simp add: firing_on_def)
    then show ?thesis using c True 1(3) by (intro conjI exI [of _ x]) auto
  next
    case False
    with 1(2) obtain z where z: "add_days x 1 = Some z" "firing_loop zs s time zn after z = Inr t"
      and none: "firing_on zs s time zn after x = None"
      and x: "schedule_matches s x \<longrightarrow> (\<exists>c. wall_clock zs x time zn = Some c \<and> c \<le> after)"
      by (subst (asm) firing_loop.simps) (auto simp: firing_on_def split: if_splits option.splits)
    note zb = add_days_bound [OF z(1)]
    have IH: "t > after \<and> (\<exists>w. valid_date w \<and> z \<le> w \<and> schedule_matches s w \<and> wall_clock zs w time zn = Some t \<and>
       (\<forall>v. valid_date v \<longrightarrow> z \<le> v \<longrightarrow> v < w \<longrightarrow> schedule_matches s v \<longrightarrow>
          (\<exists>c. wall_clock zs v time zn = Some c \<and> c \<le> after)))"
      using 1(1) [OF none z(1) z(2)] zb by blast
    have later: "v = x \<or> z \<le> v" if "valid_date v" "x \<le> v" for v
    proof (cases "v = x")
      case False
      then have "ordinal x < ordinal v" using that ordinal_less [OF 1(3) that(1)] by simp
      then have "\<not> ordinal v < ordinal z" using zb by simp
      then have "\<not> v < z" using ordinal_less_iff [OF that(1), of z] zb by simp
      then show ?thesis by (simp add: not_less)
    qed simp
    have "x < z" using ordinal_less_iff [OF 1(3), of z] zb by simp
    from IH obtain w where w: "valid_date w" "z \<le> w" "schedule_matches s w" "wall_clock zs w time zn = Some t"
      "\<And>v. valid_date v \<Longrightarrow> z \<le> v \<Longrightarrow> v < w \<Longrightarrow> schedule_matches s v \<Longrightarrow>
        \<exists>c. wall_clock zs v time zn = Some c \<and> c \<le> after" by blast
    have "x \<le> w" using \<open>x < z\<close> w(2) by simp
    moreover have "\<exists>c. wall_clock zs v time zn = Some c \<and> c \<le> after"
      if "valid_date v" "x \<le> v" "v < w" "schedule_matches s v" for v
      using later [OF that(1,2)] w(5) [OF that(1)] x that by blast
    ultimately show ?thesis using IH w(1,3,4) by blast
  qed
qed

lemma canonical_schedule_Some: "canonical_schedule v = Some w \<Longrightarrow> w = v"
  by (auto simp: canonical_schedule_def split: option.splits if_splits)

lemma as_str_Some [simp]: "as_str v = Some s \<longleftrightarrow> v = Str s"
  by (cases v) auto

lemma small_int_Some [simp]: "small_int v = Some i \<longleftrightarrow> v = Number (Int64 i)"
  by (cases v rule: small_int.cases) auto

lemma at_field: "at (Object ms) key = field ms key"
  by (simp add: field_def)

lemma canonical_schedule_parts:
  assumes "canonical_schedule s = Some s'"
  obtains kind ms where "s = Object ms" "get s ''kind'' = Some (Str kind)" "kind \<in> set SCHEDULE_KINDS"
    "has_fields s (schedule_fields kind)"
    "kind = ''continuous'' \<Longrightarrow> whole (at s ''gap'') MIN_CONTINUOUS_GAP_SECONDS MAX_CONTINUOUS_GAP_SECONDS"
    "kind \<noteq> ''continuous'' \<Longrightarrow> full_value time_re (at s ''time'')"
    "kind = ''weekly'' \<Longrightarrow> whole (at s ''weekday'') 0 6" "kind = ''monthly'' \<Longrightarrow> whole (at s ''day'') 1 28"
proof -
  from assms obtain kind ms where k: "get s ''kind'' = Some (Str kind)" "kind \<in> set SCHEDULE_KINDS"
    and e: "exact_object s (schedule_fields kind) = Some ms"
    and ok: "if kind = ''continuous'' then whole (field ms ''gap'') MIN_CONTINUOUS_GAP_SECONDS MAX_CONTINUOUS_GAP_SECONDS
         else full_value time_re (field ms ''time'') \<and> (kind \<noteq> ''weekly'' \<or> whole (field ms ''weekday'') 0 6) \<and>
           (kind \<noteq> ''monthly'' \<or> whole (field ms ''day'') 1 28)"
    unfolding canonical_schedule_def by (auto simp: bind_eq_Some_conv split: option.splits if_split_asm)
  from e have "has_fields s (schedule_fields kind)" "s = Object ms"
    by (auto simp: exact_object_def has_fields_def split: if_splits json.splits)
  with k ok show ?thesis by (intro that [of ms kind]) (auto simp: field_def)
qed

section \<open>Every canonical schedule fires\<close>

lemma next_day_of_month:
  assumes x: "valid_date x" and k: "1 \<le> k" "k \<le> 28" and room: "ordinal x + 31 \<le> LAST_ORDINAL"
  shows "\<exists>z. valid_date z \<and> day z = k \<and> ordinal x < ordinal z \<and> ordinal z \<le> ordinal x + 31"
proof (cases "day x < k")
  case True
  let ?z = "Date (year x) (month x) k"
  have "valid_date ?z" using x k days_in_month_bounds(1) [of "year x" "month x"] by (simp add: valid_date_def)
  moreover have "ordinal ?z = ordinal x + (k - day x)" by (simp add: ordinal_def ymd_to_ord_def)
  ultimately show ?thesis using True k x by (intro exI [of _ ?z]) (auto simp: valid_date_def)
next
  case False
  note v = x [unfolded valid_date_def]
  define y' where "y' = (if month x = 12 then year x + 1 else year x)"
  define m' where "m' = (if month x = 12 then 1 else month x + 1)"
  let ?z = "Date y' m' k"
  have o: "ordinal ?z = ordinal x + (days_in_month (year x) (month x) - day x + k)"
  proof (cases "month x = 12")
    case True
    have "days_before_month (year x) 12 + days_in_month (year x) 12 = days_in_year (year x)"
      using days_before_month_Suc [of 12 "year x"] days_before_month_13 [of "year x"] by simp
    then show ?thesis using True by (simp add: ordinal_def ymd_to_ord_def y'_def m'_def days_before_year_Suc)
  qed (use v in \<open>simp add: ordinal_def ymd_to_ord_def y'_def m'_def days_before_month_Suc\<close>)
  have le: "ordinal ?z \<le> ordinal x + 31" "ordinal x < ordinal ?z"
    using o False k v days_in_month_bounds(2) [of "year x" "month x"] by linarith+
  have "y' \<le> MAX_YEAR"
  proof (rule ccontr)
    assume "\<not> y' \<le> MAX_YEAR"
    then have y: "year x = MAX_YEAR" "y' = MAX_YEAR + 1" "m' = 1" using v by (auto simp: y'_def m'_def split: if_splits)
    have "ordinal ?z = days_before_year MAX_YEAR + days_in_year MAX_YEAR + k"
      by (simp add: ordinal_def ymd_to_ord_def y days_before_year_Suc)
    moreover have "LAST_ORDINAL = days_before_year MAX_YEAR + days_in_year MAX_YEAR"
      by (simp add: LAST_ORDINAL_value MAX_YEAR_def days_before_year_def days_in_year_def is_leap_def)
    ultimately show False using le(1) room k by simp
  qed
  then have "valid_date ?z"
    using v k days_in_month_bounds(1) [of y' m'] by (auto simp: valid_date_def y'_def m'_def)
  then show ?thesis using le by (intro exI [of _ ?z]) simp
qed

lemma next_weekday:
  assumes x: "valid_date x" and k: "0 \<le> k" "k \<le> 6" and room: "ordinal x + 31 \<le> LAST_ORDINAL"
  shows "\<exists>z. valid_date z \<and> date_weekday z = k \<and> ordinal x < ordinal z \<and> ordinal z \<le> ordinal x + 31"
proof -
  define n where "n = ordinal x + 1 + (k - (ordinal x + 1 + 6)) mod 7"
  have b: "0 \<le> (k - (ordinal x + 1 + 6)) mod 7" "(k - (ordinal x + 1 + 6)) mod 7 < 7" by simp_all
  then have "1 \<le> n" "n \<le> LAST_ORDINAL" using room ordinal_range(1) [OF x] by (simp_all add: n_def)
  from from_ordinal_Some [OF this] obtain z where z: "valid_date z" "ordinal z = n" by blast
  have "(n + 6) mod 7 = k mod 7" by (simp add: n_def mod_simps)
  then have "date_weekday z = k" using z(2) k by (simp add: date_weekday_def)
  then show ?thesis using z b by (intro exI [of _ z]) (auto simp: n_def)
qed

lemma schedule_day_exists:
  assumes s: "canonical_schedule s = Some s'" and nogap: "get s ''gap'' = None"
    and x: "valid_date x" and room: "ordinal x + 31 \<le> LAST_ORDINAL"
  shows "\<exists>z. valid_date z \<and> schedule_matches s z \<and> ordinal x < ordinal z \<and> ordinal z \<le> ordinal x + 31"
proof -
  from s obtain kind where "get s ''kind'' = Some (Str kind)"
    and ok: "kind = ''weekly'' \<Longrightarrow> whole (at s ''weekday'') 0 6" "kind = ''monthly'' \<Longrightarrow> whole (at s ''day'') 1 28"
    by (rule canonical_schedule_parts) blast
  then have kind: "at s ''kind'' = Str kind" by (simp add: at_def)
  consider "kind = ''weekly''" | "kind = ''monthly''" | "kind \<noteq> ''weekly''" "kind \<noteq> ''monthly''" by blast
  then show ?thesis
  proof cases
    case 1
    then obtain k where k: "at s ''weekday'' = Number (Int64 k)" "0 \<le> k" "k \<le> 6"
      using ok(1) by (auto simp: whole_def split: option.splits)
    from next_weekday [OF x k(2,3) room] obtain z where
      z: "valid_date z" "date_weekday z = k" "ordinal x < ordinal z" "ordinal z \<le> ordinal x + 31" by blast
    have "schedule_matches s z" using 1 kind k(1) z(2) by (simp add: schedule_matches_def int_value_def)
    with z show ?thesis by blast
  next
    case 2
    then obtain k where k: "at s ''day'' = Number (Int64 k)" "1 \<le> k" "k \<le> 28"
      using ok(2) by (auto simp: whole_def split: option.splits)
    from next_day_of_month [OF x k(2,3) room] obtain z where
      z: "valid_date z" "day z = k" "ordinal x < ordinal z" "ordinal z \<le> ordinal x + 31" by blast
    have "schedule_matches s z" using 2 kind k(1) z(2) by (simp add: schedule_matches_def int_value_def)
    with z show ?thesis by blast
  next
    case 3
    have "add_days x 1 \<noteq> None" using add_days_iff [OF x, of 1] room ordinal_range(1) [OF x] by auto
    then obtain z where "add_days x 1 = Some z" by blast
    with add_days_bound [OF this] 3 kind show ?thesis by (auto simp: schedule_matches_def intro!: exI [of _ z])
  qed
qed

lemma firing_loop_returns:
  "(\<And>w. valid_date w \<Longrightarrow> w \<le> z \<Longrightarrow> wall_clock zs w time zn \<noteq> None) \<Longrightarrow> valid_date x \<Longrightarrow> valid_date z \<Longrightarrow> x \<le> z \<Longrightarrow> schedule_matches s z \<Longrightarrow>
    wall_clock zs z time zn = Some c \<Longrightarrow> c > after \<Longrightarrow> \<exists>t. firing_loop zs s time zn after x = Inr t"
proof (induction zs s time zn after x rule: firing_loop.induct [case_names step])
  case (step zs s time zn after x)
  show ?case
  proof (cases "x = z")
    case True
    then show ?thesis using step.prems by (subst firing_loop.simps) (simp add: firing_on_def)
  next
    case False
    then have "ordinal x < ordinal z" using ordinal_less step.prems by simp
    moreover have "ordinal z \<le> LAST_ORDINAL" "1 \<le> ordinal x" using ordinal_range step.prems by simp_all
    ultimately obtain w where w: "add_days x 1 = Some w" using add_days_iff [OF step.prems(2), of 1] by auto
    note wb = add_days_bound [OF w]
    have "\<not> ordinal z < ordinal w" using wb \<open>ordinal x < ordinal z\<close> by simp
    then have "w \<le> z" using ordinal_less_iff [OF step.prems(3), of w] wb by simp
    show ?thesis
    proof (cases "firing_on zs s time zn after x")
      case None
      then show ?thesis using step.IH [OF None w] step.prems wb \<open>w \<le> z\<close> w by (subst firing_loop.simps) simp
    next
      case (Some r)
      then show ?thesis
        using step.prems(1) [OF step.prems(2,4)]
        by (subst firing_loop.simps) (auto simp: firing_on_def split: if_splits option.splits)
    qed
  qed
qed

end
