(* ===== verification/Routine_Record.thy ===== *)
theory Routine_Record
  imports Schedule
begin

text \<open>
  A Team's Routines, runs and notices and the transitions of Routines and notices:
  \<^verbatim>\<open>routine/src/record/mod.rs\<close>, \<^verbatim>\<open>notice.rs\<close> and \<^verbatim>\<open>define.rs\<close>, with the budgets of \<^verbatim>\<open>routine/src/definition.rs\<close> and the
  notice details of \<^verbatim>\<open>protocol/http/rust/src/routine_notice.rs\<close>.

  A transition takes the state and answers \<open>Inl code\<close> or the new state. Where the code copies the state and edits the
  copy (\<open>changed\<close>), the model returns the edited state, so a refusal leaves nothing behind by construction.

  \<open>host\<close> collects what these transitions call and this development does not define: the timezone database and the
  digest and base64 crates, and, of the Team's own code, the Unicode rules of names (\<open>canonical_name\<close>,
  \<open>canonical_description\<close>), the plan document's shape (\<open>plan::well_formed\<close>), its wire projection
  (\<open>definition::steps_fit\<close>) and the details of a completed or created notice. They are arguments of the definitions;
  every theorem holds for all of them.
\<close>

record host =
  h_zones :: zones
  h_sha :: "string \<Rightarrow> string"
  h_base64 :: "byte list \<Rightarrow> string"
  h_name_ok :: "string \<Rightarrow> bool"
  h_description_ok :: "string \<Rightarrow> bool"
  h_well_formed :: "json \<Rightarrow> bool"
  h_steps_fit :: "json \<Rightarrow> json list \<Rightarrow> bool"
  h_completed_detail :: "(string \<times> json) list \<Rightarrow> bool"
  h_creation_detail :: "(string \<times> json) list \<Rightarrow> bool"

type_synonym 'a transition = "string + 'a"

section \<open>Bounds\<close>

definition MAX_ROUTINES :: nat where "MAX_ROUTINES = 8"
definition MAX_FROZEN_RUNS :: nat where "MAX_FROZEN_RUNS = 8"
definition MAX_UNDELIVERED_NOTICES :: nat where "MAX_UNDELIVERED_NOTICES = 32"
definition LEASE_SECONDS :: int where "LEASE_SECONDS = 900"
definition LEASE_MARGIN_SECONDS :: int where "LEASE_MARGIN_SECONDS = 300"
definition SHORT_ACTIVE_SECONDS :: int where "SHORT_ACTIVE_SECONDS = 600"
definition MAX_ACTIVE_SECONDS :: int where "MAX_ACTIVE_SECONDS = 7200"
definition MAX_GRACE_SECONDS :: int where "MAX_GRACE_SECONDS = 12 * 3600"
definition MAX_COUNTED_MISSES :: int where "MAX_COUNTED_MISSES = 24 * 400"
definition HUMAN_LEASE :: string where "HUMAN_LEASE = ''human''"
definition FROZEN_OUTCOMES :: "string list" where "FROZEN_OUTCOMES = [''denied'', ''stopped'', ''failed'']"
definition MAX_UNRESOLVED_INCIDENTS :: nat where "MAX_UNRESOLVED_INCIDENTS = 32"
definition MAX_RUNS :: nat where "MAX_RUNS = 2 * MAX_UNRESOLVED_INCIDENTS"
definition MAX_ROUTINE_NOTICES :: nat where "MAX_ROUTINE_NOTICES = 3 * MAX_ROUTINES"
definition MAX_FAILURE_STREAK :: int where "MAX_FAILURE_STREAK = 3"
definition MAX_ROLLUP_RUNS :: int where "MAX_ROLLUP_RUNS = 60"
definition MAX_DAILY_STEPS :: int where "MAX_DAILY_STEPS = 20000"
definition MAX_DEFINITION_BYTES :: nat where "MAX_DEFINITION_BYTES = 512 * 1024"
definition MAX_PERMITTED :: int where "MAX_PERMITTED = 256"
definition MAX_ROUTINE_ASSISTANTS :: nat where "MAX_ROUTINE_ASSISTANTS = 16"
definition MAX_STEP_STORED_INPUTS :: nat where "MAX_STEP_STORED_INPUTS = 8"

section \<open>Records\<close>

record routine =
  rt_id :: string
  rt_name :: string
  rt_schedule :: json
  rt_assistants :: "(string \<times> string) list"
  rt_plan :: json
  rt_anchor :: int
  rt_next :: int
  rt_description :: string
  rt_reconfirm :: bool
  rt_deleting :: bool
  rt_gap_started :: int
  rt_missed :: int
  rt_reported :: int
  rt_revision :: int
  rt_tz_source :: string
  rt_paused :: bool
  rt_confirmation :: "json option"
  rt_permitted :: "json list"
  rt_failures :: int
  rt_rollup_minute :: int
  rt_rollup_runs :: int
  rt_rollup_usage :: "json option"
  rt_requested :: int
  rt_digest :: string

definition routine_new ::
    "string \<Rightarrow> string \<Rightarrow> json \<Rightarrow> (string \<times> string) list \<Rightarrow> json \<Rightarrow> int \<Rightarrow> int \<Rightarrow> routine" where
  "routine_new i name schedule assistants plan anchor next_at =
     \<lparr>rt_id = i, rt_name = name, rt_schedule = schedule, rt_assistants = assistants, rt_plan = plan,
      rt_anchor = anchor, rt_next = next_at, rt_description = '''', rt_reconfirm = False, rt_deleting = False,
      rt_gap_started = 0, rt_missed = 0, rt_reported = 0, rt_revision = 1, rt_tz_source = ''browser'',
      rt_paused = False, rt_confirmation = None, rt_permitted = [], rt_failures = 0, rt_rollup_minute = 0,
      rt_rollup_runs = 0, rt_rollup_usage = None, rt_requested = 0, rt_digest = ''''\<rparr>"

definition timezone :: "routine \<Rightarrow> string" where
  "timezone r = (case as_str (at (rt_plan r) ''timezone'') of None \<Rightarrow> '''' | Some s \<Rightarrow> s)"

datatype run_status = Leased | Frozen | Held | Unresolved | Skipped

fun status_name :: "run_status \<Rightarrow> string" where
  "status_name Leased = ''leased''"
| "status_name Frozen = ''frozen''"
| "status_name Held = ''held''"
| "status_name Unresolved = ''unresolved''"
| "status_name Skipped = ''skipped''"

definition parse_status :: "string \<Rightarrow> run_status option" where
  "parse_status name = List.find (\<lambda>s. status_name s = name) [Leased, Frozen, Held, Unresolved, Skipped]"

definition live :: "run_status \<Rightarrow> bool" where
  "live s \<longleftrightarrow> s \<in> {Leased, Frozen, Held}"

record run =
  rn_id :: string
  rn_routine :: string
  rn_status :: run_status
  rn_lease :: string
  rn_key :: string
  rn_expires :: int
  rn_active :: int
  rn_request :: string
  rn_assistant :: string
  rn_action :: string
  rn_generation :: string
  rn_version :: int
  rn_requests :: int
  rn_position :: "int option"
  rn_steps :: int
  rn_usage :: json
  rn_lost :: bool
  rn_revision :: int

definition run_new :: "string \<Rightarrow> string \<Rightarrow> run_status \<Rightarrow> run" where
  "run_new i routine status =
     \<lparr>rn_id = i, rn_routine = routine, rn_status = status, rn_lease = '''', rn_key = '''', rn_expires = 0,
      rn_active = SHORT_ACTIVE_SECONDS, rn_request = '''', rn_assistant = '''', rn_action = '''',
      rn_generation = '''', rn_version = 0, rn_requests = 0, rn_position = None, rn_steps = 0,
      rn_usage = object [(''duration_ms'', int_value 0)], rn_lost = False, rn_revision = 1\<rparr>"

record notice =
  nt_id :: string
  nt_routine :: string
  nt_run :: string
  nt_outcome :: string
  nt_created :: int
  nt_detail :: json
  nt_version :: int
  nt_name :: string
  nt_usage :: "json option"
  nt_lost :: bool

definition notice_new :: "string \<Rightarrow> string \<Rightarrow> string \<Rightarrow> string \<Rightarrow> int \<Rightarrow> json \<Rightarrow> notice" where
  "notice_new i routine run outcome created detail =
     \<lparr>nt_id = i, nt_routine = routine, nt_run = run, nt_outcome = outcome, nt_created = created,
      nt_detail = detail, nt_version = 1, nt_name = '''', nt_usage = None, nt_lost = False\<rparr>"

type_synonym start = "string \<times> int \<times> int"

record team =
  routines :: "routine list"
  runs :: "run list"
  notices :: "notice list"
  served_at :: int
  starts :: "start list"
  discards :: "(string \<times> string) list"

record lease =
  ls_sha :: string
  ls_key :: string

record claim =
  cl_run :: run
  cl_token :: string
  cl_revision :: int
  cl_digest :: string
  cl_active :: int

definition empty_team :: team where
  "empty_team = \<lparr>routines = [], runs = [], notices = [], served_at = 0, starts = [], discards = []\<rparr>"

section \<open>Reading and replacing\<close>

definition live_runs :: "team \<Rightarrow> run list" where
  "live_runs st = filter (\<lambda>r. live (rn_status r)) (runs st)"

definition incidents :: "team \<Rightarrow> run list" where
  "incidents st = filter (\<lambda>r. \<not> live (rn_status r)) (runs st)"

definition lease_sha256 :: "host \<Rightarrow> string \<Rightarrow> string" where
  "lease_sha256 h token = h_sha h token"

definition lease_of :: "host \<Rightarrow> string \<Rightarrow> string \<Rightarrow> lease" where
  "lease_of h token key = \<lparr>ls_sha = lease_sha256 h token, ls_key = key\<rparr>"

definition new_id :: "entropy \<Rightarrow> (string \<times> entropy) transition" where
  "new_id ent = ok_or (token_hex ent 16) ''entropy-unavailable''"

definition new_token :: "host \<Rightarrow> entropy \<Rightarrow> (string \<times> entropy) transition" where
  "new_token h ent = ok_or (map_option (\<lambda>(bs, rest). (h_base64 h bs, rest)) (fill ent 32)) ''entropy-unavailable''"

definition next_after :: "host \<Rightarrow> routine \<Rightarrow> int \<Rightarrow> int transition" where
  "next_after h r after =
     (case next_run (h_zones h) (rt_schedule r) (at (rt_plan r) ''timezone'') (rt_anchor r) after of
        Inl _ \<Rightarrow> Inl ''routine-invalid'' | Inr t \<Rightarrow> Inr t)"

definition continuous :: "routine \<Rightarrow> bool" where
  "continuous r \<longleftrightarrow> as_str (at (rt_schedule r) ''kind'') = Some ''continuous''"

definition grace_seconds :: "routine \<Rightarrow> int" where
  "grace_seconds r =
     (let kind = as_str (at (rt_schedule r) ''kind'');
          period = (if kind = Some ''daily'' then 86400 else if kind = Some ''weekly'' then 7 * 86400
                    else if kind = Some ''monthly'' then 28 * 86400 else MAX_GRACE_SECONDS)
      in min period MAX_GRACE_SECONDS)"

definition find_routine :: "team \<Rightarrow> string \<Rightarrow> routine option" where
  "find_routine st i = find_by rt_id i (routines st)"

definition find_run :: "team \<Rightarrow> string \<Rightarrow> run option" where
  "find_run st i = find_by rn_id i (runs st)"

definition get_routine :: "team \<Rightarrow> string \<Rightarrow> routine transition" where
  "get_routine st i = ok_or (find_routine st i) ''routine-not-found''"

definition get_run :: "team \<Rightarrow> string \<Rightarrow> run transition" where
  "get_run st i = ok_or (find_run st i) ''run-not-found''"

definition replace_routine :: "team \<Rightarrow> routine \<Rightarrow> team" where
  "replace_routine st r = st\<lparr>routines := replace_by rt_id r (routines st)\<rparr>"

definition replace_run :: "team \<Rightarrow> run \<Rightarrow> team" where
  "replace_run st r = st\<lparr>runs := replace_by rn_id r (runs st)\<rparr>"

interpretation routine_table: keyed_table routines rt_id find_routine replace_routine
  by unfold_locales (simp_all add: find_routine_def replace_routine_def)

interpretation run_table: keyed_table runs rn_id find_run replace_run
  by unfold_locales (simp_all add: find_run_def replace_run_def)

definition rebase_continuous :: "team \<Rightarrow> string \<Rightarrow> int \<Rightarrow> team" where
  "rebase_continuous st i now = (case find_routine st i of
      None \<Rightarrow> st
    | Some r \<Rightarrow> if continuous r then replace_routine st (r\<lparr>rt_next := max now (rt_next r)\<rparr>) else st)"

definition ended :: "team \<Rightarrow> run \<Rightarrow> int \<Rightarrow> team" where
  "ended st r now =
     rebase_continuous (st\<lparr>discards := discards st @ [(rn_id r, rn_generation r)]\<rparr>) (rn_routine r) now"

definition without_run :: "team \<Rightarrow> string \<Rightarrow> int \<Rightarrow> team transition" where
  "without_run st i now = rbind (get_run st i) (\<lambda>r.
     Inr (ended (st\<lparr>runs := filter (\<lambda>q. rn_id q \<noteq> i) (runs st)\<rparr>) r now))"

definition discarded :: "team \<Rightarrow> string \<Rightarrow> string \<Rightarrow> team" where
  "discarded st i generation =
     st\<lparr>discards := filter (\<lambda>(run, held). \<not> (run = i \<and> held = generation)) (discards st)\<rparr>"

section \<open>Notices\<close>

definition OUTCOMES :: "string list" where
  "OUTCOMES = [''changed'', ''created'', ''deleted'', ''denied'', ''done'', ''failed'', ''frozen'', ''healthy'',
     ''held'', ''paused'', ''recovered'', ''scope-changed'', ''skipped'', ''stopped'', ''streak-paused'', ''user-skipped'']"

fun natural_digits :: "json \<Rightarrow> string option" where
  "natural_digits (Number (Int64 i)) = (if i \<ge> 0 then Some (show_int i) else None)"
| "natural_digits (Number (BigInt ds)) = (if take 1 ds \<noteq> ''-'' then Some ds else None)"
| "natural_digits _ = None"

definition positive :: "json \<Rightarrow> bool" where
  "positive v = (case natural_digits v of None \<Rightarrow> False | Some ds \<Rightarrow> ds \<noteq> ''0'')"

definition among :: "json \<Rightarrow> string list \<Rightarrow> bool" where
  "among v options = (case as_str v of None \<Rightarrow> False | Some s \<Rightarrow> s \<in> set options)"

definition detail_rule :: "host \<Rightarrow> string \<Rightarrow> string list \<times> ((string \<times> json) list \<Rightarrow> bool)" where
  "detail_rule h outcome =
     (if outcome \<in> {''done'', ''recovered''} then ([''plan'', ''output''], h_completed_detail h)
      else if outcome = ''paused'' then
        ([''reason''], \<lambda>d. among (field d ''reason'') [''exhausted'', ''policy'', ''evidence''])
      else if outcome = ''skipped'' then ([''missed''], \<lambda>d. positive (field d ''missed''))
      else if outcome = ''healthy'' then
        ([''runs''], \<lambda>d. case small_int (field d ''runs'') of None \<Rightarrow> False | Some n \<Rightarrow> 1 \<le> n \<and> n \<le> MAX_ROLLUP_RUNS)
      else if outcome = ''frozen'' then
        ([''request_kind''], \<lambda>d. among (field d ''request_kind'') [''human'', ''integrations''])
      else if outcome = ''failed'' then ([''code''], \<lambda>d. full_value error_code_re (field d ''code''))
      else if outcome = ''created'' then ([''steps''], h_creation_detail h)
      else if outcome = ''streak-paused'' then ([''failures''], \<lambda>d. whole (field d ''failures'') 1 MAX_FAILURE_STREAK)
      else ([], \<lambda>_. True))"

definition canonical_notice_detail :: "host \<Rightarrow> string \<Rightarrow> json \<Rightarrow> json option" where
  "canonical_notice_detail h outcome detail =
     (if outcome \<notin> set OUTCOMES then None
      else let (fields, valid) = detail_rule h outcome in
        case exact_object detail fields of
          None \<Rightarrow> None | Some ms \<Rightarrow> if valid ms then Some detail else None)"

definition change_room :: "team \<Rightarrow> string option" where
  "change_room st = (if length (notices st) + 1 > MAX_UNDELIVERED_NOTICES + MAX_ROUTINE_NOTICES
     then Some ''notices-full'' else None)"

definition undelivered :: "team \<Rightarrow> nat" where
  "undelivered st = length (notices st)"

definition put_notice :: "host \<Rightarrow> team \<Rightarrow> notice \<Rightarrow> team transition" where
  "put_notice h st n =
     rbind (ok_or (canonical_notice_detail h (nt_outcome n) (nt_detail n)) ''notice-invalid'') (\<lambda>detail.
     rbind (if nt_name n = '''' then rbind (get_routine st (nt_routine n)) (\<lambda>r. Inr (rt_name r)) else Inr (nt_name n)) (\<lambda>name.
       if nt_version n < 1 then Inl ''notice-invalid''
       else let others = filter (\<lambda>m. nt_id m \<noteq> nt_id n) (notices st) in
         if length others \<ge> MAX_UNDELIVERED_NOTICES + MAX_ROUTINE_NOTICES then Inl ''notices-full''
         else Inr (st\<lparr>notices := others @ [n\<lparr>nt_detail := detail, nt_name := name\<rparr>]\<rparr>)))"

definition run_notice ::
    "host \<Rightarrow> team \<Rightarrow> run \<Rightarrow> string \<Rightarrow> int \<Rightarrow> json \<Rightarrow> entropy \<Rightarrow> (team \<times> run \<times> entropy) transition" where
  "run_notice h st r outcome now detail ent =
     (let version = rn_version r + 1;
          n = (notice_new (rn_id r) (rn_routine r) (rn_id r) outcome now detail)
                \<lparr>nt_version := version, nt_usage := Some (rn_usage r), nt_lost := rn_lost r\<rparr>
      in rbind (put_notice h st n) (\<lambda>st1.
         rbind (if outcome \<in> {''done'', ''recovered'', ''failed''} then
                  rbind (get_routine st1 (rn_routine r)) (\<lambda>current.
                  let failures = (if outcome = ''failed'' then rt_failures current + 1 else 0);
                      streak = (\<not> rt_paused current \<and> failures \<ge> MAX_FAILURE_STREAK);
                      st2 = replace_routine st1 (current\<lparr>rt_failures := failures, rt_paused := rt_paused current \<or> streak\<rparr>)
                  in if streak then
                       rbind (new_id ent) (\<lambda>(i, ent').
                       rbind (put_notice h st2 (notice_new i (rt_id current) '''' ''streak-paused'' now
                                (object [(''failures'', int_value failures)]))) (\<lambda>st3. Inr (st3, ent')))
                     else Inr (st2, ent))
                else Inr (st1, ent))
           (\<lambda>(st2, ent'). Inr (st2, r\<lparr>rn_version := version\<rparr>, ent'))))"

definition acknowledge :: "team \<Rightarrow> (string \<times> int) list \<Rightarrow> team" where
  "acknowledge st delivered = st\<lparr>notices := filter (\<lambda>n. (nt_id n, nt_version n) \<notin> set delivered) (notices st)\<rparr>"

section \<open>Pausing, deleting and scope changes\<close>

definition set_paused :: "team \<Rightarrow> string \<Rightarrow> bool \<Rightarrow> team transition" where
  "set_paused st i paused = rbind (get_routine st i) (\<lambda>r.
     if rt_deleting r then Inl ''routine-not-found''
     else Inr (replace_routine st (r\<lparr>rt_paused := paused, rt_failures := (if paused then rt_failures r else 0)\<rparr>)))"

definition begin_delete :: "team \<Rightarrow> string \<Rightarrow> (team \<times> run list) transition" where
  "begin_delete st i = rbind (get_routine st i) (\<lambda>r.
     Inr (replace_routine st (r\<lparr>rt_deleting := True\<rparr>), filter (\<lambda>q. rn_routine q = i) (live_runs st)))"

definition complete_delete :: "host \<Rightarrow> team \<Rightarrow> string \<Rightarrow> int \<Rightarrow> entropy \<Rightarrow> team transition" where
  "complete_delete h st i now ent = rbind (get_routine st i) (\<lambda>r.
     if \<not> rt_deleting r \<or> list_ex (\<lambda>q. rn_routine q = i) (runs st) then Inl ''routine-busy''
     else rbind (new_id ent) (\<lambda>(n, _).
       rbind (put_notice h st (notice_new n i '''' ''deleted'' now (object []))) (\<lambda>st1.
         Inr (st1\<lparr>routines := filter (\<lambda>q. rt_id q \<noteq> i) (routines st1)\<rparr>))))"

definition mark_scope_changed :: "host \<Rightarrow> team \<Rightarrow> string \<Rightarrow> int \<Rightarrow> entropy \<Rightarrow> team transition" where
  "mark_scope_changed h st i now ent = rbind (get_routine st i) (\<lambda>r.
     rbind (new_id ent) (\<lambda>(n, _).
     rbind (put_notice h st (notice_new n i '''' ''scope-changed'' now (object []))) (\<lambda>st1.
       Inr (replace_routine st1 (r\<lparr>rt_reconfirm := True\<rparr>)))))"

end
