(* ===== verification/Routine_Define.thy ===== *)
theory Routine_Define
  imports Routine_Record
begin

text \<open>
  A Routine definition's closed contract, its Team budgets, and the transitions that admit one (creation, update,
  refinement): \<^verbatim>\<open>routine/src/record/define.rs\<close> and the budgets and summaries of \<^verbatim>\<open>routine/src/definition.rs\<close>.
\<close>

section \<open>Budgets and summaries\<close>

definition run_units :: "routine \<Rightarrow> int" where
  "run_units r = i64_of_nat (length (elements (at (rt_plan r) ''steps'')))"

definition plan_digest :: "host \<Rightarrow> json \<Rightarrow> string" where
  "plan_digest h plan = ''sha256:'' @ h_sha h (canonical plan)"

definition summary_push :: "(json \<times> json \<times> int) list \<Rightarrow> json \<Rightarrow> (json \<times> json \<times> int) list" where
  "summary_push acc step =
     (let assistant = at step ''assistant''; action = at step ''action'' in
      if acc \<noteq> [] \<and> value_eq (fst (last acc)) assistant \<and> value_eq (fst (snd (last acc))) action
      then butlast acc @ [(fst (last acc), fst (snd (last acc)), snd (snd (last acc)) + 1)]
      else acc @ [(assistant, action, 1)])"

definition summary :: "host \<Rightarrow> json \<Rightarrow> int \<Rightarrow> json" where
  "summary h plan revision =
     (let steps = elements (at plan ''steps'');
          groups = take 16 (foldl summary_push [] steps);
          total = i64_of_nat (length steps);
          more = total - sum_list (map (snd \<circ> snd) groups)
      in object [(''revision'', int_value revision), (''plan_digest'', text_value (plan_digest h plan)),
           (''steps'', int_value total),
           (''actions'', Array (map (\<lambda>(a, b, n). Array [a, b, int_value n]) groups)), (''more'', int_value more)])"

definition disposition :: "json \<Rightarrow> json" where
  "disposition plan =
     (let output = at plan ''output'';
          total = i64_of_nat (length (elements (at plan ''steps'')))
      in object [(''mode'', at output ''mode''),
                 (''step'', if at output ''step'' = Null then Null else int_value total)])"

definition definition_bytes :: "routine \<Rightarrow> nat" where
  "definition_bytes r =
     (let standing = object [(''permitted'', Array (rt_permitted r)),
            (''confirmation'', case rt_confirmation r of None \<Rightarrow> Null | Some c \<Rightarrow> c)]
      in length (canonical (rt_plan r)) + length (canonical standing))"

definition fits :: "host \<Rightarrow> routine \<Rightarrow> bool" where
  "fits h r \<longleftrightarrow> h_steps_fit h (rt_plan r) (rt_permitted r) \<and> definition_bytes r \<le> MAX_DEFINITION_BYTES"

definition daily_steps :: "routine \<Rightarrow> int" where
  "daily_steps r = saturating_mul_i64 (daily_cap (rt_schedule r)) (run_units r)"

definition capacity :: "routine list \<Rightarrow> int" where
  "capacity rs = MAX_DAILY_STEPS - sum_list (map daily_steps rs)"

definition TEAM_DEFINITION_BYTES :: nat where "TEAM_DEFINITION_BYTES = 1024 * 1024"

definition over_budget :: "routine list \<Rightarrow> routine \<Rightarrow> string option" where
  "over_budget others admitted =
     (if daily_steps admitted > capacity others then Some ''routine-step-budget''
      else if sum_list (map definition_bytes others) + definition_bytes admitted > TEAM_DEFINITION_BYTES
        then Some ''routine-team-budget''
      else None)"

text \<open>The two byte bounds, compared as integers when they are evaluated.\<close>

lemma fits_code [code]:
  "fits h r \<longleftrightarrow> h_steps_fit h (rt_plan r) (rt_permitted r) \<and> int (definition_bytes r) \<le> 524288"
  by (auto simp: fits_def MAX_DEFINITION_BYTES_def)

lemma over_budget_code [code]:
  "over_budget rs a =
     (if daily_steps a > capacity rs then Some ''routine-step-budget''
      else if int (sum_list (map definition_bytes rs) + definition_bytes a) > 1048576 then Some ''routine-team-budget''
      else None)"
  by (simp add: over_budget_def TEAM_DEFINITION_BYTES_def)

section \<open>The closed contract\<close>

fun positive_integer :: "json \<Rightarrow> bool" where
  "positive_integer (Number (Int64 i)) = (i > 0)"
| "positive_integer (Number (BigInt ds)) = (take 1 ds \<noteq> ''-'')"
| "positive_integer _ = False"

definition confirmed :: "json option \<Rightarrow> bool" where
  "confirmed v = (case v of None \<Rightarrow> False | Some c \<Rightarrow>
     has_fields c [''proposal_id'', ''proposal_digest'', ''principal'', ''incarnation'', ''confirmed_at'']
     \<and> full_value routine_id_re (at c ''proposal_id'') \<and> full_value plan_digest_re (at c ''proposal_digest'')
     \<and> full_value boot_re (at c ''principal'') \<and> full_value sha256_re (at c ''incarnation'')
     \<and> positive_integer (at c ''confirmed_at''))"

fun windows_all :: "('a \<Rightarrow> 'a \<Rightarrow> bool) \<Rightarrow> 'a list \<Rightarrow> bool" where
  "windows_all p (x # y # zs) = (p x y \<and> windows_all p (y # zs))"
| "windows_all p _ = True"

definition canonical_identifier :: "json \<Rightarrow> string option" where
  "canonical_identifier v = (case v of
      Str s \<Rightarrow> if length s \<le> 64 \<and> identifier_re s then Some s else None
    | _ \<Rightarrow> None)"

definition permitted_entry :: "json \<Rightarrow> bool" where
  "permitted_entry item =
     (let stored = elements (at item ''stored_inputs'');
          names = List.map_filter as_str stored
      in has_fields item [''assistant'', ''action'', ''pin'', ''read_only'', ''stored_inputs'']
         \<and> canonical_assistant_id (at item ''assistant'') \<noteq> None \<and> canonical_action_id (at item ''action'') \<noteq> None
         \<and> full_value plan_digest_re (at item ''pin'')
         \<and> (case at item ''read_only'' of Bool _ \<Rightarrow> True | _ \<Rightarrow> False)
         \<and> (case at item ''stored_inputs'' of Array _ \<Rightarrow> True | _ \<Rightarrow> False)
         \<and> length stored \<le> MAX_STEP_STORED_INPUTS
         \<and> list_all (\<lambda>n. canonical_identifier n \<noteq> None) stored
         \<and> length names = length stored \<and> windows_all (<) names)"

definition str_or_empty :: "json \<Rightarrow> string" where
  "str_or_empty v = (case as_str v of None \<Rightarrow> '''' | Some s \<Rightarrow> s)"

definition step_key :: "json \<Rightarrow> string \<times> string" where
  "step_key step = (str_or_empty (at step ''assistant''), str_or_empty (at step ''action''))"

definition pair_less :: "string \<times> string \<Rightarrow> string \<times> string \<Rightarrow> bool" where
  "pair_less a b \<longleftrightarrow> fst a < fst b \<or> (fst a = fst b \<and> snd a < snd b)"

definition permitted_valid :: "routine \<Rightarrow> bool" where
  "permitted_valid r =
     (let entries = rt_permitted r;
          pins = map (\<lambda>item. (step_key item, str_or_empty (at item ''pin''))) entries;
          steps = elements (at (rt_plan r) ''steps'')
      in i64_of_nat (length entries) \<le> MAX_PERMITTED \<and> list_all permitted_entry entries
         \<and> windows_all (\<lambda>a b. pair_less (fst a) (fst b)) pins
         \<and> list_all (\<lambda>(key, _). list_ex (\<lambda>step. step_key step = key) steps) pins
         \<and> list_all (\<lambda>step. case find_by fst (step_key step) pins of
               None \<Rightarrow> False | Some (_, pin) \<Rightarrow> as_str (at step ''pin'') = Some pin) steps)"

definition assistants_valid :: "routine \<Rightarrow> bool" where
  "assistants_valid r =
     (let used = remdups_adj (sort (List.map_filter (\<lambda>item. as_str (at item ''assistant'')) (rt_permitted r)))
      in map fst (rt_assistants r) = used \<and> length (rt_assistants r) \<le> MAX_ROUTINE_ASSISTANTS
         \<and> windows_all pair_less (rt_assistants r)
         \<and> list_all (\<lambda>(a, digest). canonical_assistant_id (Str a) \<noteq> None \<and> plan_digest_re digest) (rt_assistants r))"

definition definition_valid :: "host \<Rightarrow> routine \<Rightarrow> bool" where
  "definition_valid h r \<longleftrightarrow>
     h_well_formed h (rt_plan r) \<and> routine_id_re (rt_id r) \<and> h_name_ok h (rt_name r)
     \<and> h_description_ok h (rt_description r)
     \<and> zoned (at (rt_plan r) ''timezone'') (Str (rt_tz_source r))
     \<and> canonical_schedule (rt_schedule r) \<noteq> None
     \<and> permitted_valid r \<and> assistants_valid r \<and> confirmed (rt_confirmation r) \<and> valid_revision (rt_revision r)"

section \<open>Transitions\<close>

definition defined :: "host \<Rightarrow> routine \<Rightarrow> int \<Rightarrow> routine transition" where
  "defined h r revision =
     (let d = r\<lparr>rt_revision := revision\<rparr> in
      if \<not> definition_valid h d then Inl ''routine-invalid''
      else if \<not> fits h r then Inl ''routine-too-large''
      else Inr (d\<lparr>rt_reconfirm := False, rt_deleting := False, rt_failures := 0, rt_digest := ''''\<rparr>))"

definition first_run :: "host \<Rightarrow> routine \<Rightarrow> int transition" where
  "first_run h r = (if continuous r then Inr (rt_anchor r) else next_after h r (rt_anchor r))"

definition admitted :: "host \<Rightarrow> routine \<Rightarrow> int \<Rightarrow> routine transition" where
  "admitted h r revision = rbind (defined h r revision) (\<lambda>d.
     rbind (first_run h d) (\<lambda>first.
       if rt_next r \<noteq> first then Inl ''routine-invalid''
       else Inr (d\<lparr>rt_gap_started := 0, rt_missed := 0, rt_reported := 0, rt_rollup_minute := 0,
                   rt_rollup_runs := 0, rt_rollup_usage := None, rt_requested := 0\<rparr>)))"

definition scheduled :: "host \<Rightarrow> routine \<Rightarrow> int \<Rightarrow> routine transition" where
  "scheduled h r now = (let anchored = r\<lparr>rt_anchor := now\<rparr> in
     rbind (first_run h anchored) (\<lambda>first. Inr (anchored\<lparr>rt_next := first\<rparr>)))"

definition budgets :: "routine list \<Rightarrow> routine \<Rightarrow> unit transition" where
  "budgets others r = (case over_budget others r of None \<Rightarrow> Inr () | Some code \<Rightarrow> Inl code)"

definition add_routine :: "host \<Rightarrow> team \<Rightarrow> routine \<Rightarrow> team transition" where
  "add_routine h st r = rbind (admitted h r 1) (\<lambda>a.
     if list_ex (\<lambda>q. rt_id q = rt_id a) (routines st) then Inl ''routine-exists''
     else if length (routines st) \<ge> MAX_ROUTINES then Inl ''routine-limit''
     else rbind (budgets (routines st) a) (\<lambda>_. Inr (st\<lparr>routines := routines st @ [a]\<rparr>)))"

definition create :: "host \<Rightarrow> team \<Rightarrow> routine \<Rightarrow> int \<Rightarrow> json option \<Rightarrow> json list \<Rightarrow> entropy \<Rightarrow> team transition" where
  "create h st r now usage steps ent = rbind (add_routine h st r) (\<lambda>st1.
     rbind (new_id ent) (\<lambda>(n, _).
       put_notice h st1 ((notice_new n (rt_id r) '''' ''created'' now (object [(''steps'', Array steps)]))\<lparr>nt_usage := usage\<rparr>)))"

definition changeable :: "team \<Rightarrow> string \<Rightarrow> int \<Rightarrow> routine transition" where
  "changeable st i expected = rbind (get_routine st i) (\<lambda>current.
     if rt_deleting current then Inl ''routine-not-found''
     else if rt_revision current \<noteq> expected then Inl ''routine-revision-changed''
     else if list_ex (\<lambda>q. rn_routine q = rt_id current) (live_runs st) then Inl ''routine-busy''
     else Inr current)"

definition others :: "team \<Rightarrow> string \<Rightarrow> routine list" where
  "others st i = filter (\<lambda>q. rt_id q \<noteq> i) (routines st)"

definition put_changed :: "host \<Rightarrow> team \<Rightarrow> routine \<Rightarrow> int \<Rightarrow> entropy \<Rightarrow> team transition" where
  \<comment> \<open>the write both changes share: the new revision and its \<open>changed\<close> notice\<close>
  "put_changed h st r now ent = rbind (new_id ent) (\<lambda>(n, _).
     put_notice h (replace_routine st r) (notice_new n (rt_id r) '''' ''changed'' now (object [])))"

definition update :: "host \<Rightarrow> team \<Rightarrow> routine \<Rightarrow> int \<Rightarrow> int \<Rightarrow> entropy \<Rightarrow> team transition" where
  "update h st r expected now ent = rbind (changeable st (rt_id r) expected) (\<lambda>current.
     rbind (admitted h r (rt_revision current + 1)) (\<lambda>a.
     rbind (budgets (others st (rt_id current)) a) (\<lambda>_.
       put_changed h st (a\<lparr>rt_paused := rt_paused current, rt_rollup_minute := rt_rollup_minute current,
          rt_rollup_runs := rt_rollup_runs current, rt_rollup_usage := rt_rollup_usage current\<rparr>) now ent)))"

definition refine :: "host \<Rightarrow> team \<Rightarrow> routine \<Rightarrow> int \<Rightarrow> int \<Rightarrow> entropy \<Rightarrow> team transition" where
  "refine h st r expected now ent = rbind (changeable st (rt_id r) expected) (\<lambda>current.
     if timezone r \<noteq> timezone current then Inl ''routine-invalid''
     else rbind (defined h (current\<lparr>rt_description := rt_description r, rt_assistants := rt_assistants r,
              rt_plan := rt_plan r, rt_permitted := rt_permitted r, rt_confirmation := rt_confirmation r\<rparr>)
            (rt_revision current + 1)) (\<lambda>d.
          rbind (budgets (others st (rt_id current)) d) (\<lambda>_. put_changed h st d now ent)))"

end
