(* ===== verification/Routine_Claim.thy ===== *)
theory Routine_Claim
  imports Routine_Define
begin

text \<open>
  Claiming a Team's due Routine runs: \<^verbatim>\<open>routine/src/claim/mod.rs\<close> (sweeps, readiness, leases, generations) and
  \<^verbatim>\<open>routine/src/claim/starts.rs\<close> (the starts of a rolling 24 hours and their budgets).
\<close>

section \<open>Starts of a rolling day\<close>

definition WINDOW_SECONDS :: int where "WINDOW_SECONDS = 86400"

definition window :: "start list \<Rightarrow> int \<Rightarrow> start list" where
  "window ss now = sort_key (\<lambda>s. fst (snd s)) (filter (\<lambda>s. fst (snd s) > now - WINDOW_SECONDS) ss)"

definition free_at_limit :: "int list \<Rightarrow> int \<Rightarrow> int \<Rightarrow> int" where
  "free_at_limit instants limit now =
     (let count = i64_of_nat (length instants) in
      if count < limit then now
      else case usize_of_int (count - limit) of
          None \<Rightarrow> now
        | Some index \<Rightarrow> if index < length instants then instants ! index + WINDOW_SECONDS else now)"

fun steps_loop :: "start list \<Rightarrow> int \<Rightarrow> int \<Rightarrow> int \<Rightarrow> int" where
  "steps_loop [] used steps now = now"
| "steps_loop ((_, instant, reserved) # rest) used steps now =
     (if used + steps \<le> MAX_DAILY_STEPS then now else steps_loop rest (used - reserved) steps (instant + WINDOW_SECONDS))"

definition steps_free_at :: "start list \<Rightarrow> int \<Rightarrow> int \<Rightarrow> int" where
  "steps_free_at current steps now = steps_loop current (sum_list (map (snd \<circ> snd) current)) steps now"

definition starts_free_at :: "start list \<Rightarrow> string \<Rightarrow> int option \<Rightarrow> int \<Rightarrow> int \<Rightarrow> int" where
  "starts_free_at ss i cap now steps =
     (let current = window ss now;
          own = (case cap of None \<Rightarrow> now
            | Some c \<Rightarrow> free_at_limit (map (fst \<circ> snd) (filter (\<lambda>s. fst s = i) current)) c now)
      in max own (steps_free_at current steps now))"

definition started :: "start list \<Rightarrow> string \<Rightarrow> int \<Rightarrow> int \<Rightarrow> start list" where
  "started ss i now steps = window ss now @ [(i, now, steps)]"

section \<open>Missed firings\<close>

function count_loop :: "host \<Rightarrow> routine \<Rightarrow> int \<Rightarrow> int \<Rightarrow> int \<Rightarrow> (int \<times> int) transition" where
  "count_loop h r limit count current =
     (if current < limit \<and> count < MAX_COUNTED_MISSES
      then rbind (next_after h r current) (count_loop h r limit (count + 1))
      else Inr (count, current))"
  by pat_completeness auto
termination
  by (relation "measure (\<lambda>(h, r, limit, count, current). nat (MAX_COUNTED_MISSES - count))") auto

declare count_loop.simps [simp del]

definition count_before :: "host \<Rightarrow> routine \<Rightarrow> int \<Rightarrow> int \<Rightarrow> (int \<times> int) transition" where
  "count_before h r first limit = rbind (count_loop h r limit 0 first) (\<lambda>(count, current).
     if current < limit then rbind (next_after h r (limit - 1)) (\<lambda>c. Inr (count, c))
     else Inr (count, current))"

definition gap_notice_id :: "host \<Rightarrow> routine \<Rightarrow> string" where
  "gap_notice_id h r = take 32 (h_sha h (''skipped:'' @ rt_id r @ '':'' @ show_int (rt_gap_started r)))"

definition report_gap :: "host \<Rightarrow> team \<Rightarrow> routine \<Rightarrow> int \<Rightarrow> bool \<Rightarrow> team transition" where
  "report_gap h st r now in_flight =
     (if rt_missed r = rt_reported r then Inr st
      else let i = gap_notice_id h r;
               pending = list_ex (\<lambda>n. nt_id n = i) (notices st) in
        if \<not> (pending \<or> in_flight \<or> undelivered st < MAX_UNDELIVERED_NOTICES) then Inr st
        else rbind (put_notice h st ((notice_new i (rt_id r) '''' ''skipped'' now
                      (object [(''missed'', int_value (rt_missed r))]))\<lparr>nt_version := rt_missed r\<rparr>))
               (\<lambda>st1. Inr (replace_routine st1 (r\<lparr>rt_reported := rt_missed r\<rparr>))))"

definition miss :: "routine \<Rightarrow> int \<Rightarrow> int \<Rightarrow> int \<Rightarrow> routine" where
  "miss r first count next_at =
     r\<lparr>rt_gap_started := (if rt_gap_started r = 0 then first else rt_gap_started r),
       rt_missed := rt_missed r + count, rt_next := next_at\<rparr>"

definition sweep_one :: "host \<Rightarrow> int \<Rightarrow> routine \<Rightarrow> team \<Rightarrow> team transition" where
  "sweep_one h now item st =
     (if continuous item then Inr st
      else let cutoff = now - grace_seconds item in
        if rt_next item < cutoff
        then rbind (count_before h item (rt_next item) cutoff) (\<lambda>(count, next_at).
               let item' = miss item (rt_next item) count next_at in
               report_gap h (replace_routine st item') item' now False)
        else report_gap h st item now False)"

fun sweep_items :: "host \<Rightarrow> int \<Rightarrow> routine list \<Rightarrow> team \<Rightarrow> team transition" where
  "sweep_items h now [] st = Inr st"
| "sweep_items h now (item # rest) st = rbind (sweep_one h now item st) (sweep_items h now rest)"

definition sweep :: "host \<Rightarrow> team \<Rightarrow> int \<Rightarrow> team transition" where
  "sweep h st now = sweep_items h now (routines st) st"

section \<open>Readiness\<close>

definition active_seconds :: "int \<Rightarrow> int" where
  "active_seconds units = min (saturating_add_i64 (saturating_mul_i64 units 30) 360) MAX_ACTIVE_SECONDS"

definition long_run :: "int \<Rightarrow> bool" where
  "long_run steps \<longleftrightarrow> active_seconds steps > SHORT_ACTIVE_SECONDS"

definition free_at :: "team \<Rightarrow> routine \<Rightarrow> int \<Rightarrow> int" where
  "free_at st r now = starts_free_at (starts st) (rt_id r)
     (if continuous r then Some (daily_cap (rt_schedule r)) else None) now (run_units r)"

definition due_at :: "routine \<Rightarrow> int" where
  "due_at r = (if rt_requested r \<noteq> 0 \<and> rt_requested r < rt_next r then rt_requested r else rt_next r)"

definition held_routines :: "team \<Rightarrow> string list" where
  "held_routines st = map rn_routine (filter (\<lambda>r. rn_status r = Unresolved) (runs st))"

definition busy :: "team \<Rightarrow> string list" where
  "busy st = map rn_routine (live_runs st) @ held_routines st"

definition ready :: "team \<Rightarrow> string list \<Rightarrow> bool \<Rightarrow> routine list" where
  "ready st busy_ids long = filter (\<lambda>r. \<not> rt_reconfirm r \<and> \<not> rt_deleting r \<and> \<not> rt_paused r
     \<and> rt_id r \<notin> set busy_ids \<and> (long \<or> \<not> long_run (run_units r))) (routines st)"

definition segment_leased :: "team \<Rightarrow> bool" where
  "segment_leased st = list_ex (\<lambda>r. rn_status r = Leased) (runs st)"

definition incident_capacity :: "team \<Rightarrow> bool" where
  "incident_capacity st \<longleftrightarrow>
     length (filter (\<lambda>r. rn_status r = Unresolved) (runs st)) + (length (live_runs st) + 1) \<le> MAX_UNRESOLVED_INCIDENTS
     \<and> length (runs st) < MAX_RUNS"

definition backpressured :: "team \<Rightarrow> bool" where
  "backpressured st \<longleftrightarrow> undelivered st \<ge> MAX_UNDELIVERED_NOTICES \<or> length (discards st) \<ge> MAX_ROUTINES
     \<or> \<not> incident_capacity st"

definition earlier :: "routine \<Rightarrow> routine \<Rightarrow> bool" where
  "earlier a b \<longleftrightarrow> due_at a < due_at b \<or> (due_at a = due_at b \<and> rt_id a < rt_id b)"

fun min_by :: "('a \<Rightarrow> 'a \<Rightarrow> bool) \<Rightarrow> 'a list \<Rightarrow> 'a option" where
  \<comment> \<open>\<open>Iterator::min_by\<close>: the first of the least elements\<close>
  "min_by lt [] = None"
| "min_by lt (x # xs) = (case min_by lt xs of None \<Rightarrow> Some x | Some y \<Rightarrow> if lt y x then Some y else Some x)"

definition claimable :: "team \<Rightarrow> int \<Rightarrow> bool \<Rightarrow> routine option" where
  "claimable st now long =
     (if backpressured st \<or> segment_leased st then None
      else min_by earlier (filter (\<lambda>r. due_at r \<le> now \<and> free_at st r now \<le> now) (ready st (busy st) long)))"

definition next_due :: "team \<Rightarrow> int \<Rightarrow> int option" where
  "next_due st now =
     (if backpressured st \<or> segment_leased st then None
      else min_by (<) (filter (\<lambda>due. due > now)
             (map (\<lambda>r. max (due_at r) (free_at st r now)) (ready st (busy st) True))))"

section \<open>Leases\<close>

definition lease_run :: "host \<Rightarrow> team \<Rightarrow> routine \<Rightarrow> int \<Rightarrow> string \<Rightarrow> entropy \<Rightarrow> (team \<times> claim) transition" where
  "lease_run h st due now key ent =
     rbind (new_token h ent) (\<lambda>(token, ent1).
     rbind (new_id ent1) (\<lambda>(i, _).
     let units = run_units due;
         leased = (run_new i (rt_id due) Leased)\<lparr>rn_lease := lease_sha256 h token, rn_key := key,
            rn_expires := now + LEASE_SECONDS, rn_active := active_seconds units, rn_revision := rt_revision due\<rparr>;
         st' = replace_routine (st\<lparr>starts := started (starts st) (rt_id due) now units, served_at := now,
            runs := runs st @ [leased]\<rparr>) due
     in Inr (st', \<lparr>cl_run = leased, cl_token = token, cl_revision = rt_revision due,
                   cl_digest = plan_digest h (rt_plan due), cl_active = rn_active leased\<rparr>)))"

definition advance_due :: "host \<Rightarrow> routine \<Rightarrow> int \<Rightarrow> routine transition" where
  \<comment> \<open>the claimed Routine's next firing past \<open>now\<close>, with the firings missed since its own\<close>
  "advance_due h due now =
     (if continuous due then rbind (next_after h due now) (\<lambda>t. Inr (due\<lparr>rt_next := t\<rparr>))
      else rbind (next_after h due (rt_next due)) (\<lambda>following.
        rbind (count_before h due following (now + 1)) (\<lambda>(extra, next_at).
          Inr (if extra = 0 then due\<lparr>rt_next := next_at\<rparr> else miss due following extra next_at))))"

definition claim_due :: "host \<Rightarrow> team \<Rightarrow> routine \<Rightarrow> int \<Rightarrow> string \<Rightarrow> entropy \<Rightarrow> (team \<times> claim) transition" where
  \<comment> \<open>what \<open>claim\<close> does with the Routine it chose\<close>
  "claim_due h st due now key ent =
     (if rt_requested due \<noteq> 0 \<and> rt_next due > now
      then lease_run h st (due\<lparr>rt_requested := 0\<rparr>) now key ent
      else rbind (advance_due h (due\<lparr>rt_requested := 0\<rparr>) now) (\<lambda>due2.
             rbind (report_gap h (replace_routine st due2) due2 now True) (\<lambda>st1.
             rbind (get_routine st1 (rt_id due2)) (\<lambda>current.
               lease_run h st1 (current\<lparr>rt_gap_started := 0, rt_missed := 0, rt_reported := 0\<rparr>) now key ent))))"

definition claim_next :: "host \<Rightarrow> team \<Rightarrow> int \<Rightarrow> string \<Rightarrow> bool \<Rightarrow> entropy \<Rightarrow> (team \<times> claim option) transition" where
  "claim_next h st now key long ent =
     (if \<not> sha256_re key then Inl ''routine-key-invalid''
      else rbind (sweep h st now) (\<lambda>swept.
        case claimable swept now long of
          None \<Rightarrow> Inr (swept, None)
        | Some due \<Rightarrow> rbind (claim_due h swept due now key ent) (\<lambda>(st', c). Inr (st', Some c))))"

definition lease_until :: "run \<Rightarrow> int \<Rightarrow> int" where
  "lease_until r now = now + (if rn_active r > 0 then rn_active r else 0) + LEASE_MARGIN_SECONDS"

definition human_lease :: "host \<Rightarrow> run \<Rightarrow> int \<Rightarrow> entropy \<Rightarrow> (run \<times> string) transition" where
  "human_lease h r now ent = rbind (new_token h ent) (\<lambda>(token, _).
     Inr (r\<lparr>rn_status := Leased, rn_lease := lease_sha256 h token, rn_key := HUMAN_LEASE,
            rn_expires := lease_until r now, rn_request := '''', rn_assistant := '''', rn_action := '''',
            rn_position := None, rn_steps := 0\<rparr>, token))"

definition require_lease :: "run \<Rightarrow> lease \<Rightarrow> int \<Rightarrow> unit transition" where
  "require_lease r l now =
     (if rn_status r \<noteq> Leased \<or> rn_lease r \<noteq> ls_sha l \<or> rn_key r \<noteq> ls_key l \<or> rn_expires r \<le> now \<or> rn_active r \<le> 0
      then Inl ''lease-invalid'' else Inr ())"

definition leased :: "team \<Rightarrow> string \<Rightarrow> run transition" where
  "leased st i = rbind (get_run st i) (\<lambda>r. if rn_status r \<noteq> Leased then Inl ''run-not-running'' else Inr r)"

definition live_lease :: "team \<Rightarrow> string \<Rightarrow> lease \<Rightarrow> int \<Rightarrow> run transition" where
  "live_lease st i l now = rbind (leased st i) (\<lambda>r. rbind (require_lease r l now) (\<lambda>_. Inr r))"

definition read_lease :: "team \<Rightarrow> string \<Rightarrow> string \<Rightarrow> run transition" where
  "read_lease st i sha = rbind (leased st i) (\<lambda>r. if rn_lease r \<noteq> sha then Inl ''run-changed'' else Inr r)"

section \<open>Generations\<close>

definition generation_for :: "string \<Rightarrow> string \<Rightarrow> string \<Rightarrow> string" where
  "generation_for network i suffix =
     (if suffix = '''' then network @ '':routine:'' @ i else network @ '':routine:'' @ i @ '':'' @ suffix)"

definition network_of :: "string \<Rightarrow> string \<Rightarrow> string option" where
  "network_of generation i = (case generation_parts generation of
      None \<Rightarrow> None | Some (network, run) \<Rightarrow> if run = i then Some network else None)"

definition verification_of :: "string \<Rightarrow> string \<Rightarrow> string transition" where
  "verification_of generation i = rbind (ok_or (network_of generation i) ''routine-generation-invalid'')
     (\<lambda>network. Inr (generation_for network i ''v1''))"

definition bind_generation :: "team \<Rightarrow> string \<Rightarrow> lease \<Rightarrow> int \<Rightarrow> string \<Rightarrow> team transition" where
  "bind_generation st i l now network = rbind (live_lease st i l now) (\<lambda>r.
     let generation = (if rn_generation r = '''' then generation_for network i '''' else rn_generation r) in
     if \<not> safe_id_re generation \<or> network_of generation i \<noteq> Some network then Inl ''generation-invalid''
     else Inr (replace_run st (r\<lparr>rn_generation := generation,
            rn_expires := (if rn_generation r = '''' then max (rn_expires r) (lease_until r now) else rn_expires r)\<rparr>)))"

end
