(* ===== verification/Routine_Runs.thy ===== *)
theory Routine_Runs
  imports Routine_Claim
begin

text \<open>
  A claimed run's transitions (\<^verbatim>\<open>routine/src/runs/mod.rs\<close>: spending, freezing, thawing, completing and ending) and a
  held run's (\<^verbatim>\<open>routine/src/hold/mod.rs\<close>: fencing, indexing as an incident, resuming, setting aside, releasing).
\<close>

section \<open>Active time\<close>

definition MAX_USAGE_MS :: int where "MAX_USAGE_MS = 86400000"

definition duration :: "json \<Rightarrow> int" where
  "duration usage = (case small_int (at usage ''duration_ms'') of None \<Rightarrow> 0 | Some n \<Rightarrow> n)"

definition spend :: "team \<Rightarrow> string \<Rightarrow> lease \<Rightarrow> int \<Rightarrow> int \<Rightarrow> int \<Rightarrow> team transition" where
  "spend st i l now seconds milliseconds =
     (if seconds < 0 \<or> milliseconds < 0 then Inl ''invalid-duration''
      else rbind (live_lease st i l now) (\<lambda>r.
        let spent = min (saturating_add_i64 (duration (rn_usage r)) milliseconds) MAX_USAGE_MS in
        Inr (replace_run st (r\<lparr>rn_usage := set_member (rn_usage r) ''duration_ms'' (int_value spent),
               rn_active := rn_active r - seconds\<rparr>))))"

definition joined_usage :: "json \<Rightarrow> json \<Rightarrow> json" where
  "joined_usage a b = object [(''duration_ms'',
     int_value (min (saturating_add_i64 (duration a) (duration b)) MAX_USAGE_MS))]"

definition lose_protection :: "team \<Rightarrow> string \<Rightarrow> team transition" where
  "lose_protection st i = rbind (get_run st i) (\<lambda>r. Inr (replace_run st (r\<lparr>rn_lost := True\<rparr>)))"

section \<open>Waiting for a person\<close>

record request =
  rq_kind :: string
  rq_assistant :: string
  rq_action :: string
  rq_position :: int

definition canonical_position :: "int \<Rightarrow> int \<Rightarrow> int option" where
  \<comment> \<open>of two \<open>i64\<close>: the position of a call among a plan's steps\<close>
  "canonical_position position steps =
     (if 0 \<le> steps \<and> steps \<le> 256 \<and> 1 \<le> position \<and> position \<le> steps then Some position else None)"

definition placed_step :: "json list \<Rightarrow> int \<Rightarrow> json option" where
  "placed_step steps position = (case canonical_position position (i64_of_nat (length steps)) of
      None \<Rightarrow> None
    | Some p \<Rightarrow> (case usize_of_int (p - 1) of
          None \<Rightarrow> None
        | Some index \<Rightarrow> if index < length steps then Some (steps ! index) else None))"

definition freeze :: "host \<Rightarrow> team \<Rightarrow> string \<Rightarrow> lease \<Rightarrow> int \<Rightarrow> request \<Rightarrow> entropy \<Rightarrow> team transition" where
  "freeze h st i l now q ent = rbind (live_lease st i l now) (\<lambda>r.
     rbind (get_routine st (rn_routine r)) (\<lambda>current.
     if rt_deleting current then Inl ''routine-deleting''
     else
       let matches_step = (case placed_step (elements (at (rt_plan current) ''steps'')) (rq_position q) of
              None \<Rightarrow> False
            | Some step \<Rightarrow> as_str (at step ''assistant'') = Some (rq_assistant q)
                          \<and> as_str (at step ''action'') = Some (rq_action q))
       in if rq_kind q \<notin> {''human'', ''integrations''} \<or> canonical_assistant_id (Str (rq_assistant q)) = None
             \<or> canonical_action_id (Str (rq_action q)) = None \<or> \<not> matches_step
          then Inl ''freeze-invalid''
          else if length (filter (\<lambda>x. rn_status x = Frozen) (runs st)) \<ge> MAX_FROZEN_RUNS then Inl ''frozen-limit''
          else rbind (run_notice h st r ''frozen'' now (object [(''request_kind'', text_value (rq_kind q))]) ent)
            (\<lambda>(st1, frozen, _). Inr (replace_run st1 (frozen\<lparr>rn_status := Frozen, rn_lease := '''', rn_key := '''',
               rn_expires := 0, rn_request := rq_kind q, rn_assistant := rq_assistant q, rn_action := rq_action q\<rparr>)))))"

definition thaw :: "host \<Rightarrow> team \<Rightarrow> string \<Rightarrow> int \<Rightarrow> int \<Rightarrow> entropy \<Rightarrow> (team \<times> string) transition" where
  "thaw h st i now requests ent = rbind (get_run st i) (\<lambda>r.
     rbind (if rn_status r \<noteq> Frozen then Inr True
            else rbind (get_routine st (rn_routine r)) (\<lambda>current. Inr (rt_deleting current))) (\<lambda>refused.
       if refused then Inl ''run-not-frozen''
       else rbind (human_lease h r now ent) (\<lambda>(resumed, token).
         Inr (replace_run st (resumed\<lparr>rn_requests := max (rn_requests r) requests\<rparr>), token))))"

section \<open>Ending a run\<close>

definition output_state :: "json \<Rightarrow> string \<Rightarrow> json" where
  "output_state step state = object [(''step'', step), (''state'', text_value state), (''value'', Null),
     (''truncated'', Bool False)]"

definition quiet :: "team \<Rightarrow> routine \<Rightarrow> team" where
  "quiet st current = replace_routine st (current\<lparr>rt_failures := 0\<rparr>)"

definition healthy :: "host \<Rightarrow> team \<Rightarrow> run \<Rightarrow> int \<Rightarrow> (team \<times> bool) transition" where
  "healthy h st r now = rbind (get_routine st (rn_routine r)) (\<lambda>current.
     if \<not> continuous current then Inr (st, False)
     else
       let minute = now - now mod 60;
           same = (rt_rollup_minute current = minute);
           count = (if same then rt_rollup_runs current + 1 else 1)
       in if minute < rt_rollup_minute current \<or> count > MAX_ROLLUP_RUNS then Inr (st, False)
          else
            let usage = (case rt_rollup_usage current of
                    Some rollup \<Rightarrow> if same then joined_usage rollup (rn_usage r) else rn_usage r
                  | None \<Rightarrow> rn_usage r);
                st1 = replace_routine st (current\<lparr>rt_rollup_minute := minute, rt_rollup_runs := count,
                        rt_rollup_usage := Some usage, rt_failures := 0\<rparr>);
                i = take 32 (h_sha h (''healthy:'' @ rt_id current @ '':'' @ show_int minute))
            in rbind (put_notice h st1 ((notice_new i (rt_id current) '''' ''healthy'' minute
                   (object [(''runs'', int_value count)]))\<lparr>nt_version := count, nt_usage := Some usage\<rparr>))
                 (\<lambda>st2. Inr (st2, True)))"

definition completion ::
    "host \<Rightarrow> team \<Rightarrow> run \<Rightarrow> string \<Rightarrow> int \<Rightarrow> json option \<Rightarrow> entropy \<Rightarrow> team transition" where
  "completion h st r outcome now shown ent = rbind (get_routine st (rn_routine r)) (\<lambda>current.
     let disp = at (rt_plan current) ''output'';
         mode = str_or_empty (at disp ''mode'');
         sum = summary h (rt_plan current) (rt_revision current)
     in if mode \<in> {''changes'', ''show''} then
          let position = at (disposition (rt_plan current)) ''step'';
              valid = (case shown of
                  Some s \<Rightarrow> if value_eq (at s ''step'') (at disp ''step'') \<and> \<not> rn_lost r then Some s else None
                | None \<Rightarrow> None);
              output = (case valid of None \<Rightarrow> output_state position ''unavailable'' | Some s \<Rightarrow> at s ''output'');
              digest = Option.bind valid (\<lambda>s. as_str (at s ''digest''));
              publish = (\<lambda>st1 out. rbind (run_notice h st1 r outcome now (object [(''plan'', sum), (''output'', out)]) ent)
                 (\<lambda>(st2, _, _). Inr st2))
          in if mode = ''changes'' \<and> as_str (at output ''state'') = Some ''shown'' then
               (if (case digest of Some d \<Rightarrow> d = rt_digest current | None \<Rightarrow> False) then
                  (if rn_version r = 0 then Inr (quiet st current)
                   else publish st (output_state position ''unchanged''))
                else publish (replace_routine st (current\<lparr>rt_digest := (case digest of None \<Rightarrow> '''' | Some d \<Rightarrow> d)\<rparr>)) output)
             else publish st output
        else if rn_version r = 0 \<and> \<not> rn_lost r then
          rbind (if outcome = ''done'' then healthy h st r now else Inr (st, False)) (\<lambda>(st1, rolled).
            if rolled then Inr st1 else Inr (quiet st1 current))
        else rbind (run_notice h st r outcome now (object [(''plan'', sum), (''output'', Null)]) ent)
               (\<lambda>(st1, _, _). Inr st1))"

definition completed :: "run \<Rightarrow> string" where
  "completed r =
     (case network_of (rn_generation r) (rn_id r) of
        Some network \<Rightarrow> if generation_for network (rn_id r) '''' = rn_generation r then ''done'' else ''recovered''
      | None \<Rightarrow> ''recovered'')"

definition completed_run :: "host \<Rightarrow> team \<Rightarrow> run \<Rightarrow> int \<Rightarrow> json option \<Rightarrow> entropy \<Rightarrow> team transition" where
  "completed_run h st r now shown ent =
     rbind (completion h st r (completed r) now shown ent) (\<lambda>st1. without_run st1 (rn_id r) now)"

definition finish :: "host \<Rightarrow> team \<Rightarrow> string \<Rightarrow> lease \<Rightarrow> int \<Rightarrow> json option \<Rightarrow> entropy \<Rightarrow> team transition" where
  "finish h st i l now shown ent = rbind (live_lease st i l now) (\<lambda>r. completed_run h st r now shown ent)"

definition end_run ::
    "host \<Rightarrow> team \<Rightarrow> string \<Rightarrow> int \<Rightarrow> string \<Rightarrow> json \<Rightarrow> run_status option \<Rightarrow> entropy \<Rightarrow> team transition" where
  "end_run h st i now outcome detail status ent = rbind (get_run st i) (\<lambda>r.
     if (case status of None \<Rightarrow> False | Some s \<Rightarrow> rn_status r \<noteq> s) then Inl ''run-changed''
     else
       let allowed = (case rn_status r of Leased \<Rightarrow> [''stopped'', ''failed''] | Frozen \<Rightarrow> FROZEN_OUTCOMES | _ \<Rightarrow> [])
       in if outcome \<notin> set allowed then Inl ''invalid-outcome''
          else rbind (run_notice h st r outcome now detail ent) (\<lambda>(st1, _, _). without_run st1 i now))"

definition complete_recovered ::
    "host \<Rightarrow> team \<Rightarrow> string \<Rightarrow> string \<Rightarrow> int \<Rightarrow> json option \<Rightarrow> entropy \<Rightarrow> team transition" where
  "complete_recovered h st i sha now shown ent =
     rbind (read_lease st i sha) (\<lambda>r. completed_run h st r now shown ent)"

section \<open>Holding a run\<close>

type_synonym held_step = "string \<times> string \<times> int option \<times> int"

definition unknown_step :: held_step where "unknown_step = ('''', '''', None, 0)"

datatype pause_reason = Exhausted | Policy | Evidence

fun reason_name :: "pause_reason \<Rightarrow> string" where
  "reason_name Exhausted = ''exhausted''"
| "reason_name Policy = ''policy''"
| "reason_name Evidence = ''evidence''"

record expected =
  ex_revision :: int
  ex_generation :: string
  ex_current :: int

definition incident :: "team \<Rightarrow> string \<Rightarrow> run transition" where
  "incident st i = ok_or (find_by rn_id i (incidents st)) ''incident-not-found''"

definition current_revision :: "team \<Rightarrow> string \<Rightarrow> int" where
  "current_revision st i = (case List.find (\<lambda>r. rt_id r = i \<and> \<not> rt_deleting r) (routines st) of
      None \<Rightarrow> 0 | Some r \<Rightarrow> rt_revision r)"

definition expect :: "team \<Rightarrow> run \<Rightarrow> expected option \<Rightarrow> unit transition" where
  "expect st r e = (case e of
      None \<Rightarrow> Inr ()
    | Some x \<Rightarrow> if (rn_revision r, rn_generation r, current_revision st (rn_routine r))
                    \<noteq> (ex_revision x, ex_generation x, ex_current x)
                then Inl ''incident-changed'' else Inr ())"

definition skip_incident ::
    "host \<Rightarrow> team \<Rightarrow> string \<Rightarrow> int \<Rightarrow> expected option \<Rightarrow> entropy \<Rightarrow> team transition" where
  "skip_incident h st i now e ent = rbind (incident st i) (\<lambda>r.
     if rn_status r \<noteq> Unresolved then Inl ''incident-not-unresolved''
     else rbind (expect st r e) (\<lambda>_.
       rbind (run_notice h st r ''user-skipped'' now (object []) ent) (\<lambda>(st1, skipped, _).
         Inr (replace_run st1 (skipped\<lparr>rn_status := Skipped\<rparr>)))))"

definition settle_hold :: "host \<Rightarrow> team \<Rightarrow> string \<Rightarrow> int \<Rightarrow> held_step \<Rightarrow> entropy \<Rightarrow> team transition" where
  "settle_hold h st i now step ent = rbind (get_run st i) (\<lambda>r.
     if rn_status r \<noteq> Held then Inl ''run-not-held''
     else rbind (get_routine st (rn_routine r)) (\<lambda>current.
       rbind (run_notice h st r ''held'' now (object []) ent) (\<lambda>(st1, noticed, ent1).
         let (assistant, action, position, steps) = step;
             indexed = noticed\<lparr>rn_status := Unresolved, rn_assistant := assistant, rn_action := action,
                rn_position := position, rn_steps := steps\<rparr>;
             st2 = ended (replace_run st1 indexed) indexed now
         in if rt_deleting current then skip_incident h st2 i now None ent1 else Inr st2)))"

definition spend_incident :: "team \<Rightarrow> string \<Rightarrow> int \<Rightarrow> team transition" where
  "spend_incident st i seconds = rbind (incident st i) (\<lambda>r.
     Inr (replace_run st (r\<lparr>rn_active := max (rn_active r - seconds) 0\<rparr>)))"

definition reopen_incident ::
    "host \<Rightarrow> team \<Rightarrow> string \<Rightarrow> int \<Rightarrow> string \<Rightarrow> entropy \<Rightarrow> (team \<times> string) transition" where
  "reopen_incident h st i now generation ent = rbind (incident st i) (\<lambda>r.
     if rn_status r \<noteq> Unresolved then Inl ''incident-not-unresolved''
     else rbind (get_routine st (rn_routine r)) (\<lambda>current.
       if rt_deleting current \<or> rt_paused current \<or> rt_revision current \<noteq> rn_revision r then Inl ''routine-not-resumable''
       else if rn_active r \<le> 0 then Inl ''run-time-exhausted''
       else if list_ex (\<lambda>x. rn_routine x = rn_routine r) (live_runs st) \<or> network_of generation i = None
         then Inl ''routine-busy''
       else rbind (human_lease h r now ent) (\<lambda>(resumed, token).
         let archived = (i, rn_generation r);
             st1 = replace_run st (resumed\<lparr>rn_generation := generation\<rparr>)
         in Inr (if archived \<in> set (discards st1) then st1 else st1\<lparr>discards := discards st1 @ [archived]\<rparr>, token))))"

definition run_incident :: "host \<Rightarrow> team \<Rightarrow> string \<Rightarrow> int \<Rightarrow> expected \<Rightarrow> entropy \<Rightarrow> team transition" where
  "run_incident h st i now e ent = rbind (incident st i) (\<lambda>r.
     rbind (skip_incident h st i now (Some e) ent) (\<lambda>st1.
     rbind (set_paused st1 (rn_routine r) False) (\<lambda>st2.
     rbind (get_routine st2 (rn_routine r)) (\<lambda>current.
       Inr (replace_routine st2 (current\<lparr>rt_requested := now\<rparr>))))))"

definition pause_incident :: "host \<Rightarrow> team \<Rightarrow> string \<Rightarrow> int \<Rightarrow> pause_reason \<Rightarrow> entropy \<Rightarrow> team transition" where
  "pause_incident h st i now reason ent = rbind (incident st i) (\<lambda>r.
     if rn_status r \<noteq> Unresolved then Inl ''incident-not-unresolved''
     else rbind (set_paused st (rn_routine r) True) (\<lambda>st1.
       rbind (run_notice h st1 r ''paused'' now (object [(''reason'', text_value (reason_name reason))]) ent)
         (\<lambda>(st2, noticed, _). Inr (replace_run st2 noticed))))"

definition release_incident :: "team \<Rightarrow> string \<Rightarrow> team transition" where
  "release_incident st i = (case find_run st i of
      None \<Rightarrow> Inr st
    | Some r \<Rightarrow> if rn_status r \<noteq> Skipped then Inl ''incident-not-skipped''
                else Inr (st\<lparr>runs := filter (\<lambda>x. rn_id x \<noteq> i) (runs st)\<rparr>))"

definition held :: "team \<Rightarrow> run \<Rightarrow> team transition" where
  "held st r =
     (if rn_generation r = '''' then Inl ''generation-invalid''
      else Inr (replace_run st (r\<lparr>rn_status := Held, rn_lease := '''', rn_key := '''', rn_expires := 0\<rparr>)))"

definition fence :: "team \<Rightarrow> string \<Rightarrow> lease \<Rightarrow> int \<Rightarrow> team transition" where
  "fence st i l now = rbind (live_lease st i l now) (held st)"

definition hold_recovered :: "team \<Rightarrow> string \<Rightarrow> string \<Rightarrow> team transition" where
  "hold_recovered st i sha = rbind (read_lease st i sha) (held st)"

definition expired :: "team \<Rightarrow> int \<Rightarrow> run list" where
  "expired st now = filter (\<lambda>r. rn_status r = Leased \<and> (rn_expires r \<le> now \<or> rn_active r \<le> 0)) (runs st)"

definition rekeyed :: "team \<Rightarrow> string \<Rightarrow> run list" where
  "rekeyed st key = filter (\<lambda>r. rn_status r = Leased \<and> rn_key r \<noteq> key \<and> rn_key r \<noteq> HUMAN_LEASE) (runs st)"

end
