(* ===== verification/Routine_Invariant.thy ===== *)
theory Routine_Invariant
  imports Routine_Runs "HOL-Library.Multiset"
begin

text \<open>
  The invariant of a Team's Routine state and the primitive writes every transition is made of.

  \<open>routines_inv\<close>: ids are unique, at most eight Routines, every schedule is canonical, and the Routines' daily
  allocations and definition bytes fit the Team's budgets. \<open>runs_inv\<close>: run ids are unique, a Routine has at most one live run, at
  most one run is leased to a machine worker, unresolved and live runs fit the incident bound, frozen and kept runs
  fit theirs, and a frozen or held run keeps no lease. \<open>link_inv\<close>: every run's Routine exists, and a live run
  executes its current revision. \<open>notices_inv\<close> and \<open>starts_inv\<close> bound the undelivered notices and the steps
  started in the rolling day.
\<close>

section \<open>The invariant\<close>

definition machine :: "run \<Rightarrow> bool" where
  "machine x \<longleftrightarrow> rn_status x = Leased \<and> rn_key x \<noteq> HUMAN_LEASE"

definition pending :: "run \<Rightarrow> bool" where
  "pending x \<longleftrightarrow> live (rn_status x) \<or> rn_status x = Unresolved"

definition frozen :: "run \<Rightarrow> bool" where
  "frozen x \<longleftrightarrow> rn_status x = Frozen"

definition live_of :: "string \<Rightarrow> run \<Rightarrow> bool" where
  "live_of i x \<longleftrightarrow> live (rn_status x) \<and> rn_routine x = i"

definition run_ok :: "run \<Rightarrow> bool" where
  "run_ok x \<longleftrightarrow> (rn_status x \<in> {Frozen, Held} \<longrightarrow> rn_lease x = '''' \<and> rn_key x = '''')"

definition run_count :: "(run \<Rightarrow> bool) \<Rightarrow> team \<Rightarrow> nat" where
  "run_count P st = length (filter P (runs st))"

definition routines_inv :: "team \<Rightarrow> bool" where
  "routines_inv st \<longleftrightarrow> distinct (map rt_id (routines st)) \<and> length (routines st) \<le> MAX_ROUTINES \<and>
     (\<forall>r \<in> set (routines st). canonical_schedule (rt_schedule r) \<noteq> None) \<and>
     sum_list (map daily_steps (routines st)) \<le> MAX_DAILY_STEPS \<and>
     sum_list (map definition_bytes (routines st)) \<le> TEAM_DEFINITION_BYTES"

definition runs_inv :: "team \<Rightarrow> bool" where
  "runs_inv st \<longleftrightarrow> distinct (map rn_id (runs st)) \<and> (\<forall>x \<in> set (runs st). run_ok x) \<and>
     (\<forall>i. run_count (live_of i) st \<le> 1) \<and> run_count machine st \<le> 1 \<and>
     run_count pending st \<le> MAX_UNRESOLVED_INCIDENTS \<and> run_count frozen st \<le> MAX_FROZEN_RUNS \<and> length (runs st) \<le> MAX_RUNS"

definition linked :: "team \<Rightarrow> run \<Rightarrow> bool" where
  "linked st x \<longleftrightarrow> (\<exists>r. find_routine st (rn_routine x) = Some r \<and> (live (rn_status x) \<longrightarrow> rn_revision x = rt_revision r))"

definition link_inv :: "team \<Rightarrow> bool" where
  "link_inv st \<longleftrightarrow> (\<forall>x \<in> set (runs st). linked st x)"

definition notices_inv :: "team \<Rightarrow> bool" where
  "notices_inv st \<longleftrightarrow> distinct (map nt_id (notices st)) \<and>
     length (notices st) \<le> MAX_UNDELIVERED_NOTICES + MAX_ROUTINE_NOTICES \<and> (\<forall>n \<in> set (notices st). nt_version n \<ge> 1)"

definition starts_inv :: "team \<Rightarrow> bool" where
  "starts_inv st \<longleftrightarrow> (\<forall>s \<in> set (starts st). snd (snd s) \<ge> 0) \<and> sum_list (map (snd \<circ> snd) (starts st)) \<le> MAX_DAILY_STEPS"

definition team_inv :: "team \<Rightarrow> bool" where
  "team_inv st \<longleftrightarrow> routines_inv st \<and> runs_inv st \<and> link_inv st \<and> notices_inv st \<and> starts_inv st"

section \<open>Budgets are never negative\<close>

lemma run_units_range: "0 \<le> run_units r" "run_units r \<le> i64_max"
  by (simp_all add: run_units_def i64_of_nat_def i64_max_def)

lemma daily_cap_pos:
  assumes "canonical_schedule s \<noteq> None"
  shows "1 \<le> daily_cap s"
proof -
  from assms obtain s' where "canonical_schedule s = Some s'" by blast
  then obtain kind where k: "get s ''kind'' = Some (Str kind)"
    and gap: "kind = ''continuous'' \<Longrightarrow> whole (at s ''gap'') MIN_CONTINUOUS_GAP_SECONDS MAX_CONTINUOUS_GAP_SECONDS"
    by (rule canonical_schedule_parts) blast
  have "1 \<le> continuous_cap g" if "get s ''gap'' = Some (Number (Int64 g))" "kind = ''continuous''" for g
  proof -
    have "5 \<le> g" using gap that by (simp add: whole_def at_def MIN_CONTINUOUS_GAP_SECONDS_def)
    then have "0 \<le> (DAY_SECONDS - 1) div g" by (simp add: DAY_SECONDS_def pos_imp_zdiv_nonneg_iff)
    then show ?thesis by (simp add: continuous_cap_def)
  qed
  then show ?thesis using k by (auto simp: daily_cap_def at_def bind_eq_Some_conv split: option.splits)
qed

lemma daily_steps_units: "canonical_schedule (rt_schedule r) \<noteq> None \<Longrightarrow> run_units r \<le> daily_steps r"
proof -
  assume "canonical_schedule (rt_schedule r) \<noteq> None"
  then have "run_units r \<le> daily_cap (rt_schedule r) * run_units r"
    using daily_cap_pos [of "rt_schedule r"] run_units_range(1) [of r] mult_right_mono [of 1 "daily_cap (rt_schedule r)" "run_units r"] by simp
  then show ?thesis using run_units_range [of r] by (simp add: daily_steps_def saturating_mul_i64_def)
qed

lemma daily_steps_nonneg: "canonical_schedule (rt_schedule r) \<noteq> None \<Longrightarrow> 0 \<le> daily_steps r"
  using daily_steps_units [of r] run_units_range(1) [of r] by linarith

lemma sum_list_filter_le:
  "(\<And>x. x \<in> set xs \<Longrightarrow> 0 \<le> f x) \<Longrightarrow> sum_list (map f (filter P xs)) \<le> sum_list (map f xs)" for f :: "'a \<Rightarrow> int"
  by (induction xs) (auto simp: add_mono intro: order_trans)

lemma member_le_sum_list:
  "(\<And>x. x \<in> set xs \<Longrightarrow> 0 \<le> f x) \<Longrightarrow> y \<in> set xs \<Longrightarrow> f y \<le> sum_list (map f xs)" for f :: "'a \<Rightarrow> int"
proof (induction xs)
  case (Cons a xs)
  have "0 \<le> sum_list (map f xs)" by (rule sum_list_nonneg) (use Cons.prems in auto)
  then show ?case using Cons by (auto intro: order_trans)
qed simp

section \<open>Primitive writes\<close>

text \<open>A rewrite of a Routine that keeps its definition: same id, schedule, plan, permissions and revision
  (\<open>same_plan\<close>), and whether it is being deleted.\<close>

definition same_definition :: "routine \<Rightarrow> routine \<Rightarrow> bool" where
  "same_definition q r \<longleftrightarrow> rt_id r = rt_id q \<and> rt_schedule r = rt_schedule q \<and> rt_plan r = rt_plan q \<and>
     rt_revision r = rt_revision q \<and> rt_permitted r = rt_permitted q \<and> rt_confirmation r = rt_confirmation q \<and>
     rt_deleting r = rt_deleting q"

definition same_plan :: "routine \<Rightarrow> routine \<Rightarrow> bool" where
  "same_plan q r \<longleftrightarrow> rt_id r = rt_id q \<and> rt_schedule r = rt_schedule q \<and> rt_plan r = rt_plan q \<and>
     rt_revision r = rt_revision q \<and> rt_permitted r = rt_permitted q \<and> rt_confirmation r = rt_confirmation q"

lemma same_definition_plan: "same_definition q r \<Longrightarrow> same_plan q r"
  by (simp add: same_definition_def same_plan_def)

lemma same_plan_facts: "same_plan q r \<Longrightarrow> daily_steps r = daily_steps q \<and> definition_bytes r = definition_bytes q"
  by (simp add: same_plan_def daily_steps_def run_units_def definition_bytes_def)

lemma same_definition_facts:
  "same_definition q r \<Longrightarrow> daily_steps r = daily_steps q \<and> continuous r = continuous q \<and> run_units r = run_units q \<and>
   definition_bytes r = definition_bytes q"
  by (simp add: same_definition_def daily_steps_def continuous_def run_units_def definition_bytes_def)

lemma sum_list_replace_by_eq:
  "find_by key (key y) xs = Some x \<Longrightarrow> f x = f y \<Longrightarrow> sum_list (map f (replace_by key y xs)) = sum_list (map f xs)"
  by (induction xs) (auto split: if_splits)

lemma team_inv_frame:
  assumes "team_inv st" "routines st' = routines st" "runs st' = runs st" "notices st' = notices st" "starts st' = starts st"
  shows "team_inv st'"
  using assms
  by (simp add: team_inv_def routines_inv_def runs_inv_def link_inv_def linked_def notices_inv_def starts_inv_def
      find_routine_def run_count_def)

lemma put_notice_Inr:
  assumes "put_notice h st n = Inr st'"
  obtains detail name where
    "st' = st\<lparr>notices := filter (\<lambda>m. nt_id m \<noteq> nt_id n) (notices st) @ [n\<lparr>nt_detail := detail, nt_name := name\<rparr>]\<rparr>"
    "nt_version n \<ge> 1" "length (filter (\<lambda>m. nt_id m \<noteq> nt_id n) (notices st)) < MAX_UNDELIVERED_NOTICES + MAX_ROUTINE_NOTICES"
    "canonical_notice_detail h (nt_outcome n) (nt_detail n) = Some detail"
proof -
  from assms obtain detail name where d: "canonical_notice_detail h (nt_outcome n) (nt_detail n) = Some detail"
    and e: "(if nt_version n < 1 then Inl ''notice-invalid''
       else let others = filter (\<lambda>m. nt_id m \<noteq> nt_id n) (notices st) in
         if length others \<ge> MAX_UNDELIVERED_NOTICES + MAX_ROUTINE_NOTICES then Inl ''notices-full''
         else Inr (st\<lparr>notices := others @ [n\<lparr>nt_detail := detail, nt_name := name\<rparr>]\<rparr>)) = Inr st'"
    unfolding put_notice_def rbind_eq_Inr ok_or_eq_Inr by blast
  from that [of name detail] d e show ?thesis by (auto simp: Let_def split: if_splits)
qed

lemma put_notice_frame:
  assumes "put_notice h st n = Inr st'"
  shows "routines st' = routines st" "runs st' = runs st" "starts st' = starts st" "discards st' = discards st"
  using assms by (auto elim!: put_notice_Inr)

lemma put_notice_inv:
  assumes "team_inv st" "put_notice h st n = Inr st'"
  shows "team_inv st'"
  using assms(2)
proof (rule put_notice_Inr)
  fix detail name
  assume *: "st' = st\<lparr>notices := filter (\<lambda>m. nt_id m \<noteq> nt_id n) (notices st) @ [n\<lparr>nt_detail := detail, nt_name := name\<rparr>]\<rparr>"
    "nt_version n \<ge> 1" "length (filter (\<lambda>m. nt_id m \<noteq> nt_id n) (notices st)) < MAX_UNDELIVERED_NOTICES + MAX_ROUTINE_NOTICES"
  have "notices_inv st'"
    using assms(1) * by (auto simp: team_inv_def notices_inv_def distinct_map_filter)
  then show ?thesis
    using assms(1) by (simp add: team_inv_def routines_inv_def runs_inv_def link_inv_def linked_def starts_inv_def
        find_routine_def run_count_def *(1))
qed

lemma replace_plan_inv:
  assumes inv: "team_inv st" and q: "find_routine st (rt_id r) = Some q" "same_plan q r"
  shows "team_inv (replace_routine st r)"
proof -
  note qm = routine_table.lookup_Some_mem [OF q(1)]
  have "routines_inv (replace_routine st r)"
  proof -
    have "sum_list (map daily_steps (replace_by rt_id r (routines st))) = sum_list (map daily_steps (routines st))"
      "sum_list (map definition_bytes (replace_by rt_id r (routines st))) = sum_list (map definition_bytes (routines st))"
      using q same_plan_facts [OF q(2)] sum_list_replace_by_eq [of rt_id r "routines st" q daily_steps]
        sum_list_replace_by_eq [of rt_id r "routines st" q definition_bytes] by (simp_all add: find_routine_def)
    moreover have "canonical_schedule (rt_schedule x) \<noteq> None" if "x \<in> set (replace_by rt_id r (routines st))" for x
      using that set_replace_by_subset [of rt_id r "routines st"] inv qm q(2)
      by (auto simp: team_inv_def routines_inv_def same_plan_def)
    ultimately show ?thesis using inv by (simp add: team_inv_def routines_inv_def replace_routine_def)
  qed
  moreover have "linked (replace_routine st r) x" if "x \<in> set (runs st)" for x
  proof -
    from inv that obtain y where "find_routine st (rn_routine x) = Some y" "live (rn_status x) \<longrightarrow> rn_revision x = rt_revision y"
      by (auto simp: team_inv_def link_inv_def linked_def)
    then show ?thesis
      using q by (cases "rn_routine x = rt_id r") (auto simp: linked_def routine_table.lookup_replace same_plan_def)
  qed
  ultimately show ?thesis
    using inv by (simp add: team_inv_def runs_inv_def link_inv_def notices_inv_def starts_inv_def replace_routine_def run_count_def)
qed

lemma replace_routine_inv:
  "team_inv st \<Longrightarrow> find_routine st (rt_id r) = Some q \<Longrightarrow> same_definition q r \<Longrightarrow> team_inv (replace_routine st r)"
  by (rule replace_plan_inv) (auto intro: same_definition_plan)

text \<open>A rewrite of a run that makes it no more than it was.\<close>

definition calmer :: "run \<Rightarrow> run \<Rightarrow> bool" where
  "calmer q r \<longleftrightarrow> rn_id r = rn_id q \<and> rn_routine r = rn_routine q \<and> rn_revision r = rn_revision q \<and> run_ok r \<and>
     (live (rn_status r) \<longrightarrow> live (rn_status q)) \<and> (machine r \<longrightarrow> machine q) \<and> (pending r \<longrightarrow> pending q)"

lemma run_count_replace:
  "find_run st (rn_id r) = Some q \<Longrightarrow>
   run_count P (replace_run st r) + (if P q then 1 else 0) = run_count P st + (if P r then 1 else 0)"
  unfolding run_count_def by (rule run_table.count_replace)

lemma count_replace_le: "find_run st (rn_id r) = Some q \<Longrightarrow> (P r \<Longrightarrow> P q) \<Longrightarrow> run_count P (replace_run st r) \<le> run_count P st"
  using run_count_replace [of st r q P] by (auto split: if_splits)

lemma replace_run_inv:
  assumes inv: "team_inv st" and q: "find_run st (rn_id r) = Some q" "run_ok r"
    and counts: "\<And>i. run_count (live_of i) (replace_run st r) \<le> 1" "run_count machine (replace_run st r) \<le> 1"
      "run_count pending (replace_run st r) \<le> MAX_UNRESOLVED_INCIDENTS" "run_count frozen (replace_run st r) \<le> MAX_FROZEN_RUNS"
    and link: "linked st r"
  shows "team_inv (replace_run st r)"
proof -
  have "\<forall>x \<in> set (replace_by rn_id r (runs st)). run_ok x \<and> linked st x"
    using inv q(2) link set_replace_by_subset [of rn_id r "runs st"]
    by (auto simp: team_inv_def runs_inv_def link_inv_def)
  then show ?thesis
    using inv counts
    by (auto simp: team_inv_def routines_inv_def runs_inv_def link_inv_def linked_def notices_inv_def starts_inv_def
        find_routine_def replace_run_def)
qed

lemma linked_of: "team_inv st \<Longrightarrow> find_run st i = Some q \<Longrightarrow> linked st q"
  using run_table.lookup_Some_mem by (fastforce simp: team_inv_def link_inv_def)

lemma calmer_inv:
  assumes inv: "team_inv st" and q: "find_run st (rn_id r) = Some q" "calmer q r"
    and frz: "frozen r \<longrightarrow> frozen q \<or> run_count frozen st < MAX_FROZEN_RUNS"
  shows "team_inv (replace_run st r)"
proof (rule replace_run_inv [OF inv q(1)])
  note c = q(2) [unfolded calmer_def]
  show "run_ok r" using c by simp
  have r: "runs_inv st" using inv by (simp add: team_inv_def)
  show "run_count (live_of i) (replace_run st r) \<le> 1" for i
    using count_replace_le [OF q(1), of "live_of i"] c r by (auto simp: live_of_def runs_inv_def intro: order_trans)
  show "run_count machine (replace_run st r) \<le> 1" "run_count pending (replace_run st r) \<le> MAX_UNRESOLVED_INCIDENTS"
    using count_replace_le [OF q(1), of machine] count_replace_le [OF q(1), of pending] c r
    by (auto simp: runs_inv_def intro: order_trans)
  show "run_count frozen (replace_run st r) \<le> MAX_FROZEN_RUNS"
    using run_count_replace [OF q(1), of frozen] frz r by (auto simp: runs_inv_def split: if_splits)
  show "linked st r" using linked_of [OF inv q(1)] c by (auto simp: linked_def)
qed

lemma filter_runs_inv:
  assumes "team_inv st"
  shows "team_inv (st\<lparr>runs := filter P (runs st)\<rparr>)"
proof -
  let ?st = "st\<lparr>runs := filter P (runs st)\<rparr>"
  have le: "run_count Q ?st \<le> n" if "run_count Q st \<le> n" for Q n
    using that length_filter_remove_le [of Q P "runs st"] by (simp add: run_count_def)
  have "length (runs ?st) \<le> n" if "length (runs st) \<le> n" for n
    using le_trans [OF length_filter_le that] by simp
  then have "runs_inv ?st"
    using assms le by (auto simp: team_inv_def runs_inv_def distinct_map_filter)
  then show ?thesis
    using assms by (auto simp: team_inv_def routines_inv_def link_inv_def linked_def notices_inv_def starts_inv_def find_routine_def)
qed

section \<open>Notices of runs, pauses and ends\<close>

lemma get_routine_Inr [simp]: "get_routine st i = Inr r \<longleftrightarrow> find_routine st i = Some r"
  by (simp add: get_routine_def)

lemma get_run_Inr [simp]: "get_run st i = Inr r \<longleftrightarrow> find_run st i = Some r"
  by (simp add: get_run_def)

lemma find_run_key: "find_run st i = Some r \<Longrightarrow> rn_id r = i"
  by (rule run_table.lookup_Some_key)

lemma find_routine_key: "find_routine st i = Some r \<Longrightarrow> rt_id r = i"
  by (rule routine_table.lookup_Some_key)

text \<open>A write that leaves runs, starts and every Routine's definition alone.\<close>

definition gentle :: "team \<Rightarrow> team \<Rightarrow> bool" where
  "gentle st st' \<longleftrightarrow> (team_inv st \<longrightarrow> team_inv st') \<and> runs st' = runs st \<and> starts st' = starts st \<and>
     (\<forall>i q. find_routine st i = Some q \<longrightarrow> (\<exists>r. find_routine st' i = Some r \<and> same_definition q r)) \<and>
     map rt_id (routines st') = map rt_id (routines st)"

lemma same_definition_refl [simp]: "same_definition q q"
  by (simp add: same_definition_def)

lemma same_definition_trans: "same_definition p q \<Longrightarrow> same_definition q r \<Longrightarrow> same_definition p r"
  by (simp add: same_definition_def)

lemma gentle_refl [simp]: "gentle st st"
  by (auto simp: gentle_def)

lemma gentle_trans: "gentle st st1 \<Longrightarrow> gentle st1 st2 \<Longrightarrow> gentle st st2"
  unfolding gentle_def by (metis same_definition_trans)

lemma gentle_put_notice: "put_notice h st n = Inr st' \<Longrightarrow> gentle st st'"
  using put_notice_inv [of st h n st'] put_notice_frame [of h st n st'] by (auto simp: gentle_def find_routine_def)

lemma gentle_replace_routine:
  assumes "find_routine st (rt_id r) = Some q" "same_definition q r"
  shows "gentle st (replace_routine st r)"
proof -
  have "\<exists>x. find_routine (replace_routine st r) i = Some x \<and> same_definition p x" if "find_routine st i = Some p" for i p
    using that assms by (cases "i = rt_id r") (auto simp: routine_table.lookup_replace)
  then show ?thesis
    using replace_routine_inv [OF _ assms] routine_table.keys_replace [of st r] by (auto simp: gentle_def replace_routine_def)
qed

lemma gentle_discards: "gentle st (st\<lparr>discards := ds\<rparr>)"
  by (auto simp: gentle_def find_routine_def intro: team_inv_frame)

lemma gentle_rebase: "gentle st (rebase_continuous st i now)"
proof (cases "find_routine st i")
  case (Some r)
  have "gentle st (replace_routine st (r\<lparr>rt_next := max now (rt_next r)\<rparr>))"
    using Some find_routine_key [OF Some] by (intro gentle_replace_routine) (auto simp: same_definition_def)
  then show ?thesis using Some by (simp add: rebase_continuous_def)
qed (simp add: rebase_continuous_def)

lemma gentle_ended: "gentle st (ended st r now)"
  unfolding ended_def by (rule gentle_trans [OF gentle_discards gentle_rebase])

lemma gentle_run_notice:
  assumes "run_notice h st r outcome now detail ent = Inr (st', r', ent')"
  shows "gentle st st' \<and> r' = r\<lparr>rn_version := rn_version r + 1\<rparr>"
proof -
  from assms obtain n st1 where n: "put_notice h st n = Inr st1" and r': "r' = r\<lparr>rn_version := rn_version r + 1\<rparr>"
    and rest: "(if outcome \<in> {''done'', ''recovered'', ''failed''} then
          rbind (get_routine st1 (rn_routine r)) (\<lambda>current.
          let failures = (if outcome = ''failed'' then rt_failures current + 1 else 0);
              streak = (\<not> rt_paused current \<and> failures \<ge> MAX_FAILURE_STREAK);
              st2 = replace_routine st1 (current\<lparr>rt_failures := failures, rt_paused := rt_paused current \<or> streak\<rparr>)
          in if streak then
               rbind (new_id ent) (\<lambda>(i, ent').
               rbind (put_notice h st2 (notice_new i (rt_id current) '''' ''streak-paused'' now
                        (object [(''failures'', int_value failures)]))) (\<lambda>st3. Inr (st3, ent')))
             else Inr (st2, ent))
        else Inr (st1, ent)) = Inr (st', ent')"
    unfolding run_notice_def Let_def rbind_eq_Inr by auto
  have rep: "gentle st1 (replace_routine st1 (current\<lparr>rt_failures := f, rt_paused := p\<rparr>))"
    if "find_routine st1 (rn_routine r) = Some current" for current f p
    using that find_routine_key [OF that] by (intro gentle_replace_routine) (auto simp: same_definition_def)
  have "gentle st1 st'"
  proof (cases "outcome \<in> {''done'', ''recovered'', ''failed''}")
    case True
    with rest show ?thesis
      by (auto simp: rbind_eq_Inr Let_def split: if_splits prod.splits
          intro: rep gentle_trans [OF rep gentle_put_notice])
  next
    case False
    with rest show ?thesis by simp
  qed
  with gentle_trans [OF gentle_put_notice [OF n]] r' show ?thesis by blast
qed

lemma gentle_set_paused: "set_paused st i p = Inr st' \<Longrightarrow> gentle st st'"
  using find_routine_key [of st i]
  by (auto simp: set_paused_def rbind_eq_Inr same_definition_def split: if_splits intro!: gentle_replace_routine)

lemma gentle_inv: "gentle st st' \<Longrightarrow> team_inv st \<Longrightarrow> team_inv st'"
  by (simp add: gentle_def)

lemma gentle_runs: "gentle st st' \<Longrightarrow> runs st' = runs st \<and> find_run st' i = find_run st i \<and> run_count P st' = run_count P st"
  by (simp add: gentle_def find_run_def run_count_def)

lemma gentle_routine: "gentle st st' \<Longrightarrow> find_routine st i = Some q \<Longrightarrow>
    \<exists>r. find_routine st' i = Some r \<and> same_definition q r"
  by (simp add: gentle_def)

section \<open>Sweeping\<close>

lemma gentle_report_gap:
  assumes w: "report_gap h st r now fl = Inr st'" and q: "find_routine st (rt_id r) = Some q" "same_definition q r"
  shows "gentle st st'"
proof (cases "st' = st")
  case False
  with w obtain n st1 where st1: "put_notice h st n = Inr st1" "st' = replace_routine st1 (r\<lparr>rt_reported := rt_missed r\<rparr>)"
    by (auto simp: report_gap_def Let_def rbind_eq_Inr split: if_splits)
  note g = gentle_put_notice [OF st1(1)]
  from gentle_routine [OF g q(1)] obtain p where p: "find_routine st1 (rt_id r) = Some p" "same_definition q p" by blast
  have "same_definition p (r\<lparr>rt_reported := rt_missed r\<rparr>)" using q(2) p(2) by (simp add: same_definition_def)
  then have "gentle st1 st'" unfolding st1(2) using p(1) by (intro gentle_replace_routine) simp_all
  with gentle_trans [OF g] show ?thesis by blast
qed simp

lemma miss_same [simp]: "same_definition r (miss r a b c)" "rt_id (miss r a b c) = rt_id r"
  by (simp_all add: same_definition_def miss_def)

lemma gentle_sweep_one:
  assumes w: "sweep_one h now item st = Inr st'" and q: "find_routine st (rt_id item) = Some item"
  shows "gentle st st' \<and> (\<forall>i. i \<noteq> rt_id item \<longrightarrow> find_routine st' i = find_routine st i)"
proof -
  have other: "find_routine st1 i = find_routine st0 i"
    if "report_gap h st0 r now fl = Inr st1" "i \<noteq> rt_id r" for st0 st1 r fl i
    using that put_notice_frame(1)
    by (auto simp: report_gap_def Let_def rbind_eq_Inr routine_table.lookup_replace find_routine_def
        replace_routine_def find_by_replace_by split: if_splits)
  show ?thesis
  proof (cases "\<not> continuous item \<and> rt_next item < now - grace_seconds item")
    case True
    with w obtain n t where g: "report_gap h (replace_routine st (miss item (rt_next item) n t)) (miss item (rt_next item) n t) now False = Inr st'"
      by (auto simp: sweep_one_def Let_def rbind_eq_Inr)
    let ?m = "miss item (rt_next item) n t"
    have g1: "gentle st (replace_routine st ?m)" by (rule gentle_replace_routine [of _ _ item]) (use q in \<open>simp_all add: miss_same(1)\<close>)
    have f: "find_routine (replace_routine st ?m) (rt_id ?m) = Some ?m"
      using q by (simp add: routine_table.lookup_replace)
    have "gentle (replace_routine st ?m) st'" by (rule gentle_report_gap [OF g f]) simp
    moreover have "find_routine st' i = find_routine st i" if "i \<noteq> rt_id item" for i
      using other [OF g, of i] that by (simp add: routine_table.lookup_replace)
    ultimately show ?thesis using gentle_trans [OF g1] by blast
  next
    case False
    with w have "st' = st \<or> report_gap h st item now False = Inr st'"
      by (auto simp: sweep_one_def Let_def split: if_splits)
    then show ?thesis using gentle_report_gap [OF _ q] other by auto
  qed
qed

lemma gentle_sweep_items:
  "sweep_items h now items st = Inr st' \<Longrightarrow> distinct (map rt_id items) \<Longrightarrow>
   (\<And>item. item \<in> set items \<Longrightarrow> find_routine st (rt_id item) = Some item) \<Longrightarrow> gentle st st'"
proof (induction items arbitrary: st)
  case (Cons item items)
  from Cons.prems(1) obtain st1 where one: "sweep_one h now item st = Inr st1" and rest: "sweep_items h now items st1 = Inr st'"
    by (auto simp: rbind_eq_Inr)
  note g = gentle_sweep_one [OF one Cons.prems(3)]
  have "find_routine st1 (rt_id x) = Some x" if "x \<in> set items" for x
    using g Cons.prems(2,3) that by (auto simp: image_iff)
  with Cons.IH [OF rest] Cons.prems(2) g show ?case by (auto intro: gentle_trans)
qed simp

lemma find_routine_member: "team_inv st \<Longrightarrow> r \<in> set (routines st) \<Longrightarrow> find_routine st (rt_id r) = Some r"
  by (simp add: team_inv_def routines_inv_def find_routine_def find_by_distinct)

lemma gentle_sweep: "team_inv st \<Longrightarrow> sweep h st now = Inr st' \<Longrightarrow> gentle st st'"
  unfolding sweep_def
  by (rule gentle_sweep_items) (auto simp: team_inv_def routines_inv_def find_routine_def find_by_distinct)

section \<open>The daily step budget\<close>

lemma steps_loop_later:
  "(\<And>s. s \<in> set ss \<Longrightarrow> fst (snd s) > now - WINDOW_SECONDS) \<Longrightarrow> t > now \<Longrightarrow> steps_loop ss used steps t > now"
proof (induction ss used steps t rule: steps_loop.induct)
  case (2 a instant reserved rest used steps t)
  have "instant + WINDOW_SECONDS > now" using "2.prems"(1) [of "(a, instant, reserved)"] by simp
  then show ?case using 2 by simp
qed simp

lemma steps_free_now:
  assumes "steps_free_at ss steps now \<le> now" "\<And>s. s \<in> set ss \<Longrightarrow> fst (snd s) > now - WINDOW_SECONDS"
  shows "ss = [] \<or> sum_list (map (snd \<circ> snd) ss) + steps \<le> MAX_DAILY_STEPS"
proof (cases ss)
  case (Cons s rest)
  obtain a instant reserved where s: "s = (a, instant, reserved)" by (cases s)
  have "instant + WINDOW_SECONDS > now" using assms(2) [of s] Cons s by simp
  then have "steps_loop rest (sum_list (map (snd \<circ> snd) ss) - reserved) steps (instant + WINDOW_SECONDS) > now"
    using assms(2) Cons by (intro steps_loop_later) auto
  then show ?thesis using assms(1) Cons s by (auto simp: steps_free_at_def split: if_splits)
qed simp

lemma window_set: "set (window ss now) = {s \<in> set ss. fst (snd s) > now - WINDOW_SECONDS}"
  by (auto simp: window_def)

lemma sum_window_le:
  fixes ss :: "start list"
  assumes "\<And>s. s \<in> set ss \<Longrightarrow> 0 \<le> snd (snd s)"
  shows "sum_list (map (snd \<circ> snd) (window ss now)) \<le> sum_list (map (snd \<circ> snd) ss)"
proof -
  have "mset (map (snd \<circ> snd) (window ss now)) = mset (map (snd \<circ> snd) (filter (\<lambda>s. fst (snd s) > now - WINDOW_SECONDS) ss))"
    by (simp add: window_def)
  then have "sum_list (map (snd \<circ> snd) (window ss now))
      = sum_list (map (snd \<circ> snd) (filter (\<lambda>s. fst (snd s) > now - WINDOW_SECONDS) ss))"
    by (metis sum_mset_sum_list)
  also have "\<dots> \<le> sum_list (map (snd \<circ> snd) ss)" by (rule sum_list_filter_le) (use assms in simp)
  finally show ?thesis .
qed

lemma started_budget:
  assumes inv: "team_inv st" and r: "r \<in> set (routines st)" and free: "free_at st r now \<le> now"
  shows "(\<forall>s \<in> set (started (starts st) (rt_id r) now (run_units r)). 0 \<le> snd (snd s)) \<and>
    sum_list (map (snd \<circ> snd) (started (starts st) (rt_id r) now (run_units r))) \<le> MAX_DAILY_STEPS"
proof -
  have "steps_free_at (window (starts st) now) (run_units r) now \<le> now"
    using free by (simp add: free_at_def starts_free_at_def Let_def)
  then have "window (starts st) now = [] \<or>
      sum_list (map (snd \<circ> snd) (window (starts st) now)) + run_units r \<le> MAX_DAILY_STEPS"
    by (rule steps_free_now) (auto simp: window_set)
  moreover have "run_units r \<le> MAX_DAILY_STEPS"
  proof -
    have c: "canonical_schedule (rt_schedule x) \<noteq> None" if "x \<in> set (routines st)" for x
      using inv that by (auto simp: team_inv_def routines_inv_def)
    have "daily_steps r \<le> sum_list (map daily_steps (routines st))"
      by (rule member_le_sum_list [OF _ r]) (use c daily_steps_nonneg in blast)
    then show ?thesis using daily_steps_units [OF c [OF r]] inv by (simp add: team_inv_def routines_inv_def)
  qed
  ultimately show ?thesis
    using inv run_units_range(1) [of r] by (auto simp: started_def window_set team_inv_def starts_inv_def)
qed

section \<open>Claiming\<close>

text \<open>The run id a claim mints is not the id of a run the Team keeps: run ids are 16 random bytes.\<close>

definition fresh_run_id :: "host \<Rightarrow> entropy \<Rightarrow> team \<Rightarrow> bool" where
  "fresh_run_id h ent st = (case new_token h ent of
      Inl _ \<Rightarrow> True
    | Inr (_, ent1) \<Rightarrow> (case new_id ent1 of Inl _ \<Rightarrow> True | Inr (i, _) \<Rightarrow> i \<notin> rn_id ` set (runs st)))"

definition startable :: "team \<Rightarrow> string \<Rightarrow> bool" where
  "startable st i \<longleftrightarrow> run_count (live_of i) st = 0 \<and> run_count machine st = 0 \<and>
     run_count pending st + 1 \<le> MAX_UNRESOLVED_INCIDENTS \<and> length (runs st) < MAX_RUNS"

lemma lease_run_Inr:
  assumes "lease_run h st due now key ent = Inr (st', c)"
  obtains i where "fresh_run_id h ent st \<Longrightarrow> i \<notin> rn_id ` set (runs st)"
    "rn_id (cl_run c) = i" "rn_routine (cl_run c) = rt_id due" "rn_status (cl_run c) = Leased" "rn_key (cl_run c) = key"
    "rn_revision (cl_run c) = rt_revision due" "rn_active (cl_run c) = active_seconds (run_units due)"
    "rn_expires (cl_run c) = now + LEASE_SECONDS" "rn_lease (cl_run c) = lease_sha256 h (cl_token c)"
    "rn_lost (cl_run c) = False"
    "st' = replace_routine (st\<lparr>starts := started (starts st) (rt_id due) now (run_units due), served_at := now,
            runs := runs st @ [cl_run c]\<rparr>) due"
proof -
  from assms obtain token ent1 i ent2 where t: "new_token h ent = Inr (token, ent1)" and i: "new_id ent1 = Inr (i, ent2)"
    unfolding lease_run_def Let_def by (auto simp: rbind_eq_Inr)
  show ?thesis
    by (rule that [of i]; use assms t i in \<open>simp add: lease_run_def Let_def fresh_run_id_def run_new_def\<close>;
        auto)
qed

lemma lease_run_inv:
  assumes inv: "team_inv st" and w: "lease_run h st due now key ent = Inr (st', c)"
    and q: "find_routine st (rt_id due) = Some q" "same_definition q due"
    and fresh: "fresh_run_id h ent st" and ok: "startable st (rt_id due)"
    and budget: "\<forall>s \<in> set (started (starts st) (rt_id due) now (run_units due)). 0 \<le> snd (snd s)"
      "sum_list (map (snd \<circ> snd) (started (starts st) (rt_id due) now (run_units due))) \<le> MAX_DAILY_STEPS"
  shows "team_inv st'"
proof -
  from w obtain i where i: "i \<notin> rn_id ` set (runs st)" and c: "rn_id (cl_run c) = i" "rn_routine (cl_run c) = rt_id due"
    "rn_status (cl_run c) = Leased" "rn_revision (cl_run c) = rt_revision due"
    and st': "st' = replace_routine (st\<lparr>starts := started (starts st) (rt_id due) now (run_units due), served_at := now,
            runs := runs st @ [cl_run c]\<rparr>) due"
    by (rule lease_run_Inr) (use fresh in blast)
  let ?st = "st\<lparr>starts := started (starts st) (rt_id due) now (run_units due), served_at := now, runs := runs st @ [cl_run c]\<rparr>"
  have cnt: "run_count P ?st = run_count P st + (if P (cl_run c) then 1 else 0)" for P by (simp add: run_count_def)
  have "run_count (live_of k) ?st \<le> 1" for k
    using ok inv c by (auto simp: cnt startable_def team_inv_def runs_inv_def live_of_def)
  moreover have "run_count machine ?st \<le> 1" "run_count pending ?st \<le> MAX_UNRESOLVED_INCIDENTS" "length (runs ?st) \<le> MAX_RUNS"
    using ok inv c by (auto simp: cnt startable_def)
  moreover have "run_count frozen ?st \<le> MAX_FROZEN_RUNS"
    using inv c by (auto simp: cnt team_inv_def runs_inv_def frozen_def)
  ultimately have "runs_inv ?st" using inv i c by (auto simp: team_inv_def runs_inv_def run_ok_def)
  moreover have "linked ?st x" if "x \<in> set (runs ?st)" for x
    using that inv q c by (auto simp: team_inv_def link_inv_def linked_def find_routine_def same_definition_def)
  moreover have "starts_inv ?st" using budget by (simp add: starts_inv_def)
  ultimately have "team_inv ?st"
    using inv by (simp add: team_inv_def routines_inv_def notices_inv_def link_inv_def)
  then show ?thesis
    unfolding st' using q by (intro replace_routine_inv) (auto simp: find_routine_def)
qed

lemma min_by_mem: "min_by lt xs = Some x \<Longrightarrow> x \<in> set xs"
  by (induction xs arbitrary: x) (auto split: option.splits if_splits)

lemma length_filter_le_sub: "(\<And>x. P x \<Longrightarrow> Q x) \<Longrightarrow> length (filter P xs) \<le> length (filter Q xs)"
  by (induction xs) (auto simp: le_SucI)

lemma length_filter_pending: "length (filter pending xs) =
    length (filter (\<lambda>r. rn_status r = Unresolved) xs) + length (filter (\<lambda>r. live (rn_status r)) xs)"
  by (induction xs) (auto simp: pending_def live_def)

lemma claimable_Some:
  assumes "claimable st now long = Some due"
  shows "due \<in> set (routines st)" "startable st (rt_id due)" "free_at st due now \<le> now" "due_at due \<le> now"
    "\<not> rt_paused due" "\<not> rt_deleting due" "\<not> rt_reconfirm due" "\<not> segment_leased st"
proof -
  have idle: "\<not> backpressured st" "\<not> segment_leased st"
    and m: "min_by earlier (filter (\<lambda>r. due_at r \<le> now \<and> free_at st r now \<le> now) (ready st (busy st) long)) = Some due"
    using assms by (auto simp: claimable_def split: if_splits)
  from min_by_mem [OF m] show "due \<in> set (routines st)" "free_at st due now \<le> now" "due_at due \<le> now"
    "\<not> rt_paused due" "\<not> rt_deleting due" "\<not> rt_reconfirm due" by (auto simp: ready_def)
  from min_by_mem [OF m] have nb: "rt_id due \<notin> set (busy st)" by (auto simp: ready_def)
  show "\<not> segment_leased st" by (rule idle)
  have "run_count (live_of (rt_id due)) st = 0"
    using nb by (force simp: run_count_def live_of_def busy_def live_runs_def filter_empty_conv)
  moreover have "run_count machine st = 0"
    using idle(2) by (auto simp: run_count_def machine_def segment_leased_def list_ex_iff filter_empty_conv)
  moreover have "run_count pending st = length (filter (\<lambda>r. rn_status r = Unresolved) (runs st)) + length (live_runs st)"
    by (simp add: run_count_def live_runs_def length_filter_pending)
  moreover have "incident_capacity st" using idle(1) by (simp add: backpressured_def)
  ultimately show "startable st (rt_id due)" by (simp add: startable_def incident_capacity_def)
qed

lemma gentle_startable: "gentle st st' \<Longrightarrow> startable st' i = startable st i"
  using gentle_runs [of st st'] by (simp add: startable_def)

lemma gentle_fresh: "gentle st st' \<Longrightarrow> fresh_run_id h ent st' = fresh_run_id h ent st"
proof -
  assume "gentle st st'"
  then have same: "runs st' = runs st" by (simp add: gentle_def)
  show ?thesis unfolding fresh_run_id_def same by (rule refl)
qed

lemma gentle_starts: "gentle st st' \<Longrightarrow> starts st' = starts st"
  by (simp add: gentle_def)

lemma advance_due_cases:
  assumes "advance_due h due now = Inr d"
  obtains (continuous) t where "continuous due" "next_after h due now = Inr t" "d = due\<lparr>rt_next := t\<rparr>"
    | (scheduled) following extra t where "\<not> continuous due" "next_after h due (rt_next due) = Inr following"
        "count_before h due following (now + 1) = Inr (extra, t)"
        "d = (if extra = 0 then due\<lparr>rt_next := t\<rparr> else miss due following extra t)"
proof (cases "continuous due")
  case True
  have "rbind (next_after h due now) (\<lambda>t. Inr (due\<lparr>rt_next := t\<rparr>)) = Inr d"
    using assms unfolding advance_due_def if_P [OF True] by assumption
  then show ?thesis using continuous [OF True] by (elim rbind_InrE) (metis sum.inject(2))
next
  case False
  have "rbind (next_after h due (rt_next due)) (\<lambda>following.
        rbind (count_before h due following (now + 1)) (\<lambda>(extra, next_at).
          Inr (if extra = 0 then due\<lparr>rt_next := next_at\<rparr> else miss due following extra next_at))) = Inr d"
    using assms unfolding advance_due_def if_not_P [OF False] by assumption
  then obtain following p where f: "next_after h due (rt_next due) = Inr following"
    and p: "count_before h due following (now + 1) = Inr p"
    and d: "(case p of (extra, next_at) \<Rightarrow>
      Inr (if extra = 0 then due\<lparr>rt_next := next_at\<rparr> else miss due following extra next_at)) = (Inr d :: routine transition)"
    by (elim rbind_InrE) (rule that)
  obtain extra t where e: "p = (extra, t)" by (cases p)
  show ?thesis
    by (rule scheduled [OF False f, of extra t]) (use p d in \<open>simp_all only: e prod.case sum.inject simp_thms\<close>)
qed

lemma next_same: "same_definition due (due\<lparr>rt_next := t\<rparr>)" "rt_requested (due\<lparr>rt_next := t\<rparr>) = rt_requested due"
  "rt_requested (miss due a b c) = rt_requested due"
  by (simp_all add: same_definition_def miss_def)

lemma advance_due_same: "advance_due h due now = Inr d \<Longrightarrow> same_definition due d \<and> rt_requested d = rt_requested due"
  by (erule advance_due_cases) (simp_all add: next_same miss_same(1))

text \<open>What \<open>claim_due\<close> does: it rewrites the Routine's schedule and gap, gently, and then leases the run.\<close>

lemma claim_due_Inr:
  assumes w: "claim_due h st due now key ent = Inr (st', c)" and f: "find_routine st (rt_id due) = Some due"
  obtains st1 r q where "gentle st st1" "find_routine st1 (rt_id due) = Some q" "same_definition q r" "same_definition due r"
    "rt_requested r = 0" "lease_run h st1 r now key ent = Inr (st', c)"
proof (cases "rt_requested due \<noteq> 0 \<and> rt_next due > now")
  case True
  then show ?thesis
    using w f that [of st due "due\<lparr>rt_requested := 0\<rparr>"] by (auto simp: claim_due_def same_definition_def)
next
  case False
  let ?d1 = "due\<lparr>rt_requested := 0\<rparr>"
  from w obtain d2 st1 current where d2: "advance_due h ?d1 now = Inr d2"
    and g: "report_gap h (replace_routine st d2) d2 now True = Inr st1"
    and cur: "find_routine st1 (rt_id d2) = Some current"
    and l: "lease_run h st1 (current\<lparr>rt_gap_started := 0, rt_missed := 0, rt_reported := 0\<rparr>) now key ent = Inr (st', c)"
    unfolding claim_due_def if_not_P [OF False] by (elim rbind_InrE) (metis get_routine_Inr)
  have same: "same_definition due d2" "rt_id d2 = rt_id due" "rt_requested d2 = 0"
    using advance_due_same [OF d2] by (simp_all add: same_definition_def)
  have g1: "gentle st (replace_routine st d2)" using f same by (intro gentle_replace_routine) auto
  have f2: "find_routine (replace_routine st d2) (rt_id d2) = Some d2"
    using f same by (simp add: routine_table.lookup_replace)
  have g2: "gentle (replace_routine st d2) st1" by (rule gentle_report_gap [OF g f2]) simp
  have req: "rt_requested current = 0"
    using g cur f2 same(3) put_notice_frame(1)
    by (auto simp: report_gap_def Let_def rbind_eq_Inr routine_table.lookup_replace find_routine_def
        replace_routine_def find_by_replace_by split: if_splits option.splits)
  from gentle_routine [OF g2 f2] cur have "same_definition d2 current" by auto
  then show ?thesis
    using that [OF gentle_trans [OF g1 g2], of current "current\<lparr>rt_gap_started := 0, rt_missed := 0, rt_reported := 0\<rparr>"]
      cur same l req by (simp add: same_definition_def)
qed

lemma claim_due_inv:
  assumes inv: "team_inv st" and w: "claim_due h st due now key ent = Inr (st', c)"
    and due: "claimable st now long = Some due" and fresh: "fresh_run_id h ent st"
  shows "team_inv st'"
proof -
  note cl = claimable_Some [OF due]
  from claim_due_Inr [OF w find_routine_member [OF inv cl(1)]] obtain st1 r q where
    g: "gentle st st1" and q: "find_routine st1 (rt_id due) = Some q" "same_definition q r" "same_definition due r"
    and l: "lease_run h st1 r now key ent = Inr (st', c)" by metis
  have id: "rt_id r = rt_id due" "run_units r = run_units due"
    using q(3) same_definition_facts [OF q(3)] by (simp_all add: same_definition_def)
  note b = started_budget [OF inv cl(1,3)]
  show ?thesis
    by (rule lease_run_inv [OF gentle_inv [OF g inv] l])
       (use q id b g fresh cl(2) gentle_startable gentle_fresh gentle_starts in \<open>auto\<close>)
qed

lemma claim_next_inv:
  assumes inv: "team_inv st" and w: "claim_next h st now key long ent = Inr (st', c)" and fresh: "fresh_run_id h ent st"
  shows "team_inv st'"
proof -
  from w obtain sw where sw: "sweep h st now = Inr sw"
    and rest: "(case claimable sw now long of None \<Rightarrow> Inr (sw, None)
        | Some due \<Rightarrow> rbind (claim_due h sw due now key ent) (\<lambda>(st', c). Inr (st', Some c))) = Inr (st', c)"
    by (auto simp: claim_next_def rbind_eq_Inr split: if_splits)
  note g = gentle_sweep [OF inv sw]
  have inv': "team_inv sw" by (rule gentle_inv [OF g inv])
  show ?thesis
  proof (cases "claimable sw now long")
    case (Some due)
    with rest obtain c' where "claim_due h sw due now key ent = Inr (st', c')" by (auto simp: rbind_eq_Inr)
    from claim_due_inv [OF inv' this Some] fresh gentle_fresh [OF g] show ?thesis by simp
  qed (use rest inv' in auto)
qed

end
