(* ===== verification/Routine_Machine.thy ===== *)
theory Routine_Machine
  imports Routine_Invariant
begin

text \<open>
  Every transition of a Team's Routine state as one event type, the function that applies an event, the states
  reachable from an empty Team, and the proof that each transition keeps the invariant of \<open>Routine_Invariant\<close>.
  The events are the operations \<^verbatim>\<open>routine/src/record\<close>, \<^verbatim>\<open>claim\<close>, \<^verbatim>\<open>runs\<close> and \<^verbatim>\<open>hold\<close> export, each applied to the whole
  state the way \<^verbatim>\<open>local/src/routine/store\<close> applies it: a refusal leaves the state as it was.
\<close>

section \<open>Definitions\<close>

lemma admitted_Inr:
  assumes "admitted h r n = Inr a"
  shows "rt_id a = rt_id r" "canonical_schedule (rt_schedule a) \<noteq> None" "rt_revision a = n"
  using assms by (auto simp: admitted_def defined_def Let_def rbind_eq_Inr definition_valid_def split: if_splits)

lemma defined_Inr:
  assumes "defined h r n = Inr a"
  shows "rt_id a = rt_id r" "canonical_schedule (rt_schedule a) \<noteq> None" "rt_revision a = n"
  using assms by (auto simp: defined_def Let_def definition_valid_def split: if_splits)

lemma budgets_Inr:
  "budgets rs r = Inr u \<longleftrightarrow> sum_list (map daily_steps rs) + daily_steps r \<le> MAX_DAILY_STEPS \<and>
     sum_list (map definition_bytes rs) + definition_bytes r \<le> TEAM_DEFINITION_BYTES"
  by (auto simp: budgets_def over_budget_def capacity_def split: if_splits)

lemma append_routine_inv:
  assumes inv: "team_inv st" and new: "rt_id a \<notin> rt_id ` set (routines st)" "length (routines st) < MAX_ROUTINES"
    "canonical_schedule (rt_schedule a) \<noteq> None" "budgets (routines st) a = Inr u"
  shows "team_inv (st\<lparr>routines := routines st @ [a]\<rparr>)"
proof -
  have "linked (st\<lparr>routines := routines st @ [a]\<rparr>) x" if "linked st x" for x
    using that by (auto simp: linked_def find_routine_def find_by_append)
  moreover have "routines_inv (st\<lparr>routines := routines st @ [a]\<rparr>)"
    using inv new(1-3) new(4) [unfolded budgets_Inr] by (auto simp: team_inv_def routines_inv_def)
  ultimately show ?thesis
    using inv by (simp add: team_inv_def runs_inv_def link_inv_def notices_inv_def starts_inv_def run_count_def)
qed

lemma add_routine_inv:
  assumes inv: "team_inv st" and w: "add_routine h st r = Inr st'"
  shows "team_inv st'"
proof -
  from w obtain a u where a: "admitted h r 1 = Inr a" and new: "\<not> list_ex (\<lambda>q. rt_id q = rt_id a) (routines st)"
    "\<not> length (routines st) \<ge> MAX_ROUTINES" "budgets (routines st) a = Inr u" and st': "st' = st\<lparr>routines := routines st @ [a]\<rparr>"
    by (auto simp: add_routine_def rbind_eq_Inr split: if_splits)
  show ?thesis
    unfolding st' by (rule append_routine_inv [OF inv]) (use new admitted_Inr [OF a] in \<open>auto simp: list_ex_iff\<close>)
qed

lemma create_inv: "team_inv st \<Longrightarrow> create h st r now usage steps ent = Inr st' \<Longrightarrow> team_inv st'"
  by (auto simp: create_def rbind_eq_Inr split: prod.splits intro: put_notice_inv add_routine_inv)

lemma sum_list_replace_by:
  "distinct (map key xs) \<Longrightarrow> find_by key (key y) xs = Some x \<Longrightarrow>
   sum_list (map f (replace_by key y xs)) = sum_list (map f (filter (\<lambda>z. key z \<noteq> key y) xs)) + f y" for f :: "'a \<Rightarrow> 'b::comm_monoid_add"
proof (induction xs)
  case (Cons a xs)
  show ?case
  proof (cases "key a = key y")
    case True
    then have "filter (\<lambda>z. key z \<noteq> key y) xs = xs" using Cons.prems(1) by (auto simp: filter_id_conv image_iff)
    then show ?thesis using True by (simp add: add.commute)
  qed (use Cons in \<open>auto simp: add.assoc\<close>)
qed simp

text \<open>A new definition replaces a Routine's old one only while the Routine has no live run.\<close>

lemma replace_definition_inv:
  assumes inv: "team_inv st" and q: "find_routine st (rt_id r) = Some q"
    and idle: "\<not> list_ex (\<lambda>x. rn_routine x = rt_id r) (live_runs st)"
    and new: "canonical_schedule (rt_schedule r) \<noteq> None" "budgets (others st (rt_id r)) r = Inr u"
  shows "team_inv (replace_routine st r)"
proof -
  have d: "distinct (map rt_id (routines st))" using inv by (simp add: team_inv_def routines_inv_def)
  note sum = sum_list_replace_by [OF d q [unfolded find_routine_def]]
  have "routines_inv (replace_routine st r)"
  proof -
    have "canonical_schedule (rt_schedule x) \<noteq> None" if "x \<in> set (replace_by rt_id r (routines st))" for x
      using that set_replace_by_subset [of rt_id r "routines st"] inv new(1) by (auto simp: team_inv_def routines_inv_def)
    then show ?thesis
      using inv new(2) [unfolded budgets_Inr others_def]
      by (simp add: team_inv_def routines_inv_def replace_routine_def sum)
  qed
  moreover have "linked (replace_routine st r) x" if "x \<in> set (runs st)" for x
  proof -
    from inv that obtain y where y: "find_routine st (rn_routine x) = Some y" "live (rn_status x) \<longrightarrow> rn_revision x = rt_revision y"
      by (auto simp: team_inv_def link_inv_def linked_def)
    have "live (rn_status x) \<Longrightarrow> rn_routine x \<noteq> rt_id r" using idle that by (auto simp: list_ex_iff live_runs_def)
    with y q show ?thesis by (auto simp: linked_def routine_table.lookup_replace)
  qed
  ultimately show ?thesis
    using inv by (simp add: team_inv_def runs_inv_def link_inv_def notices_inv_def starts_inv_def replace_routine_def run_count_def)
qed

lemma changeable_Inr:
  "changeable st i n = Inr q \<longleftrightarrow> find_routine st i = Some q \<and> \<not> rt_deleting q \<and> rt_revision q = n \<and>
     \<not> list_ex (\<lambda>x. rn_routine x = i) (live_runs st)"
  using routine_table.lookup_Some_key [of st i] by (auto simp: changeable_def rbind_eq_Inr)

lemma put_changed_inv:
  assumes "team_inv st" "find_routine st (rt_id r) = Some q" "\<not> list_ex (\<lambda>x. rn_routine x = rt_id r) (live_runs st)"
    "canonical_schedule (rt_schedule r) \<noteq> None" "budgets (others st (rt_id r)) r = Inr u"
    "put_changed h st r now ent = Inr st'"
  shows "team_inv st'"
  using replace_definition_inv [OF assms(1-5)] assms(6)
  by (auto simp: put_changed_def rbind_eq_Inr split: prod.splits intro: put_notice_inv)

lemma budgets_cong:
  "daily_steps r = daily_steps a \<Longrightarrow> definition_bytes r = definition_bytes a \<Longrightarrow> budgets rs r = budgets rs a"
  by (simp add: budgets_def over_budget_def)

lemma update_inv:
  assumes inv: "team_inv st" and w: "update h st r n now ent = Inr st'"
  shows "team_inv st'"
proof -
  from w obtain q a u where q: "changeable st (rt_id r) n = Inr q" and a: "admitted h r (rt_revision q + 1) = Inr a"
    and b: "budgets (others st (rt_id q)) a = Inr u"
    and p: "put_changed h st (a\<lparr>rt_paused := rt_paused q, rt_rollup_minute := rt_rollup_minute q,
          rt_rollup_runs := rt_rollup_runs q, rt_rollup_usage := rt_rollup_usage q\<rparr>) now ent = Inr st'"
    unfolding update_def by (elim rbind_InrE) (rule that)
  note q' = q [unfolded changeable_Inr] and a' = admitted_Inr [OF a]
  have "rt_id q = rt_id r" using q' find_routine_key by blast
  then show ?thesis
    using q' a' b p budgets_cong [of "a\<lparr>rt_paused := _, rt_rollup_minute := _, rt_rollup_runs := _, rt_rollup_usage := _\<rparr>" a]
    by (intro put_changed_inv [OF inv _ _ _ _ p]) (auto simp: daily_steps_def run_units_def definition_bytes_def)
qed

lemma refine_inv:
  assumes inv: "team_inv st" and w: "refine h st r n now ent = Inr st'"
  shows "team_inv st'"
proof -
  let ?new = "\<lambda>q. q\<lparr>rt_description := rt_description r, rt_assistants := rt_assistants r,
              rt_plan := rt_plan r, rt_permitted := rt_permitted r, rt_confirmation := rt_confirmation r\<rparr>"
  from w obtain q a u where q: "changeable st (rt_id r) n = Inr q" and a: "defined h (?new q) (rt_revision q + 1) = Inr a"
    and b: "budgets (others st (rt_id q)) a = Inr u" and p: "put_changed h st a now ent = Inr st'"
    unfolding refine_def by (elim rbind_InrE) (auto simp: rbind_eq_Inr split: if_splits)
  note q' = q [unfolded changeable_Inr] and a' = defined_Inr [OF a]
  have "rt_id q = rt_id r" using q' find_routine_key by blast
  with q' a' b show ?thesis by (intro put_changed_inv [OF inv _ _ _ _ p]) auto
qed

lemma complete_delete_inv:
  assumes inv: "team_inv st" and w: "complete_delete h st i now ent = Inr st'"
  shows "team_inv st'"
proof -
  from w obtain r n st1 where free: "\<not> list_ex (\<lambda>q. rn_routine q = i) (runs st)"
    and n: "put_notice h st n = Inr st1" and st': "st' = st1\<lparr>routines := filter (\<lambda>q. rt_id q \<noteq> i) (routines st1)\<rparr>"
    by (auto simp: complete_delete_def rbind_eq_Inr split: if_splits prod.splits)
  have inv1: "team_inv st1" by (rule put_notice_inv [OF inv n])
  have c: "\<And>r. r \<in> set (routines st1) \<Longrightarrow> 0 \<le> daily_steps r"
    using inv1 daily_steps_nonneg by (simp add: team_inv_def routines_inv_def)
  have "sum_list (map definition_bytes (filter P xs)) \<le> sum_list (map definition_bytes xs)" for P xs
    by (induction xs) auto
  then have "routines_inv st'"
    using inv1 sum_list_filter_le [of "routines st1" daily_steps "\<lambda>q. rt_id q \<noteq> i", OF c] le_trans [OF length_filter_le [of "\<lambda>q. rt_id q \<noteq> i" "routines st1"]]
    by (auto simp: st' team_inv_def routines_inv_def distinct_map_filter intro: order_trans)
  moreover have "linked st' x" if "x \<in> set (runs st1)" for x
    using that inv1 free put_notice_frame [OF n]
    by (auto simp: st' team_inv_def link_inv_def linked_def find_routine_def find_by_filter_key list_ex_iff)
  ultimately show ?thesis
    using inv1 by (simp add: st' team_inv_def runs_inv_def link_inv_def notices_inv_def starts_inv_def run_count_def)
qed

section \<open>Runs\<close>

lemma leased_Inr: "leased st i = Inr r \<longleftrightarrow> find_run st i = Some r \<and> rn_status r = Leased"
  by (auto simp: leased_def rbind_eq_Inr)

lemma live_lease_Inr: "live_lease st i l now = Inr r \<longleftrightarrow> find_run st i = Some r \<and> rn_status r = Leased \<and>
    rn_lease r = ls_sha l \<and> rn_key r = ls_key l \<and> now < rn_expires r \<and> 0 < rn_active r"
  by (auto simp: live_lease_def rbind_eq_Inr leased_Inr require_lease_def)

lemma read_lease_Inr: "read_lease st i sha = Inr r \<longleftrightarrow> find_run st i = Some r \<and> rn_status r = Leased \<and> rn_lease r = sha"
  by (auto simp: read_lease_def rbind_eq_Inr leased_Inr)

lemma incident_Inr:
  assumes "team_inv st" "incident st i = Inr r"
  shows "find_run st i = Some r" "\<not> live (rn_status r)"
proof -
  from assms(2) have f: "find_by rn_id i (incidents st) = Some r" by (simp add: incident_def)
  from find_by_Some_mem [OF this] show "\<not> live (rn_status r)" by (simp add: incidents_def)
  from find_by_Some_mem [OF f] find_by_Some_key [OF f] show "find_run st i = Some r"
    using assms(1) by (auto simp: team_inv_def runs_inv_def find_run_def incidents_def intro!: find_by_distinct)
qed

lemma incident_iff: "team_inv st \<Longrightarrow> incident st i = Inr r \<longleftrightarrow> find_run st i = Some r \<and> \<not> live (rn_status r)"
  using incident_Inr [of st i r]
  by (auto simp: incident_def incidents_def find_run_def team_inv_def runs_inv_def distinct_map_filter
      intro!: find_by_distinct dest: find_by_Some_mem find_by_Some_key)

text \<open>A write of a run after gentle writes elsewhere, where the run becomes no more than it was.\<close>

lemma calmer_after:
  assumes inv: "team_inv st" and g: "gentle st st1" and q: "find_run st (rn_id r) = Some q" "calmer q r"
    and frz: "frozen r \<longrightarrow> frozen q \<or> run_count frozen st < MAX_FROZEN_RUNS"
  shows "team_inv (replace_run st1 r)"
  by (rule calmer_inv [OF gentle_inv [OF g inv] _ q(2)]) (use gentle_runs [OF g] q frz in auto)

lemma run_ok_of: "team_inv st \<Longrightarrow> find_run st i = Some q \<Longrightarrow> run_ok q"
  using run_table.lookup_Some_mem by (fastforce simp: team_inv_def runs_inv_def)

lemma find_run_self [intro]: "find_run st i = Some x \<Longrightarrow> find_run st (rn_id x) = Some x"
  by (simp add: find_run_key)

lemma spend_inv: "team_inv st \<Longrightarrow> spend st i l now s ms = Inr st' \<Longrightarrow> team_inv st'"
  by (auto simp: spend_def rbind_eq_Inr live_lease_Inr Let_def calmer_def run_ok_def machine_def pending_def frozen_def
      split: if_splits intro!: calmer_inv)

lemma lose_protection_inv: "team_inv st \<Longrightarrow> lose_protection st i = Inr st' \<Longrightarrow> team_inv st'"
  by (auto simp: lose_protection_def rbind_eq_Inr calmer_def run_ok_def machine_def pending_def frozen_def
      dest: run_ok_of intro!: calmer_inv)

lemma bind_generation_inv: "team_inv st \<Longrightarrow> bind_generation st i l now network = Inr st' \<Longrightarrow> team_inv st'"
  by (auto simp: bind_generation_def rbind_eq_Inr live_lease_Inr Let_def calmer_def run_ok_def machine_def pending_def
      frozen_def split: if_splits intro!: calmer_inv)

lemma held_inv:
  assumes "team_inv st" "find_run st i = Some r" "rn_status r = Leased" "held st r = Inr st'"
  shows "team_inv st'"
  using assms by (auto simp: held_def calmer_def run_ok_def machine_def pending_def frozen_def live_def
      split: if_splits intro!: calmer_inv)

lemma fence_inv: "team_inv st \<Longrightarrow> fence st i l now = Inr st' \<Longrightarrow> team_inv st'"
  by (auto simp: fence_def rbind_eq_Inr live_lease_Inr intro: held_inv)

lemma hold_recovered_inv: "team_inv st \<Longrightarrow> hold_recovered st i sha = Inr st' \<Longrightarrow> team_inv st'"
  by (auto simp: hold_recovered_def rbind_eq_Inr read_lease_Inr intro: held_inv)

lemma freeze_Inr:
  assumes "freeze h st i l now q ent = Inr st'"
  obtains r st1 r1 ent1 where "find_run st i = Some r" "rn_status r = Leased"
    "length (filter (\<lambda>x. rn_status x = Frozen) (runs st)) < MAX_FROZEN_RUNS"
    "run_notice h st r ''frozen'' now (object [(''request_kind'', text_value (rq_kind q))]) ent = Inr (st1, r1, ent1)"
    "st' = replace_run st1 (r1\<lparr>rn_status := Frozen, rn_lease := '''', rn_key := '''',
               rn_expires := 0, rn_request := rq_kind q, rn_assistant := rq_assistant q, rn_action := rq_action q\<rparr>)"
  using assms unfolding freeze_def Let_def
  by (elim rbind_InrE) (auto simp: live_lease_Inr rbind_eq_Inr split: if_splits prod.splits intro: that)

lemma freeze_inv:
  assumes inv: "team_inv st" and w: "freeze h st i l now q ent = Inr st'"
  shows "team_inv st'"
  using w
proof (rule freeze_Inr)
  fix r st1 r1 ent1
  assume r: "find_run st i = Some r" "rn_status r = Leased" "length (filter (\<lambda>x. rn_status x = Frozen) (runs st)) < MAX_FROZEN_RUNS"
    and n: "run_notice h st r ''frozen'' now (object [(''request_kind'', text_value (rq_kind q))]) ent = Inr (st1, r1, ent1)"
    and st': "st' = replace_run st1 (r1\<lparr>rn_status := Frozen, rn_lease := '''', rn_key := '''',
               rn_expires := 0, rn_request := rq_kind q, rn_assistant := rq_assistant q, rn_action := rq_action q\<rparr>)"
  note g = gentle_run_notice [OF n]
  have "run_count frozen st < MAX_FROZEN_RUNS" using r(3) by (simp add: run_count_def frozen_def [abs_def])
  then show "team_inv st'"
    unfolding st' using g r find_run_key [OF r(1)]
    by (intro calmer_after [OF inv, where q = r]) (auto simp: calmer_def run_ok_def machine_def pending_def frozen_def live_def)
qed

lemma human_lease_Inr:
  assumes "human_lease h r now ent = Inr (r', token)"
  shows "rn_id r' = rn_id r" "rn_routine r' = rn_routine r" "rn_revision r' = rn_revision r" "rn_status r' = Leased"
    "rn_key r' = HUMAN_LEASE" "rn_expires r' = lease_until r now" "rn_lease r' = lease_sha256 h token" "rn_lost r' = rn_lost r"
  using assms by (auto simp: human_lease_def rbind_eq_Inr split: prod.splits)

lemma thaw_Inr:
  assumes "thaw h st i now n ent = Inr (st', token)"
  obtains r r' where "find_run st i = Some r" "rn_status r = Frozen" "human_lease h r now ent = Inr (r', token)"
    "st' = replace_run st (r'\<lparr>rn_requests := max (rn_requests r) n\<rparr>)"
  using assms unfolding thaw_def
  by (elim rbind_InrE) (auto simp: rbind_eq_Inr split: if_splits prod.splits intro: that)

lemma thaw_inv: "team_inv st \<Longrightarrow> thaw h st i now n ent = Inr (st', token) \<Longrightarrow> team_inv st'"
  by (erule thaw_Inr)
     (auto simp: calmer_def run_ok_def machine_def pending_def frozen_def live_def human_lease_Inr
      intro!: calmer_inv)

section \<open>Ends\<close>

lemma gentle_quiet: "find_routine st1 (rn_routine r) = Some q \<Longrightarrow> same_definition q current \<Longrightarrow> gentle st1 (quiet st1 current)"
  unfolding quiet_def
  by (rule gentle_replace_routine [of _ _ q]) (auto simp: same_definition_def find_routine_key [of st1 _ q])

lemma gentle_healthy:
  assumes "healthy h st r now = Inr (st', b)"
  shows "gentle st st'"
proof -
  have rep: "gentle st (replace_routine st (current\<lparr>rt_rollup_minute := a, rt_rollup_runs := b, rt_rollup_usage := c, rt_failures := 0\<rparr>))"
    if "find_routine st (rn_routine r) = Some current" for current a b c
    using that find_routine_key [OF that] by (intro gentle_replace_routine) (auto simp: same_definition_def)
  from assms obtain current where cur: "find_routine st (rn_routine r) = Some current"
    and or: "st' = st \<or> (\<exists>a b c n. put_notice h (replace_routine st (current\<lparr>rt_rollup_minute := a, rt_rollup_runs := b,
          rt_rollup_usage := c, rt_failures := 0\<rparr>)) n = Inr st')"
    unfolding healthy_def Let_def by (elim rbind_InrE) (auto simp: rbind_eq_Inr split: if_splits)
  from or show ?thesis using gentle_trans [OF rep [OF cur] gentle_put_notice] by auto
qed

lemma gentle_publish:
  "rbind (run_notice h st r outcome now detail ent) (\<lambda>(st2, _, _). Inr st2) = Inr st' \<Longrightarrow> gentle st st'"
  by (auto simp: rbind_eq_Inr dest: gentle_run_notice split: prod.splits)

lemma gentle_completion:
  assumes w: "completion h st r outcome now shown ent = Inr st'"
  shows "gentle st st'"
proof -
  from w obtain current where cur: "find_routine st (rn_routine r) = Some current"
    unfolding completion_def by (elim rbind_InrE) simp
  have rep: "gentle st (replace_routine st (current\<lparr>rt_digest := d\<rparr>))" for d
    using cur find_routine_key [OF cur] by (intro gentle_replace_routine) (auto simp: same_definition_def)
  have quiet: "gentle st (quiet st1 current)" if g: "gentle st st1" for st1
    using gentle_routine [OF g cur] gentle_trans [OF g gentle_quiet [of st1 r _ current]]
    by (auto simp: same_definition_def)
  show ?thesis
    using w unfolding completion_def Let_def
    by (auto simp: cur get_routine_def rbind_eq_Inr split: if_splits prod.splits option.splits
        intro: quiet gentle_healthy gentle_trans [OF rep] dest: gentle_run_notice)
qed

lemma without_run_inv: "team_inv st \<Longrightarrow> without_run st i now = Inr st' \<Longrightarrow> team_inv st'"
  by (auto simp: without_run_def rbind_eq_Inr intro: gentle_inv [OF gentle_ended] filter_runs_inv)

lemma completed_run_inv: "team_inv st \<Longrightarrow> completed_run h st r now shown ent = Inr st' \<Longrightarrow> team_inv st'"
  by (auto simp: completed_run_def rbind_eq_Inr intro: without_run_inv gentle_inv [OF gentle_completion])

lemma finish_inv: "team_inv st \<Longrightarrow> finish h st i l now shown ent = Inr st' \<Longrightarrow> team_inv st'"
  by (auto simp: finish_def rbind_eq_Inr intro: completed_run_inv)

lemma complete_recovered_inv: "team_inv st \<Longrightarrow> complete_recovered h st i sha now shown ent = Inr st' \<Longrightarrow> team_inv st'"
  by (auto simp: complete_recovered_def rbind_eq_Inr intro: completed_run_inv)

lemma end_run_Inr:
  assumes "end_run h st i now outcome detail status ent = Inr st'"
  obtains r st1 r1 ent1 where "find_run st i = Some r" "rn_status r = Leased \<and> outcome \<in> {''stopped'', ''failed''} \<or>
      rn_status r = Frozen \<and> outcome \<in> {''denied'', ''stopped'', ''failed''}"
    "run_notice h st r outcome now detail ent = Inr (st1, r1, ent1)" "without_run st1 i now = Inr st'"
proof -
  from assms obtain r where r: "find_run st i = Some r"
    and n: "rbind (run_notice h st r outcome now detail ent) (\<lambda>(st1, _, _). without_run st1 i now) = Inr st'"
    and o: "outcome \<in> set (case rn_status r of Leased \<Rightarrow> [''stopped'', ''failed''] | Frozen \<Rightarrow> FROZEN_OUTCOMES | _ \<Rightarrow> [])"
    unfolding end_run_def Let_def by (elim rbind_InrE) (auto split: if_splits)
  from n obtain st1 r1 ent1 where "run_notice h st r outcome now detail ent = Inr (st1, r1, ent1)" "without_run st1 i now = Inr st'"
    by (auto simp: rbind_eq_Inr)
  then show ?thesis using that r o by (auto simp: FROZEN_OUTCOMES_def split: run_status.splits)
qed

lemma end_run_inv: "team_inv st \<Longrightarrow> end_run h st i now outcome detail status ent = Inr st' \<Longrightarrow> team_inv st'"
  by (erule end_run_Inr) (auto intro: without_run_inv dest: gentle_run_notice gentle_inv)

section \<open>Incidents\<close>

lemma skip_incident_Inr:
  assumes "team_inv st" "skip_incident h st i now e ent = Inr st'"
  obtains r st1 r1 ent1 where "find_run st i = Some r" "rn_status r = Unresolved" "expect st r e = Inr ()"
    "run_notice h st r ''user-skipped'' now (object []) ent = Inr (st1, r1, ent1)" "st' = replace_run st1 (r1\<lparr>rn_status := Skipped\<rparr>)"
  using assms(2) unfolding skip_incident_def
  by (elim rbind_InrE) (auto simp: rbind_eq_Inr incident_iff [OF assms(1)] split: if_splits intro: that)

lemma skip_incident_inv:
  assumes inv: "team_inv st" and w: "skip_incident h st i now e ent = Inr st'"
  shows "team_inv st'"
  using inv w
proof (rule skip_incident_Inr)
  fix r st1 r1 ent1
  assume r: "find_run st i = Some r" "rn_status r = Unresolved" and st': "st' = replace_run st1 (r1\<lparr>rn_status := Skipped\<rparr>)"
    and n: "run_notice h st r ''user-skipped'' now (object []) ent = Inr (st1, r1, ent1)"
  show "team_inv st'"
    unfolding st' using gentle_run_notice [OF n] r
    by (intro calmer_after [OF inv, where q = r]) (auto simp: calmer_def run_ok_def machine_def pending_def frozen_def live_def)
qed

lemma settle_hold_Inr:
  assumes "settle_hold h st i now step ent = Inr st'"
  obtains r current st1 r1 ent1 r2 where "find_run st i = Some r" "rn_status r = Held" "find_routine st (rn_routine r) = Some current"
    "run_notice h st r ''held'' now (object []) ent = Inr (st1, r1, ent1)"
    "r2 = r1\<lparr>rn_status := Unresolved, rn_assistant := fst step, rn_action := fst (snd step),
        rn_position := fst (snd (snd step)), rn_steps := snd (snd (snd step))\<rparr>"
    "(if rt_deleting current then skip_incident h (ended (replace_run st1 r2) r2 now) i now None ent1
      else Inr (ended (replace_run st1 r2) r2 now)) = Inr st'"
proof -
  obtain a b p n where s: "step = (a, b, p, n)" by (cases step) auto
  show ?thesis
    using assms unfolding settle_hold_def s Let_def
    by (elim rbind_InrE) (auto simp: rbind_eq_Inr s split: if_splits prod.splits intro: that)
qed

lemma settle_hold_inv:
  assumes inv: "team_inv st" and w: "settle_hold h st i now step ent = Inr st'"
  shows "team_inv st'"
  using w
proof (rule settle_hold_Inr)
  fix r and current :: routine and st1 r1 ent1 r2
  assume r: "find_run st i = Some r" "rn_status r = Held"
    and n: "run_notice h st r ''held'' now (object []) ent = Inr (st1, r1, ent1)"
    and r2: "r2 = r1\<lparr>rn_status := Unresolved, rn_assistant := fst step, rn_action := fst (snd step),
        rn_position := fst (snd (snd step)), rn_steps := snd (snd (snd step))\<rparr>"
    and st': "(if rt_deleting current then skip_incident h (ended (replace_run st1 r2) r2 now) i now None ent1
      else Inr (ended (replace_run st1 r2) r2 now)) = Inr st'"
  have "team_inv (replace_run st1 r2)"
    using gentle_run_notice [OF n] r r2
    by (intro calmer_after [OF inv, where q = r]) (auto simp: calmer_def run_ok_def machine_def pending_def frozen_def live_def)
  then have "team_inv (ended (replace_run st1 r2) r2 now)" by (rule gentle_inv [OF gentle_ended])
  with st' show "team_inv st'" by (auto split: if_splits intro: skip_incident_inv)
qed

lemma spend_incident_inv: "team_inv st \<Longrightarrow> spend_incident st i s = Inr st' \<Longrightarrow> team_inv st'"
  by (auto simp: spend_incident_def rbind_eq_Inr incident_iff calmer_def run_ok_def machine_def pending_def frozen_def
      live_def intro!: calmer_inv)

lemma pause_incident_inv:
  assumes inv: "team_inv st" and w: "pause_incident h st i now reason ent = Inr st'"
  shows "team_inv st'"
proof -
  from w obtain r st1 st2 r1 ent1 where r: "find_run st i = Some r" "\<not> live (rn_status r)"
    and p: "set_paused st (rn_routine r) True = Inr st1"
    and n: "run_notice h st1 r ''paused'' now (object [(''reason'', text_value (reason_name reason))]) ent = Inr (st2, r1, ent1)"
    and st': "st' = replace_run st2 r1"
    unfolding pause_incident_def
    by (elim rbind_InrE) (auto simp: rbind_eq_Inr incident_iff [OF inv] split: if_splits prod.splits)
  note g = gentle_run_notice [OF n]
  show ?thesis
    unfolding st' using g r gentle_trans [OF gentle_set_paused [OF p]]
    by (intro calmer_after [OF inv, where q = r]) (auto simp: calmer_def run_ok_def machine_def pending_def frozen_def live_def)
qed

lemma reopen_incident_Inr:
  assumes inv: "team_inv st" and w: "reopen_incident h st i now generation ent = Inr (st', token)"
  obtains r current r1 ds where "find_run st i = Some r" "rn_status r = Unresolved" "find_routine st (rn_routine r) = Some current"
    "rt_revision current = rn_revision r" "\<not> rt_paused current" "\<not> rt_deleting current" "0 < rn_active r"
    "\<not> list_ex (\<lambda>x. rn_routine x = rn_routine r) (live_runs st)" "network_of generation i \<noteq> None"
    "human_lease h r now ent = Inr (r1, token)"
    "st' = (replace_run st (r1\<lparr>rn_generation := generation\<rparr>))\<lparr>discards := ds\<rparr>"
proof -
  from w obtain r where r: "find_run st i = Some r" "rn_status r = Unresolved"
    and rest: "rbind (get_routine st (rn_routine r)) (\<lambda>current.
       if rt_deleting current \<or> rt_paused current \<or> rt_revision current \<noteq> rn_revision r then Inl ''routine-not-resumable''
       else if rn_active r \<le> 0 then Inl ''run-time-exhausted''
       else if list_ex (\<lambda>x. rn_routine x = rn_routine r) (live_runs st) \<or> network_of generation i = None
         then Inl ''routine-busy''
       else rbind (human_lease h r now ent) (\<lambda>(resumed, token).
         let archived = (i, rn_generation r);
             st1 = replace_run st (resumed\<lparr>rn_generation := generation\<rparr>)
         in Inr (if archived \<in> set (discards st1) then st1 else st1\<lparr>discards := discards st1 @ [archived]\<rparr>, token)))
       = Inr (st', token)"
    unfolding reopen_incident_def by (elim rbind_InrE) (auto simp: incident_iff [OF inv] split: if_splits)
  have same: "x = x\<lparr>discards := discards x\<rparr>" for x :: team by simp
  from rest r show ?thesis
    by (elim rbind_InrE) (auto simp: rbind_eq_Inr Let_def split: if_splits prod.splits intro: that same)
qed

lemma reopen_incident_inv:
  assumes inv: "team_inv st" and w: "reopen_incident h st i now generation ent = Inr (st', token)"
  shows "team_inv st'"
  using inv w
proof (rule reopen_incident_Inr)
  fix r current r1 ds
  assume r: "find_run st i = Some r" "rn_status r = Unresolved" and cur: "find_routine st (rn_routine r) = Some current"
    "rt_revision current = rn_revision r" and idle: "\<not> list_ex (\<lambda>x. rn_routine x = rn_routine r) (live_runs st)"
    and lease: "human_lease h r now ent = Inr (r1, token)"
    and st': "st' = (replace_run st (r1\<lparr>rn_generation := generation\<rparr>))\<lparr>discards := ds\<rparr>"
  let ?r = "r1\<lparr>rn_generation := generation\<rparr>"
  note hl = human_lease_Inr [OF lease]
  have f: "find_run st (rn_id ?r) = Some r" using r(1) hl by auto
  have ri: "runs_inv st" using inv by (simp add: team_inv_def)
  have "run_count (live_of (rn_routine r)) st = 0"
    using idle by (auto simp: run_count_def live_of_def live_runs_def filter_empty_conv list_ex_iff)
  then have "run_count (live_of k) (replace_run st ?r) \<le> 1" for k
    using run_count_replace [OF f, of "live_of k"] ri r hl by (cases "k = rn_routine r") (auto simp: live_of_def live_def runs_inv_def)
  then have "team_inv (replace_run st ?r)"
    using run_count_replace [OF f, of machine] run_count_replace [OF f, of pending] run_count_replace [OF f, of frozen] ri r hl cur
    by (intro replace_run_inv [OF inv f])
       (auto simp: runs_inv_def run_ok_def machine_def pending_def frozen_def live_def linked_def)
  then show "team_inv st'" unfolding st' by (rule gentle_inv [OF gentle_discards])
qed

lemma run_incident_Inr:
  assumes inv: "team_inv st" and w: "run_incident h st i now e ent = Inr st'"
  obtains r st1 st2 current where "find_run st i = Some r" "skip_incident h st i now (Some e) ent = Inr st1"
    "set_paused st1 (rn_routine r) False = Inr st2" "find_routine st2 (rn_routine r) = Some current"
    "st' = replace_routine st2 (current\<lparr>rt_requested := now\<rparr>)"
  using w unfolding run_incident_def by (auto simp: rbind_eq_Inr incident_iff [OF inv] intro: that)

lemma run_incident_inv:
  assumes inv: "team_inv st" and w: "run_incident h st i now e ent = Inr st'"
  shows "team_inv st'"
  using inv w
proof (rule run_incident_Inr)
  fix r st1 st2 current
  assume skip: "skip_incident h st i now (Some e) ent = Inr st1" and p: "set_paused st1 (rn_routine r) False = Inr st2"
    and cur: "find_routine st2 (rn_routine r) = Some current" and st': "st' = replace_routine st2 (current\<lparr>rt_requested := now\<rparr>)"
  have "team_inv st2" by (rule gentle_inv [OF gentle_set_paused [OF p] skip_incident_inv [OF inv skip]])
  then show "team_inv st'"
    unfolding st' using cur find_routine_key [OF cur] by (intro replace_routine_inv) (auto simp: same_definition_def)
qed

lemma release_incident_inv: "team_inv st \<Longrightarrow> release_incident st i = Inr st' \<Longrightarrow> team_inv st'"
  by (auto simp: release_incident_def intro: filter_runs_inv split: option.splits if_splits)

section \<open>Pausing, deleting and delivery\<close>

lemma acknowledge_inv: "team_inv st \<Longrightarrow> team_inv (acknowledge st ds)"
  using le_trans [OF length_filter_le]
  by (auto simp: acknowledge_def team_inv_def routines_inv_def runs_inv_def link_inv_def linked_def notices_inv_def
      starts_inv_def find_routine_def run_count_def distinct_map_filter)

lemma discarded_inv: "team_inv st \<Longrightarrow> team_inv (discarded st i g)"
  unfolding discarded_def by (rule gentle_inv [OF gentle_discards])

lemma begin_delete_inv: "team_inv st \<Longrightarrow> begin_delete st i = Inr (st', rs) \<Longrightarrow> team_inv st'"
  using find_routine_key [of st i]
  by (auto simp: begin_delete_def rbind_eq_Inr same_plan_def intro!: replace_plan_inv)

lemma mark_scope_changed_inv:
  assumes inv: "team_inv st" and w: "mark_scope_changed h st i now ent = Inr st'"
  shows "team_inv st'"
proof -
  from w obtain r n st1 where r: "find_routine st i = Some r" and n: "put_notice h st n = Inr st1"
    and st': "st' = replace_routine st1 (r\<lparr>rt_reconfirm := True\<rparr>)"
    by (auto simp: mark_scope_changed_def rbind_eq_Inr split: prod.splits)
  from gentle_routine [OF gentle_put_notice [OF n] r] find_routine_key [OF r] show ?thesis
    unfolding st' by (auto simp: same_definition_def intro!: replace_routine_inv [OF put_notice_inv [OF inv n]])
qed

section \<open>Events\<close>

datatype event =
    Create routine int "json option" "json list" entropy
  | Add routine
  | Update routine int int entropy
  | Refine routine int int entropy
  | Set_paused string bool
  | Begin_delete string
  | Complete_delete string int entropy
  | Scope_changed string int entropy
  | Put_notice notice
  | Acknowledge "(string \<times> int) list"
  | Discarded string string
  | Sweep int
  | Claim int string bool entropy
  | Bind string lease int string
  | Spend string lease int int int
  | Lose_protection string
  | Freeze string lease int request entropy
  | Thaw string int int entropy
  | Finish string lease int "json option" entropy
  | End string int string json "run_status option" entropy
  | Complete_recovered string string int "json option" entropy
  | Fence string lease int
  | Hold_recovered string string
  | Settle_hold string int held_step entropy
  | Spend_incident string int
  | Reopen string int string entropy
  | Skip string int "expected option" entropy
  | Run_incident string int expected entropy
  | Pause_incident string int pause_reason entropy
  | Release string

definition first :: "('a \<times> 'b) transition \<Rightarrow> 'a transition" where
  "first r = rbind r (\<lambda>(a, _). Inr a)"

fun transition :: "host \<Rightarrow> event \<Rightarrow> team \<Rightarrow> team transition" where
  "transition h (Create r now usage steps ent) st = create h st r now usage steps ent"
| "transition h (Add r) st = add_routine h st r"
| "transition h (Update r n now ent) st = update h st r n now ent"
| "transition h (Refine r n now ent) st = refine h st r n now ent"
| "transition h (Set_paused i p) st = set_paused st i p"
| "transition h (Begin_delete i) st = first (begin_delete st i)"
| "transition h (Complete_delete i now ent) st = complete_delete h st i now ent"
| "transition h (Scope_changed i now ent) st = mark_scope_changed h st i now ent"
| "transition h (Put_notice n) st = put_notice h st n"
| "transition h (Acknowledge ds) st = Inr (acknowledge st ds)"
| "transition h (Discarded i g) st = Inr (discarded st i g)"
| "transition h (Sweep now) st = sweep h st now"
| "transition h (Claim now key long ent) st = first (claim_next h st now key long ent)"
| "transition h (Bind i l now network) st = bind_generation st i l now network"
| "transition h (Spend i l now s ms) st = spend st i l now s ms"
| "transition h (Lose_protection i) st = lose_protection st i"
| "transition h (Freeze i l now q ent) st = freeze h st i l now q ent"
| "transition h (Thaw i now n ent) st = first (thaw h st i now n ent)"
| "transition h (Finish i l now shown ent) st = finish h st i l now shown ent"
| "transition h (End i now outcome detail status ent) st = end_run h st i now outcome detail status ent"
| "transition h (Complete_recovered i sha now shown ent) st = complete_recovered h st i sha now shown ent"
| "transition h (Fence i l now) st = fence st i l now"
| "transition h (Hold_recovered i sha) st = hold_recovered st i sha"
| "transition h (Settle_hold i now step ent) st = settle_hold h st i now step ent"
| "transition h (Spend_incident i s) st = spend_incident st i s"
| "transition h (Reopen i now g ent) st = first (reopen_incident h st i now g ent)"
| "transition h (Skip i now e ent) st = skip_incident h st i now e ent"
| "transition h (Run_incident i now e ent) st = run_incident h st i now e ent"
| "transition h (Pause_incident i now reason ent) st = pause_incident h st i now reason ent"
| "transition h (Release i) st = release_incident st i"

lemma first_Inr: "first r = Inr a \<longleftrightarrow> (\<exists>b. r = Inr (a, b))"
  by (auto simp: first_def rbind_eq_Inr)

text \<open>A claim whose entropy repeats the id of a run the Team keeps is the one event the invariant excludes.\<close>

fun fresh_event :: "host \<Rightarrow> team \<Rightarrow> event \<Rightarrow> bool" where
  "fresh_event h st (Claim now key long ent) = fresh_run_id h ent st"
| "fresh_event h st _ = True"

inductive reached :: "host \<Rightarrow> team \<Rightarrow> bool" for h where
  start: "reached h empty_team"
| step: "reached h st \<Longrightarrow> fresh_event h st e \<Longrightarrow> transition h e st = Inr st' \<Longrightarrow> reached h st'"

lemma transition_inv:
  assumes "team_inv st" "fresh_event h st e" "transition h e st = Inr st'"
  shows "team_inv st'"
  using assms
  by (cases e)
     (auto simp: first_Inr intro: create_inv add_routine_inv update_inv refine_inv complete_delete_inv mark_scope_changed_inv
      put_notice_inv acknowledge_inv discarded_inv claim_next_inv bind_generation_inv spend_inv lose_protection_inv
      freeze_inv thaw_inv finish_inv end_run_inv complete_recovered_inv fence_inv hold_recovered_inv settle_hold_inv
      spend_incident_inv reopen_incident_inv skip_incident_inv run_incident_inv pause_incident_inv release_incident_inv
      begin_delete_inv gentle_inv [OF gentle_set_paused] gentle_inv [OF gentle_sweep])

lemma empty_team_inv: "team_inv empty_team"
  by (simp add: empty_team_def team_inv_def routines_inv_def runs_inv_def link_inv_def notices_inv_def starts_inv_def
      run_count_def MAX_DAILY_STEPS_def)

lemma reached_inv: "reached h st \<Longrightarrow> team_inv st"
  by (induction rule: reached.induct) (auto intro: empty_team_inv transition_inv)

end
