(* ===== verification/Routine_Runs_Machine.thy ===== *)
theory Routine_Runs_Machine
  imports Routine_Machine
begin

text \<open>
  The life of one run as an abstract machine, and the proof that every transition of the Team's state moves every run
  as that machine allows: a simulation from the whole state to one run. A run is born leased by a claim; only the holder of
  its live lease (or a recovery that names the lease it read) freezes, fences or finishes it; only a thaw or a reopening
  leases it again; an incident is skipped before it is released; and nothing else touches it.
\<close>

section \<open>The abstract run\<close>

definition lease_ok :: "lease \<Rightarrow> int \<Rightarrow> run \<Rightarrow> bool" where
  "lease_ok l now r \<longleftrightarrow> rn_status r = Leased \<and> rn_lease r = ls_sha l \<and> rn_key r = ls_key l \<and> now < rn_expires r \<and> 0 < rn_active r"

text \<open>What no transition changes of a run while it is kept, and what only grows.\<close>

definition same_run :: "run \<Rightarrow> run \<Rightarrow> bool" where
  "same_run r r' \<longleftrightarrow> rn_id r' = rn_id r \<and> rn_routine r' = rn_routine r \<and> rn_revision r' = rn_revision r \<and>
     (rn_lost r \<longrightarrow> rn_lost r') \<and> rn_version r \<le> rn_version r' \<and> rn_requests r \<le> rn_requests r'"

text \<open>The statuses an event may give a run that it moves.\<close>

fun moves_to :: "event \<Rightarrow> run \<Rightarrow> run_status set" where
  "moves_to (Freeze i l now q ent) r = (if rn_id r = i \<and> lease_ok l now r then {Frozen} else {})"
| "moves_to (Thaw i now n ent) r = (if rn_id r = i \<and> rn_status r = Frozen then {Leased} else {})"
| "moves_to (Fence i l now) r = (if rn_id r = i \<and> lease_ok l now r \<and> rn_generation r \<noteq> '''' then {Held} else {})"
| "moves_to (Hold_recovered i sha) r =
     (if rn_id r = i \<and> rn_status r = Leased \<and> rn_lease r = sha \<and> rn_generation r \<noteq> '''' then {Held} else {})"
| "moves_to (Settle_hold i now step ent) r = (if rn_id r = i \<and> rn_status r = Held then {Unresolved, Skipped} else {})"
| "moves_to (Reopen i now g ent) r = (if rn_id r = i \<and> rn_status r = Unresolved \<and> 0 < rn_active r then {Leased} else {})"
| "moves_to (Skip i now e ent) r = (if rn_id r = i \<and> rn_status r = Unresolved then {Skipped} else {})"
| "moves_to (Run_incident i now e ent) r = (if rn_id r = i \<and> rn_status r = Unresolved then {Skipped} else {})"
| "moves_to (Bind i l now network) r = (if rn_id r = i \<and> lease_ok l now r then {Leased} else {})"
| "moves_to (Spend i l now s ms) r = (if rn_id r = i \<and> lease_ok l now r then {Leased} else {})"
| "moves_to (Lose_protection i) r = (if rn_id r = i then {rn_status r} else {})"
| "moves_to (Spend_incident i s) r = (if rn_id r = i \<and> \<not> live (rn_status r) then {rn_status r} else {})"
| "moves_to (Pause_incident i now reason ent) r = (if rn_id r = i \<and> rn_status r = Unresolved then {Unresolved} else {})"
| "moves_to _ r = {}"

text \<open>The id a claim's entropy gives the run it starts: sixteen bytes after the thirty-two of the lease token.\<close>

definition minted :: "entropy \<Rightarrow> string option" where
  "minted ent = Option.bind (fill ent 32) (\<lambda>(_, rest). map_option fst (token_hex rest 16))"

text \<open>The events that end a run.\<close>

fun ends_run :: "event \<Rightarrow> run \<Rightarrow> bool" where
  "ends_run (Finish i l now shown ent) r \<longleftrightarrow> rn_id r = i \<and> lease_ok l now r"
| "ends_run (Complete_recovered i sha now shown ent) r \<longleftrightarrow> rn_id r = i \<and> rn_status r = Leased \<and> rn_lease r = sha"
| "ends_run (End i now outcome detail status ent) r \<longleftrightarrow> rn_id r = i \<and> rn_status r \<in> {Leased, Frozen}"
| "ends_run (Release i) r \<longleftrightarrow> rn_id r = i \<and> rn_status r = Skipped"
| "ends_run _ r \<longleftrightarrow> False"

inductive run_step :: "event \<Rightarrow> run option \<Rightarrow> run option \<Rightarrow> bool" where
  stays: "run_step e x x"
| born: "rn_status r = Leased \<Longrightarrow> rn_key r = key \<Longrightarrow> rn_expires r = now + LEASE_SECONDS \<Longrightarrow> \<not> rn_lost r \<Longrightarrow>
    minted ent = Some (rn_id r) \<Longrightarrow> run_step (Claim now key long ent) None (Some r)"
| moved: "rn_status r' \<in> moves_to e r \<Longrightarrow> same_run r r' \<Longrightarrow> run_step e (Some r) (Some r')"
| gone: "ends_run e r \<Longrightarrow> run_step e (Some r) None"

inductive_cases run_step_SomeE: "run_step e (Some r) x"

definition simulates :: "event \<Rightarrow> team \<Rightarrow> team \<Rightarrow> bool" where
  "simulates e st st' \<longleftrightarrow> (\<forall>i. run_step e (find_run st i) (find_run st' i))"

section \<open>The simulation\<close>

lemma simulates_runs: "runs st' = runs st \<Longrightarrow> simulates e st st'"
  by (simp add: simulates_def find_run_def run_step.stays)

lemma simulates_gentle: "gentle st st' \<Longrightarrow> simulates e st st'"
  by (rule simulates_runs) (simp add: gentle_def)

lemma simulates_replace:
  assumes "find_run st (rn_id r) = Some q" "runs st1 = runs st" "rn_status r \<in> moves_to e q" "same_run q r"
  shows "simulates e st (replace_run st1 r)"
proof -
  have "find_run st1 i = find_run st i" for i using assms(2) by (simp add: find_run_def)
  then show ?thesis using assms by (auto simp: simulates_def run_table.lookup_replace intro: run_step.stays run_step.moved)
qed

lemma find_run_filter: "find_run (st\<lparr>runs := filter (\<lambda>q. rn_id q \<noteq> i) (runs st)\<rparr>) k = (if k = i then None else find_run st k)"
  by (simp add: find_run_def find_by_filter_key)

lemma simulates_remove:
  assumes "find_run st i = Some q" "ends_run e q" "runs st' = filter (\<lambda>q. rn_id q \<noteq> i) (runs st)"
  shows "simulates e st st'"
proof -
  have "find_run st' k = (if k = i then None else find_run st k)" for k
    using assms(3) by (simp add: find_run_def find_by_filter_key)
  then show ?thesis using assms by (auto simp: simulates_def intro: run_step.stays run_step.gone)
qed

lemma without_run_runs: "without_run st i now = Inr st' \<Longrightarrow> runs st' = filter (\<lambda>q. rn_id q \<noteq> i) (runs st)"
  using gentle_runs [OF gentle_ended, of "st\<lparr>runs := filter (\<lambda>q. rn_id q \<noteq> i) (runs st)\<rparr>"]
  by (auto simp: without_run_def rbind_eq_Inr)

lemma gentle_find_run: "gentle st st' \<Longrightarrow> find_run st' i = find_run st i"
  by (simp add: gentle_def find_run_def)

lemma gentle_same_runs: "gentle st st' \<Longrightarrow> runs st' = runs st"
  by (simp add: gentle_def)

lemma simulates_completed:
  "completed_run h st q now shown ent = Inr st' \<Longrightarrow> find_run st i = Some q \<Longrightarrow> ends_run e q \<Longrightarrow> simulates e st st'"
  using find_run_key [of st i q]
  by (auto simp: completed_run_def rbind_eq_Inr without_run_runs dest!: gentle_completion gentle_same_runs intro: simulates_remove)

lemma lease_ok_Inr: "live_lease st i l now = Inr r \<longleftrightarrow> find_run st i = Some r \<and> lease_ok l now r"
  by (auto simp: live_lease_Inr lease_ok_def)

lemma simulates_bind: "bind_generation st i l now network = Inr st' \<Longrightarrow> simulates (Bind i l now network) st st'"
  by (auto simp: bind_generation_def rbind_eq_Inr lease_ok_Inr Let_def same_run_def find_run_key split: if_splits
      intro!: simulates_replace) (auto simp: lease_ok_def find_run_key)

lemma simulates_spend: "spend st i l now s ms = Inr st' \<Longrightarrow> simulates (Spend i l now s ms) st st'"
  by (auto simp: spend_def rbind_eq_Inr lease_ok_Inr Let_def same_run_def find_run_key split: if_splits
      intro!: simulates_replace) (auto simp: lease_ok_def)

lemma simulates_lose: "lose_protection st i = Inr st' \<Longrightarrow> simulates (Lose_protection i) st st'"
  by (auto simp: lose_protection_def rbind_eq_Inr same_run_def find_run_key intro!: simulates_replace)

lemma simulates_freeze:
  assumes w: "freeze h st i l now q ent = Inr st'"
  shows "simulates (Freeze i l now q ent) st st'"
proof -
  from w obtain r where r: "live_lease st i l now = Inr r" unfolding freeze_def by (elim rbind_InrE)
  from w show ?thesis
  proof (rule freeze_Inr)
    fix r' st1 r1 ent1
    assume r': "find_run st i = Some r'"
      and n: "run_notice h st r' ''frozen'' now (object [(''request_kind'', text_value (rq_kind q))]) ent = Inr (st1, r1, ent1)"
      and st': "st' = replace_run st1 (r1\<lparr>rn_status := Frozen, rn_lease := '''', rn_key := '''',
               rn_expires := 0, rn_request := rq_kind q, rn_assistant := rq_assistant q, rn_action := rq_action q\<rparr>)"
    show ?thesis
      unfolding st' using r r' gentle_run_notice [OF n] find_run_key [OF r']
      by (intro simulates_replace [where q = r']) (auto simp: lease_ok_Inr same_run_def gentle_same_runs)
  qed
qed

lemma human_lease_keeps:
  "human_lease h r now ent = Inr (r', token) \<Longrightarrow> rn_version r' = rn_version r \<and> rn_requests r' = rn_requests r"
  by (auto simp: human_lease_def rbind_eq_Inr)

lemma simulates_thaw:
  assumes "thaw h st i now n ent = Inr (st', token)"
  shows "simulates (Thaw i now n ent) st st'"
  using assms
proof (rule thaw_Inr)
  fix r r'
  assume r: "find_run st i = Some r" "rn_status r = Frozen" "human_lease h r now ent = Inr (r', token)"
    and st': "st' = replace_run st (r'\<lparr>rn_requests := max (rn_requests r) n\<rparr>)"
  show ?thesis
    unfolding st' using r find_run_key [OF r(1)] human_lease_Inr [OF r(3)] human_lease_keeps [OF r(3)]
    by (intro simulates_replace [where q = r]) (simp_all add: same_run_def)
qed

lemma simulates_held:
  assumes "held st r = Inr st'" "find_run st i = Some r" "Held \<in> moves_to e r"
  shows "simulates e st st'"
  using assms by (auto simp: held_def same_run_def find_run_key split: if_splits intro!: simulates_replace)

lemma simulates_fence: "fence st i l now = Inr st' \<Longrightarrow> simulates (Fence i l now) st st'"
  by (auto simp: fence_def rbind_eq_Inr lease_ok_Inr find_run_key intro!: simulates_held) (auto simp: held_def)

lemma simulates_hold_recovered: "hold_recovered st i sha = Inr st' \<Longrightarrow> simulates (Hold_recovered i sha) st st'"
  by (auto simp: hold_recovered_def rbind_eq_Inr read_lease_Inr find_run_key intro!: simulates_held) (auto simp: held_def)

lemma simulates_finish: "finish h st i l now shown ent = Inr st' \<Longrightarrow> simulates (Finish i l now shown ent) st st'"
  by (auto simp: finish_def rbind_eq_Inr lease_ok_Inr find_run_key intro: simulates_completed)

lemma simulates_recovered:
  "complete_recovered h st i sha now shown ent = Inr st' \<Longrightarrow> simulates (Complete_recovered i sha now shown ent) st st'"
  by (auto simp: complete_recovered_def rbind_eq_Inr read_lease_Inr find_run_key intro: simulates_completed)

lemma simulates_end:
  "end_run h st i now outcome detail status ent = Inr st' \<Longrightarrow> simulates (End i now outcome detail status ent) st st'"
  by (erule end_run_Inr)
     (auto simp: find_run_key dest!: gentle_run_notice gentle_same_runs without_run_runs intro: simulates_remove)

lemma simulates_release: "release_incident st i = Inr st' \<Longrightarrow> simulates (Release i) st st'"
  by (auto simp: release_incident_def find_run_key split: option.splits if_splits intro: simulates_remove simulates_runs)

lemma simulates_skip_as:
  assumes inv: "team_inv st" and w: "skip_incident h st i now e ent = Inr st'"
    and ev: "\<And>r. rn_id r = i \<Longrightarrow> rn_status r = Unresolved \<Longrightarrow> Skipped \<in> moves_to ev r"
  shows "simulates ev st st'"
  using inv w
proof (rule skip_incident_Inr)
  fix r st1 r1 ent1
  assume r: "find_run st i = Some r" "rn_status r = Unresolved" and st': "st' = replace_run st1 (r1\<lparr>rn_status := Skipped\<rparr>)"
    and n: "run_notice h st r ''user-skipped'' now (object []) ent = Inr (st1, r1, ent1)"
  show ?thesis
    unfolding st' using r gentle_run_notice [OF n] find_run_key [OF r(1)] ev [of r]
    by (intro simulates_replace [where q = r]) (auto simp: same_run_def gentle_same_runs)
qed

lemma simulates_run_incident:
  assumes inv: "team_inv st" and w: "run_incident h st i now e ent = Inr st'"
  shows "simulates (Run_incident i now e ent) st st'"
  using inv w
proof (rule run_incident_Inr)
  fix r st1 st2 current
  assume skip: "skip_incident h st i now (Some e) ent = Inr st1" and p: "set_paused st1 (rn_routine r) False = Inr st2"
    and st': "st' = replace_routine st2 (current\<lparr>rt_requested := now\<rparr>)"
  have "runs st' = runs st1"
    using gentle_same_runs [OF gentle_set_paused [OF p]] by (simp add: st' replace_routine_def)
  with simulates_skip_as [OF inv skip, of "Run_incident i now e ent"] show ?thesis
    by (simp add: simulates_def find_run_def)
qed

lemma simulates_settle:
  assumes inv: "team_inv st" and w: "settle_hold h st i now step ent = Inr st'"
  shows "simulates (Settle_hold i now step ent) st st'"
  using w
proof (rule settle_hold_Inr)
  fix r and current :: routine and st1 r1 ent1 r2
  let ?st2 = "ended (replace_run st1 r2) r2 now"
  assume r: "find_run st i = Some r" "rn_status r = Held"
    and n: "run_notice h st r ''held'' now (object []) ent = Inr (st1, r1, ent1)"
    and r2: "r2 = r1\<lparr>rn_status := Unresolved, rn_assistant := fst step, rn_action := fst (snd step),
        rn_position := fst (snd (snd step)), rn_steps := snd (snd (snd step))\<rparr>"
    and last: "(if rt_deleting current then skip_incident h ?st2 i now None ent1 else Inr ?st2) = Inr st'"
  note g = gentle_run_notice [OF n] and id = find_run_key [OF r(1)]
  have q: "rn_id r2 = i" "same_run r r2" "rn_status r2 = Unresolved" using g id by (auto simp: r2 same_run_def)
  have f1: "find_run st1 k = find_run st k" for k using g gentle_find_run by blast
  have f2: "find_run ?st2 k = (if k = i then Some r2 else find_run st k)" for k
    using gentle_find_run [OF gentle_ended] f1 r(1) q(1) by (simp add: run_table.lookup_replace)
  show ?thesis
  proof (cases "rt_deleting current")
    case False
    with last f2 q r id show ?thesis
      by (auto simp: simulates_def intro!: run_step.moved run_step.stays)
  next
    case True
    have "team_inv (replace_run st1 r2)"
      using g r q id by (intro calmer_after [OF inv, where q = r])
        (auto simp: calmer_def run_ok_def machine_def pending_def frozen_def live_def same_run_def)
    then have inv2: "team_inv ?st2" by (rule gentle_inv [OF gentle_ended])
    from True last have sk: "skip_incident h ?st2 i now None ent1 = Inr st'" by simp
    from inv2 sk show ?thesis
    proof (rule skip_incident_Inr)
      fix r3 st3 r4 ent3
      assume r3: "find_run ?st2 i = Some r3" and n3: "run_notice h ?st2 r3 ''user-skipped'' now (object []) ent1 = Inr (st3, r4, ent3)"
        and st': "st' = replace_run st3 (r4\<lparr>rn_status := Skipped\<rparr>)"
      note g3 = gentle_run_notice [OF n3]
      have "r3 = r2" using r3 f2 by simp
      have f3: "find_run st3 k = find_run ?st2 k" for k using g3 gentle_find_run by blast
      show ?thesis
        unfolding st' simulates_def using g3 f2 f3 q r id \<open>r3 = r2\<close>
        by (auto simp: run_table.lookup_replace same_run_def intro!: run_step.stays run_step.moved)
    qed
  qed
qed

lemma simulates_spend_incident:
  "team_inv st \<Longrightarrow> spend_incident st i s = Inr st' \<Longrightarrow> simulates (Spend_incident i s) st st'"
  by (auto simp: spend_incident_def rbind_eq_Inr incident_iff same_run_def find_run_key intro!: simulates_replace)

lemma simulates_pause_incident:
  assumes inv: "team_inv st" and w: "pause_incident h st i now reason ent = Inr st'"
  shows "simulates (Pause_incident i now reason ent) st st'"
proof -
  from w obtain r st1 st2 r1 ent1 where r: "find_run st i = Some r" "rn_status r = Unresolved"
    and p: "set_paused st (rn_routine r) True = Inr st1"
    and n: "run_notice h st1 r ''paused'' now (object [(''reason'', text_value (reason_name reason))]) ent = Inr (st2, r1, ent1)"
    and st': "st' = replace_run st2 r1"
    unfolding pause_incident_def
    by (elim rbind_InrE) (auto simp: rbind_eq_Inr incident_iff [OF inv] split: if_splits prod.splits)
  note g = gentle_run_notice [OF n] and g1 = gentle_same_runs [OF gentle_set_paused [OF p]]
  show ?thesis
    unfolding st' using r g g1 find_run_key [OF r(1)]
    by (intro simulates_replace [where q = r]) (auto simp: same_run_def gentle_same_runs)
qed

lemma simulates_reopen:
  assumes inv: "team_inv st" and w: "reopen_incident h st i now generation ent = Inr (st', token)"
  shows "simulates (Reopen i now generation ent) st st'"
  using inv w
proof (rule reopen_incident_Inr)
  fix r current r1 ds
  assume r: "find_run st i = Some r" "rn_status r = Unresolved" "0 < rn_active r"
    and lease: "human_lease h r now ent = Inr (r1, token)"
    and st': "st' = (replace_run st (r1\<lparr>rn_generation := generation\<rparr>))\<lparr>discards := ds\<rparr>"
  have "simulates (Reopen i now generation ent) st (replace_run st (r1\<lparr>rn_generation := generation\<rparr>))"
    using r find_run_key [OF r(1)] human_lease_Inr [OF lease] human_lease_keeps [OF lease]
    by (intro simulates_replace [where q = r]) (simp_all add: same_run_def)
  then show ?thesis by (simp add: st' simulates_def find_run_def)
qed

lemma lease_run_minted: "lease_run h st due now key ent = Inr (st', c) \<Longrightarrow> minted ent = Some (rn_id (cl_run c))"
  by (auto simp: lease_run_def minted_def new_token_def new_id_def rbind_eq_Inr run_new_def Let_def)

lemma simulates_claim:
  assumes inv: "team_inv st" and w: "claim_next h st now key long ent = Inr (st', c)" and fresh: "fresh_run_id h ent st"
  shows "simulates (Claim now key long ent) st st'"
proof -
  from w obtain sw where sw: "sweep h st now = Inr sw"
    and rest: "(case claimable sw now long of None \<Rightarrow> Inr (sw, None)
        | Some due \<Rightarrow> rbind (claim_due h sw due now key ent) (\<lambda>(st', c). Inr (st', Some c))) = Inr (st', c)"
    by (auto simp: claim_next_def rbind_eq_Inr split: if_splits)
  note g = gentle_sweep [OF inv sw]
  show ?thesis
  proof (cases "claimable sw now long")
    case None
    with rest g show ?thesis by (simp add: simulates_gentle)
  next
    case (Some due)
    with rest obtain d where d: "claim_due h sw due now key ent = Inr (st', d)" by (auto simp: rbind_eq_Inr)
    from claim_due_Inr [OF d find_routine_member [OF gentle_inv [OF g inv] claimable_Some(1) [OF Some]]] obtain st1 r where
      g1: "gentle sw st1" and l: "lease_run h st1 r now key ent = Inr (st', d)" by metis
    note g2 = gentle_trans [OF g g1]
    from l obtain i where i: "i \<notin> rn_id ` set (runs st)" "rn_id (cl_run d) = i" "rn_status (cl_run d) = Leased"
      "rn_key (cl_run d) = key" "rn_expires (cl_run d) = now + LEASE_SECONDS" "\<not> rn_lost (cl_run d)"
      "runs st' = runs st @ [cl_run d]"
      using fresh gentle_fresh [OF g2] gentle_same_runs [OF g2]
      by (elim lease_run_Inr) (auto simp: replace_routine_def)
    have none: "find_run st i = None" using i(1) by (simp add: find_run_def find_by_None)
    then have "find_run st' k = (if k = i then Some (cl_run d) else find_run st k)" for k
      using i(2,7) by (cases "find_by rn_id k (runs st)") (auto simp: find_run_def find_by_append)
    with none i(3-6) lease_run_minted [OF l] i(2) show ?thesis by (auto simp: simulates_def intro!: run_step.stays run_step.born)
  qed
qed

lemma add_routine_runs: "add_routine h st r = Inr st' \<Longrightarrow> runs st' = runs st"
  by (auto simp: add_routine_def rbind_eq_Inr split: if_splits)

lemma put_changed_runs: "put_changed h st r now ent = Inr st' \<Longrightarrow> runs st' = runs st"
  by (auto simp: put_changed_def rbind_eq_Inr replace_routine_def dest: put_notice_frame(2))

text \<open>The transitions of Routines, notices and discards leave every run alone.\<close>

lemma quiet_runs:
  "create h st r now usage steps ent = Inr st' \<Longrightarrow> runs st' = runs st"
  "update h st r n now ent = Inr st' \<Longrightarrow> runs st' = runs st"
  "refine h st r n now ent = Inr st' \<Longrightarrow> runs st' = runs st"
  "begin_delete st i = Inr (st', rs) \<Longrightarrow> runs st' = runs st"
  "complete_delete h st i now ent = Inr st' \<Longrightarrow> runs st' = runs st"
  "mark_scope_changed h st i now ent = Inr st' \<Longrightarrow> runs st' = runs st"
  "runs (acknowledge st ds) = runs st" "runs (discarded st i g) = runs st"
  by (auto simp: create_def update_def refine_def begin_delete_def complete_delete_def mark_scope_changed_def acknowledge_def
      discarded_def rbind_eq_Inr replace_routine_def split: if_splits dest!: put_notice_frame(2) add_routine_runs put_changed_runs)

lemma transition_simulates:
  assumes "team_inv st" "fresh_event h st e" "transition h e st = Inr st'"
  shows "simulates e st st'"
  using assms
  by (cases e)
     (auto simp: first_Inr quiet_runs intro: simulates_runs quiet_runs add_routine_runs put_notice_frame(2) simulates_claim
      simulates_bind simulates_spend simulates_lose simulates_freeze simulates_thaw simulates_finish simulates_end
      simulates_recovered simulates_fence simulates_hold_recovered simulates_settle simulates_spend_incident
      simulates_reopen simulates_skip_as simulates_run_incident simulates_pause_incident simulates_release
      simulates_gentle [OF gentle_set_paused] simulates_gentle [OF gentle_sweep])

section \<open>Sequences of events\<close>

text \<open>A refused event leaves the state as it was.\<close>

definition apply_event :: "host \<Rightarrow> event \<Rightarrow> team \<Rightarrow> team" where
  "apply_event h e st = (case transition h e st of Inl _ \<Rightarrow> st | Inr st' \<Rightarrow> st')"

fun apply_events :: "host \<Rightarrow> event list \<Rightarrow> team \<Rightarrow> team" where
  "apply_events h [] st = st"
| "apply_events h (e # es) st = apply_events h es (apply_event h e st)"

fun fresh_events :: "host \<Rightarrow> event list \<Rightarrow> team \<Rightarrow> bool" where
  "fresh_events h [] st = True"
| "fresh_events h (e # es) st = (fresh_event h st e \<and> fresh_events h es (apply_event h e st))"

lemma apply_event_inv: "team_inv st \<Longrightarrow> fresh_event h st e \<Longrightarrow> team_inv (apply_event h e st)"
  by (auto simp: apply_event_def split: sum.splits intro: transition_inv)

lemma apply_event_simulates: "team_inv st \<Longrightarrow> fresh_event h st e \<Longrightarrow> simulates e st (apply_event h e st)"
  by (auto simp: apply_event_def split: sum.splits intro: transition_simulates simulates_runs)

text \<open>A property of one run that no allowed event breaks holds after every sequence of them.\<close>

lemma run_invariant:
  assumes "team_inv st" "fresh_events h es st" "P (find_run st i)" "list_all A es"
    and keeps: "\<And>e x y. P x \<Longrightarrow> A e \<Longrightarrow> (\<And>r. x = Some r \<Longrightarrow> rn_id r = i) \<Longrightarrow> (\<And>r. y = Some r \<Longrightarrow> rn_id r = i) \<Longrightarrow>
      run_step e x y \<Longrightarrow> P y"
  shows "P (find_run (apply_events h es st) i) \<and> team_inv (apply_events h es st)"
  using assms(1-4)
proof (induction es arbitrary: st)
  case (Cons e es)
  let ?st = "apply_event h e st"
  have "run_step e (find_run st i) (find_run ?st i)"
    using apply_event_simulates [of st h e] Cons.prems by (simp add: simulates_def)
  then have "P (find_run ?st i)" using keeps [of "find_run st i" e] Cons.prems find_run_key by fastforce
  with Cons.IH [OF apply_event_inv] Cons.prems show ?case by simp
qed simp

end
