(* ===== verification/Schedule_Properties.thy ===== *)
theory Schedule_Properties
  imports Schedule
begin

text \<open>
  What the calendar, the schedules and the small grammars promise: dates and ordinals are in order-preserving
  bijection, a schedule's next firing is the first one strictly after both instants it is asked about and exists
  whenever the timezone database behaves, and the two shape checks accept exactly the language they are meant to.
\<close>

section \<open>The clock time of a canonical schedule\<close>

lemma between_code: "between lo hi c \<longleftrightarrow> (of_char lo :: int) \<le> of_char c \<and> (of_char c :: int) \<le> of_char hi"
proof -
  have "(of_char x :: int) \<le> of_char y \<longleftrightarrow> (of_char x :: nat) \<le> of_char y" for x y
    using of_nat_le_iff [where 'a = int, of "of_char x" "of_char y"] by (simp add: of_nat_of_char)
  then show ?thesis by (simp add: between_def)
qed

lemma digit_code: "digit c \<longleftrightarrow> 48 \<le> (of_char c :: int) \<and> (of_char c :: int) \<le> 57"
  by (simp add: digit_def between_code)

lemma two_digit_i8:
  assumes "digit a" "digit b"
  shows "parse_i8 [a, b] = Some ((of_char a - 48) * 10 + (of_char b - 48))"
proof -
  have "a \<noteq> CHR ''-''" "a \<noteq> CHR ''+''" using assms(1) by (auto simp: digit_def between_def)
  moreover have "digits_value [a, b] = Some ((of_char a - 48) * 10 + (of_char b - 48))"
    using assms by (simp add: digits_value_def)
  ultimately show ?thesis
    using assms [unfolded digit_code] by (simp add: parse_i8_def)
qed

lemma time_re_parts:
  assumes "time_re time"
  obtains hour minute h m where "split_once (CHR '':'') time = Some (hour, minute)" "parse_i8 hour = Some h" "parse_i8 minute = Some m"
    "0 \<le> h" "h \<le> 23" "0 \<le> m" "m \<le> 59"
proof -
  from assms obtain a b d e where t: "time = [a, b, CHR '':'', d, e]"
    and hour: "(between (CHR ''0'') (CHR ''1'') a \<and> digit b) \<or> (a = CHR ''2'' \<and> between (CHR ''0'') (CHR ''3'') b)"
    and minute: "between (CHR ''0'') (CHR ''5'') d" "digit e"
    by (auto simp: time_re_def split: list.splits)
  have d: "digit a" "digit b" "digit d" using hour minute by (auto simp: digit_def between_def)
  have "a \<noteq> CHR '':''" "b \<noteq> CHR '':''" using d by (auto simp: digit_def between_def)
  then have "split_once (CHR '':'') time = Some ([a, b], [d, e])" by (simp add: t split_once_def)
  moreover have "(of_char a :: int) * 10 + of_char b \<le> 551" "(of_char d :: int) \<le> 53"
    using hour minute(1) by (auto simp: between_code digit_code)
  ultimately show ?thesis
    using d [unfolded digit_code] minute(2) [unfolded digit_code]
    by (intro that [OF _ two_digit_i8 [OF d(1,2)] two_digit_i8 [OF d(3) minute(2)]]) auto
qed

section \<open>The timezone database\<close>

text \<open>What the code relies on of the timezone crate for a loaded zone. Every civil minute of a date up to the year 9998
  is an instant, whose own civil date is at most two days away: the crate's offsets stay within twenty-six hours.
  Instants are ordered as their civil dates are, four days apart or more.\<close>

definition zone_laws :: "zones \<Rightarrow> string \<Rightarrow> bool" where
  "zone_laws zs zn \<longleftrightarrow> (\<forall>x h m. valid_date x \<and> year x \<le> 9998 \<and> 0 \<le> h \<and> h \<le> 23 \<and> 0 \<le> m \<and> m \<le> 59 \<longrightarrow>
     (\<exists>c. zone_instant zs zn (year x) (month x) (day x) h m = Some c \<and>
       (\<forall>after z. date_at zs after zn = Some z \<and> ordinal z + 4 \<le> ordinal x \<longrightarrow> after < c)))"

lemma wall_clock_answers:
  assumes laws: "zone_laws zs zn" and t: "time_re time" and x: "valid_date x" "year x \<le> 9998"
  shows "\<exists>c. wall_clock zs x time zn = Some c \<and> (\<forall>after z. date_at zs after zn = Some z \<and> ordinal z + 4 \<le> ordinal x \<longrightarrow> after < c)"
  using t
proof (rule time_re_parts)
  fix hour minute h m
  assume "split_once (CHR '':'') time = Some (hour, minute)" "parse_i8 hour = Some h" "parse_i8 minute = Some m"
    "0 \<le> h" "h \<le> 23" "0 \<le> m" "m \<le> 59"
  then show ?thesis using laws x unfolding zone_laws_def wall_clock_def by auto
qed

lemma year_of_ordinal:
  assumes "valid_date x" "ordinal x \<le> ordinal (Date 9998 12 31)"
  shows "year x \<le> 9998"
proof -
  have "valid_date (Date 9998 12 31)" by (simp add: valid_date_def MAX_YEAR_def days_in_month_def)
  from ordinal_less_iff [OF this assms(1)] assms(2) have "\<not> Date 9998 12 31 < x" by simp
  then show ?thesis by (auto simp: less_date_def)
qed

lemma firing_loop_answers:
  assumes s: "canonical_schedule s = Some s'" "get s ''gap'' = None" and t: "time_re time"
    and laws: "zone_laws zs zn" and d: "date_at zs after zn = Some d"
    and x: "valid_date x" "ordinal x \<le> ordinal d" and room: "ordinal d + 35 \<le> ordinal (Date 9998 12 31)"
  shows "\<exists>t. firing_loop zs s time zn after x = Inr t"
proof -
  have dv: "valid_date d" using d by (auto simp: date_at_def date_new_Some split: option.splits)
  have last: "ordinal (Date 9998 12 31) \<le> LAST_ORDINAL"
    by (rule ordinal_range(2)) (simp add: valid_date_def MAX_YEAR_def days_in_month_def)
  have "\<exists>y. add_days d 3 = Some y" using add_days_iff [OF dv, of 3] room last ordinal_range(1) [OF dv] by simp
  then obtain y where y: "valid_date y" "ordinal y = ordinal d + 3" using add_days_Some [OF dv] by blast
  from schedule_day_exists [OF s y(1)] room last y(2) obtain z where
    z: "valid_date z" "schedule_matches s z" "ordinal d + 4 \<le> ordinal z" "ordinal z \<le> ordinal d + 34" by auto
  have yz: "year w \<le> 9998" if "valid_date w" "w \<le> z" for w
    using that ordinal_less_iff [OF z(1) that(1)] z(4) room by (intro year_of_ordinal) auto
  from wall_clock_answers [OF laws t z(1) yz [OF z(1) order_refl]] d z(3) obtain c where
    c: "wall_clock zs z time zn = Some c" "after < c" by blast
  have "x \<le> z" using ordinal_less_iff [OF z(1) x(1)] x(2) z(3) by (simp add: not_less [symmetric])
  then show ?thesis
    using wall_clock_answers [OF laws t _ yz] by (intro firing_loop_returns [OF _ x(1) z(1) _ z(2) c]) (blast | simp)+
qed

lemma next_run_wall_clock:
  assumes "next_run zs s tz anchor after = Inr t" "get s ''gap'' = None"
  obtains zn time x where "canonical_schedule s = Some s" "zone zs tz = Inr zn" "at s ''time'' = Str time"
    "Option.bind (date_at zs (max after anchor) zn) (\<lambda>x. add_days x (- 1)) = Some x"
    "firing_loop zs s time zn (max after anchor) x = Inr t"
proof -
  from assms obtain s' zn where s: "canonical_schedule s = Some s'" and zn: "zone zs tz = Inr zn"
    and rest: "rbind (ok_or (as_str (at s' ''time'')) ''invalid schedule'') (\<lambda>time.
         rbind (ok_or (Option.bind (date_at zs (max after anchor) zn) (\<lambda>x. add_days x (- 1))) ''invalid schedule'') (\<lambda>x.
           firing_loop zs s' time zn (max after anchor) x)) = Inr t"
    unfolding next_run_def Let_def
    by (elim rbind_InrE) (auto dest: canonical_schedule_Some)
  with canonical_schedule_Some [OF s] show ?thesis by (auto simp: rbind_eq_Inr intro: that)
qed

lemma schedule_gap:
  assumes "canonical_schedule s = Some s'" "get s ''gap'' = Some g"
  shows "\<exists>n. g = Number (Int64 n) \<and> 5 \<le> n \<and> n \<le> MAX_CONTINUOUS_GAP_SECONDS"
  using assms(1)
proof (rule canonical_schedule_parts)
  fix kind ms
  assume s: "s = Object ms" "kind \<in> set SCHEDULE_KINDS" and f: "has_fields s (schedule_fields kind)"
    and ok: "kind = ''continuous'' \<Longrightarrow> whole (at s ''gap'') MIN_CONTINUOUS_GAP_SECONDS MAX_CONTINUOUS_GAP_SECONDS"
  have "(''gap'', g) \<in> set ms"
    using assms(2) s(1) find_by_Some_mem [of fst "''gap''" ms] find_by_Some_key [of fst "''gap''" ms] by auto
  then have "''gap'' \<in> set (schedule_fields kind)" using f s(1) by (auto simp: has_fields_def list_all_iff)
  then have "kind = ''continuous''" using s(2) by (auto simp: schedule_fields_def SCHEDULE_KINDS_def)
  then show ?thesis
    using ok assms(2) by (auto simp: whole_def MIN_CONTINUOUS_GAP_SECONDS_def at_def split: option.splits)
qed

section \<open>The next firing\<close>

lemma next_run_facts:
  assumes "next_run zs s tz anchor after = Inr t"
  shows "max after anchor < t \<and>
    (\<forall>gap. get s ''gap'' = Some (Number (Int64 gap)) \<longrightarrow> t = max after anchor + gap) \<and>
    (get s ''gap'' = None \<longrightarrow> (\<exists>zn time eve z. zone zs tz = Inr zn \<and> at s ''time'' = Str time \<and>
       Option.bind (date_at zs (max after anchor) zn) (\<lambda>x. add_days x (- 1)) = Some eve \<and>
       valid_date z \<and> eve \<le> z \<and> schedule_matches s z \<and> wall_clock zs z time zn = Some t \<and>
       (\<forall>w. valid_date w \<longrightarrow> eve \<le> w \<longrightarrow> w < z \<longrightarrow> schedule_matches s w \<longrightarrow>
          (\<exists>c. wall_clock zs w time zn = Some c \<and> c \<le> max after anchor))))"
proof (cases "get s ''gap''")
  case None
  from assms None show ?thesis
  proof (rule next_run_wall_clock)
    fix zn time x
    assume *: "zone zs tz = Inr zn" "at s ''time'' = Str time"
      "Option.bind (date_at zs (max after anchor) zn) (\<lambda>x. add_days x (- 1)) = Some x"
      "firing_loop zs s time zn (max after anchor) x = Inr t"
    from *(3) have "valid_date x" using add_days_bound by (auto simp: bind_eq_Some_conv)
    from firing_loop_Inr [OF *(4) this] * None show ?thesis by auto
  qed
next
  case (Some g)
  from assms obtain s' zn where s': "canonical_schedule s = Some s'" and
    r: "(case Option.bind (get s' ''gap'') small_int of
       Some gap \<Rightarrow> ok_or (checked_add_i64 (max after anchor) gap) ''invalid schedule''
     | None \<Rightarrow>
         rbind (ok_or (as_str (at s' ''time'')) ''invalid schedule'') (\<lambda>time.
         rbind (ok_or (Option.bind (date_at zs (max after anchor) zn) (\<lambda>x. add_days x (- 1))) ''invalid schedule'') (\<lambda>x.
           firing_loop zs s' time zn (max after anchor) x))) = Inr t"
    unfolding next_run_def Let_def by (elim rbind_InrE) simp
  from schedule_gap [OF s' Some] obtain n where n: "g = Number (Int64 n)" "5 \<le> n" by blast
  from r n(1) Some canonical_schedule_Some [OF s'] have "t = max after anchor + n" by (auto simp: checked_add_i64_def split: if_splits)
  then show ?thesis using n Some by auto
qed

text \<open>C39: A schedule's next firing is strictly after both the instant asked about and the schedule's anchor. A gap
  schedule fires exactly one gap after them. A wall-clock schedule fires at its clock time on a day it matches, and it is
  the first such firing: every earlier matching day from the eve of the reference date on fires at or before them.\<close>

theorem next_run_first:
  assumes "next_run zs s tz anchor after = Inr t"
  shows "max after anchor < t \<and>
    (\<forall>gap. get s ''gap'' = Some (Number (Int64 gap)) \<longrightarrow> t = max after anchor + gap) \<and>
    (get s ''gap'' = None \<longrightarrow> (\<exists>zn time eve z. zone zs tz = Inr zn \<and> at s ''time'' = Str time \<and>
       Option.bind (date_at zs (max after anchor) zn) (\<lambda>x. add_days x (- 1)) = Some eve \<and>
       valid_date z \<and> eve \<le> z \<and> schedule_matches s z \<and> wall_clock zs z time zn = Some t \<and>
       (\<forall>w. valid_date w \<longrightarrow> eve \<le> w \<longrightarrow> w < z \<longrightarrow> schedule_matches s w \<longrightarrow>
          (\<exists>c. wall_clock zs w time zn = Some c \<and> c \<le> max after anchor))))"
  by (rule next_run_facts [OF assms])

text \<open>A concrete timezone database: one zone, always at UTC.\<close>

definition example_zones :: zones where
  "example_zones = \<lparr>zone_known = (\<lambda>zn. zn = ''UTC''),
     zone_date = (\<lambda>zn t. map_option (\<lambda>x. (year x, month x, day x)) (from_ordinal (719163 + t div 86400))),
     zone_instant = (\<lambda>zn y m d hour minute. Some ((ymd_to_ord y m d - 719163) * 86400 + hour * 3600 + minute * 60))\<rparr>"

definition example_weekly :: json where
  "example_weekly = Object [(''kind'', Str ''weekly''), (''weekday'', int_value 2), (''time'', Str ''08:30'')]"

theorem next_run_first_witness:
  "next_run example_zones example_weekly (Str ''UTC'') 978652800 0 = Inr 979115400 \<and> (978652800 :: int) < 979115400"
proof -
  have "next_run example_zones example_weekly (Str ''UTC'') 978652800 0 = Inr 979115400" by code_simp
  from next_run_first [OF this] this show ?thesis by simp
qed

text \<open>C40: Every canonical schedule answers: for a zone the database loads and whose laws hold, and a reference instant whose
  date leaves thirty-five days of the calendar (and whose sum with the largest gap fits an \<open>i64\<close>), \<open>next_run\<close> returns a
  firing. The search over days terminates and never runs out of calendar.\<close>

theorem next_run_answers:
  assumes "canonical_schedule s \<noteq> None" "zone zs tz = Inr zn" "zone_laws zs zn"
    and "date_at zs (max after anchor) zn = Some d" "2 \<le> ordinal d" "ordinal d + 35 \<le> ordinal (Date 9998 12 31)"
    and "0 \<le> max after anchor" "max after anchor + MAX_CONTINUOUS_GAP_SECONDS \<le> i64_max"
  shows "\<exists>t. next_run zs s tz anchor after = Inr t"
proof -
  from assms(1) canonical_schedule_Some have c: "canonical_schedule s = Some s" by fastforce
  show ?thesis
  proof (cases "get s ''gap''")
    case (Some g)
    from schedule_gap [OF c Some] obtain n where n: "g = Number (Int64 n)" "5 \<le> n" "n \<le> MAX_CONTINUOUS_GAP_SECONDS" by blast
    then have "checked_add_i64 (max after anchor) n = Some (max after anchor + n)"
      using assms(7,8) by (simp add: checked_add_i64_def in_i64_def i64_min_def)
    then show ?thesis using assms(2) c Some n(1) by (simp add: next_run_def Let_def)
  next
    case None
    have dv: "valid_date d" using assms(4) by (auto simp: date_at_def date_new_Some split: option.splits)
    have "\<exists>e. add_days d (- 1) = Some e" using add_days_iff [OF dv, of "- 1"] ordinal_range(2) [OF dv] assms(5) by simp
    then obtain e where e: "add_days d (- 1) = Some e" "valid_date e" "ordinal e = ordinal d - 1"
      using add_days_Some [OF dv] by fastforce
    have "full_value time_re (at s ''time'')"
      using c None by (elim canonical_schedule_parts) (auto simp: whole_def at_def)
    then obtain time where t: "at s ''time'' = Str time" "time_re time" by (auto simp: full_value_def split: json.splits)
    have "\<exists>r. firing_loop zs s time zn (max after anchor) e = Inr r"
      by (rule firing_loop_answers [OF c None t(2) assms(3,4) e(2) _ assms(6)]) (simp add: e(3))
    then show ?thesis using assms(2,4) c None t(1) e(1) by (simp add: next_run_def Let_def)
  qed
qed

lemma example_zone_laws: "zone_laws example_zones ''UTC''"
proof -
  have "719163 + after div 86400 = ordinal z" if "date_at example_zones after ''UTC'' = Some z" for after z
  proof -
    from that obtain x where x: "from_ordinal (719163 + after div 86400) = Some x" and "date_new (year x) (month x) (day x) = Some z"
      by (auto simp: date_at_def example_zones_def split: option.splits)
    then have "z = x" by (simp add: date_new_Some)
    moreover have "1 \<le> 719163 + after div 86400" "719163 + after div 86400 \<le> LAST_ORDINAL"
      using x by (auto simp: from_ordinal_def split: if_splits)
    ultimately show ?thesis using from_ordinal_Some x by fastforce
  qed
  moreover have "after < (o1 - 719163) * 86400 + h * 3600 + m * 60"
    if "719163 + after div 86400 = o2" "o2 + 4 \<le> o1" "0 \<le> h" "0 \<le> m" for after o1 o2 h m :: int
  proof -
    define q r where "q = after div 86400" and "r = after mod 86400"
    have "after = 86400 * q + r" "r < 86400" by (simp_all add: q_def r_def)
    moreover have "(q + 4) * 86400 \<le> (o1 - 719163) * 86400" using that(1,2) unfolding q_def by (intro mult_right_mono) auto
    ultimately show ?thesis using that(3,4) by (simp add: algebra_simps)
  qed
  ultimately show ?thesis
    unfolding zone_laws_def by (fastforce simp: example_zones_def ordinal_def)
qed

theorem next_run_answers_witness:
  "\<exists>t. next_run example_zones example_weekly (Str ''UTC'') 978652800 0 = Inr t"
proof (rule next_run_answers [OF _ _ example_zone_laws])
  show "canonical_schedule example_weekly \<noteq> None" by code_simp
  show "zone example_zones (Str ''UTC'') = Inr ''UTC''" by code_simp
  show "date_at example_zones (max 0 978652800) ''UTC'' = Some (Date 2001 1 5)" by code_simp
  show "2 \<le> ordinal (Date 2001 1 5)" "ordinal (Date 2001 1 5) + 35 \<le> ordinal (Date 9998 12 31)" by code_simp+
  show "(0 :: int) \<le> max 0 978652800" "max 0 978652800 + MAX_CONTINUOUS_GAP_SECONDS \<le> i64_max"
    by (simp_all add: MAX_CONTINUOUS_GAP_SECONDS_def i64_max_def)
qed

section \<open>Dates\<close>

text \<open>Dates and ordinals are in bijection: every date of the years 1 to 9999 comes back from its ordinal, every ordinal
  from 1 to the last one is the ordinal of the valid date it names, and every other ordinal is refused.\<close>

theorem date_ordinal_roundtrip:
  "(valid_date x \<longrightarrow> from_ordinal (ordinal x) = Some x) \<and>
   (case from_ordinal n of
      Some y \<Rightarrow> valid_date y \<and> ordinal y = n
    | None \<Rightarrow> n < 1 \<or> n > LAST_ORDINAL)"
  using from_ordinal_ordinal [of x] from_ordinal_Some [of n]
  by (auto simp: not_less [symmetric] split: option.splits) (auto simp: from_ordinal_def split: if_splits)

theorem date_ordinal_roundtrip_witness:
  "valid_date (Date 2024 2 29) \<and> from_ordinal (ordinal (Date 2024 2 29)) = Some (Date 2024 2 29)"
  using date_ordinal_roundtrip [of "Date 2024 2 29" 1] by (simp add: valid_date_def MAX_YEAR_def days_in_month_def is_leap_def)

text \<open>Counting days agrees with the calendar: valid dates compare as their ordinals do, and adding days to a date moves
  its ordinal by exactly that many days, succeeding exactly when the result is still within the calendar.\<close>

theorem date_arithmetic:
  assumes "valid_date a" "valid_date b"
  shows "(a < b \<longleftrightarrow> ordinal a < ordinal b) \<and> (a = b \<longleftrightarrow> ordinal a = ordinal b) \<and>
    (add_days a (days_since b a) = Some b) \<and>
    (add_days a n \<noteq> None \<longleftrightarrow> 1 \<le> ordinal a + n \<and> ordinal a + n \<le> LAST_ORDINAL)"
proof -
  have "\<exists>z. add_days a (days_since b a) = Some z"
    using add_days_iff [OF assms(1)] ordinal_range [OF assms(2)] by (simp add: days_since_def)
  then have "add_days a (days_since b a) = Some b"
    using add_days_Some [OF assms(1)] ordinal_inj assms(2) by (fastforce simp: days_since_def)
  then show ?thesis using ordinal_less_iff assms ordinal_inj add_days_iff [OF assms(1), of n] by auto
qed

theorem date_arithmetic_witness:
  "valid_date (Date 2023 12 31) \<and> valid_date (Date 2024 3 1) \<and> add_days (Date 2023 12 31) 61 = Some (Date 2024 3 1)"
proof -
  have v: "valid_date (Date 2023 12 31)" "valid_date (Date 2024 3 1)"
    by (simp_all add: valid_date_def MAX_YEAR_def days_in_month_def is_leap_def)
  have "days_since (Date 2024 3 1) (Date 2023 12 31) = 61" by code_simp
  then show ?thesis using v date_arithmetic [OF v, of 0] by simp
qed

section \<open>Shape checks\<close>

text \<open>The journal's index-by-index check of an operation id accepts exactly the canonical lowercase version 4 UUIDs that
  the protocol's pattern declares.\<close>

theorem operation_id_language: "valid_operation_id s \<longleftrightarrow> operation_id_re s"
  using operation_id_re_iff by auto

text \<open>An Action result is admitted exactly when it holds at most 4096 values, nests at most 32 deep, and its canonical
  encoding fits the bound; what is admitted is that encoding. The explicit stack of \<open>walk\<close> decides the recursive bounds.\<close>

theorem canonical_result_bounds:
  "(walk v = Inr () \<longleftrightarrow> nodes v \<le> 4096 \<and> nesting v \<le> 32) \<and>
   (canonical_result v n = Inr raw \<longleftrightarrow> nodes v \<le> 4096 \<and> nesting v \<le> 32 \<and> raw = canonical v \<and> length (canonical v) \<le> n)"
  using walk_iff [of v] canonical_result_Inr [of v n raw] by (auto simp: MAX_JSON_NODES_def MAX_JSON_DEPTH_def)

end
