(* ===== verification/Routine_Example.thy ===== *)
theory Routine_Example
  imports Routine_Runs_Machine Schedule_Properties
begin

text \<open>
  A concrete Team, on which the properties of Routines are applied: a host whose parameters are simple functions, one
  Routine that runs every hour, the transition that creates it and the claim of its first run, each evaluated in the kernel.
\<close>

definition example_hex :: "nat \<Rightarrow> string" where
  "example_hex n = replicate n (CHR ''a'')"

definition example_pin :: string where
  "example_pin = ''sha256:'' @ example_hex 64"

definition example_host :: host where
  "example_host = \<lparr>h_zones = example_zones, h_sha = (\<lambda>s. example_hex 64), h_base64 = (\<lambda>bs. example_hex 43),
     h_name_ok = (\<lambda>s. s \<noteq> ''''), h_description_ok = (\<lambda>s. True), h_well_formed = is_object,
     h_steps_fit = (\<lambda>plan permitted. True), h_completed_detail = (\<lambda>ms. True), h_creation_detail = (\<lambda>ms. True)\<rparr>"

definition example_plan :: json where
  "example_plan = Object [(''timezone'', Str ''UTC''),
     (''steps'', Array [Object [(''assistant'', Str ''mail''), (''action'', Str ''send''), (''pin'', Str example_pin)]]),
     (''output'', Object [(''mode'', Str ''none''), (''step'', Null)])]"

definition example_routine :: routine where
  "example_routine = (routine_new (example_hex 32) ''digest'' (Object [(''kind'', Str ''continuous''), (''gap'', int_value 3600)])
     [(''mail'', example_pin)] example_plan 1000 1000)
     \<lparr>rt_permitted := [Object [(''assistant'', Str ''mail''), (''action'', Str ''send''), (''pin'', Str example_pin),
        (''read_only'', Bool True), (''stored_inputs'', Array [])]],
      rt_confirmation := Some (Object [(''proposal_id'', Str (example_hex 32)), (''proposal_digest'', Str example_pin),
        (''principal'', Str (example_hex 32)), (''incarnation'', Str (example_hex 64)), (''confirmed_at'', int_value 1)])\<rparr>"

definition example_run :: string where
  "example_run = concat (replicate 16 ''03'')"

definition example_create :: event where
  "example_create = Create example_routine 1000 None [] [Some (replicate 16 1)]"

definition example_created :: team where
  "example_created = empty_team\<lparr>routines := [example_routine],
     notices := [(notice_new (concat (replicate 16 ''01'')) (example_hex 32) [] ''created'' 1000
       (object [(''steps'', Array [])]))\<lparr>nt_name := ''digest''\<rparr>]\<rparr>"

definition example_claim :: event where
  "example_claim = Claim 2000 (example_hex 64) False [Some (replicate 32 2), Some (replicate 16 3)]"

definition example_leased :: run where
  "example_leased = (run_new example_run (example_hex 32) Leased)\<lparr>rn_lease := example_hex 64, rn_key := example_hex 64,
     rn_expires := 2900, rn_active := 390\<rparr>"

definition example_claimed :: team where
  "example_claimed = example_created\<lparr>routines := [example_routine\<lparr>rt_next := 5600\<rparr>], runs := [example_leased],
     starts := [(example_hex 32, 2000, 1)], served_at := 2000\<rparr>"

lemma example_create_step: "transition example_host example_create empty_team = Inr example_created"
  by code_simp

lemma example_claim_step: "transition example_host example_claim example_created = Inr example_claimed"
  by code_simp

lemma example_claim_fresh: "fresh_event example_host example_created example_claim"
  by code_simp

lemma example_reached: "reached example_host example_created" "reached example_host example_claimed"
proof -
  show created: "reached example_host example_created"
    by (rule reached.step [OF reached.start _ example_create_step]) (simp add: example_create_def)
  show "reached example_host example_claimed"
    by (rule reached.step [OF created example_claim_fresh example_claim_step])
qed

text \<open>The run asks a person and freezes: it loses its lease and its notice has its first version.\<close>

definition example_lease :: lease where
  "example_lease = \<lparr>ls_sha = example_hex 64, ls_key = example_hex 64\<rparr>"

definition example_freeze :: event where
  "example_freeze = Freeze example_run example_lease 2100
     \<lparr>rq_kind = ''human'', rq_assistant = ''mail'', rq_action = ''send'', rq_position = 1\<rparr> []"

definition example_frozen_run :: run where
  "example_frozen_run = example_leased\<lparr>rn_status := Frozen, rn_lease := [], rn_key := [], rn_expires := 0, rn_request := ''human'',
     rn_assistant := ''mail'', rn_action := ''send'', rn_version := 1\<rparr>"

definition example_frozen_notice :: notice where
  "example_frozen_notice = (notice_new example_run (example_hex 32) example_run ''frozen'' 2100
     (object [(''request_kind'', text_value ''human'')]))\<lparr>nt_name := ''digest'', nt_usage := Some (rn_usage example_leased)\<rparr>"

definition example_frozen :: team where
  "example_frozen = example_claimed\<lparr>runs := [example_frozen_run], notices := notices example_created @ [example_frozen_notice]\<rparr>"

lemma example_freeze_step: "transition example_host example_freeze example_claimed = Inr example_frozen"
  by code_simp

lemma example_frozen_reached: "reached example_host example_frozen"
  by (rule reached.step [OF example_reached(2) _ example_freeze_step]) (simp add: example_freeze_def)

end
