(* ===== verification/Routine_Notices.thy ===== *)
theory Routine_Notices
  imports Routine_Example
begin

text \<open>
  What a person is told: which notices a transition writes and in which version, that none is lost before it is acknowledged,
  what the notice of a run's end writes beside itself (the failure streak of its Routine), and that the queue of generations
  to discard only grows. The lemmas follow the transitions of \<open>Routine_Machine\<close> one by one.
\<close>

section \<open>Notices\<close>

text \<open>What one transition writes: \<open>w\<close> names the run that publishes in it, the version of its notice before and the highest it
  publishes. Every other notice that is written is a Routine's own, one that names no run. The queue of generations to
  discard only grows.\<close>

type_synonym publisher = "string \<times> int \<times> int"

definition written :: "publisher \<Rightarrow> notice \<Rightarrow> bool" where
  "written w m \<longleftrightarrow> nt_run m = [] \<or>
     (case w of (i, low, high) \<Rightarrow> nt_id m = i \<and> nt_run m = i \<and> low < nt_version m \<and> nt_version m \<le> high)"

definition noted :: "publisher \<Rightarrow> team \<Rightarrow> team \<Rightarrow> bool" where
  "noted w st st' \<longleftrightarrow> set (discards st) \<subseteq> set (discards st') \<and>
     (\<forall>n \<in> set (notices st). n \<in> set (notices st') \<or> (\<exists>m \<in> set (notices st'). nt_id m = nt_id n \<and> written w m)) \<and>
     (\<forall>m \<in> set (notices st'). m \<in> set (notices st) \<or> written w m)"

definition version_after :: "run \<Rightarrow> publisher" where
  "version_after r = (rn_id r, rn_version r, rn_version r + 1)"

lemma noted_refl: "noted w st st"
  by (simp add: noted_def)

lemma noted_trans:
  assumes ab: "noted w a b" and bc: "noted w b c"
  shows "noted w a c"
proof -
  have "n \<in> set (notices c) \<or> (\<exists>m \<in> set (notices c). nt_id m = nt_id n \<and> written w m)" if n: "n \<in> set (notices a)" for n
  proof (cases "n \<in> set (notices b)")
    case True
    then show ?thesis using bc by (simp add: noted_def)
  next
    case False
    then obtain m where m: "m \<in> set (notices b)" "nt_id m = nt_id n" "written w m" using ab n by (auto simp: noted_def)
    from bc m(1) have "m \<in> set (notices c) \<or> (\<exists>k \<in> set (notices c). nt_id k = nt_id m \<and> written w k)" by (simp add: noted_def)
    then show ?thesis using m(2,3) by auto
  qed
  moreover have "m \<in> set (notices a) \<or> written w m" if "m \<in> set (notices c)" for m using that ab bc by (auto simp: noted_def)
  ultimately show ?thesis using ab bc by (simp add: noted_def subset_trans [of _ "set (discards b)"])
qed

lemma noted_same: "notices st' = notices st \<Longrightarrow> set (discards st) \<subseteq> set (discards st') \<Longrightarrow> noted w st st'"
  by (simp add: noted_def)

lemma noted_put: "put_notice h st n = Inr st' \<Longrightarrow> written w n \<Longrightarrow> noted w st st'"
  by (erule put_notice_Inr) (auto simp: noted_def written_def)

lemma noted_put_after:
  "put_notice h st1 n = Inr st' \<Longrightarrow> notices st1 = notices st \<Longrightarrow> discards st1 = discards st \<Longrightarrow> written w n \<Longrightarrow> noted w st st'"
  using noted_put [of h st1 n st' w] by (simp add: noted_def)

lemma written_new [simp]: "written w (notice_new i routine [] outcome created detail)"
  by (simp add: written_def notice_new_def)

lemma written_update [simp]:
  "written w (n\<lparr>nt_usage := u\<rparr>) = written w n" "nt_run n = [] \<Longrightarrow> written w (n\<lparr>nt_version := v\<rparr>)"
  "nt_run (notice_new i routine run outcome created detail) = run" "nt_run (n\<lparr>nt_version := v\<rparr>) = nt_run n"
  by (simp_all add: written_def notice_new_def)

lemma noted_replace [simp]: "notices (replace_routine st r) = notices st" "notices (replace_run st x) = notices st"
  "discards (replace_routine st r) = discards st" "discards (replace_run st x) = discards st"
  by (simp_all add: replace_routine_def replace_run_def)

lemma noted_ended [simp]: "notices (ended st r now) = notices st" "discards (ended st r now) = discards st @ [(rn_id r, rn_generation r)]"
  by (simp_all add: ended_def rebase_continuous_def split: option.splits)

lemma noted_without_run: "without_run st i now = Inr st' \<Longrightarrow> noted w st st'"
  by (auto simp: without_run_def rbind_eq_Inr intro!: noted_same)

text \<open>What a notice of a run writes: the notice itself, and for an outcome that settles the failure streak the Routine's
  count, with a second notice when the streak pauses it.\<close>

definition streak_of :: "routine \<Rightarrow> string \<Rightarrow> int" where
  "streak_of q outcome = (if outcome = ''failed'' then rt_failures q + 1 else 0)"

definition streak_pauses :: "routine \<Rightarrow> string \<Rightarrow> bool" where
  "streak_pauses q outcome \<longleftrightarrow> \<not> rt_paused q \<and> streak_of q outcome \<ge> MAX_FAILURE_STREAK"

lemma run_notice_Inr:
  assumes "run_notice h st r outcome now detail ent = Inr (st', r', ent')"
  obtains (plain) n where "outcome \<notin> {''done'', ''recovered'', ''failed''}" "put_notice h st n = Inr st'" "nt_id n = rn_id r"
      "nt_outcome n = outcome" "nt_version n = rn_version r + 1" "r' = r\<lparr>rn_version := rn_version r + 1\<rparr>" "nt_run n = rn_id r"
  | (settled) n st1 q where "outcome \<in> {''done'', ''recovered'', ''failed''}" "put_notice h st n = Inr st1" "nt_id n = rn_id r"
      "nt_outcome n = outcome" "nt_version n = rn_version r + 1" "r' = r\<lparr>rn_version := rn_version r + 1\<rparr>"
      "find_routine st1 (rn_routine r) = Some q" "\<not> streak_pauses q outcome"
      "st' = replace_routine st1 (q\<lparr>rt_failures := streak_of q outcome\<rparr>)" "nt_run n = rn_id r"
  | (paused) n st1 q i where "outcome \<in> {''done'', ''recovered'', ''failed''}" "put_notice h st n = Inr st1" "nt_id n = rn_id r"
      "nt_outcome n = outcome" "nt_version n = rn_version r + 1" "r' = r\<lparr>rn_version := rn_version r + 1\<rparr>"
      "find_routine st1 (rn_routine r) = Some q" "streak_pauses q outcome"
      "put_notice h (replace_routine st1 (q\<lparr>rt_failures := streak_of q outcome, rt_paused := True\<rparr>))
         (notice_new i (rt_id q) [] ''streak-paused'' now (object [(''failures'', int_value (streak_of q outcome))])) = Inr st'"
      "nt_run n = rn_id r"
proof -
  define n where "n = (notice_new (rn_id r) (rn_routine r) (rn_id r) outcome now detail)
                \<lparr>nt_version := rn_version r + 1, nt_usage := Some (rn_usage r), nt_lost := rn_lost r\<rparr>"
  have nf: "nt_id n = rn_id r" "nt_outcome n = outcome" "nt_version n = rn_version r + 1" and run: "nt_run n = rn_id r"
    by (simp_all add: n_def notice_new_def)
  from assms obtain st1 where st1: "put_notice h st n = Inr st1" and r': "r' = r\<lparr>rn_version := rn_version r + 1\<rparr>"
    and rest: "(if outcome \<in> {''done'', ''recovered'', ''failed''} then
          rbind (get_routine st1 (rn_routine r)) (\<lambda>current.
          let failures = (if outcome = ''failed'' then rt_failures current + 1 else 0);
              streak = (\<not> rt_paused current \<and> failures \<ge> MAX_FAILURE_STREAK);
              st2 = replace_routine st1 (current\<lparr>rt_failures := failures, rt_paused := rt_paused current \<or> streak\<rparr>)
          in if streak then
               rbind (new_id ent) (\<lambda>(i, ent').
               rbind (put_notice h st2 (notice_new i (rt_id current) '''' ''streak-paused'' now
                        (object [(''failures'', int_value failures)]))) (\<lambda>st3. Inr (st3, ent')))
             else Inr (st2, ent))
        else Inr (st1, ent)) = Inr (st', ent')"
    unfolding run_notice_def Let_def rbind_eq_Inr n_def by auto
  show ?thesis
  proof (cases "outcome \<in> {''done'', ''recovered'', ''failed''}")
    case False
    with rest st1 nf run r' show ?thesis by (intro plain [of n]) simp_all
  next
    case True
    from rest [unfolded if_P [OF True]] obtain q where q: "find_routine st1 (rn_routine r) = Some q"
      and more: "(let failures = streak_of q outcome;
              streak = (\<not> rt_paused q \<and> failures \<ge> MAX_FAILURE_STREAK);
              st2 = replace_routine st1 (q\<lparr>rt_failures := failures, rt_paused := rt_paused q \<or> streak\<rparr>)
          in if streak then
               rbind (new_id ent) (\<lambda>(i, ent').
               rbind (put_notice h st2 (notice_new i (rt_id q) '''' ''streak-paused'' now
                        (object [(''failures'', int_value failures)]))) (\<lambda>st3. Inr (st3, ent')))
             else Inr (st2, ent)) = Inr (st', ent')"
      unfolding streak_of_def by (elim rbind_InrE) simp
    show ?thesis
    proof (cases "streak_pauses q outcome")
      case False
      then have no: "(\<not> rt_paused q \<and> streak_of q outcome \<ge> MAX_FAILURE_STREAK) = False" by (simp add: streak_pauses_def)
      have "st' = replace_routine st1 (q\<lparr>rt_failures := streak_of q outcome\<rparr>)"
        using more unfolding Let_def no by simp
      then show ?thesis by (intro settled [OF True st1 nf r' q False _ run])
    next
      case streak: True
      then have "\<exists>i. put_notice h (replace_routine st1 (q\<lparr>rt_failures := streak_of q outcome, rt_paused := True\<rparr>))
         (notice_new i (rt_id q) [] ''streak-paused'' now (object [(''failures'', int_value (streak_of q outcome))])) = Inr st'"
        using more by (auto simp: Let_def streak_pauses_def rbind_eq_Inr)
      then show ?thesis using paused [OF True st1 nf r' q streak _ run] by blast
    qed
  qed
qed

lemma noted_run_notice:
  assumes "run_notice h st r outcome now detail ent = Inr (st', r', ent')"
  shows "noted (version_after r) st st'"
  using assms
proof (cases rule: run_notice_Inr)
  case (plain n)
  then show ?thesis by (intro noted_put [of h st n]) (auto simp: written_def version_after_def)
next
  case (settled n st1 q)
  then have "noted (version_after r) st st1" by (intro noted_put [of h st n]) (auto simp: written_def version_after_def)
  then show ?thesis using settled(9) by (simp add: noted_def)
next
  case (paused n st1 q i)
  then have "noted (version_after r) st st1" by (intro noted_put [of h st n]) (auto simp: written_def version_after_def)
  moreover have "noted (version_after r) st1 st'" by (rule noted_put_after [OF paused(9)]) simp_all
  ultimately show ?thesis by (rule noted_trans)
qed

lemma run_notice_run: "run_notice h st r outcome now detail ent = Inr (st', r', ent') \<Longrightarrow> r' = r\<lparr>rn_version := rn_version r + 1\<rparr>"
  by (erule run_notice_Inr)

lemma noted_report_gap:
  assumes "report_gap h st r now fl = Inr st'"
  shows "noted w st st'"
proof -
  from assms consider "st' = st" | n st1 where "put_notice h st n = Inr st1" "nt_run n = []" "notices st' = notices st1" "discards st' = discards st1"
    by (auto simp: report_gap_def Let_def rbind_eq_Inr split: if_splits)
  then show ?thesis
  proof cases
    case 2
    then have "noted w st st1" by (intro noted_put) (auto simp: written_def)
    with 2 show ?thesis by (simp add: noted_def)
  qed (simp add: noted_refl)
qed

lemma noted_sweep_one: "sweep_one h now item st = Inr st' \<Longrightarrow> noted w st st'"
  by (auto simp: sweep_one_def Let_def rbind_eq_Inr split: if_splits dest!: noted_report_gap [where w = w] intro: noted_refl)
     (auto simp: noted_def)

lemma noted_sweep_items: "sweep_items h now items st = Inr st' \<Longrightarrow> noted w st st'"
  by (induction items arbitrary: st) (auto simp: rbind_eq_Inr noted_refl dest!: noted_sweep_one intro: noted_trans)

lemma noted_claim:
  assumes w: "claim_next h st now key long ent = Inr (st', c)"
  shows "noted w st st'"
proof -
  have lease: "notices s' = notices s" "discards s' = discards s" if "lease_run h s d now key ent = Inr (s', c)" for s s' d c
    using that by (elim lease_run_Inr; simp)+
  have due: "noted w s s'" if "claim_due h s d now key ent = Inr (s', c)" for s s' d c
  proof (cases "rt_requested d \<noteq> 0 \<and> rt_next d > now")
    case True
    then show ?thesis using that lease by (auto simp: claim_due_def intro!: noted_same)
  next
    case False
    with that obtain d2 s1 s0 q where "notices s0 = notices s" "discards s0 = discards s" "report_gap h s0 d2 now True = Inr s1"
      "lease_run h s1 q now key ent = Inr (s', c)"
      unfolding claim_due_def if_not_P [OF False] by (elim rbind_InrE) (metis noted_replace(1,3))
    with lease noted_report_gap [of h s0 d2 now True s1 w] show ?thesis by (simp add: noted_def)
  qed
  from w obtain sw where sw: "sweep h st now = Inr sw"
    and rest: "(case claimable sw now long of None \<Rightarrow> Inr (sw, None)
        | Some due \<Rightarrow> rbind (claim_due h sw due now key ent) (\<lambda>(st', c). Inr (st', Some c))) = Inr (st', c)"
    by (auto simp: claim_next_def rbind_eq_Inr split: if_splits)
  have "noted w sw st'" using rest due by (auto simp: rbind_eq_Inr noted_refl split: option.splits)
  then show ?thesis using noted_trans noted_sweep_items [OF sw [unfolded sweep_def]] by blast
qed

lemma noted_healthy: "healthy h st r now = Inr (st', b) \<Longrightarrow> noted w st st'"
  unfolding healthy_def Let_def
  by (elim rbind_InrE) (auto simp: rbind_eq_Inr split: if_splits intro: noted_refl elim!: noted_put_after)

lemma noted_completion:
  assumes w: "completion h st r outcome now shown ent = Inr st'"
  shows "noted (version_after r) st st'"
proof -
  from w obtain current where cur: "find_routine st (rn_routine r) = Some current"
    unfolding completion_def by (elim rbind_InrE) simp
  have quiet: "noted (version_after r) st (quiet st1 current)" if "noted (version_after r) st st1" for st1
    using that by (simp add: quiet_def noted_def)
  have rep: "noted (version_after r) st (replace_routine st c)" for c by (simp add: noted_def)
  show ?thesis
    using w unfolding completion_def Let_def
    by (auto simp: cur get_routine_def rbind_eq_Inr split: if_splits prod.splits option.splits
        intro: quiet noted_refl noted_healthy noted_trans [OF rep] dest: noted_run_notice)
qed

text \<open>A transition publishes for at most one run, and what it published is in the version the run then has.\<close>

definition publishes :: "team \<Rightarrow> team \<Rightarrow> bool" where
  "publishes st st' \<longleftrightarrow> (\<exists>i low high. noted (i, low, high) st st' \<and>
     (low < high \<longrightarrow> (\<exists>r. find_run st i = Some r \<and> rn_version r = low) \<and>
        (\<forall>r'. find_run st' i = Some r' \<longrightarrow> high \<le> rn_version r')))"

lemma publishes_none: "(\<And>w. noted w st st') \<Longrightarrow> publishes st st'"
  unfolding publishes_def by (rule exI [of _ "[]"], rule exI [of _ 0], rule exI [of _ 0]) simp

lemma publishes_same: "notices st' = notices st \<Longrightarrow> set (discards st) \<subseteq> set (discards st') \<Longrightarrow> publishes st st'"
  by (rule publishes_none) (rule noted_same)

lemma publishes_run:
  assumes "find_run st i = Some r" "noted (version_after r) st st'" "\<And>r'. find_run st' i = Some r' \<Longrightarrow> rn_version r < rn_version r'"
  shows "publishes st st'"
  unfolding publishes_def
  by (rule exI [of _ "rn_id r"], rule exI [of _ "rn_version r"], rule exI [of _ "rn_version r + 1"])
     (use assms find_run_key [OF assms(1)] in \<open>auto simp: version_after_def\<close>)

lemma noted_version_after:
  assumes "run_notice h st r outcome now detail ent = Inr (st1, r1, ent1)" "find_run st i = Some r"
    and "notices st' = notices st1" "set (discards st1) \<subseteq> set (discards st')" "find_run st' i = None \<or> find_run st' i = Some r2"
    and "rn_version r2 = rn_version r1"
  shows "publishes st st'"
proof (rule publishes_run [OF assms(2)])
  show "noted (version_after r) st st'" using noted_run_notice [OF assms(1)] assms(3,4) unfolding noted_def by (metis subset_trans)
qed (use assms(5,6) run_notice_run [OF assms(1)] in auto)

lemma find_replaced: "rn_id x = i \<Longrightarrow> find_run (replace_run st x) i = (case find_run st i of None \<Rightarrow> None | Some _ \<Rightarrow> Some x)"
  by (simp add: run_table.lookup_replace)

lemma find_after_notice:
  assumes "run_notice h st r outcome now detail ent = Inr (st1, r1, ent1)" "find_run st i = Some r"
  shows "find_run st1 k = find_run st k" "rn_id r1 = i"
  using gentle_run_notice [OF assms(1)] gentle_find_run find_run_key [OF assms(2)] by auto

lemma replaced_publishes:
  assumes "run_notice h st r outcome now detail ent = Inr (st1, r1, ent1)" "find_run st i = Some r" "st' = replace_run st1 r2"
    and "rn_id r2 = rn_id r1" "rn_version r2 = rn_version r1"
  shows "publishes st st'"
  by (rule noted_version_after [OF assms(1,2), where ?r2.0 = r2])
     (simp_all add: assms(3-5) find_replaced find_after_notice [OF assms(1,2)] assms(2))

lemma find_without: "without_run st i now = Inr st' \<Longrightarrow> find_run st' i = None"
  by (drule without_run_runs) (simp add: find_run_def find_by_filter_key)

lemma without_keeps:
  assumes "without_run st i now = Inr st'"
  shows "notices st' = notices st" "set (discards st) \<subseteq> set (discards st')"
  using assms by (auto simp: without_run_def rbind_eq_Inr)

lemma publishes_completed:
  assumes "completed_run h st r now shown ent = Inr st'" "find_run st i = Some r"
  shows "publishes st st'"
proof -
  from assms(1) obtain st1 outcome where c: "completion h st r outcome now shown ent = Inr st1" and w: "without_run st1 (rn_id r) now = Inr st'"
    by (auto simp: completed_run_def rbind_eq_Inr)
  have "noted (version_after r) st st'"
    using noted_completion [OF c] without_keeps [OF w] unfolding noted_def by (metis subset_trans)
  then show ?thesis
    using find_without [OF w] find_run_key [OF assms(2)] by (intro publishes_run [OF assms(2)]) auto
qed

lemma publishes_run_transitions:
  "freeze h st i l now q ent = Inr st' \<Longrightarrow> publishes st st'"
  "end_run h st i now outcome detail status ent = Inr st' \<Longrightarrow> publishes st st'"
  "finish h st i l now shown ent = Inr st' \<Longrightarrow> publishes st st'"
  "complete_recovered h st i sha now shown ent = Inr st' \<Longrightarrow> publishes st st'"
proof -
  assume "freeze h st i l now q ent = Inr st'"
  then show "publishes st st'"
  proof (rule freeze_Inr)
    fix r st1 r1 ent1
    assume r: "find_run st i = Some r"
      and n: "run_notice h st r ''frozen'' now (object [(''request_kind'', text_value (rq_kind q))]) ent = Inr (st1, r1, ent1)"
      and st': "st' = replace_run st1 (r1\<lparr>rn_status := Frozen, rn_lease := [], rn_key := [],
               rn_expires := 0, rn_request := rq_kind q, rn_assistant := rq_assistant q, rn_action := rq_action q\<rparr>)"
    show ?thesis
      by (rule replaced_publishes [OF n r st']) simp_all
  qed
next
  assume "end_run h st i now outcome detail status ent = Inr st'"
  then show "publishes st st'"
  proof (rule end_run_Inr)
    fix r st1 r1 ent1
    assume r: "find_run st i = Some r" and n: "run_notice h st r outcome now detail ent = Inr (st1, r1, ent1)"
      and w: "without_run st1 i now = Inr st'"
    show ?thesis
      by (rule noted_version_after [OF n r, where ?r2.0 = r1]) (use without_keeps [OF w] find_without [OF w] in auto)
  qed
qed (auto simp: finish_def complete_recovered_def rbind_eq_Inr live_lease_Inr read_lease_Inr intro: publishes_completed)

lemma publishes_skip:
  assumes "team_inv st" "skip_incident h st i now e ent = Inr st'"
  shows "publishes st st'"
  using assms
proof (rule skip_incident_Inr)
  fix r st1 r1 ent1
  assume r: "find_run st i = Some r" and n: "run_notice h st r ''user-skipped'' now (object []) ent = Inr (st1, r1, ent1)"
    and st': "st' = replace_run st1 (r1\<lparr>rn_status := Skipped\<rparr>)"
  show ?thesis by (rule replaced_publishes [OF n r st']) simp_all
qed

lemma publishes_frame:
  "publishes st st1 \<Longrightarrow> notices st' = notices st1 \<Longrightarrow> discards st' = discards st1 \<Longrightarrow> runs st' = runs st1 \<Longrightarrow> publishes st st'"
  by (simp add: publishes_def noted_def find_run_def)

lemma set_paused_frame: "set_paused st i p = Inr st' \<Longrightarrow> notices st' = notices st \<and> discards st' = discards st \<and> runs st' = runs st"
  by (auto simp: set_paused_def rbind_eq_Inr replace_routine_def split: if_splits)

lemma publishes_settle:
  assumes inv: "team_inv st" and w: "settle_hold h st i now step ent = Inr st'"
  shows "publishes st st'"
  using w
proof (rule settle_hold_Inr)
  fix r and current :: routine and st1 r1 ent1 r2
  let ?st2 = "ended (replace_run st1 r2) r2 now"
  assume r: "find_run st i = Some r" "rn_status r = Held"
    and n: "run_notice h st r ''held'' now (object []) ent = Inr (st1, r1, ent1)"
    and r2: "r2 = r1\<lparr>rn_status := Unresolved, rn_assistant := fst step, rn_action := fst (snd step),
        rn_position := fst (snd (snd step)), rn_steps := snd (snd (snd step))\<rparr>"
    and last: "(if rt_deleting current then skip_incident h ?st2 i now None ent1 else Inr ?st2) = Inr st'"
  note f1 = find_after_notice [OF n r(1)] and v = run_notice_run [OF n] and id = find_run_key [OF r(1)]
  have v2: "rn_id r2 = i" "rn_version r2 = rn_version r + 1" using f1(2) v by (simp_all add: r2)
  have f2: "find_run ?st2 i = Some r2"
    using gentle_find_run [OF gentle_ended] f1(1) r(1) v2(1) by (simp add: find_replaced)
  have n2: "noted (version_after r) st ?st2" using noted_run_notice [OF n] unfolding noted_def by auto
  show ?thesis
  proof (cases "rt_deleting current")
    case False
    with last f2 v2 n2 show ?thesis by (intro publishes_run [OF r(1)]) auto
  next
    case True
    have "team_inv (replace_run st1 r2)"
      using gentle_run_notice [OF n] r v2 id by (intro calmer_after [OF inv, where q = r])
        (auto simp: r2 calmer_def run_ok_def machine_def pending_def frozen_def live_def)
    then have inv2: "team_inv ?st2" by (rule gentle_inv [OF gentle_ended])
    from True last have sk: "skip_incident h ?st2 i now None ent1 = Inr st'" by simp
    from inv2 sk show ?thesis
    proof (rule skip_incident_Inr)
      fix r3 st3 r4 ent3
      assume r3: "find_run ?st2 i = Some r3" and n3: "run_notice h ?st2 r3 ''user-skipped'' now (object []) ent1 = Inr (st3, r4, ent3)"
        and st': "st' = replace_run st3 (r4\<lparr>rn_status := Skipped\<rparr>)"
      have "r3 = r2" using r3 f2 by simp
      let ?w = "(i, rn_version r, rn_version r + 2)"
      have wide: "written (version_after r) m \<Longrightarrow> written ?w m" "written (version_after r2) m \<Longrightarrow> written ?w m" for m
        using v2 id by (auto simp: written_def version_after_def)
      have "noted ?w st ?st2" using n2 wide(1) unfolding noted_def by blast
      moreover have "noted ?w ?st2 st3" using noted_run_notice [OF n3] wide(2) unfolding noted_def \<open>r3 = r2\<close> by blast
      ultimately have "noted ?w st st3" by (rule noted_trans)
      then have "noted ?w st st'" by (simp add: noted_def st')
      moreover have "find_run st' i = Some (r4\<lparr>rn_status := Skipped\<rparr>)"
        using find_after_notice [OF n3 r3] r3 by (simp add: st' find_replaced)
      moreover have "rn_version r4 = rn_version r + 2" using run_notice_run [OF n3] v2 \<open>r3 = r2\<close> by simp
      ultimately show ?thesis unfolding publishes_def using r(1) by (intro exI [of _ i] exI [of _ "rn_version r"] exI) auto
    qed
  qed
qed

lemma publishes_incident_transitions:
  assumes inv: "team_inv st"
  shows "run_incident h st i now x ent = Inr st' \<Longrightarrow> publishes st st'"
    "pause_incident h st i now reason ent = Inr st' \<Longrightarrow> publishes st st'"
proof -
  assume "run_incident h st i now x ent = Inr st'"
  with inv show "publishes st st'"
  proof (rule run_incident_Inr)
    fix r st1 st2 current
    assume skip: "skip_incident h st i now (Some x) ent = Inr st1" and p: "set_paused st1 (rn_routine r) False = Inr st2"
      and st': "st' = replace_routine st2 (current\<lparr>rt_requested := now\<rparr>)"
    show ?thesis
      by (rule publishes_frame [OF publishes_skip [OF inv skip]]) (use set_paused_frame [OF p] in \<open>simp_all add: st' replace_routine_def\<close>)
  qed
next
  assume "pause_incident h st i now reason ent = Inr st'"
  then obtain r st1 st2 r1 ent1 where r: "find_run st i = Some r" and p: "set_paused st (rn_routine r) True = Inr st1"
    and n: "run_notice h st1 r ''paused'' now (object [(''reason'', text_value (reason_name reason))]) ent = Inr (st2, r1, ent1)"
    and st': "st' = replace_run st2 r1"
    unfolding pause_incident_def
    by (elim rbind_InrE) (auto simp: rbind_eq_Inr incident_iff [OF inv] split: if_splits prod.splits)
  have f: "find_run st1 i = Some r" using set_paused_frame [OF p] r by (simp add: find_run_def)
  have "publishes st1 st'" by (rule replaced_publishes [OF n f st']) simp_all
  then show "publishes st st'" using set_paused_frame [OF p] by (simp add: publishes_def noted_def find_run_def)
qed

lemma noted_routine_transitions:
  "create h st r now usage steps ent = Inr st' \<Longrightarrow> noted w st st'"
  "add_routine h st r = Inr st' \<Longrightarrow> noted w st st'"
  "update h st r n now ent = Inr st' \<Longrightarrow> noted w st st'"
  "refine h st r n now ent = Inr st' \<Longrightarrow> noted w st st'"
  "set_paused st i p = Inr st' \<Longrightarrow> noted w st st'"
  "begin_delete st i = Inr (st', rs) \<Longrightarrow> noted w st st'"
  "complete_delete h st i now ent = Inr st' \<Longrightarrow> noted w st st'"
  "mark_scope_changed h st i now ent = Inr st' \<Longrightarrow> noted w st st'"
proof -
  have add: "notices st' = notices st" "discards st' = discards st" if "add_routine h st r = Inr st'" for st'
    using that by (auto simp: add_routine_def rbind_eq_Inr split: if_splits)
  have changed: "noted w st st'" if "put_changed h st r now ent = Inr st'" for r
    using that by (auto simp: put_changed_def rbind_eq_Inr split: prod.splits elim!: noted_put_after)
  have after: "noted w st st2" if "put_notice h st n = Inr st1" "nt_run n = []" "notices st2 = notices st1" "discards st2 = discards st1" for n st1 st2
    using noted_put [OF that(1), of w] that(2-4) by (simp add: noted_def written_def)
  show "add_routine h st r = Inr st' \<Longrightarrow> noted w st st'" using add by (intro noted_same) auto
  show "create h st r now usage steps ent = Inr st' \<Longrightarrow> noted w st st'"
    by (auto simp: create_def rbind_eq_Inr split: prod.splits dest: add elim!: noted_put_after)
  show "update h st r n now ent = Inr st' \<Longrightarrow> noted w st st'"
    by (auto simp: update_def rbind_eq_Inr intro: changed)
  show "refine h st r n now ent = Inr st' \<Longrightarrow> noted w st st'"
    by (auto simp: refine_def rbind_eq_Inr split: if_splits intro: changed)
  show "complete_delete h st i now ent = Inr st' \<Longrightarrow> noted w st st'"
    by (auto simp: complete_delete_def rbind_eq_Inr split: if_splits prod.splits elim!: after)
  show "mark_scope_changed h st i now ent = Inr st' \<Longrightarrow> noted w st st'"
    by (auto simp: mark_scope_changed_def rbind_eq_Inr split: prod.splits elim!: after)
qed (auto simp: set_paused_def begin_delete_def rbind_eq_Inr split: if_splits intro: noted_same)

lemma noted_incident_transitions:
  "spend st i l now s ms = Inr st' \<Longrightarrow> noted w st st'"
  "bind_generation st i l now network = Inr st' \<Longrightarrow> noted w st st'"
  "lose_protection st i = Inr st' \<Longrightarrow> noted w st st'"
  "thaw h st i now n ent = Inr (st', token) \<Longrightarrow> noted w st st'"
  "fence st i l now = Inr st' \<Longrightarrow> noted w st st'"
  "hold_recovered st i sha = Inr st' \<Longrightarrow> noted w st st'"
  "spend_incident st i s = Inr st' \<Longrightarrow> noted w st st'"
  "reopen_incident h st i now g ent = Inr (st', token) \<Longrightarrow> noted w st st'"
  "release_incident st i = Inr st' \<Longrightarrow> noted w st st'"
proof -
  show "thaw h st i now n ent = Inr (st', token) \<Longrightarrow> noted w st st'"
    by (erule thaw_Inr) (simp add: noted_same)
  show "reopen_incident h st i now g ent = Inr (st', token) \<Longrightarrow> noted w st st'"
    by (auto simp: reopen_incident_def rbind_eq_Inr Let_def split: if_splits prod.splits intro!: noted_same)
qed (auto simp: spend_def bind_generation_def lose_protection_def fence_def hold_recovered_def held_def spend_incident_def
      release_incident_def rbind_eq_Inr Let_def split: if_splits option.splits intro: noted_same noted_refl)

lemma transition_publishes:
  assumes "team_inv st" "transition h e st = Inr st'" "\<And>ds. e \<noteq> Acknowledge ds" "\<And>i g. e \<noteq> Discarded i g"
    and "\<And>n. e = Put_notice n \<Longrightarrow> nt_run n = []"
  shows "publishes st st'"
proof (cases e)
  case (Put_notice n)
  then show ?thesis using assms(2,5) by (intro publishes_none) (auto simp: written_def intro: noted_put)
qed (use assms in \<open>auto simp: first_Inr sweep_def intro: publishes_none noted_routine_transitions noted_incident_transitions
    noted_sweep_items noted_claim publishes_run_transitions publishes_skip publishes_settle publishes_incident_transitions\<close>)

lemma transition_discards:
  assumes "team_inv st" "transition h e st = Inr st'" "p \<in> set (discards st)" "e \<noteq> Discarded (fst p) (snd p)"
  shows "p \<in> set (discards st')"
proof (cases "(\<exists>ds. e = Acknowledge ds) \<or> (\<exists>i g. e = Discarded i g) \<or> (\<exists>n. e = Put_notice n)")
  case True
  then show ?thesis
    using assms(2-4) put_notice_frame(4) by (auto simp: acknowledge_def discarded_def)
next
  case False
  then have "publishes st st'" by (intro transition_publishes [OF assms(1,2)]) auto
  then show ?thesis using assms(3) by (auto simp: publishes_def noted_def)
qed

section \<open>Versions\<close>










end
