(* ===== verification/Routine_Properties.thy ===== *)
theory Routine_Properties
  imports Routine_Notices
begin

text \<open>
  What a Team's runs promise over every sequence of transitions: the bounds and the exclusion of runs, the run machine
  they refine, and what happens to leases, protection and generations. Each property with a hypothesis is applied to the
  Team of \<open>Routine_Example\<close>.
\<close>

section \<open>Bounds and exclusion\<close>

text \<open>C6: In every state a Team reaches: run, Routine and notice ids are unique; a Routine has at most one live run and
  at most one run is leased to the worker; a live run executes its Routine's current revision; a frozen or held run has no
  lease; at most 8 Routines, 8 frozen runs, 32 live or unresolved runs, 64 kept runs and 56 undelivered notices are kept; the
  Routines' daily steps fit 20000 and their definitions one MiB; and the steps started in the rolling day fit 20000.\<close>

theorem team_invariant:
  assumes "reached h st"
  shows "distinct (map rt_id (routines st)) \<and> distinct (map rn_id (runs st)) \<and> distinct (map nt_id (notices st)) \<and>
    (\<forall>i. length (filter (\<lambda>x. live (rn_status x) \<and> rn_routine x = i) (runs st)) \<le> 1) \<and>
    length (filter (\<lambda>x. rn_status x = Leased \<and> rn_key x \<noteq> HUMAN_LEASE) (runs st)) \<le> 1 \<and>
    (\<forall>x \<in> set (runs st). \<exists>r \<in> set (routines st). rt_id r = rn_routine x \<and> (live (rn_status x) \<longrightarrow> rt_revision r = rn_revision x)) \<and>
    (\<forall>x \<in> set (runs st). rn_status x \<in> {Frozen, Held} \<longrightarrow> rn_lease x = [] \<and> rn_key x = []) \<and>
    length (routines st) \<le> 8 \<and> length (filter (\<lambda>x. rn_status x = Frozen) (runs st)) \<le> 8 \<and>
    length (filter (\<lambda>x. live (rn_status x) \<or> rn_status x = Unresolved) (runs st)) \<le> 32 \<and> length (runs st) \<le> 64 \<and>
    length (notices st) \<le> 56 \<and> sum_list (map daily_steps (routines st)) \<le> 20000 \<and>
    sum_list (map definition_bytes (routines st)) \<le> 1048576 \<and> sum_list (map (snd \<circ> snd) (starts st)) \<le> 20000"
proof -
  note inv = reached_inv [OF assms, unfolded team_inv_def]
  have "\<exists>r \<in> set (routines st). rt_id r = rn_routine x \<and> (live (rn_status x) \<longrightarrow> rt_revision r = rn_revision x)"
    if "x \<in> set (runs st)" for x
    using that inv routine_table.lookup_Some_mem find_routine_key by (fastforce simp: link_inv_def linked_def)
  then show ?thesis
    using inv
    by (simp add: routines_inv_def runs_inv_def notices_inv_def starts_inv_def run_count_def live_of_def [abs_def]
        machine_def [abs_def] pending_def [abs_def] frozen_def [abs_def] run_ok_def MAX_ROUTINES_def MAX_FROZEN_RUNS_def
        MAX_UNRESOLVED_INCIDENTS_def MAX_RUNS_def MAX_UNDELIVERED_NOTICES_def MAX_ROUTINE_NOTICES_def MAX_DAILY_STEPS_def
        TEAM_DEFINITION_BYTES_def)
qed

theorem team_invariant_witness: "reached example_host example_claimed \<and> length (runs example_claimed) \<le> 64"
  using team_invariant [OF example_reached(2)] example_reached(2) by simp

section \<open>The life of a run\<close>

text \<open>C7: Refinement. Whatever transition a reached Team makes, every run moves as the abstract run machine allows: it stays,
  it is born leased by a claim, it is frozen, fenced, bound or charged by the holder of its live lease, leased again only by a
  thaw or a reopening, set aside, or removed by its end; its Routine, its revision and its lost protection never change back.\<close>

theorem runs_follow_machine:
  assumes "reached h st" "fresh_event h st e" "transition h e st = Inr st'"
  shows "run_step e (find_run st i) (find_run st' i)"
  using transition_simulates [OF reached_inv [OF assms(1)] assms(2,3)] by (simp add: simulates_def)

theorem runs_follow_machine_witness:
  "run_step example_claim (find_run example_created example_run) (find_run example_claimed example_run) \<and>
   find_run example_created example_run = None \<and> find_run example_claimed example_run \<noteq> None"
  using runs_follow_machine [OF example_reached(1) example_claim_fresh example_claim_step, of example_run]
  by (simp add: find_run_def example_created_def example_claimed_def empty_team_def example_leased_def run_new_def)

text \<open>The events that may lease a run again: its thaw, its reopening, and a claim that mints its id.\<close>

fun leases_again :: "string \<Rightarrow> event \<Rightarrow> bool" where
  "leases_again i (Thaw k now n ent) \<longleftrightarrow> k = i"
| "leases_again i (Reopen k now g ent) \<longleftrightarrow> k = i"
| "leases_again i (Claim now key long ent) \<longleftrightarrow> minted ent = Some i"
| "leases_again i _ \<longleftrightarrow> False"

definition unleased :: "run option \<Rightarrow> bool" where
  "unleased x \<longleftrightarrow> (\<forall>r. x = Some r \<longrightarrow> rn_status r \<noteq> Leased)"

lemma unleased_step:
  assumes "unleased x" "\<not> leases_again i e" "\<And>r. x = Some r \<Longrightarrow> rn_id r = i" "\<And>r. y = Some r \<Longrightarrow> rn_id r = i" "run_step e x y"
  shows "unleased y"
  using assms(5)
proof cases
  case (born r key now ent long)
  then show ?thesis using assms(2) assms(4) [of r] by simp
next
  case (moved r' r)
  have "rn_status r \<noteq> Leased" "rn_id r = i" using assms(1) assms(3) [of r] moved by (simp_all add: unleased_def)
  then have "rn_status r' \<noteq> Leased" using moved(3) assms(2) by (cases e) (auto simp: lease_ok_def split: if_splits)
  then show ?thesis using moved(2) by (simp add: unleased_def)
qed (use assms(1) in \<open>simp_all add: unleased_def\<close>)

text \<open>C9: A revoked lease stays revoked. Once a run of a reached Team is not leased (it was frozen, fenced, held, set aside
  or ended), no sequence of transitions without its thaw, its reopening or a claim minting its id makes any lease on it
  valid: every lease-checked operation keeps refusing.\<close>

theorem revoked_lease_stays_refused:
  assumes "reached h st" "fresh_events h es st" "\<forall>r. find_run st i = Some r \<longrightarrow> rn_status r \<noteq> Leased"
    and "list_all (\<lambda>e. \<not> leases_again i e) es"
  shows "\<exists>code. live_lease (apply_events h es st) i l now = Inl code"
proof -
  have "unleased (find_run st i)" using assms(3) by (simp add: unleased_def)
  then have "unleased (find_run (apply_events h es st) i)"
    by (rule run_invariant [where P = unleased, OF reached_inv [OF assms(1)] assms(2) _ assms(4) unleased_step, THEN conjunct1])
  then have "live_lease (apply_events h es st) i l now \<noteq> Inr r" for r
    by (auto simp: lease_ok_Inr lease_ok_def unleased_def)
  then show ?thesis by (cases "live_lease (apply_events h es st) i l now") auto
qed

theorem revoked_lease_stays_refused_witness:
  "is_ok (live_lease example_claimed example_run example_lease 2100) \<and>
   transition example_host example_freeze example_claimed = Inr example_frozen \<and>
   (\<exists>code. live_lease (apply_events example_host [Lose_protection example_run, Sweep 2500] example_frozen) example_run
      example_lease 2101 = Inl code)"
proof (intro conjI)
  show "is_ok (live_lease example_claimed example_run example_lease 2100)" by code_simp
  show "\<exists>code. live_lease (apply_events example_host [Lose_protection example_run, Sweep 2500] example_frozen) example_run
      example_lease 2101 = Inl code"
    by (rule revoked_lease_stays_refused [OF example_frozen_reached])
       (simp_all add: find_run_def example_frozen_def example_frozen_run_def)
qed (rule example_freeze_step)

definition lost_of :: "string \<Rightarrow> string \<Rightarrow> int \<Rightarrow> run option \<Rightarrow> bool" where
  "lost_of i routine revision x \<longleftrightarrow>
     (\<forall>r. x = Some r \<longrightarrow> rn_lost r \<and> rn_routine r = routine \<and> rn_revision r = revision)"

lemma lost_step:
  assumes "lost_of i routine revision x" "\<not> (\<exists>now key long ent. e = Claim now key long ent \<and> minted ent = Some i)"
    "\<And>r. x = Some r \<Longrightarrow> rn_id r = i" "\<And>r. y = Some r \<Longrightarrow> rn_id r = i" "run_step e x y"
  shows "lost_of i routine revision y"
  using assms(5)
proof cases
  case (born r key now ent long)
  then show ?thesis using assms(2) assms(4) [of r] by blast
qed (use assms(1) in \<open>simp_all add: lost_of_def same_run_def\<close>)

text \<open>C38: Lost protection is never forgotten. A run whose protection was lost keeps the mark, with its Routine and its
  revision, through every sequence of transitions for as long as the Team keeps the run and no claim mints its id again.\<close>

theorem lost_protection_kept:
  assumes "reached h st" "fresh_events h es st" "find_run st i = Some r" "rn_lost r"
    and "list_all (\<lambda>e. \<not> (\<exists>now key long ent. e = Claim now key long ent \<and> minted ent = Some i)) es"
    and "find_run (apply_events h es st) i = Some r'"
  shows "rn_lost r' \<and> rn_routine r' = rn_routine r \<and> rn_revision r' = rn_revision r"
proof -
  have "lost_of i (rn_routine r) (rn_revision r) (find_run st i)" using assms(3,4) by (simp add: lost_of_def)
  then have "lost_of i (rn_routine r) (rn_revision r) (find_run (apply_events h es st) i)"
    by (rule run_invariant [where P = "lost_of i (rn_routine r) (rn_revision r)",
          OF reached_inv [OF assms(1)] assms(2) _ assms(5) lost_step, THEN conjunct1])
  then show ?thesis using assms(6) by (simp add: lost_of_def)
qed

definition example_lost :: team where
  "example_lost = example_claimed\<lparr>runs := [example_leased\<lparr>rn_lost := True\<rparr>]\<rparr>"

lemma example_lost_reached: "reached example_host example_lost"
  by (rule reached.step [OF example_reached(2), of "Lose_protection example_run"])
     (simp_all add: lose_protection_def get_run_def find_run_def example_claimed_def example_lost_def replace_run_def
      example_leased_def run_new_def ok_or_def rbind_def)

lemma example_lost_frozen:
  "find_run (apply_events example_host [example_freeze] example_lost) example_run = Some (example_frozen_run\<lparr>rn_lost := True\<rparr>)"
  by code_simp

theorem lost_protection_kept_witness:
  "find_run (apply_events example_host [example_freeze] example_lost) example_run = Some (example_frozen_run\<lparr>rn_lost := True\<rparr>) \<and>
   rn_status (example_frozen_run\<lparr>rn_lost := True\<rparr>) = Frozen \<and> rn_lost (example_frozen_run\<lparr>rn_lost := True\<rparr>) \<and>
   rn_revision (example_frozen_run\<lparr>rn_lost := True\<rparr>) = rn_revision (example_leased\<lparr>rn_lost := True\<rparr>)"
  using lost_protection_kept [OF example_lost_reached, of "[example_freeze]" example_run "example_leased\<lparr>rn_lost := True\<rparr>",
      OF _ _ _ _ example_lost_frozen] example_lost_frozen
  by (simp add: find_run_def example_lost_def example_leased_def run_new_def example_freeze_def example_frozen_run_def)

section \<open>Leases and generations\<close>

text \<open>A thawed run is leased to the person's turn. The token a thaw answers is a lease on exactly that run, with the
  human key, valid as long as the run has active time, until that time and a margin of 300 seconds have passed; and the run's
  request count never goes back.\<close>

theorem thaw_leases:
  assumes "thaw h st i now n ent = Inr (st', token)" "find_run st i = Some r"
  shows "rn_status r = Frozen \<and> (\<exists>r'. find_run st' i = Some r' \<and> same_run r r' \<and> rn_requests r' = max (rn_requests r) n \<and>
    (live_lease st' i (lease_of h token HUMAN_LEASE) t = Inr r' \<longleftrightarrow> 0 < rn_active r \<and> t < now + rn_active r + 300))"
  using assms(1)
proof (rule thaw_Inr)
  fix r0 r'
  assume r0: "find_run st i = Some r0" "rn_status r0 = Frozen" "human_lease h r0 now ent = Inr (r', token)"
    and st': "st' = replace_run st (r'\<lparr>rn_requests := max (rn_requests r0) n\<rparr>)"
  have eq: "r0 = r" using r0(1) assms(2) by simp
  have active: "rn_active r' = rn_active r0" using r0(3) by (auto simp: human_lease_def rbind_eq_Inr)
  note hl = human_lease_Inr [OF r0(3)] and hk = human_lease_keeps [OF r0(3)]
  have id: "rn_id r' = i" using hl(1) find_run_key [OF r0(1)] by simp
  have f: "find_run st' i = Some (r'\<lparr>rn_requests := max (rn_requests r0) n\<rparr>)"
    using r0(1) id by (simp add: st' run_table.lookup_replace)
  then show ?thesis
    using hl hk id r0(2) active find_run_key [OF r0(1)] unfolding eq
    by (auto simp: same_run_def lease_ok_Inr lease_ok_def lease_of_def lease_until_def LEASE_MARGIN_SECONDS_def)
qed

definition example_frozen :: team where
  "example_frozen = example_claimed\<lparr>runs := [example_leased\<lparr>rn_status := Frozen, rn_lease := [], rn_key := []\<rparr>]\<rparr>"

theorem thaw_leases_witness:
  "\<exists>st' token. thaw example_host example_frozen example_run 5000 2 [Some (replicate 32 7)] = Inr (st', token) \<and>
     (\<exists>r'. live_lease st' example_run (lease_of example_host token HUMAN_LEASE) 5600 = Inr r')"
proof -
  have "is_ok (thaw example_host example_frozen example_run 5000 2 [Some (replicate 32 7)])" by code_simp
  then obtain st' token where th: "thaw example_host example_frozen example_run 5000 2 [Some (replicate 32 7)] = Inr (st', token)"
    by (auto simp: is_ok_def split: sum.splits)
  have "find_run example_frozen example_run = Some (example_leased\<lparr>rn_status := Frozen, rn_lease := [], rn_key := []\<rparr>)"
    by (simp add: find_run_def example_frozen_def example_leased_def run_new_def)
  from thaw_leases [OF th this, of 5600] th show ?thesis by (auto simp: example_leased_def run_new_def)
qed

lemma takeWhile_network:
  "network_re n \<Longrightarrow> takeWhile (\<lambda>c. c \<noteq> CHR '':'') (n @ CHR '':'' # rest) = n"
proof -
  assume "network_re n"
  then have "\<forall>c \<in> set n. c \<noteq> CHR '':''"
    by (cases n) (auto simp: network_re_def first_rest_def list_all_iff alnum_def digit_def lower_def upper_def between_def)
  then show ?thesis by (simp add: takeWhile_tail takeWhile_append2)
qed

lemma generation_parts_for:
  assumes "network_re n" "routine_id_re i" "suffix \<in> {[], ''s1'', ''v1''}"
  shows "generation_parts (generation_for n i suffix) = Some (n, i)"
proof -
  define tail where "tail = (if suffix = [] then [] else CHR '':'' # suffix)"
  have len: "length i = 32" using assms(2) by (simp add: routine_id_re_def exactly_def)
  have g: "generation_for n i suffix = n @ CHR '':'' # (''routine:'' @ i @ tail)"
    by (simp add: generation_for_def tail_def)
  show ?thesis
    unfolding generation_parts_def Let_def g takeWhile_network [OF assms(1)]
    using assms len by (auto simp: tail_def)
qed

lemma network_of_split:
  assumes "network_of g i = Some n"
  shows "network_re n \<and> routine_id_re i \<and> (\<exists>suffix \<in> {[], ''s1'', ''v1''}. g = generation_for n i suffix)"
proof -
  define rest where "rest = drop (length n) g"
  from assms have n: "n = takeWhile (\<lambda>c. c \<noteq> CHR '':'') g" and i: "i = take 32 (drop 9 rest)" and re: "network_re n" "routine_id_re i"
    and head: "take 9 rest = '':routine:''" and suffix: "drop 41 rest \<in> {[], '':s1'', '':v1''}"
    by (auto simp: network_of_def generation_parts_def Let_def rest_def split: if_splits option.splits)
  have "g = n @ rest" unfolding rest_def n by (metis append_eq_conv_conj takeWhile_dropWhile_id)
  moreover have "drop 9 rest = take 32 (drop 9 rest) @ drop 41 rest"
    using append_take_drop_id [of 32 "drop 9 rest"] by (simp add: drop_drop)
  then have "rest = take 9 rest @ take 32 (drop 9 rest) @ drop 41 rest"
    using append_take_drop_id [of 9 rest] by metis
  ultimately have "g = n @ '':routine:'' @ i @ drop 41 rest" using head i by simp
  with re suffix show ?thesis by (auto simp: generation_for_def)
qed

text \<open>A run's generation names its network and its run. For a network id and a run id of the declared shapes, the
  generation built from them with any of the three suffixes reads back as exactly them; and every generation that reads as
  a run's is one of those three.\<close>

theorem generation_roundtrip:
  "(network_re n \<and> routine_id_re i \<and> suffix \<in> {[], ''s1'', ''v1''} \<longrightarrow> network_of (generation_for n i suffix) i = Some n) \<and>
   (network_of g i = Some n \<longleftrightarrow> network_re n \<and> routine_id_re i \<and> g \<in> generation_for n i ` {[], ''s1'', ''v1''})"
proof -
  have reads: "network_of (generation_for n i s) i = Some n" if "network_re n" "routine_id_re i" "s \<in> {[], ''s1'', ''v1''}" for s
    using generation_parts_for [OF that] by (simp add: network_of_def)
  show ?thesis
  proof (intro conjI impI iffI)
    show "g \<in> generation_for n i ` {[], ''s1'', ''v1''}" "network_re n" "routine_id_re i" if "network_of g i = Some n"
      using network_of_split [OF that] by blast+
  qed (use reads in blast)+
qed

theorem generation_roundtrip_witness:
  "network_of (generation_for ''team-net'' (example_hex 32) ''v1'') (example_hex 32) = Some ''team-net''"
proof -
  have "network_re ''team-net'' \<and> routine_id_re (example_hex 32)" by code_simp
  with generation_roundtrip [of "''team-net''" "example_hex 32" "''v1''" "[]"] show ?thesis by blast
qed

section \<open>Discards\<close>

lemma without_run_discards:
  assumes "without_run st1 i now = Inr st'" "find_run st1 i = Some r"
  shows "(i, rn_generation r) \<in> set (discards st')"
proof -
  have "discards (rebase_continuous s k t) = discards s" for s k t
    by (simp add: rebase_continuous_def replace_routine_def split: option.splits)
  then show ?thesis using assms find_run_key [OF assms(2)] by (auto simp: without_run_def rbind_eq_Inr ended_def)
qed

lemma events_keep_discards:
  assumes "team_inv st" "fresh_events h es st" "p \<in> set (discards st)" "Discarded (fst p) (snd p) \<notin> set es"
  shows "p \<in> set (discards (apply_events h es st))"
  using assms
proof (induction es arbitrary: st)
  case (Cons e es)
  have "team_inv (apply_event h e st) \<and> p \<in> set (discards (apply_event h e st))"
    using Cons.prems transition_inv [of st h e] transition_discards [of st h e]
    by (auto simp: apply_event_def split: sum.splits)
  with Cons show ?case by simp
qed simp

text \<open>C29: No generation is forgotten. When a transition of a reached Team removes a run in any way but the release of a
  skipped incident, the run's journal generation is queued to be discarded; and whatever is queued stays queued through every
  sequence of transitions until the discard of exactly that run and generation.\<close>

theorem ended_runs_discarded:
  assumes "reached h st" "fresh_event h st e" "transition h e st = Inr st'" "find_run st i = Some r" "find_run st' i = None"
    and "e \<noteq> Release i" "fresh_events h es st'"
  shows "(i, rn_generation r) \<in> set (discards st') \<and>
    (\<forall>p \<in> set (discards st'). Discarded (fst p) (snd p) \<notin> set es \<longrightarrow> p \<in> set (discards (apply_events h es st'))) \<and>
    (i, rn_generation r) \<notin> set (discards (discarded st' i (rn_generation r)))"
proof -
  note inv = reached_inv [OF assms(1)]
  have "run_step e (Some r) None"
    using transition_simulates [OF inv assms(2,3)] assms(4,5) by (auto simp: simulates_def dest: spec [of _ i])
  then have ends: "ends_run e r" by cases auto
  have id: "rn_id r = i" by (rule find_run_key [OF assms(4)])
  have completed: "(i, rn_generation r) \<in> set (discards st')" if "completed_run h st r now shown ent = Inr st'" for now shown ent
    using that without_run_discards [of _ i now st' r] id gentle_find_run [OF gentle_completion] assms(4)
    by (auto simp: completed_run_def rbind_eq_Inr)
  have "(i, rn_generation r) \<in> set (discards st')"
    using ends
  proof (cases e)
    case (End k now outcome detail status ent)
    with ends id assms(3) have "end_run h st i now outcome detail status ent = Inr st'" by simp
    then show ?thesis
      by (rule end_run_Inr) (use assms(4) gentle_run_notice gentle_find_run without_run_discards in fastforce)
  qed (use assms(3,4,6) id completed in \<open>auto simp: finish_def complete_recovered_def rbind_eq_Inr live_lease_Inr read_lease_Inr\<close>)
  moreover have "p \<in> set (discards (apply_events h es st'))" if "p \<in> set (discards st')" "Discarded (fst p) (snd p) \<notin> set es" for p
    using events_keep_discards [OF transition_inv [OF inv assms(2,3)] assms(7) that] .
  ultimately show ?thesis by (auto simp: discarded_def)
qed

theorem ended_runs_discarded_witness:
  "\<exists>st'. transition example_host (End example_run 2500 ''stopped'' (object []) None []) example_claimed = Inr st' \<and>
     (example_run, []) \<in> set (discards (apply_events example_host [Sweep 9000, Discarded ''other'' []] st'))"
proof -
  let ?e = "End example_run 2500 ''stopped'' (object []) None []"
  have "is_ok (transition example_host ?e example_claimed) \<and>
      (case transition example_host ?e example_claimed of Inl _ \<Rightarrow> False | Inr st \<Rightarrow> runs st = [])" by code_simp
  then obtain st' where st': "transition example_host ?e example_claimed = Inr st'" "runs st' = []"
    by (auto simp: is_ok_def split: sum.splits)
  have "find_run example_claimed example_run = Some example_leased"
    by (simp add: find_run_def example_claimed_def example_leased_def run_new_def)
  moreover have "rn_generation example_leased = []" "example_run \<noteq> ''other''" by code_simp+
  ultimately show ?thesis
    using ended_runs_discarded [OF example_reached(2) _ st'(1), of example_run example_leased "[Sweep 9000, Discarded ''other'' []]"] st'
    by (auto simp: find_run_def)
qed

end
