(* ===== verification/Routine_Changes.thy ===== *)
theory Routine_Changes
  imports Routine_Notices
begin

text \<open>
  What happens to a Routine: how a claim advances its schedule, how failures pause it, how changes are serialised by its
  revision, and how its deletion is final.
\<close>

section \<open>Claims\<close>

lemma next_after_later: "next_after h r after = Inr t \<Longrightarrow> after < t"
  using next_run_facts [of "h_zones h" "rt_schedule r" "at (rt_plan r) ''timezone''" "rt_anchor r" after t]
  by (auto simp: next_after_def split: sum.splits)

lemma count_before_reaches: "count_before h r start limit = Inr (n, t) \<Longrightarrow> limit \<le> t"
  by (auto simp: count_before_def rbind_eq_Inr split: if_splits dest!: next_after_later)

lemma advance_due_later: "advance_due h due now = Inr d \<Longrightarrow> now < rt_next d"
  by (erule advance_due_cases) (auto simp: miss_def dest: next_after_later count_before_reaches split: if_splits)

text \<open>What a claim leaves of the Routine it runs: everything but the schedule's position, the counted misses and the request.\<close>

definition same_standing :: "routine \<Rightarrow> routine \<Rightarrow> bool" where
  "same_standing q r \<longleftrightarrow> same_definition q r \<and> rt_paused r = rt_paused q \<and> rt_reconfirm r = rt_reconfirm q"

lemma report_gap_routine:
  assumes "report_gap h st r now fl = Inr st'" "find_routine st (rt_id r) = Some r"
  shows "find_routine st' (rt_id r) = Some r \<or> find_routine st' (rt_id r) = Some (r\<lparr>rt_reported := rt_missed r\<rparr>)"
proof (cases "st' = st")
  case False
  with assms(1) obtain n st1 where "put_notice h st n = Inr st1" "st' = replace_routine st1 (r\<lparr>rt_reported := rt_missed r\<rparr>)"
    by (auto simp: report_gap_def Let_def rbind_eq_Inr split: if_splits)
  then show ?thesis using assms(2) put_notice_frame(1) by (auto simp: find_routine_def replace_routine_def find_by_replace_by)
qed (use assms in simp)

lemma advance_due_standing: "advance_due h due now = Inr d \<Longrightarrow> same_standing due d"
  using advance_due_same [of h due now d] by (auto simp: same_standing_def miss_def elim!: advance_due_cases split: if_splits)

lemma claim_due_routine:
  assumes w: "claim_due h st due now key ent = Inr (st', c)" and f: "find_routine st (rt_id due) = Some due"
  obtains r where "find_routine st' (rt_id due) = Some r" "now < rt_next r" "rt_requested r = 0" "same_standing due r"
    "rn_routine (cl_run c) = rt_id due" "rn_revision (cl_run c) = rt_revision due"
proof -
  have leased: "find_routine st' (rt_id r) = Some r \<and> rn_routine (cl_run c) = rt_id r \<and> rn_revision (cl_run c) = rt_revision r"
    if "lease_run h s r now key ent = Inr (st', c)" "find_routine s (rt_id r) = Some q" for s r q
    using that by (elim lease_run_Inr) (auto simp: replace_routine_def find_by_replace_by find_routine_def)
  show ?thesis
  proof (cases "rt_requested due \<noteq> 0 \<and> rt_next due > now")
    case True
    then show ?thesis
      using w f leased [of st "due\<lparr>rt_requested := 0\<rparr>" due] that [of "due\<lparr>rt_requested := 0\<rparr>"]
      by (simp add: claim_due_def same_standing_def same_definition_def)
  next
    case False
    from w obtain d2 st1 current where d2: "advance_due h (due\<lparr>rt_requested := 0\<rparr>) now = Inr d2"
      and g: "report_gap h (replace_routine st d2) d2 now True = Inr st1" and cur: "find_routine st1 (rt_id d2) = Some current"
      and l: "lease_run h st1 (current\<lparr>rt_gap_started := 0, rt_missed := 0, rt_reported := 0\<rparr>) now key ent = Inr (st', c)"
      unfolding claim_due_def if_not_P [OF False] by (elim rbind_InrE) (metis get_routine_Inr)
    have d2s: "same_standing due d2" "rt_requested d2 = 0" "rt_id d2 = rt_id due" "now < rt_next d2"
      using advance_due_standing [OF d2] advance_due_same [OF d2] advance_due_later [OF d2]
      by (auto simp: same_standing_def same_definition_def)
    have "find_routine (replace_routine st d2) (rt_id d2) = Some d2" using f d2s(3) by (simp add: routine_table.lookup_replace)
    from report_gap_routine [OF g this] cur have "current = d2 \<or> current = d2\<lparr>rt_reported := rt_missed d2\<rparr>" by auto
    then have "rt_next current = rt_next d2" "rt_requested current = 0" "same_standing due current" "rt_id current = rt_id due"
      using d2s by (auto simp: same_standing_def same_definition_def)
    then show ?thesis
      using leased [OF l, of current] cur d2s(3,4) that [of "current\<lparr>rt_gap_started := 0, rt_missed := 0, rt_reported := 0\<rparr>"]
      by (simp add: same_standing_def same_definition_def)
  qed
qed

lemma active_seconds_bounds: "0 \<le> units \<Longrightarrow> 360 \<le> active_seconds units \<and> active_seconds units \<le> 7200"
  by (auto simp: active_seconds_def MAX_ACTIVE_SECONDS_def saturating_add_i64_def saturating_mul_i64_def i64_max_def i64_min_def)

lemma claim_due_lease:
  assumes w: "claim_due h st due now key ent = Inr (st', c)" and f: "find_routine st (rt_id due) = Some due"
    and fresh: "fresh_run_id h ent st"
  shows "find_run st' (rn_id (cl_run c)) = Some (cl_run c)" "rn_status (cl_run c) = Leased" "rn_key (cl_run c) = key"
    "rn_lease (cl_run c) = lease_sha256 h (cl_token c)" "rn_expires (cl_run c) = now + LEASE_SECONDS" "0 < rn_active (cl_run c)"
proof -
  from claim_due_Inr [OF w f] obtain st1 r where g: "gentle st st1" and l: "lease_run h st1 r now key ent = Inr (st', c)" by metis
  from l have "find_run st' (rn_id (cl_run c)) = Some (cl_run c) \<and> rn_status (cl_run c) = Leased \<and> rn_key (cl_run c) = key \<and>
    rn_lease (cl_run c) = lease_sha256 h (cl_token c) \<and> rn_expires (cl_run c) = now + LEASE_SECONDS \<and> 0 < rn_active (cl_run c)"
  proof (rule lease_run_Inr)
    fix i
    assume i: "fresh_run_id h ent st1 \<Longrightarrow> i \<notin> rn_id ` set (runs st1)" "rn_id (cl_run c) = i"
      and st': "st' = replace_routine (st1\<lparr>starts := started (starts st1) (rt_id r) now (run_units r), served_at := now,
            runs := runs st1 @ [cl_run c]\<rparr>) r"
      and rest: "rn_active (cl_run c) = active_seconds (run_units r)" "rn_status (cl_run c) = Leased" "rn_key (cl_run c) = key"
        "rn_lease (cl_run c) = lease_sha256 h (cl_token c)" "rn_expires (cl_run c) = now + LEASE_SECONDS"
    have "find_by rn_id i (runs st1) = None" using i(1) fresh gentle_fresh [OF g] by (simp add: find_by_None)
    then have "find_run st' i = Some (cl_run c)" using i(2) by (simp add: st' find_run_def find_by_append replace_routine_def)
    then show ?thesis using rest i(2) active_seconds_bounds [OF run_units_range(1), of r] by simp
  qed
  then show "find_run st' (rn_id (cl_run c)) = Some (cl_run c)" "rn_status (cl_run c) = Leased" "rn_key (cl_run c) = key"
    "rn_lease (cl_run c) = lease_sha256 h (cl_token c)" "rn_expires (cl_run c) = now + LEASE_SECONDS" "0 < rn_active (cl_run c)"
    by auto
qed

text \<open>C10: A claim runs a due Routine once. When a claim of a reached Team answers a run, the Routine it runs was neither paused
  nor being deleted nor awaiting confirmation, its next firing is now after the claim's instant and its request is spent, the
  run executes its current revision, and the token answered is a lease on exactly that run until 900 seconds later.\<close>

theorem claim_runs_once:
  assumes "reached h st" "fresh_run_id h ent st" "claim_next h st now key long ent = Inr (st', Some c)"
  shows "\<exists>r. find_routine st' (rn_routine (cl_run c)) = Some r \<and> now < rt_next r \<and> rt_requested r = 0 \<and>
      \<not> rt_paused r \<and> \<not> rt_deleting r \<and> \<not> rt_reconfirm r \<and> rn_revision (cl_run c) = rt_revision r \<and>
      find_run st' (rn_id (cl_run c)) = Some (cl_run c) \<and>
      (live_lease st' (rn_id (cl_run c)) (lease_of h (cl_token c) key) t = Inr (cl_run c) \<longleftrightarrow> t < now + 900)"
proof -
  from assms(3) obtain sw due where sw: "sweep h st now = Inr sw" and due: "claimable sw now long = Some due"
    and c: "claim_due h sw due now key ent = Inr (st', c)"
    by (auto simp: claim_next_def rbind_eq_Inr split: if_splits option.splits)
  note inv = reached_inv [OF assms(1)] and g = gentle_sweep [OF reached_inv [OF assms(1)] sw]
  note cl = claimable_Some [OF due] and f = find_routine_member [OF gentle_inv [OF g inv] claimable_Some(1) [OF due]]
  note lease = claim_due_lease [OF c f] 
  have fresh: "fresh_run_id h ent sw" using assms(2) gentle_fresh [OF g] by simp
  from c f obtain r where r: "find_routine st' (rt_id due) = Some r" "now < rt_next r" "rt_requested r = 0" "same_standing due r"
    "rn_routine (cl_run c) = rt_id due" "rn_revision (cl_run c) = rt_revision due"
    by (rule claim_due_routine)
  then show ?thesis
    using cl(5-7) lease [OF fresh]
    by (intro exI [of _ r]) (auto simp: same_standing_def same_definition_def lease_ok_Inr lease_ok_def lease_of_def LEASE_SECONDS_def)
qed

definition example_claimed_run :: claim where
  "example_claimed_run = \<lparr>cl_run = example_leased, cl_token = example_hex 43, cl_revision = 1, cl_digest = example_pin,
     cl_active = 390\<rparr>"

lemma example_claim_answer:
  "claim_next example_host example_created 2000 (example_hex 64) False [Some (replicate 32 2), Some (replicate 16 3)]
     = Inr (example_claimed, Some example_claimed_run)"
  by code_simp

theorem claim_runs_once_witness:
  "live_lease example_claimed example_run (lease_of example_host (example_hex 43) (example_hex 64)) 2899 = Inr example_leased"
  using claim_runs_once [OF example_reached(1) _ example_claim_answer, of 2899] example_claim_fresh
  by (auto simp: example_claim_def example_claimed_run_def example_leased_def run_new_def)

section \<open>Failure streaks\<close>

lemma ended_routine:
  assumes "find_routine st i = Some q"
  shows "\<exists>t. find_routine (ended st r now) i = Some (q\<lparr>rt_next := t\<rparr>)"
proof -
  have self: "q = q\<lparr>rt_next := rt_next q\<rparr>" by simp
  let ?st = "st\<lparr>discards := discards st @ [(rn_id r, rn_generation r)]\<rparr>"
  have f: "find_routine ?st k = find_routine st k" for k by (simp add: find_routine_def)
  show ?thesis
  proof (cases "rn_routine r = i \<and> continuous q")
    case True
    then show ?thesis
      using assms f find_routine_key [OF assms]
      by (auto simp: ended_def rebase_continuous_def routine_table.lookup_replace)
  next
    case False
    then have "find_routine (ended st r now) i = Some q"
      using assms f by (auto simp: ended_def rebase_continuous_def routine_table.lookup_replace find_routine_key split: option.splits)
    then show ?thesis using self by metis
  qed
qed

lemma without_run_routine:
  assumes "without_run st i now = Inr st'" "find_routine st k = Some q"
  shows "\<exists>t. find_routine st' k = Some (q\<lparr>rt_next := t\<rparr>)"
proof -
  from assms(1) obtain r where "st' = ended (st\<lparr>runs := filter (\<lambda>q. rn_id q \<noteq> i) (runs st)\<rparr>) r now"
    by (auto simp: without_run_def rbind_eq_Inr)
  with ended_routine [of "st\<lparr>runs := filter (\<lambda>q. rn_id q \<noteq> i) (runs st)\<rparr>" k q r now] assms(2) show ?thesis
    by (simp add: find_routine_def)
qed

lemma put_notice_routine: "put_notice h st n = Inr st' \<Longrightarrow> find_routine st' i = find_routine st i"
  using put_notice_frame(1) [of h st n st'] by (simp add: find_routine_def)

lemma put_notice_there:
  "put_notice h st n = Inr st' \<Longrightarrow> \<exists>m \<in> set (notices st'). nt_id m = nt_id n \<and> nt_outcome m = nt_outcome n \<and>
     nt_routine m = nt_routine n \<and> nt_detail m = nt_detail n"
  by (erule put_notice_Inr)
     (auto simp: canonical_notice_detail_def Let_def split: prod.splits option.splits if_splits)

lemma run_notice_streak:
  assumes n: "run_notice h st r outcome now detail ent = Inr (st', r', ent')" and settles: "outcome \<in> {''done'', ''recovered'', ''failed''}"
    and q: "find_routine st (rn_routine r) = Some q"
  shows "find_routine st' (rn_routine r) =
      Some (q\<lparr>rt_failures := streak_of q outcome, rt_paused := rt_paused q \<or> streak_pauses q outcome\<rparr>) \<and>
    (streak_pauses q outcome \<longrightarrow> (\<exists>m \<in> set (notices st'). nt_outcome m = ''streak-paused'' \<and> nt_routine m = rt_id q \<and>
       nt_detail m = object [(''failures'', int_value (streak_of q outcome))]))"
  using n
proof (cases rule: run_notice_Inr)
  case (plain n)
  then show ?thesis using settles by simp
next
  case (settled n st1 q1)
  then have "q1 = q" using q put_notice_routine by simp
  moreover have "q\<lparr>rt_failures := x\<rparr> = q\<lparr>rt_failures := x, rt_paused := rt_paused q\<rparr>" for x by simp
  ultimately show ?thesis
    using settled q put_notice_routine [OF settled(2)] find_routine_key [OF q] by (simp add: routine_table.lookup_replace)
next
  case (paused n st1 q1 i)
  have eq: "q1 = q" using paused q put_notice_routine by simp
  from put_notice_there [OF paused(9)] put_notice_routine [OF paused(9)] put_notice_routine [OF paused(2)] paused(8) q find_routine_key [OF q]
  show ?thesis unfolding eq by (auto simp: routine_table.lookup_replace notice_new_def)
qed

text \<open>C26: Three failures in a row pause a Routine. When a run ends as failed, its Routine's failure count grows by one; when that
  reaches three and the Routine was not already paused, the Routine is paused and a notice with the count says so; otherwise
  it is paused exactly if it was.\<close>

theorem failures_pause:
  assumes "end_run h st i now ''failed'' detail status ent = Inr st'" "find_run st i = Some r"
    and "find_routine st (rn_routine r) = Some q"
  shows "\<exists>q'. find_routine st' (rn_routine r) = Some q' \<and> rt_failures q' = rt_failures q + 1 \<and>
    (rt_paused q' \<longleftrightarrow> rt_paused q \<or> rt_failures q + 1 \<ge> 3) \<and>
    (\<not> rt_paused q \<and> rt_failures q + 1 \<ge> 3 \<longrightarrow> (\<exists>m \<in> set (notices st'). nt_outcome m = ''streak-paused'' \<and>
       nt_routine m = rt_id q \<and> nt_detail m = object [(''failures'', int_value (rt_failures q + 1))]))"
  using assms(1)
proof (rule end_run_Inr)
  fix r0 st1 r1 ent1
  assume r0: "find_run st i = Some r0" and n: "run_notice h st r0 ''failed'' now detail ent = Inr (st1, r1, ent1)"
    and w: "without_run st1 i now = Inr st'"
  have "r0 = r" using r0 assms(2) by simp
  from run_notice_streak [OF n _ assms(3) [folded this]] \<open>r0 = r\<close>
  have f: "find_routine st1 (rn_routine r) = Some (q\<lparr>rt_failures := rt_failures q + 1, rt_paused := rt_paused q \<or> streak_pauses q ''failed''\<rparr>)"
    and m: "streak_pauses q ''failed'' \<longrightarrow> (\<exists>m \<in> set (notices st1). nt_outcome m = ''streak-paused'' \<and> nt_routine m = rt_id q \<and>
       nt_detail m = object [(''failures'', int_value (rt_failures q + 1))])"
    by (simp_all add: streak_of_def)
  have "notices st' = notices st1" using w by (auto simp: without_run_def rbind_eq_Inr)
  with m f without_run_routine [OF w f] show ?thesis
    by (auto simp: streak_pauses_def streak_of_def MAX_FAILURE_STREAK_def)
qed

definition example_failing :: team where
  "example_failing = example_claimed\<lparr>routines := [example_routine\<lparr>rt_next := 5600, rt_failures := 2\<rparr>]\<rparr>"

lemma example_failed_step:
  "is_ok (end_run example_host example_failing example_run 2500 ''failed'' (object [(''code'', Str ''timeout'')]) (Some Leased)
     [Some (replicate 16 5)])"
  by code_simp

theorem failures_pause_witness:
  "\<exists>st' q'. end_run example_host example_failing example_run 2500 ''failed'' (object [(''code'', Str ''timeout'')]) (Some Leased)
     [Some (replicate 16 5)] = Inr st' \<and> find_routine st' (example_hex 32) = Some q' \<and> rt_failures q' = 3 \<and> rt_paused q'"
proof -
  from example_failed_step obtain st' where st': "end_run example_host example_failing example_run 2500 ''failed''
      (object [(''code'', Str ''timeout'')]) (Some Leased) [Some (replicate 16 5)] = Inr st'"
    by (auto simp: is_ok_def split: sum.splits)
  have "find_run example_failing example_run = Some example_leased"
    by (simp add: find_run_def example_failing_def example_claimed_def example_leased_def run_new_def)
  from failures_pause [OF st' this, of "example_routine\<lparr>rt_next := 5600, rt_failures := 2\<rparr>"] st' show ?thesis
    by (auto simp: find_routine_def example_failing_def example_routine_def routine_new_def example_leased_def run_new_def)
qed

section \<open>Changing and deleting a Routine\<close>

lemma put_changed_routine:
  assumes "put_changed h st r now ent = Inr st'" "find_routine st (rt_id r) = Some q"
  shows "find_routine st' i = (if i = rt_id r then Some r else find_routine st i)"
proof -
  from assms(1) obtain n where "put_notice h (replace_routine st r) n = Inr st'"
    by (auto simp: put_changed_def rbind_eq_Inr split: prod.splits)
  from put_notice_routine [OF this] assms(2) show ?thesis by (simp add: routine_table.lookup_replace)
qed

lemma update_routine:
  assumes w: "update h st r n now ent = Inr st'"
  obtains q a where "changeable st (rt_id r) n = Inr q" "rt_id a = rt_id r" "rt_revision a = n + 1" "\<not> rt_deleting a"
    "rt_paused a = rt_paused q" "\<And>i. find_routine st' i = (if i = rt_id r then Some a else find_routine st i)"
proof -
  from w obtain q a where q: "changeable st (rt_id r) n = Inr q" and a: "admitted h r (rt_revision q + 1) = Inr a"
    and p: "put_changed h st (a\<lparr>rt_paused := rt_paused q, rt_rollup_minute := rt_rollup_minute q,
          rt_rollup_runs := rt_rollup_runs q, rt_rollup_usage := rt_rollup_usage q\<rparr>) now ent = Inr st'"
    unfolding update_def by (elim rbind_InrE) (rule that)
  have "\<not> rt_deleting a" using a by (auto simp: admitted_def defined_def Let_def rbind_eq_Inr split: if_splits)
  then show ?thesis
    using q admitted_Inr [OF a] put_changed_routine [OF p] by (intro that [OF q]) (auto simp: changeable_Inr)
qed

lemma refine_routine:
  assumes w: "refine h st r n now ent = Inr st'"
  obtains q a where "changeable st (rt_id r) n = Inr q" "rt_id a = rt_id r" "rt_revision a = n + 1" "\<not> rt_deleting a"
    "rt_paused a = rt_paused q" "\<And>i. find_routine st' i = (if i = rt_id r then Some a else find_routine st i)"
proof -
  let ?new = "\<lambda>q. q\<lparr>rt_description := rt_description r, rt_assistants := rt_assistants r,
              rt_plan := rt_plan r, rt_permitted := rt_permitted r, rt_confirmation := rt_confirmation r\<rparr>"
  from w obtain q a where q: "changeable st (rt_id r) n = Inr q" and a: "defined h (?new q) (rt_revision q + 1) = Inr a"
    and p: "put_changed h st a now ent = Inr st'"
    unfolding refine_def by (elim rbind_InrE) (auto simp: rbind_eq_Inr split: if_splits)
  have "\<not> rt_deleting a" "rt_paused a = rt_paused q" using a by (auto simp: defined_def Let_def split: if_splits)
  then show ?thesis
    using q defined_Inr [OF a] put_changed_routine [OF p] find_routine_key [of st "rt_id r" q]
    by (intro that [OF q]) (auto simp: changeable_Inr)
qed

lemma stale_change_refused:
  assumes "find_routine st i = Some a" "rt_revision a \<noteq> n" "\<not> rt_deleting a" "rt_id r = i"
  shows "update h st r n now ent = Inl ''routine-revision-changed'' \<and> refine h st r n now ent = Inl ''routine-revision-changed''"
  using assms by (simp add: update_def refine_def changeable_def get_routine_def ok_or_def rbind_def)

text \<open>C27: Changes are serialised by revision. An update or a refinement of a Routine succeeds only on the exact revision it
  names, without a live run of the Routine, and stores the next revision, keeping whether the Routine is paused and every other
  Routine; a second change that names the same revision is then refused as stale.\<close>

theorem changes_serialised:
  assumes "update h st r n now ent = Inr st' \<or> refine h st r n now ent = Inr st'" "rt_id r2 = rt_id r"
  shows "(\<exists>q a. find_routine st (rt_id r) = Some q \<and> rt_revision q = n \<and> \<not> rt_deleting q \<and>
      \<not> list_ex (\<lambda>x. rn_routine x = rt_id r) (live_runs st) \<and>
      find_routine st' (rt_id r) = Some a \<and> rt_revision a = n + 1 \<and> rt_paused a = rt_paused q) \<and>
    (\<forall>i. i \<noteq> rt_id r \<longrightarrow> find_routine st' i = find_routine st i) \<and>
    update h st' r2 n now2 ent2 = Inl ''routine-revision-changed'' \<and> refine h st' r2 n now2 ent2 = Inl ''routine-revision-changed''"
proof -
  from assms(1) obtain q a where a: "changeable st (rt_id r) n = Inr q" "rt_id a = rt_id r" "rt_revision a = n + 1" "\<not> rt_deleting a"
    "rt_paused a = rt_paused q" "\<And>i. find_routine st' i = (if i = rt_id r then Some a else find_routine st i)"
    by (elim disjE update_routine refine_routine) blast+
  have "find_routine st' (rt_id r) = Some a" "rt_revision a \<noteq> n" using a(3,6) by auto
  note stale = stale_change_refused [OF this a(4) assms(2)]
  from a(1) show ?thesis using a stale by (auto simp: changeable_Inr)
qed

definition example_update :: "team transition" where
  "example_update = update example_host example_created (example_routine\<lparr>rt_name := ''renamed''\<rparr>) 1 1500 [Some (replicate 16 9)]"

lemma example_update_ok: "is_ok example_update"
  by code_simp

theorem changes_serialised_witness:
  "\<exists>st'. example_update = Inr st' \<and>
     update example_host st' example_routine 1 1600 [Some (replicate 16 9)] = Inl ''routine-revision-changed''"
proof -
  from example_update_ok obtain st' where st': "example_update = Inr st'" by (auto simp: is_ok_def split: sum.splits)
  from changes_serialised [OF disjI1, OF st' [unfolded example_update_def], of example_routine] st' show ?thesis by auto
qed

text \<open>A Routine being deleted stays so until it is gone.\<close>

definition keeps_deleting :: "team \<Rightarrow> team \<Rightarrow> bool" where
  "keeps_deleting st st' \<longleftrightarrow>
     (\<forall>i q q'. find_routine st i = Some q \<longrightarrow> rt_deleting q \<longrightarrow> find_routine st' i = Some q' \<longrightarrow> rt_deleting q')"

lemma deleting_gentle:
  assumes "gentle st st'"
  shows "keeps_deleting st st'"
  unfolding keeps_deleting_def
proof (intro allI impI)
  fix i q q'
  assume "find_routine st i = Some q" "rt_deleting q" "find_routine st' i = Some q'"
  with gentle_routine [OF assms, of i q] show "rt_deleting q'" by (auto simp: same_definition_def)
qed

lemma deleting_same: "routines st' = routines st \<Longrightarrow> keeps_deleting st st'"
  by (simp add: keeps_deleting_def find_routine_def)

lemma deleting_trans_gentle: "gentle st st1 \<Longrightarrow> routines st' = routines st1 \<Longrightarrow> keeps_deleting st st'"
  using deleting_gentle by (simp add: keeps_deleting_def find_routine_def)

lemma deleting_replace_gentle: "gentle st st1 \<Longrightarrow> keeps_deleting st (replace_run st1 x)"
  by (rule deleting_trans_gentle) (simp_all add: replace_run_def)

lemma deleting_without_run:
  assumes "gentle st st1" "without_run st1 i now = Inr st'"
  shows "keeps_deleting st st'"
proof -
  let ?f = "\<lambda>st. st\<lparr>runs := filter (\<lambda>q. rn_id q \<noteq> i) (runs st)\<rparr>"
  have "keeps_deleting (?f st1) st'"
    using assms(2) deleting_gentle [OF gentle_ended] by (auto simp: without_run_def rbind_eq_Inr)
  moreover have "\<And>k q. find_routine st k = Some q \<Longrightarrow> rt_deleting q \<Longrightarrow> \<exists>q1. find_routine (?f st1) k = Some q1 \<and> rt_deleting q1"
    using gentle_routine [OF assms(1)] by (fastforce simp: find_routine_def same_definition_def)
  ultimately show ?thesis unfolding keeps_deleting_def by metis
qed

lemma deleting_definitions:
  "add_routine h st r = Inr st' \<Longrightarrow> keeps_deleting st st'"
  "create h st r now usage steps ent = Inr st' \<Longrightarrow> keeps_deleting st st'"
  "update h st r n now ent = Inr st' \<Longrightarrow> keeps_deleting st st'"
  "refine h st r n now ent = Inr st' \<Longrightarrow> keeps_deleting st st'"
  "begin_delete st i = Inr (st', rs) \<Longrightarrow> keeps_deleting st st'"
  "complete_delete h st i now ent = Inr st' \<Longrightarrow> keeps_deleting st st'"
  "mark_scope_changed h st i now ent = Inr st' \<Longrightarrow> keeps_deleting st st'"
proof -
  have add: "keeps_deleting st st'" if "add_routine h st r = Inr st'" for st'
    using that by (auto simp: add_routine_def rbind_eq_Inr keeps_deleting_def find_routine_def find_by_append split: if_splits)
  then show "add_routine h st r = Inr st' \<Longrightarrow> keeps_deleting st st'" .
  show "create h st r now usage steps ent = Inr st' \<Longrightarrow> keeps_deleting st st'"
    by (auto simp: create_def rbind_eq_Inr keeps_deleting_def put_notice_routine split: prod.splits
        dest!: add [unfolded keeps_deleting_def])
  show "update h st r n now ent = Inr st' \<Longrightarrow> keeps_deleting st st'"
    by (erule update_routine) (auto simp: keeps_deleting_def changeable_Inr)
  show "refine h st r n now ent = Inr st' \<Longrightarrow> keeps_deleting st st'"
    by (erule refine_routine) (auto simp: keeps_deleting_def changeable_Inr)
  show "begin_delete st i = Inr (st', rs) \<Longrightarrow> keeps_deleting st st'"
    by (auto simp: begin_delete_def rbind_eq_Inr keeps_deleting_def routine_table.lookup_replace split: if_splits option.splits)
  show "complete_delete h st i now ent = Inr st' \<Longrightarrow> keeps_deleting st st'"
    by (auto simp: complete_delete_def rbind_eq_Inr keeps_deleting_def find_routine_def find_by_filter_key
        dest!: put_notice_frame(1) split: if_splits prod.splits)
  show "mark_scope_changed h st i now ent = Inr st' \<Longrightarrow> keeps_deleting st st'"
    using find_routine_key [of st i]
    by (auto simp: mark_scope_changed_def rbind_eq_Inr keeps_deleting_def routine_table.lookup_replace put_notice_routine
        split: prod.splits if_splits)
qed

lemma deleting_claim:
  assumes inv: "team_inv st" and w: "claim_next h st now key long ent = Inr (st', c)"
  shows "keeps_deleting st st'"
proof -
  from w obtain sw where sw: "sweep h st now = Inr sw"
    and rest: "(case claimable sw now long of None \<Rightarrow> Inr (sw, None)
        | Some due \<Rightarrow> rbind (claim_due h sw due now key ent) (\<lambda>(st', c). Inr (st', Some c))) = Inr (st', c)"
    by (auto simp: claim_next_def rbind_eq_Inr split: if_splits)
  note g = gentle_sweep [OF inv sw]
  show ?thesis
  proof (cases "claimable sw now long")
    case None
    with rest g show ?thesis by (simp add: deleting_gentle)
  next
    case (Some due)
    with rest obtain d where d: "claim_due h sw due now key ent = Inr (st', d)" by (auto simp: rbind_eq_Inr)
    from claim_due_Inr [OF d find_routine_member [OF gentle_inv [OF g inv] claimable_Some(1) [OF Some]]] obtain st1 r q where
      g1: "gentle sw st1" and q: "find_routine st1 (rt_id due) = Some q" "same_definition q r"
      and l: "lease_run h st1 r now key ent = Inr (st', d)" by metis
    have "keeps_deleting st1 st'"
      using l q by (elim lease_run_Inr)
        (auto simp: keeps_deleting_def find_routine_def replace_routine_def find_by_replace_by same_definition_def
         find_routine_key split: if_splits)
    moreover have "\<And>k q. find_routine st k = Some q \<Longrightarrow> rt_deleting q \<Longrightarrow> \<exists>q1. find_routine st1 k = Some q1 \<and> rt_deleting q1"
      using gentle_routine [OF gentle_trans [OF g g1]] by (fastforce simp: same_definition_def)
    ultimately show ?thesis unfolding keeps_deleting_def by metis
  qed
qed

lemma deleting_runs:
  "spend st i l now s ms = Inr st' \<Longrightarrow> keeps_deleting st st'"
  "bind_generation st i l now network = Inr st' \<Longrightarrow> keeps_deleting st st'"
  "lose_protection st i = Inr st' \<Longrightarrow> keeps_deleting st st'"
  "fence st i l now = Inr st' \<Longrightarrow> keeps_deleting st st'"
  "hold_recovered st i sha = Inr st' \<Longrightarrow> keeps_deleting st st'"
  "spend_incident st i s = Inr st' \<Longrightarrow> keeps_deleting st st'"
  "release_incident st i = Inr st' \<Longrightarrow> keeps_deleting st st'"
  "thaw h st i now n ent = Inr (st', token) \<Longrightarrow> keeps_deleting st st'"
  "reopen_incident h st i now g ent = Inr (st', token) \<Longrightarrow> keeps_deleting st st'"
proof -
  show "thaw h st i now n ent = Inr (st', token) \<Longrightarrow> keeps_deleting st st'"
    by (erule thaw_Inr) (simp add: deleting_same replace_run_def)
  show "reopen_incident h st i now g ent = Inr (st', token) \<Longrightarrow> keeps_deleting st st'"
    by (auto simp: reopen_incident_def rbind_eq_Inr Let_def replace_run_def split: if_splits prod.splits intro!: deleting_same)
qed (auto simp: spend_def bind_generation_def lose_protection_def fence_def hold_recovered_def held_def spend_incident_def
      release_incident_def rbind_eq_Inr Let_def replace_run_def split: if_splits option.splits intro: deleting_same)

lemma deleting_ends:
  "freeze h st i l now q ent = Inr st' \<Longrightarrow> keeps_deleting st st'"
  "end_run h st i now outcome detail status ent = Inr st' \<Longrightarrow> keeps_deleting st st'"
  "finish h st i l now shown ent = Inr st' \<Longrightarrow> keeps_deleting st st'"
  "complete_recovered h st i sha now shown ent = Inr st' \<Longrightarrow> keeps_deleting st st'"
  "team_inv st \<Longrightarrow> skip_incident h st i now e ent = Inr st' \<Longrightarrow> keeps_deleting st st'"
proof -
  show "freeze h st i l now q ent = Inr st' \<Longrightarrow> keeps_deleting st st'"
    by (erule freeze_Inr) (auto dest!: gentle_run_notice intro: deleting_replace_gentle)
  show "end_run h st i now outcome detail status ent = Inr st' \<Longrightarrow> keeps_deleting st st'"
    by (erule end_run_Inr) (auto dest!: gentle_run_notice intro: deleting_without_run)
  show "team_inv st \<Longrightarrow> skip_incident h st i now e ent = Inr st' \<Longrightarrow> keeps_deleting st st'"
    by (erule (1) skip_incident_Inr) (auto dest!: gentle_run_notice intro: deleting_replace_gentle)
qed (auto simp: finish_def complete_recovered_def completed_run_def rbind_eq_Inr dest!: gentle_completion intro: deleting_without_run)

text \<open>A Routine being deleted that a first write keeps is still so after a second.\<close>

definition stays_deleting :: "team \<Rightarrow> team \<Rightarrow> bool" where
  "stays_deleting st st' \<longleftrightarrow>
     (\<forall>i q. find_routine st i = Some q \<longrightarrow> rt_deleting q \<longrightarrow> (\<exists>q'. find_routine st' i = Some q' \<and> rt_deleting q'))"

lemma stays_gentle: "gentle st st' \<Longrightarrow> stays_deleting st st'"
  using gentle_routine [of st st'] by (fastforce simp: stays_deleting_def same_definition_def)

lemma stays_replace_run: "stays_deleting st st1 \<Longrightarrow> stays_deleting st (replace_run st1 x)"
  by (simp add: stays_deleting_def find_routine_def replace_run_def)

lemma stays_trans: "stays_deleting st st1 \<Longrightarrow> stays_deleting st1 st2 \<Longrightarrow> stays_deleting st st2"
  unfolding stays_deleting_def by meson

lemma stays_keeps: "stays_deleting st st' \<Longrightarrow> keeps_deleting st st'"
  unfolding stays_deleting_def keeps_deleting_def by (metis option.inject)

lemma stays_skip: "team_inv st \<Longrightarrow> skip_incident h st i now e ent = Inr st' \<Longrightarrow> stays_deleting st st'"
  by (erule (1) skip_incident_Inr) (auto dest!: gentle_run_notice intro: stays_replace_run stays_gentle)

lemma stays_settle:
  assumes inv: "team_inv st" and w: "settle_hold h st i now step ent = Inr st'"
  shows "stays_deleting st st'"
  using w
proof (rule settle_hold_Inr)
  fix r and current :: routine and st1 r1 ent1 r2
  let ?st2 = "ended (replace_run st1 r2) r2 now"
  assume r: "find_run st i = Some r" "rn_status r = Held"
    and n: "run_notice h st r ''held'' now (object []) ent = Inr (st1, r1, ent1)"
    and r2: "r2 = r1\<lparr>rn_status := Unresolved, rn_assistant := fst step, rn_action := fst (snd step),
        rn_position := fst (snd (snd step)), rn_steps := snd (snd (snd step))\<rparr>"
    and last: "(if rt_deleting current then skip_incident h ?st2 i now None ent1 else Inr ?st2) = Inr st'"
  note g = gentle_run_notice [OF n]
  have "team_inv (replace_run st1 r2)"
    using g r r2
    by (intro calmer_after [OF inv, where q = r]) (auto simp: calmer_def run_ok_def machine_def pending_def frozen_def live_def)
  then have inv2: "team_inv ?st2" by (rule gentle_inv [OF gentle_ended])
  have "stays_deleting st ?st2"
    using g by (intro stays_trans [OF stays_replace_run [OF stays_gentle] stays_gentle [OF gentle_ended]]) blast
  with last stays_skip [OF inv2] stays_trans show ?thesis by (auto split: if_splits)
qed

lemma stays_set_paused: "set_paused st i p = Inr st' \<Longrightarrow> stays_deleting st st'"
  by (rule stays_gentle [OF gentle_set_paused])

lemma stays_incidents:
  assumes inv: "team_inv st"
  shows "run_incident h st i now e ent = Inr st' \<Longrightarrow> stays_deleting st st'"
    "pause_incident h st i now reason ent = Inr st' \<Longrightarrow> stays_deleting st st'"
proof -
  assume "run_incident h st i now e ent = Inr st'"
  with inv show "stays_deleting st st'"
  proof (rule run_incident_Inr)
    fix r st1 st2 current
    assume s: "skip_incident h st i now (Some e) ent = Inr st1" "set_paused st1 (rn_routine r) False = Inr st2"
      and cur: "find_routine st2 (rn_routine r) = Some current" and st': "st' = replace_routine st2 (current\<lparr>rt_requested := now\<rparr>)"
    have "gentle st2 st'"
      unfolding st' using cur find_routine_key [OF cur] by (intro gentle_replace_routine) (auto simp: same_definition_def)
    then show ?thesis using stays_trans stays_skip [OF inv s(1)] stays_set_paused [OF s(2)] stays_gentle by blast
  qed
next
  assume "pause_incident h st i now reason ent = Inr st'"
  then obtain r st1 st2 r1 ent1 where p: "set_paused st (rn_routine r) True = Inr st1"
    and n: "run_notice h st1 r ''paused'' now (object [(''reason'', text_value (reason_name reason))]) ent = Inr (st2, r1, ent1)"
    and st': "st' = replace_run st2 r1"
    unfolding pause_incident_def by (elim rbind_InrE) (auto simp: rbind_eq_Inr split: if_splits prod.splits)
  then show "stays_deleting st st'"
    using gentle_run_notice [OF n] by (auto intro: stays_replace_run stays_trans [OF stays_set_paused [OF p] stays_gentle])
qed

lemma transition_keeps_deleting:
  assumes "team_inv st" "transition h e st = Inr st'"
  shows "keeps_deleting st st'"
  using assms
  by (cases e)
     (auto simp: first_Inr acknowledge_def discarded_def intro: deleting_definitions deleting_claim deleting_runs deleting_ends
      deleting_same put_notice_frame(1) stays_keeps [OF stays_settle] stays_keeps [OF stays_incidents(1)]
      stays_keeps [OF stays_incidents(2)] stays_keeps [OF stays_set_paused] deleting_gentle [OF gentle_sweep])

lemma reopen_not_deleting:
  assumes "team_inv st" "reopen_incident h st i now g ent = Inr (st', token)" "find_run st i = Some r" "find_routine st (rn_routine r) = Some q"
  shows "\<not> rt_deleting q"
  using assms(1,2) by (rule reopen_incident_Inr) (use assms(3,4) in auto)

lemma thaw_not_deleting:
  assumes "thaw h st i now n ent = Inr (st', token)" "find_run st i = Some r" "find_routine st (rn_routine r) = Some q"
  shows "\<not> rt_deleting q"
  using assms unfolding thaw_def by (auto simp: rbind_eq_Inr get_run_def get_routine_def ok_or_def split: if_splits)

lemma claim_not_deleting:
  assumes inv: "team_inv st" and fresh: "fresh_run_id h ent st" and w: "claim_next h st now key long ent = Inr (st', c)"
    and new: "find_run st k = None" "find_run st' k = Some x" and q: "find_routine st (rn_routine x) = Some q"
  shows "\<not> rt_deleting q"
proof -
  from w obtain sw where sw: "sweep h st now = Inr sw"
    and rest: "(case claimable sw now long of None \<Rightarrow> Inr (sw, None)
        | Some due \<Rightarrow> rbind (claim_due h sw due now key ent) (\<lambda>(st', c). Inr (st', Some c))) = Inr (st', c)"
    by (auto simp: claim_next_def rbind_eq_Inr split: if_splits)
  note g = gentle_sweep [OF inv sw]
  obtain due where due: "claimable sw now long = Some due"
    using rest new gentle_find_run [OF g] by (cases "claimable sw now long") auto
  with rest obtain d where d: "claim_due h sw due now key ent = Inr (st', d)" by (auto simp: rbind_eq_Inr)
  note f = find_routine_member [OF gentle_inv [OF g inv] claimable_Some(1) [OF due]]
  from claim_due_Inr [OF d f] obtain st1 r where
    g1: "gentle sw st1" and same: "same_definition due r" and l: "lease_run h st1 r now key ent = Inr (st', d)" by metis
  have "runs st' = runs st @ [cl_run d]" "rn_routine (cl_run d) = rt_id due"
    using l same gentle_same_runs [OF gentle_trans [OF g g1]]
    by (auto elim!: lease_run_Inr simp: replace_routine_def same_definition_def)
  with new have "rn_routine x = rt_id due" by (auto simp: find_run_def find_by_append split: option.splits if_splits)
  with gentle_routine [OF g q] f claimable_Some(6) [OF due] show ?thesis by (auto simp: same_definition_def)
qed

text \<open>C28: Deletion is final. Once a Routine of a reached Team is being deleted, no transition takes that back: it stays so
  until it is gone. No run of it is leased again, by a claim, a thaw or a reopening: every leased run of it after a transition
  was leased before, and every live run was live before.\<close>

theorem deletion_is_final:
  assumes "reached h st" "fresh_event h st e" "transition h e st = Inr st'" "find_routine st i = Some q" "rt_deleting q"
  shows "(\<forall>q'. find_routine st' i = Some q' \<longrightarrow> rt_deleting q') \<and>
    (\<forall>k x. find_run st' k = Some x \<longrightarrow> rn_routine x = i \<longrightarrow>
       (rn_status x = Leased \<longrightarrow> (\<exists>y. find_run st k = Some y \<and> rn_status y = Leased)) \<and>
       (live (rn_status x) \<longrightarrow> (\<exists>y. find_run st k = Some y \<and> live (rn_status y))))"
proof (intro conjI allI impI)
  note inv = reached_inv [OF assms(1)]
  show "rt_deleting q'" if "find_routine st' i = Some q'" for q'
    using transition_keeps_deleting [OF inv assms(3)] assms(4,5) that by (auto simp: keeps_deleting_def)
  fix k x
  assume x: "find_run st' k = Some x" "rn_routine x = i"
  have sim: "run_step e (find_run st k) (Some x)"
    using transition_simulates [OF inv assms(2,3)] x(1) by (auto simp: simulates_def dest: spec [of _ k])
  have "find_run st k \<noteq> None"
  proof
    assume none: "find_run st k = None"
    with sim have "run_step e None (Some x)" by simp
    then obtain now key long ent where "e = Claim now key long ent" by cases auto
    then show False using claim_not_deleting [OF inv _ _ none x(1)] assms(2-5) x(2) by (auto simp: first_Inr)
  qed
  then obtain r where r: "find_run st k = Some r" by blast
  have key: "rn_id r = k" by (rule find_run_key [OF r])
  have moved: "rn_status x \<in> moves_to e r \<or> x = r" "rn_routine r = i"
    using sim x(2) unfolding r by (cases; auto simp: same_run_def)+
  have no_thaw: "e \<noteq> Thaw k now n ent" for now n ent
    using thaw_not_deleting [OF _ r] assms(3-5) moved(2) by (auto simp: first_Inr)
  have no_reopen: "e \<noteq> Reopen k now g ent" for now g ent
    using reopen_not_deleting [OF inv _ r] assms(3-5) moved(2) by (auto simp: first_Inr)
  show "\<exists>y. find_run st k = Some y \<and> rn_status y = Leased" if "rn_status x = Leased"
    using moved(1) that r key no_thaw no_reopen by (cases e) (auto simp: lease_ok_def split: if_splits)
  show "\<exists>y. find_run st k = Some y \<and> live (rn_status y)" if "live (rn_status x)"
    using moved(1) that r key no_reopen by (cases e) (auto simp: live_def lease_ok_def split: if_splits)
qed

definition example_deleting :: team where
  "example_deleting = example_claimed\<lparr>routines := [example_routine\<lparr>rt_next := 5600, rt_deleting := True\<rparr>]\<rparr>"

lemma example_deleting_reached: "reached example_host example_deleting"
  by (rule reached.step [OF example_reached(2), of "Begin_delete (example_hex 32)"])
     (simp_all add: first_def begin_delete_def get_routine_def find_routine_def example_claimed_def example_deleting_def
      replace_routine_def example_routine_def routine_new_def ok_or_def rbind_def)

theorem deletion_is_final_witness:
  "\<exists>st'. transition example_host (Lose_protection example_run) example_deleting = Inr st' \<and>
     (\<forall>q'. find_routine st' (example_hex 32) = Some q' \<longrightarrow> rt_deleting q') \<and>
     (\<forall>k x. find_run st' k = Some x \<longrightarrow> rn_routine x = example_hex 32 \<longrightarrow> rn_status x = Leased \<longrightarrow>
        (\<exists>y. find_run example_deleting k = Some y \<and> rn_status y = Leased))"
proof -
  have "\<exists>st'. transition example_host (Lose_protection example_run) example_deleting = Inr st'"
    by (simp add: lose_protection_def get_run_def find_run_def example_deleting_def example_claimed_def example_leased_def run_new_def)
  then obtain st' where st': "transition example_host (Lose_protection example_run) example_deleting = Inr st'" ..
  have "find_routine example_deleting (example_hex 32) = Some (example_routine\<lparr>rt_next := 5600, rt_deleting := True\<rparr>)"
    by (simp add: find_routine_def example_deleting_def example_routine_def routine_new_def)
  from deletion_is_final [OF example_deleting_reached _ st' this] show ?thesis using st' by auto
qed

end
