(* ===== verification/Json_Soundness.thy ===== *)
theory Json_Soundness
  imports Json_Roundtrip
begin

text \<open>
  Whatever the strict parser answers is admissible: distinct member names, valid UTF-8, integers typed by their range,
  at most 512 nested brackets. With the round trip of \<open>Json_Roundtrip\<close>, the parser and the canonical writer are inverse up
  to the order of members.
\<close>

section \<open>Numbers\<close>

lemma required_digits_split:
  assumes "required_digits n s = Inr rest"
  obtains ds where "s = ds @ rest" "ds \<noteq> []" "list_all digit ds"
proof
  show "s = takeWhile digit s @ rest" "list_all digit (takeWhile digit s)" "takeWhile digit s \<noteq> []"
    using assms by (auto simp: required_digits_def Let_def list_all_iff dest: set_takeWhileD split: if_splits)
      (metis takeWhile_dropWhile_id append_Nil)+
qed

lemma integral_part_split:
  assumes "integral_part n s = Inr rest"
  obtains t where "s = t @ rest" "digits_text (eat (CHR ''-'') t)"
proof -
  let ?s1 = "eat (CHR ''-'') s"
  let ?sg = "if starts_with (CHR ''-'') s then ''-'' else []"
  have s: "s = ?sg @ ?s1" by (cases s) (auto simp: eat_def)
  have "\<exists>ds. ?s1 = ds @ rest \<and> digits_text ds"
  proof (cases "starts_with (CHR ''0'') ?s1")
    case True
    then show ?thesis using assms by (auto simp: integral_part_def Let_def starts_with_iff digits_text_def intro!: exI [of _ "''0''"])
  next
    case False
    with assms have "required_digits n ?s1 = Inr rest" by (simp add: integral_part_def Let_def)
    then obtain ds where "?s1 = ds @ rest" "ds \<noteq> []" "list_all digit ds" by (rule required_digits_split)
    then show ?thesis using False by (cases ds) (auto simp: digits_text_def)
  qed
  then obtain ds where ds: "?s1 = ds @ rest" "digits_text ds" by blast
  have "eat (CHR ''-'') (?sg @ ds) = ds" using ds(2) by (cases ds) (auto simp: digits_text_def eat_def)
  then show thesis using that [of "?sg @ ds"] s ds by simp
qed

lemma digits_text_ascii: "digits_text (eat (CHR ''-'') t) \<Longrightarrow> list_all ascii t"
  by (cases t) (auto simp: digits_text_def eat_def ascii_text_numbers ascii_digit split: if_splits)

lemma fraction_part_split:
  assumes "fraction_part n s = Inr rest"
  obtains t where "s = t @ rest" "list_all ascii t"
proof (cases "starts_with (CHR ''.'') s")
  case True
  then obtain s' where s: "s = CHR ''.'' # s'" by (auto simp: starts_with_iff)
  then have "required_digits n s' = Inr rest" using assms by (simp add: fraction_part_def)
  then obtain ds where "s' = ds @ rest" "list_all digit ds" by (rule required_digits_split)
  then show thesis using that [of "CHR ''.'' # ds"] s by (simp add: ascii_text_numbers)
next
  case False
  then show thesis using that [of "[]"] assms by (simp add: fraction_part_def)
qed

lemma exponent_part_split:
  assumes "exponent_part n s = Inr rest"
  obtains t where "s = t @ rest" "list_all ascii t"
proof (cases "starts_with (CHR ''e'') s \<or> starts_with (CHR ''E'') s")
  case True
  then obtain c s' where s: "s = c # s'" by (cases s) auto
  with True have c: "ascii c" by (auto simp: ascii_def)
  have "required_digits n (exponent_sign s') = Inr rest" using assms True s by (simp add: exponent_part_def)
  then obtain ds where ds: "exponent_sign s' = ds @ rest" "list_all digit ds" by (rule required_digits_split)
  have "\<exists>sg. s' = sg @ exponent_sign s' \<and> list_all ascii sg"
  proof (cases "starts_with (CHR ''+'') s'")
    case True
    then show ?thesis by (auto simp: starts_with_iff exponent_sign_def intro!: exI [of _ "''+''"])
  next
    case False
    show ?thesis
    proof (cases "starts_with (CHR ''-'') s'")
      case True
      then show ?thesis by (auto simp: starts_with_iff exponent_sign_def intro!: exI [of _ "''-''"])
    next
      case minus: False
      then show ?thesis using False by (intro exI [of _ "[]"]) (simp add: exponent_sign_def eat_def)
    qed
  qed
  then obtain sg where "s' = sg @ exponent_sign s'" "list_all ascii sg" by blast
  then show thesis using that [of "c # sg @ ds"] s c ds by (simp add: ascii_text_numbers)
next
  case False
  then show thesis using that [of "[]"] assms by (simp add: exponent_part_def)
qed

text \<open>The floats a reader answers are those \<open>fl\<close> names.\<close>

definition reads_only :: "f64_reader \<Rightarrow> (bool \<Rightarrow> string \<Rightarrow> int \<Rightarrow> bool) \<Rightarrow> bool" where
  "reads_only read fl \<longleftrightarrow> (\<forall>literal s d e. read literal = Some (s, d, e) \<longrightarrow> fl s d e)"

lemma parse_number_sound:
  assumes "reads_only read fl" "utf8 s" "parse_number read n s = Inr (x, rest)"
  shows "number_ok fl x \<and> utf8 rest \<and> length rest < length s"
proof -
  obtain i s1 where i: "integral_part n s = Inr i" and f: "fraction_part n i = Inr s1" and e: "exponent_part n s1 = Inr rest"
    and x: "(if length rest = length i then integer (take (length s - length rest) s) (offset n s)
      else float read (take (length s - length rest) s) (offset n s)) = Inr x"
    using assms(3) by (auto simp: parse_number_def rbind_eq_Inr Let_def)
  obtain t where t: "s = t @ i" "digits_text (eat (CHR ''-'') t)" by (rule integral_part_split [OF i])
  obtain tf where tf: "i = tf @ s1" "list_all ascii tf" by (rule fraction_part_split [OF f])
  obtain te where te: "s1 = te @ rest" "list_all ascii te" by (rule exponent_part_split [OF e])
  have "list_all ascii (t @ tf @ te)" using digits_text_ascii [OF t(2)] tf(2) te(2) by simp
  then have rest: "utf8 rest" using assms(2) t(1) tf(1) te(1) utf8_append [OF utf8_ascii_text, of "t @ tf @ te" rest] by simp
  have "t \<noteq> []" using t(2) by (auto simp: digits_text_def)
  moreover have "number_ok fl x"
  proof (cases "length rest = length i")
    case True
    then have "take (length s - length rest) s = t" using t(1) by simp
    then show ?thesis using x True t(2) by (auto simp: integer_def integer_text_def split: if_splits)
  next
    case False
    then show ?thesis using x assms(1) by (auto simp: float_def reads_only_def split: option.splits)
  qed
  ultimately show ?thesis using rest t(1) tf(1) te(1) by simp
qed

section \<open>Strings\<close>

lemma hex_value_ascii: "hex_value c = Some d \<Longrightarrow> ascii c"
  by (auto simp: hex_value_def Let_def ascii_def digit_def between_def split: if_splits)

lemma hex_value_less: "hex_value c = Some d \<Longrightarrow> d < 16"
  by (auto simp: hex_value_def Let_def digit_def between_def split: if_splits)

lemma hex_fold_ascii: "hex_fold u s = Some w \<Longrightarrow> list_all ascii s \<and> w < (u + 1) * 16 ^ length s"
proof (induction u s rule: hex_fold.induct)
  case (2 u c cs)
  then obtain d where d: "hex_value c = Some d" "hex_fold (u * 16 + d) cs = Some w" by (auto split: option.splits)
  have "w < (u * 16 + d + 1) * 16 ^ length cs" using "2.IH" [OF d] by simp
  also have "\<dots> \<le> ((u + 1) * 16) * 16 ^ length cs" using hex_value_less [OF d(1)] by (intro mult_right_mono) auto
  finally show ?case using "2.IH" [OF d] hex_value_ascii [OF d(1)] by (simp add: algebra_simps)
qed simp

lemma hex4_sound:
  assumes "utf8 s" "hex4 p s = Inr (u, rest)"
  shows "utf8 rest \<and> u < 0x10000"
proof -
  have *: "hex_fold 0 (take 4 s) = Some u" "rest = drop 4 s" "4 \<le> length s"
    using assms(2) by (auto simp: hex4_def split: if_splits option.splits)
  then show ?thesis using hex_fold_ascii [OF *(1)] utf8_drop [OF assms(1)] by simp
qed

lemma char_of_code: "k < 256 \<Longrightarrow> of_char (char_of k) = (k :: nat)"
  by (simp add: take_bit_nat_eq_self)

lemma utf8_encode_sound: "scalar_value code \<Longrightarrow> utf8 (utf8_encode code)"
proof -
  assume code: "scalar_value code"
  have "utf8_step (utf8_encode code) = length (utf8_encode code)"
  proof -
    consider "code < 0x80" | "0x80 \<le> code" "code < 0x800" | "0x800 \<le> code" "code < 0x10000" | "0x10000 \<le> code" "code < 0x110000"
      using code by (fastforce simp: scalar_value_def)
    then show ?thesis
    proof cases
      case 1
      then show ?thesis by (simp add: utf8_encode_def char_of_code del: of_char_of)
    next
      case 2
      then have "code div 64 < 32" "2 \<le> code div 64" by auto
      with 2 show ?thesis
        by (simp add: utf8_encode_def char_of_code sequence_tail_def continuation_def Let_def del: of_char_of)
    next
      case 3
      have q: "code div 64 div 64 = code div 4096" by (simp add: div_mult2_eq [symmetric])
      have "code div 4096 < 16" "code div 4096 = 0 \<longrightarrow> 32 \<le> code div 64 mod 64" using 3 by auto
      moreover have "code div 4096 = 13 \<longrightarrow> code div 64 mod 64 < 32"
      proof
        assume "code div 4096 = 13"
        moreover from this have "code < 0xD800" using code by (auto simp: scalar_value_def)
        then have "code div 64 < 864" by simp
        moreover have "m < 864 \<Longrightarrow> m div 64 = 13 \<Longrightarrow> m mod 64 < 32" for m :: nat
          by (simp add: minus_div_mult_eq_mod [symmetric])
        ultimately show "code div 64 mod 64 < 32" using q by metis
      qed
      ultimately have "code div 4096 < 16" "code div 4096 = 0 \<longrightarrow> 32 \<le> code div 64 mod 64"
        "code div 4096 = 13 \<longrightarrow> code div 64 mod 64 < 32" by blast+
      with 3 show ?thesis
        by (auto simp: utf8_encode_def char_of_code sequence_tail_def continuation_def Let_def simp del: of_char_of)
    next
      case 4
      have q: "code div 4096 div 64 = code div 262144" "code div 4096 < 272" using 4 by (simp_all add: div_mult2_eq [symmetric])
      have top: "m < 272 \<Longrightarrow> m div 64 = 4 \<Longrightarrow> m mod 64 < 16" for m :: nat
        by (simp add: minus_div_mult_eq_mod [symmetric])
      have "code div 262144 \<le> 4" "code div 262144 = 0 \<longrightarrow> 16 \<le> code div 4096 mod 64" using 4 by auto
      moreover have "code div 262144 = 4 \<longrightarrow> code div 4096 mod 64 < 16" using top [OF q(2)] q(1) by simp
      ultimately show ?thesis using 4
        by (auto simp: utf8_encode_def char_of_code sequence_tail_def continuation_def Let_def simp del: of_char_of)
    qed
  qed
  moreover have "utf8_encode code \<noteq> []" by (simp add: utf8_encode_def)
  ultimately show ?thesis by (subst utf8_unfold) simp
qed

lemma low_surrogate_sound:
  assumes "utf8 s" "low_surrogate n p s = Inr (u, rest)"
  shows "utf8 rest \<and> 0xDC00 \<le> u \<and> u < 0xE000"
proof -
  from assms(2) have two: "take 2 s = [CHR 0x5C, CHR ''u'']" by (simp add: low_surrogate_def split: if_splits)
  with assms(2) have h: "hex4 (offset n s) (drop 2 s) = Inr (u, rest)" and u: "0xDC00 \<le> u \<and> u < 0xE000"
    by (auto simp: low_surrogate_def rbind_eq_Inr split: if_splits)
  have "utf8 (drop 2 s)" using two by (intro utf8_drop [OF assms(1)]) simp
  from hex4_sound [OF this h] u show ?thesis by simp
qed

lemma unicode_sound:
  assumes "utf8 s" "unicode n p s = Inr (t, rest)"
  shows "utf8 t \<and> utf8 rest"
proof -
  from assms(2) obtain u r where h: "hex4 p s = Inr (u, r)" by (auto simp: unicode_def rbind_eq_Inr)
  have r: "utf8 r" using hex4_sound [OF assms(1) h] by simp
  show ?thesis
  proof (cases "0xD800 \<le> u \<and> u < 0xDC00")
    case True
    with assms(2) h obtain low where l: "low_surrogate n p r = Inr (low, rest)" and t: "utf8 t"
      by (auto simp: unicode_def rbind_eq_Inr utf8_encode_sound split: if_splits)
    from low_surrogate_sound [OF r l] t show ?thesis by simp
  next
    case False
    with assms(2) h r show ?thesis by (auto simp: unicode_def rbind_eq_Inr utf8_encode_sound split: if_splits)
  qed
qed

lemma escape_simple:
  assumes "escape n (a # x # s) = Inr (t, rest)" "x \<noteq> CHR ''u''"
  shows "rest = s \<and> ascii x \<and> list_all ascii t"
  using assms
  by (simp add: escape_def split: if_split_asm) (auto simp: ascii_def)

lemma escape_sound:
  assumes "utf8 (CHR 0x5C # s)" "escape n (CHR 0x5C # s) = Inr (t, rest)"
  shows "utf8 t \<and> utf8 rest"
proof (cases s)
  case (Cons x s')
  have s: "utf8 (x # s')" using assms(1) Cons by simp
  show ?thesis
  proof (cases "x = CHR ''u''")
    case True
    then have u: "unicode n (offset n (CHR 0x5C # s)) s' = Inr (t, rest)" using assms(2) Cons by (simp add: escape_def)
    show ?thesis by (rule unicode_sound [OF _ u]) (use s True in simp)
  next
    case False
    from escape_simple [OF assms(2) [unfolded Cons] False] s show ?thesis using utf8_ascii_text by simp
  qed
qed (use assms(2) in \<open>simp add: escape_def\<close>)

lemma utf8_cases [consumes 1, case_names Nil ascii sequence]:
  assumes "utf8 s"
  obtains "s = []" | c s' where "s = c # s'" "ascii c" "utf8 s'"
    | p s' where "s = p @ s'" "p \<noteq> []" "list_all (\<lambda>c. \<not> ascii c) p" "utf8 p" "utf8 s'"
  using assms by (induction rule: utf8_induct) blast+

lemma string_body_high:
  "list_all (\<lambda>c. \<not> ascii c) p \<Longrightarrow>
   string_body n (p @ s) = rbind (string_body n s) (\<lambda>(more, rest). Inr (p @ more, rest))"
proof (induction p)
  case Nil
  show ?case by (cases "string_body n s") auto
next
  case (Cons c p)
  then have "\<not> of_char c < (32 :: nat)" "c \<noteq> CHR 0x22" "c \<noteq> CHR 0x5C" by (auto simp: ascii_def)
  with Cons show ?case by (cases "string_body n s") auto
qed

lemma string_body_sound:
  "utf8 s \<Longrightarrow> string_body n s = Inr (t, rest) \<Longrightarrow> utf8 t \<and> utf8 rest \<and> length rest < length s"
proof (induction "length s" arbitrary: s t rest rule: less_induct)
  case less
  from less.prems(1) show ?case
  proof (cases rule: utf8_cases)
    case Nil
    then show ?thesis using less.prems(2) by simp
  next
    case (ascii c s')
    consider (q) "c = CHR 0x22" | (b) "c = CHR 0x5C" | (r) "c \<noteq> CHR 0x22" "c \<noteq> CHR 0x5C" by blast
    then show ?thesis
    proof cases
      case q
      then show ?thesis using less.prems(2) ascii by simp
    next
      case b
      with less.prems(2) ascii(1) obtain d r more
        where e: "escape n (CHR 0x5C # s') = Inr (d, r)" "string_body n r = Inr (more, rest)" "t = d @ more"
        by (auto simp: rbind_eq_Inr split: sum.splits)
      have short: "length r < length s" using escape_shorter [OF _ e(1)] ascii(1) by simp
      have "utf8 d" "utf8 r" using escape_sound [OF _ e(1)] less.prems(1) ascii(1) b by auto
      with less.hyps [OF short _ e(2)] short e(3) show ?thesis by (simp add: utf8_append)
    next
      case r
      with less.prems(2) ascii(1) obtain more where e: "string_body n s' = Inr (more, rest)" "t = c # more"
        by (auto simp: rbind_eq_Inr split: if_splits)
      with less.hyps [OF _ ascii(3) e(1)] ascii show ?thesis by simp
    qed
  next
    case (sequence p s')
    with less.prems(2) obtain more where e: "string_body n s' = Inr (more, rest)" "t = p @ more"
      by (auto simp: string_body_high rbind_eq_Inr)
    have "length s' < length s" using sequence(1,2) by simp
    with less.hyps [OF this sequence(5) e(1)] e(2) sequence(4) show ?thesis by (simp add: utf8_append)
  qed
qed

section \<open>Values\<close>

lemma utf8_skip: "utf8 s \<Longrightarrow> utf8 (skip_whitespace s)"
  unfolding skip_whitespace_def by (erule utf8_dropWhile) (auto simp: json_space_def ascii_def)

lemma utf8_tl: "utf8 s \<Longrightarrow> starts_with c s \<Longrightarrow> ascii c \<Longrightarrow> utf8 (tl s)"
  by (auto simp: starts_with_iff)

lemma skip_length: "length (skip_whitespace s) \<le> length s"
  by (simp add: skip_whitespace_def length_dropWhile_le)

lemma tl_shorter: "starts_with c s \<Longrightarrow> length (tl s) < length s"
  by (auto simp: starts_with_iff)

lemma separator_sound:
  assumes "separator n close s = Inr (closed, rest)"
  shows "length rest < length s" "utf8 s \<Longrightarrow> ascii close \<Longrightarrow> utf8 rest"
proof -
  let ?s = "skip_whitespace s"
  consider "starts_with close ?s" "rest = tl ?s" | "starts_with (CHR '','') ?s" "rest = skip_whitespace (tl ?s)"
    using assms by (auto simp: separator_def Let_def split: if_splits)
  then show "length rest < length s" "utf8 s \<Longrightarrow> ascii close \<Longrightarrow> utf8 rest"
    using skip_length [of s] skip_length [of "tl ?s"] tl_shorter [of _ ?s] by (cases; fastforce intro: utf8_tl utf8_skip)+
qed

lemma string_body_shorter: "string_body n s = Inr (t, rest) \<Longrightarrow> length rest < length s"
proof (induction n s arbitrary: t rest rule: string_body.induct)
  case (2 n c cs)
  consider (q) "c = CHR 0x22" | (b) "c = CHR 0x5C" | (r) "c \<noteq> CHR 0x22" "c \<noteq> CHR 0x5C" by blast
  then show ?case
  proof cases
    case q
    then show ?thesis using "2.prems" by simp
  next
    case b
    with "2.prems" obtain d r more where e: "escape n (c # cs) = Inr (d, r)" "string_body n r = Inr (more, rest)"
      by (auto simp: rbind_eq_Inr split: sum.splits)
    have "length r < length (c # cs)" by (rule escape_shorter [OF _ e(1)]) simp
    moreover have "length rest < length r" by (rule "2.IH"(1) [OF _ _ e(1) refl e(2)]) (use b in auto)
    ultimately show ?thesis by simp
  next
    case r
    with "2.prems" obtain more where "string_body n cs = Inr (more, rest)" "\<not> of_char c < (32 :: nat)"
      by (auto simp: rbind_eq_Inr split: if_splits)
    then show ?thesis using "2.IH"(2) r by fastforce
  qed
qed simp

text \<open>What a value's parser keeps: what it answers is admissible, within its levels, and shorter by what it read.\<close>

definition sound :: "(bool \<Rightarrow> string \<Rightarrow> int \<Rightarrow> bool) \<Rightarrow> nat \<Rightarrow> (string \<Rightarrow> json parsed) \<Rightarrow> bool" where
  "sound fl room value \<longleftrightarrow> (\<forall>s v rest. utf8 s \<longrightarrow> value s = Inr (v, rest) \<longrightarrow>
     admissible fl v \<and> levels v \<le> room \<and> utf8 rest \<and> length rest < length s)"

lemma soundD:
  "sound fl room value \<Longrightarrow> utf8 s \<Longrightarrow> value s = Inr (v, rest) \<Longrightarrow>
   admissible fl v \<and> levels v \<le> room \<and> utf8 rest \<and> length rest < length s"
  by (simp add: sound_def)

lemma array_loop_sound:
  assumes "sound fl room value"
  shows "utf8 s \<Longrightarrow> array_loop value n fuel s = Inr (vs, rest) \<Longrightarrow>
    (\<forall>v \<in> set vs. admissible fl v \<and> levels v \<le> room) \<and> utf8 rest \<and> length rest < length s"
proof (induction fuel arbitrary: s vs)
  case (Suc fuel)
  from Suc.prems(2) obtain v s1 closed s2 where
    v: "value s = Inr (v, s1)" and sep: "separator n (CHR '']'') s1 = Inr (closed, s2)"
    and vs: "if closed then (vs, rest) = ([v], s2) else \<exists>vs'. array_loop value n fuel s2 = Inr (vs', rest) \<and> vs = v # vs'"
    by (fastforce simp: rbind_eq_Inr split: if_splits)
  note sv = soundD [OF assms Suc.prems(1) v] and ss = separator_sound [OF sep]
  show ?case
  proof (cases closed)
    case True
    then show ?thesis using vs sv ss by auto
  next
    case False
    then obtain vs' where "array_loop value n fuel s2 = Inr (vs', rest)" "vs = v # vs'" using vs by auto
    then show ?thesis using Suc.IH [of s2 vs'] sv ss by fastforce
  qed
qed simp

lemma parse_member_sound:
  assumes "sound fl room value" "utf8 s" "parse_member value n s = Inr ((k, v), rest)"
  shows "utf8 k \<and> admissible fl v \<and> levels v \<le> room \<and> utf8 rest \<and> length rest < length s"
proof -
  from assms(3) have q: "starts_with (CHR 0x22) s" by (auto simp: parse_member_def split: if_splits)
  with assms(3) obtain s1 where k: "string_body n (tl s) = Inr (k, s1)"
    and c: "starts_with (CHR '':'') (skip_whitespace s1)"
    and v: "value (skip_whitespace (tl (skip_whitespace s1))) = Inr (v, rest)"
    by (auto simp: parse_member_def parse_string_def rbind_eq_Inr Let_def split: if_splits)
  have ks: "utf8 k \<and> utf8 s1 \<and> length s1 < length (tl s)"
    by (rule string_body_sound [OF utf8_tl [OF assms(2) q] k]) simp
  have "utf8 (skip_whitespace (tl (skip_whitespace s1)))"
    using ks by (intro utf8_skip utf8_tl [OF _ c]) auto
  from soundD [OF assms(1) this v] ks show ?thesis
    using skip_length [of s1] skip_length [of "tl (skip_whitespace s1)"] tl_shorter [OF c] tl_shorter [OF q] by auto
qed

lemma object_loop_sound:
  assumes "sound fl room value"
  shows "utf8 s \<Longrightarrow> object_loop value n fuel s = Inr (ms, rest) \<Longrightarrow>
    (\<forall>(k, v) \<in> set ms. utf8 k \<and> admissible fl v \<and> levels v \<le> room) \<and> utf8 rest \<and> length rest < length s"
proof (induction fuel arbitrary: s ms)
  case (Suc fuel)
  from Suc.prems(2) obtain k v s1 closed s2 where
    m: "parse_member value n s = Inr ((k, v), s1)" and sep: "separator n (CHR ''}'') s1 = Inr (closed, s2)"
    and ms: "if closed then (ms, rest) = ([(k, v)], s2)
      else \<exists>ms'. object_loop value n fuel s2 = Inr (ms', rest) \<and> ms = (k, v) # ms'"
    by (fastforce simp: rbind_eq_Inr split: if_splits)
  note sm = parse_member_sound [OF assms Suc.prems(1) m] and ss = separator_sound [OF sep]
  show ?case
  proof (cases closed)
    case True
    then show ?thesis using ms sm ss by auto
  next
    case False
    then obtain ms' where "object_loop value n fuel s2 = Inr (ms', rest)" "ms = (k, v) # ms'" using ms by auto
    then show ?thesis using Suc.IH [of s2 ms'] sm ss by fastforce
  qed
qed simp

lemma parse_array_sound:
  assumes "sound fl room value" "utf8 s" "starts_with (CHR ''['') s" "parse_array value n s = Inr (v, rest)"
  shows "admissible fl v \<and> levels v \<le> Suc room \<and> utf8 rest \<and> length rest < length s"
proof -
  let ?s = "skip_whitespace (tl s)"
  have s: "utf8 ?s" "length ?s < length s"
    using utf8_skip [OF utf8_tl [OF assms(2,3)]] skip_length [of "tl s"] tl_shorter [OF assms(3)] by auto
  show ?thesis
  proof (cases "starts_with (CHR '']'') ?s")
    case True
    then show ?thesis
      using assms(4) s utf8_tl [OF s(1) True] tl_shorter [OF True] by (auto simp: parse_array_def Let_def)
  next
    case False
    then obtain vs where "array_loop value n (length ?s) ?s = Inr (vs, rest)" "v = Array vs"
      using assms(4) by (auto simp: parse_array_def Let_def rbind_eq_Inr)
    with array_loop_sound [OF assms(1) s(1), of n "length ?s" vs rest] s(2) show ?thesis by auto
  qed
qed

lemma parse_object_sound:
  assumes "sound fl room value" "utf8 s" "starts_with (CHR ''{'') s" "parse_object value n s = Inr (v, rest)"
  shows "admissible fl v \<and> levels v \<le> Suc room \<and> utf8 rest \<and> length rest < length s"
proof -
  let ?s = "skip_whitespace (tl s)"
  have s: "utf8 ?s" "length ?s < length s"
    using utf8_skip [OF utf8_tl [OF assms(2,3)]] skip_length [of "tl s"] tl_shorter [OF assms(3)] by auto
  show ?thesis
  proof (cases "starts_with (CHR ''}'') ?s")
    case True
    then show ?thesis
      using assms(4) s utf8_tl [OF s(1) True] tl_shorter [OF True] by (auto simp: parse_object_def Let_def)
  next
    case False
    then obtain ms where ms: "object_loop value n (length ?s) ?s = Inr (ms, rest)" "v = Object ms" "distinct (map fst ms)"
      using assms(4) by (auto simp: parse_object_def Let_def rbind_eq_Inr unique_iff split: if_splits)
    with object_loop_sound [OF assms(1) s(1) ms(1)] s(2) show ?thesis by (auto split: prod.splits)
  qed
qed

lemma parse_literal_sound:
  assumes "parse_literal n word w s = Inr (v, rest)" "list_all ascii word" "word \<noteq> []"
  shows "v = w" "length rest < length s" "utf8 s \<Longrightarrow> utf8 rest"
proof -
  from assms(1) have *: "take (length word) s = word" "v = w" "rest = drop (length word) s"
    by (auto simp: parse_literal_def split: if_splits)
  then show "v = w" "utf8 s \<Longrightarrow> utf8 rest" using assms(2) utf8_drop [of s "length word"] by auto
  have "s \<noteq> []" using *(1) assms(3) by auto
  then show "length rest < length s" using *(3) assms(3) by simp
qed

lemma dispatch_cases:
  assumes "dispatch read n obj arr s = Inr (v, rest)"
  obtains "starts_with (CHR ''{'') s" "obj s = Inr (v, rest)" | "starts_with (CHR ''['') s" "arr s = Inr (v, rest)"
    | t where "starts_with (CHR 0x22) s" "string_body n (tl s) = Inr (t, rest)" "v = Str t"
    | word w where "parse_literal n word w s = Inr (v, rest)" "list_all ascii word" "word \<noteq> []" "w \<in> {Null, Bool True, Bool False}"
    | x where "parse_number read n s = Inr (x, rest)" "v = Number x"
proof (cases s)
  case Nil
  then show ?thesis using assms by (simp add: dispatch_def)
next
  case (Cons c cs)
  have word: "list_all ascii ''true''" "list_all ascii ''false''" "list_all ascii ''null''" by (simp_all add: ascii_def)
  consider (o) "c = CHR ''{''" | (a) "c \<noteq> CHR ''{''" "c = CHR ''[''" | (s) "c = CHR 0x22" | (t) "c = CHR ''t''" | (f) "c = CHR ''f''"
    | (n) "c = CHR ''n''" | (x) "c \<notin> set ''{[tfn''" "c \<noteq> CHR 0x22" by auto
  then show ?thesis
  proof cases
    case o
    then show ?thesis using assms Cons that(1) by (simp add: dispatch_def)
  next
    case a
    then show ?thesis using assms Cons that(2) by (simp add: dispatch_def)
  next
    case s
    then show ?thesis using assms Cons that(3) by (auto simp: dispatch_def parse_string_def rbind_eq_Inr)
  next
    case t
    then show ?thesis using assms Cons that(4) [OF _ word(1)] by (simp add: dispatch_def)
  next
    case f
    then show ?thesis using assms Cons that(4) [OF _ word(2)] by (simp add: dispatch_def)
  next
    case n
    then show ?thesis using assms Cons that(4) [OF _ word(3)] by (simp add: dispatch_def)
  next
    case x
    then have "c \<noteq> CHR ''{''" "c \<noteq> CHR ''[''" "c \<noteq> CHR 0x22" "c \<noteq> CHR ''t''" "c \<noteq> CHR ''f''" "c \<noteq> CHR ''n''" by auto
    then have "dispatch read n obj arr (c # cs) = (if c = CHR ''-'' \<or> digit c
        then rbind (parse_number read n (c # cs)) (\<lambda>(v, rest). Inr (Number v, rest)) else Inl (Syntax (offset n (c # cs))))"
      by (simp add: dispatch_def)
    with assms Cons have "rbind (parse_number read n s) (\<lambda>(v, rest). Inr (Number v, rest)) = Inr (v, rest)" by (metis Inl_Inr_False)
    then obtain x where "parse_number read n s = Inr (x, rest)" "v = Number x" by (auto simp: rbind_eq_Inr)
    then show ?thesis by (rule that(5))
  qed
qed

lemma dispatch_sound:
  assumes r: "reads_only read fl"
    and obj: "\<And>s v rest. utf8 s \<Longrightarrow> starts_with (CHR ''{'') s \<Longrightarrow> obj s = Inr (v, rest) \<Longrightarrow>
      admissible fl v \<and> levels v \<le> room \<and> utf8 rest \<and> length rest < length s"
    and arr: "\<And>s v rest. utf8 s \<Longrightarrow> starts_with (CHR ''['') s \<Longrightarrow> arr s = Inr (v, rest) \<Longrightarrow>
      admissible fl v \<and> levels v \<le> room \<and> utf8 rest \<and> length rest < length s"
  shows "sound fl room (dispatch read n obj arr)"
  unfolding sound_def
proof (intro allI impI)
  fix s v rest
  assume s: "utf8 s" and d: "dispatch read n obj arr s = Inr (v, rest)"
  from d show "admissible fl v \<and> levels v \<le> room \<and> utf8 rest \<and> length rest < length s"
  proof (cases rule: dispatch_cases)
    case 1
    then show ?thesis by (rule obj [OF s])
  next
    case 2
    then show ?thesis by (rule arr [OF s])
  next
    case (3 t)
    have "utf8 (tl s)" by (rule utf8_tl [OF s 3(1)]) simp
    from string_body_sound [OF this 3(2)] 3(3) tl_shorter [OF 3(1)] show ?thesis by auto
  next
    case (4 word w)
    from parse_literal_sound [OF 4(1-3)] 4(4) s show ?thesis by auto
  next
    case (5 x)
    from parse_number_sound [OF r s 5(1)] 5(2) show ?thesis by simp
  qed
qed

lemma parse_value_sound: "reads_only read fl \<Longrightarrow> sound fl room (parse_value read n room)"
proof (induction room)
  case 0
  have "parse_value read n 0 = dispatch read n (\<lambda>s. Inl (TooDeep (offset n s))) (\<lambda>s. Inl (TooDeep (offset n s)))" by (rule ext) simp
  with dispatch_sound [OF 0, of "\<lambda>s. Inl (TooDeep (offset n s))" 0 "\<lambda>s. Inl (TooDeep (offset n s))" n] show ?case by simp
next
  case (Suc room)
  note ih = Suc.IH [OF Suc.prems]
  have "parse_value read n (Suc room) = dispatch read n (parse_object (parse_value read n room) n) (parse_array (parse_value read n room) n)"
    by (rule ext) simp
  with dispatch_sound [OF Suc.prems parse_object_sound [OF ih] parse_array_sound [OF ih]] show ?case by simp
qed

lemma parse_sound:
  assumes "reads_only read fl" "parse read raw = Inr v"
  shows "admissible fl v" "levels v \<le> MAX_DEPTH"
proof -
  from assms(2) have u: "utf8 raw" and d: "document_value read raw = Inr v"
    using valid_up_to_le [of raw] by (auto simp: parse_def utf8_def split: if_splits)
  from d obtain rest where "parse_value read (length raw) MAX_DEPTH (skip_whitespace raw) = Inr (v, rest)"
    by (auto simp: document_value_def rbind_eq_Inr Let_def split: if_splits)
  from soundD [OF parse_value_sound [OF assms(1)] utf8_skip [OF u] this] show "admissible fl v" "levels v \<le> MAX_DEPTH" by auto
qed

section \<open>The loops' fuel is enough\<close>

text \<open>What the loops rely on of the value parser they call: it reads at least one byte, and refuses an empty text.\<close>

locale value_reader =
  fixes item :: "string \<Rightarrow> json parsed" and n :: nat
  assumes value_shorter: "item s = Inr (v, rest) \<Longrightarrow> length rest < length s"
    and value_empty: "item [] = Inl (Syntax (offset n []))"
begin

lemma array_loop_shorter: "array_loop item n fuel s = Inr (vs, rest) \<Longrightarrow> length rest < length s"
proof (induction fuel arbitrary: s vs)
  case (Suc fuel)
  from Suc.prems obtain v s1 closed s2 where
    "item s = Inr (v, s1)" "separator n (CHR '']'') s1 = Inr (closed, s2)"
    and vs: "if closed then (vs, rest) = ([v], s2) else \<exists>vs'. array_loop item n fuel s2 = Inr (vs', rest)"
    by (fastforce simp: rbind_eq_Inr split: if_splits)
  then have "length s2 < length s" using value_shorter separator_sound(1) by fastforce
  then show ?case using vs Suc.IH by (fastforce split: if_splits)
qed simp

lemma array_loop_fuel: "length s \<le> f \<Longrightarrow> length s \<le> g \<Longrightarrow> array_loop item n f s = array_loop item n g s"
proof (induction f arbitrary: g s)
  case 0
  then show ?case using value_empty by (cases g) auto
next
  case (Suc f)
  show ?case
  proof (cases g)
    case 0
    then show ?thesis using Suc.prems value_empty by auto
  next
    case (Suc g')
    have "array_loop item n f s2 = array_loop item n g' s2"
      if "item s = Inr (v, s1)" "separator n (CHR '']'') s1 = Inr (c, s2)" for v s1 c s2
    proof (rule Suc.IH)
      have "length s2 < length s1" "length s1 < length s" using value_shorter [OF that(1)] separator_sound(1) [OF that(2)] by auto
      then show "length s2 \<le> f" "length s2 \<le> g'" using Suc.prems Suc by auto
    qed
    then show ?thesis using Suc by (auto simp: rbind_def split: sum.splits)
  qed
qed

lemma member_shorter: "parse_member item n s = Inr (m, rest) \<Longrightarrow> length rest < length s"
proof -
  assume m: "parse_member item n s = Inr (m, rest)"
  then have q: "starts_with (CHR 0x22) s" by (auto simp: parse_member_def split: if_splits)
  with m obtain k s1 v where k: "string_body n (tl s) = Inr (k, s1)" and c: "starts_with (CHR '':'') (skip_whitespace s1)"
    and v: "item (skip_whitespace (tl (skip_whitespace s1))) = Inr (v, rest)"
    by (auto simp: parse_member_def parse_string_def rbind_eq_Inr Let_def split: if_splits)
  from value_shorter [OF v] string_body_shorter [OF k] tl_shorter [OF c] tl_shorter [OF q]
  show ?thesis using skip_length [of s1] skip_length [of "tl (skip_whitespace s1)"] by linarith
qed

lemma object_loop_shorter: "object_loop item n fuel s = Inr (ms, rest) \<Longrightarrow> length rest < length s"
proof (induction fuel arbitrary: s ms)
  case (Suc fuel)
  from Suc.prems obtain m s1 closed s2 where
    "parse_member item n s = Inr (m, s1)" "separator n (CHR ''}'') s1 = Inr (closed, s2)"
    and ms: "if closed then (ms, rest) = ([m], s2) else \<exists>ms'. object_loop item n fuel s2 = Inr (ms', rest)"
    by (fastforce simp: rbind_eq_Inr split: if_splits)
  then have "length s2 < length s" using member_shorter separator_sound(1) by fastforce
  then show ?case using ms Suc.IH by (fastforce split: if_splits)
qed simp

lemma object_loop_fuel: "length s \<le> f \<Longrightarrow> length s \<le> g \<Longrightarrow> object_loop item n f s = object_loop item n g s"
proof (induction f arbitrary: g s)
  case 0
  then show ?case by (cases g) (auto simp: parse_member_def)
next
  case (Suc f)
  show ?case
  proof (cases g)
    case 0
    then show ?thesis using Suc.prems by (auto simp: parse_member_def)
  next
    case (Suc g')
    have "object_loop item n f s2 = object_loop item n g' s2"
      if "parse_member item n s = Inr (m, s1)" "separator n (CHR ''}'') s1 = Inr (c, s2)" for m s1 c s2
    proof (rule Suc.IH)
      have "length s2 < length s1" "length s1 < length s" using member_shorter [OF that(1)] separator_sound(1) [OF that(2)] by auto
      then show "length s2 \<le> f" "length s2 \<le> g'" using Suc.prems Suc by auto
    qed
    then show ?thesis using Suc by (auto simp: rbind_def split: sum.splits)
  qed
qed

lemma container_shorter:
  assumes "s \<noteq> []"
  shows "parse_array item n s = Inr (v, rest) \<Longrightarrow> length rest < length s"
    "parse_object item n s = Inr (v, rest) \<Longrightarrow> length rest < length s"
proof -
  let ?s = "skip_whitespace (tl s)"
  have s: "length ?s < length s" using skip_length [of "tl s"] assms by (cases s) auto
  show "length rest < length s" if "parse_array item n s = Inr (v, rest)"
    using that s tl_shorter [of "CHR '']''" ?s] array_loop_shorter [of "length ?s" ?s _ rest]
    by (auto simp: parse_array_def Let_def rbind_eq_Inr split: if_splits)
  show "length rest < length s" if "parse_object item n s = Inr (v, rest)"
    using that s tl_shorter [of "CHR ''}''" ?s] object_loop_shorter [of "length ?s" ?s _ rest]
    by (auto simp: parse_object_def Let_def rbind_eq_Inr split: if_splits)
qed

end

lemma parse_number_shorter: "parse_number read n s = Inr (x, rest) \<Longrightarrow> length rest < length s"
proof -
  assume "parse_number read n s = Inr (x, rest)"
  then obtain i s1 where i: "integral_part n s = Inr i" and f: "fraction_part n i = Inr s1" and e: "exponent_part n s1 = Inr rest"
    by (auto simp: parse_number_def rbind_eq_Inr Let_def)
  obtain t where t: "s = t @ i" "digits_text (eat (CHR ''-'') t)" by (rule integral_part_split [OF i])
  then have "s = t @ i" "t \<noteq> []" by (auto simp: digits_text_def)
  moreover obtain tf where "i = tf @ s1" by (rule fraction_part_split [OF f])
  moreover obtain te where "s1 = te @ rest" by (rule exponent_part_split [OF e])
  ultimately show ?thesis by simp
qed

lemma dispatch_shorter:
  assumes "\<And>v. s \<noteq> [] \<Longrightarrow> obj s = Inr (v, rest) \<Longrightarrow> length rest < length s"
    and "\<And>v. s \<noteq> [] \<Longrightarrow> arr s = Inr (v, rest) \<Longrightarrow> length rest < length s"
    and "dispatch read n obj arr s = Inr (v, rest)"
  shows "length rest < length s"
  using assms(3)
proof (cases rule: dispatch_cases)
  case 1
  then show ?thesis using assms(1) by (cases s) auto
next
  case 2
  then show ?thesis using assms(2) by (cases s) auto
next
  case (3 t)
  then show ?thesis using string_body_shorter [OF 3(2)] tl_shorter [OF 3(1)] by simp
next
  case (4 word w)
  then show ?thesis using parse_literal_sound(2) by blast
next
  case (5 x)
  then show ?thesis using parse_number_shorter by blast
qed

lemma parse_value_reader: "value_reader (parse_value read n room) n"
proof (induction room)
  case 0
  show ?case
  proof
    show "length rest < length s" if "parse_value read n 0 s = Inr (v, rest)" for s v rest
      by (rule dispatch_shorter [OF _ _ that [unfolded parse_value.simps]]) simp_all
  qed (simp add: dispatch_def)
next
  case (Suc room)
  show ?case
  proof
    show "length rest < length s" if "parse_value read n (Suc room) s = Inr (v, rest)" for s v rest
      by (rule dispatch_shorter [OF _ _ that [unfolded parse_value.simps]])
        (use value_reader.container_shorter [OF Suc.IH, of s] in blast)+
  qed (simp add: dispatch_def)
qed

interpretation json_values: value_reader "parse_value read n room" n for read n room
  by (rule parse_value_reader)

section \<open>The parser and the canonical writer\<close>

text \<open>C34: The strict parser reads back the canonical bytes. Of every value of the parser's shape (distinct member names,
  UTF-8 texts, integers typed by their range, at most 512 brackets deep) the canonical bytes parse to that value with every
  object's members in sorted order, whose canonical bytes are the same: parsing and writing again changes nothing. The float
  reader is only relied on to read back the shortest digits Rust prints.\<close>

theorem json_roundtrip:
  assumes "reads_back read fl" "admissible fl v" "levels v \<le> MAX_DEPTH"
  shows "parse read (canonical v) = Inr (ordered v) \<and> canonical (ordered v) = canonical v"
  using parse_canonical [OF assms] canonical_ordered by simp

definition example_reader :: f64_reader where
  "example_reader literal = (if literal = ''1.5'' then Some (False, ''15'', 0) else None)"

definition example_float :: "bool \<Rightarrow> string \<Rightarrow> int \<Rightarrow> bool" where
  "example_float s d e \<longleftrightarrow> \<not> s \<and> d = ''15'' \<and> e = 0"

definition example_value :: json where
  "example_value = Object [(''b'', Array [Number (Int64 (- 3)), Str [CHR ''a'', CHR 0x0A]]), (''a'', Number (Float64 False ''15'' 0))]"

lemma example_reads: "reads_back example_reader example_float" "reads_only example_reader example_float"
proof -
  have "float_repr False ''15'' 0 = ''1.5''" by code_simp
  moreover have "float_shape ''15'' 0" by code_simp
  ultimately show "reads_back example_reader example_float"
    by (simp add: reads_back_def example_reader_def example_float_def)
  show "reads_only example_reader example_float"
    by (simp add: reads_only_def example_reader_def example_float_def)
qed

theorem json_roundtrip_witness:
  "parse example_reader (canonical example_value) =
     Inr (Object [(''a'', Number (Float64 False ''15'' 0)), (''b'', Array [Number (Int64 (- 3)), Str [CHR ''a'', CHR 0x0A]])])"
proof -
  have "admissible example_float example_value"
    by (simp add: example_value_def example_float_def in_i64_bounds ascii_def)
  moreover have "levels example_value \<le> MAX_DEPTH" by (simp add: example_value_def MAX_DEPTH_def numeral_eq_Suc)
  moreover have "ordered example_value =
      Object [(''a'', Number (Float64 False ''15'' 0)), (''b'', Array [Number (Int64 (- 3)), Str [CHR ''a'', CHR 0x0A]])]"
    by code_simp
  ultimately show ?thesis using json_roundtrip [OF example_reads(1)] by simp
qed

text \<open>C35: Whatever the strict parser answers has the shape the Team relies on: no object names a field twice, at any depth;
  every text and name is UTF-8; an integer is small exactly when it fits 64 bits and otherwise keeps its canonical digits, at
  most 4300 of them; and brackets nest at most 512 deep. So what was parsed once, written canonically and parsed again is the
  same value up to the order of members.\<close>

theorem parsed_admissible:
  assumes "reads_only read fl" "parse read raw = Inr v"
  shows "admissible fl v \<and> levels v \<le> MAX_DEPTH \<and> (reads_back read fl \<longrightarrow> parse read (canonical v) = Inr (ordered v))"
  using parse_sound [OF assms] parse_canonical by blast

theorem parsed_admissible_witness:
  "admissible example_float (Object [(''a'', Number (Float64 False ''15'' 0)), (''b'', Null)])"
proof -
  have "parse example_reader (''{'' @ write_string ''a'' @ '' : 1.5,'' @ write_string ''b'' @ '':null }'') =
      Inr (Object [(''a'', Number (Float64 False ''15'' 0)), (''b'', Null)])" by code_simp
  from parsed_admissible [OF example_reads(2) this] show ?thesis by blast
qed

end
