(* ===== verification/Routine_Plan.thy ===== *)
theory Routine_Plan
  imports Json_Soundness Schedule "HOL-Library.Product_Lexorder"
begin

text \<open>
  The recorded plan of a Routine and the resolution of its steps' inputs: \<^verbatim>\<open>routine/src/plan/mod.rs\<close>, with Python's equality
  of JSON values (\<^verbatim>\<open>protocol/http/rust/src/python/value.rs\<close>).

  Pointers are RFC 6901: \<open>pointer_tokens_of\<close> decodes one, \<open>select\<close> follows it, \<open>select_where\<close> goes through the one array item
  whose member equals a constant. \<open>references\<close> are the selectors later steps apply to a step's output; \<open>selections\<close>
  resolves them against its result, and \<open>resolve\<close> builds a step's input from literals, the run's clock and the values kept.
  A \<open>BTreeMap\<close> or \<open>BTreeSet\<close> is its entries in key order. The dates a \<open>run_clock\<close> source writes (\<open>dates::clock_value\<close>),
  the destination schema's check and the reader of float literals are arguments.
\<close>

section \<open>Python's equality\<close>

text \<open>The exact value of a whole float: its decimal digits, rounded to the 53 bits a float holds; \<open>None\<close> with a fraction.
  The digits are the shortest that determine the float, so a float with a fraction has digits past its point.\<close>

fun scale53 :: "nat \<Rightarrow> nat \<Rightarrow> nat \<times> nat" where
  "scale53 value shift = (if value < 2 ^ 53 then (value, shift) else scale53 (value div 2) (Suc shift))"

declare scale53.simps [simp del]

definition round53 :: "nat \<Rightarrow> nat" where
  "round53 value = (let (top, shift) = scale53 value 0; rest = value - top * 2 ^ shift in
     if shift = 0 then value
     else if 2 * rest > 2 ^ shift \<or> (2 * rest = 2 ^ shift \<and> odd top) then (top + 1) * 2 ^ shift else top * 2 ^ shift)"

definition whole_float_text :: "bool \<Rightarrow> string \<Rightarrow> int \<Rightarrow> string option" where
  "whole_float_text negative digits exponent =
     (if list_all (\<lambda>c. c = CHR ''0'') digits then Some ''0''
      else if int (length digits) > exponent + 1 then None
      else Some ((if negative then ''-'' else []) @
        show_nat (round53 (nat (decimal_value digits) * 10 ^ nat (exponent + 1 - int (length digits))))))"

datatype numeric = Integer int | Big string | Float bool string int

definition numeric :: "json \<Rightarrow> numeric option" where
  "numeric v = (case v of
      Bool flag \<Rightarrow> Some (Integer (if flag then 1 else 0))
    | Number (Int64 i) \<Rightarrow> Some (Integer i)
    | Number (BigInt digits) \<Rightarrow> Some (Big digits)
    | Number (Float64 s d e) \<Rightarrow> Some (Float s d e)
    | _ \<Rightarrow> None)"

fun numbers_equal :: "numeric \<Rightarrow> numeric \<Rightarrow> bool" where
  "numbers_equal (Integer a) (Integer b) \<longleftrightarrow> a = b"
| "numbers_equal (Big a) (Big b) \<longleftrightarrow> a = b"
| "numbers_equal (Float s d e) (Float s' d' e') \<longleftrightarrow> number_eq (Float64 s d e) (Float64 s' d' e')"
| "numbers_equal (Integer _) (Big _) \<longleftrightarrow> False"
| "numbers_equal (Big _) (Integer _) \<longleftrightarrow> False"
| "numbers_equal (Integer i) (Float s d e) \<longleftrightarrow> whole_float_text s d e = Some (show_int i)"
| "numbers_equal (Float s d e) (Integer i) \<longleftrightarrow> whole_float_text s d e = Some (show_int i)"
| "numbers_equal (Big t) (Float s d e) \<longleftrightarrow> whole_float_text s d e = Some t"
| "numbers_equal (Float s d e) (Big t) \<longleftrightarrow> whole_float_text s d e = Some t"

text \<open>Only numbers and booleans are \<open>numeric\<close>, so the other values are compared first.\<close>

function (sequential) py_eq :: "json \<Rightarrow> json \<Rightarrow> bool" where
  "py_eq Null Null \<longleftrightarrow> True"
| "py_eq (Str a) (Str b) \<longleftrightarrow> a = b"
| "py_eq (Array a) (Array b) \<longleftrightarrow> length a = length b \<and> list_all (\<lambda>(x, y). py_eq x y) (zip a b)"
| "py_eq (Object a) (Object b) \<longleftrightarrow> length a = length b \<and>
     list_all (\<lambda>(key, x). case find_by fst key b of None \<Rightarrow> False | Some (_, y) \<Rightarrow> py_eq x y) a"
| "py_eq left right \<longleftrightarrow> (case (numeric left, numeric right) of (Some a, Some b) \<Rightarrow> numbers_equal a b | _ \<Rightarrow> False)"
  by pat_completeness auto
termination
proof (relation "measure (size \<circ> fst)", goal_cases)
  case (2 a b z x y)
  then have "x \<in> set a" by (auto dest: set_zip_leftD)
  then show ?case by (simp add: less_Suc_eq_le size_list_estimation')
next
  case (3 a b z key x entry k y)
  then have "(key, x) \<in> set a" by simp
  then have "size x < Suc (size_list (size_prod (\<lambda>x. 0) size) a)" by (auto simp: less_Suc_eq_le intro: size_list_estimation')
  then show ?case by simp
qed simp

section \<open>Pointers\<close>

definition MAX_POINTER :: nat where "MAX_POINTER = 256"

text \<open>\<open>text::len\<close>: the code points of a text are its bytes but the continuation bytes.\<close>

definition text_len :: "string \<Rightarrow> nat" where
  "text_len s = length (filter (\<lambda>c. \<not> continuation 0x80 0xBF c) s)"

text \<open>\<open>POINTER_RE\<close>: \<open>(?:/(?:[^/~]|~[01])*)*\<close>.\<close>

fun pointer_tail :: "string \<Rightarrow> bool" where
  "pointer_tail [] = True"
| "pointer_tail [c] = (c \<noteq> CHR ''~'')"
| "pointer_tail (c # d # cs) =
     (if c = CHR ''~'' then (d = CHR ''0'' \<or> d = CHR ''1'') \<and> pointer_tail cs else pointer_tail (d # cs))"

definition pointer_re :: "string \<Rightarrow> bool" where
  "pointer_re s \<longleftrightarrow> s = [] \<or> (starts_with (CHR ''/'') s \<and> pointer_tail (tl s))"

text \<open>\<open>str::replace\<close> of two characters by one, from left to right.\<close>

fun replace_pair :: "char \<Rightarrow> char \<Rightarrow> char \<Rightarrow> string \<Rightarrow> string" where
  "replace_pair a b r (x # y # zs) =
     (if x = a \<and> y = b then r # replace_pair a b r zs else x # replace_pair a b r (y # zs))"
| "replace_pair a b r s = s"

definition unescape_token :: "string \<Rightarrow> string" where
  "unescape_token t = replace_pair (CHR ''~'') (CHR ''0'') (CHR ''~'') (replace_pair (CHR ''~'') (CHR ''1'') (CHR ''/'') t)"

definition pointer_tokens_of :: "string \<Rightarrow> string list option" where
  "pointer_tokens_of pointer =
     (if text_len pointer > MAX_POINTER \<or> \<not> pointer_re pointer then None
      else if pointer = [] then Some []
      else Some (map unescape_token (split_on (CHR ''/'') (tl pointer))))"

definition pointer_tokens :: "json \<Rightarrow> string list option" where
  "pointer_tokens pointer = (case as_str pointer of None \<Rightarrow> None | Some s \<Rightarrow> pointer_tokens_of s)"

definition index_token :: "string \<Rightarrow> nat option" where
  "index_token token =
     (if token \<noteq> [] \<and> length token \<le> 9 \<and> list_all digit token \<and> (token = ''0'' \<or> \<not> starts_with (CHR ''0'') token)
      then Some (nat (decimal_value token)) else None)"

fun select_step :: "json \<Rightarrow> string \<Rightarrow> json option" where
  "select_step (Object found) token = map_option snd (find_by fst token found)"
| "select_step (Array items) token =
     (case index_token token of None \<Rightarrow> None | Some i \<Rightarrow> if i < length items then Some (items ! i) else None)"
| "select_step _ token = None"

fun select_path :: "json \<Rightarrow> string list \<Rightarrow> string + json" where
  "select_path current [] = Inr current"
| "select_path current (token # tokens) =
     rbind (ok_or (select_step current token) ''plan-reference-missing'') (\<lambda>v. select_path v tokens)"

definition select :: "json \<Rightarrow> json \<Rightarrow> string + json" where
  "select v pointer = rbind (ok_or (pointer_tokens pointer) ''plan-reference-invalid'') (select_path v)"

text \<open>Exact equality: \<open>py_eq\<close> between numbers, but a boolean never equals a number, at any depth.\<close>

function (sequential) same :: "json \<Rightarrow> json \<Rightarrow> bool" where
  "same (Bool a) (Bool b) \<longleftrightarrow> a = b"
| "same (Number a) (Number b) \<longleftrightarrow> py_eq (Number a) (Number b)"
| "same (Array a) (Array b) \<longleftrightarrow> length a = length b \<and> list_all (\<lambda>(x, y). same x y) (zip a b)"
| "same (Object a) (Object b) \<longleftrightarrow> length a = length b \<and>
     list_all (\<lambda>(key, x). case find_by fst key b of None \<Rightarrow> False | Some (_, y) \<Rightarrow> same x y) a"
| "same (Str a) (Str b) \<longleftrightarrow> a = b"
| "same Null Null \<longleftrightarrow> True"
| "same _ _ \<longleftrightarrow> False"
  by pat_completeness auto
termination
proof (relation "measure (size \<circ> fst)", goal_cases)
  case (2 a b z x y)
  then have "x \<in> set a" by (auto dest: set_zip_leftD)
  then show ?case by (simp add: less_Suc_eq_le size_list_estimation')
next
  case (3 a b z key x entry k y)
  then have "(key, x) \<in> set a" by simp
  then have "size x < Suc (size_list (size_prod (\<lambda>x. 0) size) a)" by (auto simp: less_Suc_eq_le intro: size_list_estimation')
  then show ?case by simp
qed simp

fun where_shape :: "json \<Rightarrow> bool" where
  "where_shape (Object found) \<longleftrightarrow> length found = 1 \<and>
     list_all (\<lambda>(_, constant). (case constant of Str _ \<Rightarrow> True | _ \<Rightarrow> False) \<or> is_integer constant) found"
| "where_shape _ \<longleftrightarrow> False"

definition where_matches :: "string \<Rightarrow> json \<Rightarrow> json \<Rightarrow> bool" where
  "where_matches key constant entry = (case get entry key of None \<Rightarrow> False | Some m \<Rightarrow> is_object entry \<and> same m constant)"

definition select_where :: "json \<Rightarrow> json \<Rightarrow> json \<Rightarrow> json \<Rightarrow> string + json" where
  "select_where v pointer wh item =
     (if pointer_tokens pointer = None \<or> pointer_tokens item = None \<or> \<not> where_shape wh then Inl ''plan-reference-invalid''
      else rbind (select v pointer) (\<lambda>found. case found of
          Array items \<Rightarrow>
            (let (key, constant) = hd (members wh) in
             case filter (where_matches key constant) items of
               [] \<Rightarrow> Inl ''plan-reference-missing''
             | [one] \<Rightarrow> select one item
             | _ \<Rightarrow> Inl ''plan-reference-ambiguous'')
        | _ \<Rightarrow> Inl ''plan-reference-missing''))"

section \<open>Plans\<close>

record plan_step =
  ps_id :: string
  ps_assistant :: string
  ps_action :: string
  ps_pin :: string
  ps_inputs :: "(string \<times> json) list"
  ps_output_schema :: json
  ps_input_schema :: json

record plan =
  pl_timezone :: string
  pl_steps :: "plan_step list"
  pl_digest :: string
  pl_output :: json

type_synonym selector_key = "string \<times> string \<times> string"
type_synonym selection_key = "string \<times> string \<times> string \<times> string"

definition MAX_STEPS :: nat where "MAX_STEPS = 256"
definition MAX_RETAINED_BYTES :: nat where "MAX_RETAINED_BYTES = 128 * 1024"
definition MAX_RESOLVED_INPUT_BYTES :: nat where "MAX_RESOLVED_INPUT_BYTES = 128 * 1024"
definition SHOWN_MODES :: "string list" where "SHOWN_MODES = [''changes'', ''show'']"
definition OUTPUT_MODES :: "string list" where "OUTPUT_MODES = [''show'', ''changes'', ''none'']"

definition shown_step :: "plan \<Rightarrow> plan_step option" where
  "shown_step plan = (case as_str (at (pl_output plan) ''mode'') of
      None \<Rightarrow> None
    | Some mode \<Rightarrow> if mode \<notin> set SHOWN_MODES \<or> pl_steps plan = [] then None else Some (last (pl_steps plan)))"

definition or_empty :: "string option \<Rightarrow> string" where
  "or_empty m = (case m of None \<Rightarrow> [] | Some s \<Rightarrow> s)"

definition selector :: "json \<Rightarrow> selection_key" where
  "selector source =
     (or_empty (as_str (at source ''step'')), or_empty (as_str (at source ''pointer'')),
      (case get source ''where'' of None \<Rightarrow> [] | Some Null \<Rightarrow> [] | Some constant \<Rightarrow> canonical constant),
      or_empty (case get source ''item'' of None \<Rightarrow> None | Some i \<Rightarrow> as_str i))"

definition step_output :: "json \<Rightarrow> bool" where
  "step_output source \<longleftrightarrow> as_str (at source ''kind'') = Some ''step_output''"

text \<open>Collecting into a \<open>BTreeSet\<close>: in order, each once; into a \<open>BTreeMap\<close>: by key, the last value of a key.\<close>

definition btree_set :: "'a :: linorder list \<Rightarrow> 'a list" where
  "btree_set xs = sort (remdups xs)"

definition btree_map :: "('k :: linorder \<times> 'v) list \<Rightarrow> ('k \<times> 'v) list" where
  "btree_map xs = map (\<lambda>k. (k, the (map_of (rev xs) k))) (btree_set (map fst xs))"

definition references :: "plan \<Rightarrow> string \<Rightarrow> selector_key list" where
  "references plan step_id = btree_set (map (snd \<circ> selector)
     (filter (\<lambda>source. step_output source \<and> as_str (at source ''step'') = Some step_id)
       (concat (map (map snd \<circ> ps_inputs) (pl_steps plan)))))"

definition selected_value :: "f64_reader \<Rightarrow> json \<Rightarrow> selector_key \<Rightarrow> string + json" where
  "selected_value read result key = (case key of (pointer, where_text, item) \<Rightarrow>
     if where_text = [] then select result (Str pointer)
     else (case parse read where_text of
         Inl _ \<Rightarrow> Inl ''plan-reference-invalid''
       | Inr wh \<Rightarrow> select_where result (Str pointer) wh (Str item)))"

fun select_all :: "f64_reader \<Rightarrow> json \<Rightarrow> selector_key list \<Rightarrow> string + (selector_key \<times> json) list" where
  "select_all read result [] = Inr []"
| "select_all read result (key # keys) =
     rbind (selected_value read result key) (\<lambda>v. rbind (select_all read result keys) (\<lambda>rest. Inr ((key, v) # rest)))"

definition selections :: "f64_reader \<Rightarrow> plan \<Rightarrow> string \<Rightarrow> json \<Rightarrow> string + (selector_key \<times> json) list" where
  "selections read plan step_id result = select_all read result (references plan step_id)"

definition retained_bytes :: "(selection_key \<times> json) list \<Rightarrow> nat" where
  "retained_bytes selected = length (canonical (Array
     (map (\<lambda>((step, pointer, where_text, item), v). Array [Str step, Str pointer, Str where_text, Str item, v]) selected)))"

definition retained_within :: "(selection_key \<times> json) list \<Rightarrow> bool" where
  "retained_within selected \<longleftrightarrow> retained_bytes selected \<le> MAX_RETAINED_BYTES"

text \<open>One source's value: \<open>clock\<close> is \<open>dates::clock_value\<close> of a source, an instant and a zone's name.\<close>

type_synonym clock_reader = "json \<Rightarrow> int \<Rightarrow> string \<Rightarrow> json option"

definition resolve_source ::
    "zones \<Rightarrow> clock_reader \<Rightarrow> plan \<Rightarrow> (selection_key \<times> json) list \<Rightarrow> int \<Rightarrow> json \<Rightarrow> string + json" where
  "resolve_source z clock plan selected started source =
     (if as_str (at source ''kind'') = Some ''literal'' then Inr (at source ''value'')
      else if as_str (at source ''kind'') = Some ''run_clock'' then
        (if is_ok (zone_named z (pl_timezone plan)) then ok_or (clock source started (pl_timezone plan)) ''plan-input-invalid''
         else Inl ''plan-timezone-invalid'')
      else ok_or (map_option snd (find_by fst (selector source) selected)) ''plan-reference-missing'')"

fun resolve_all :: "(json \<Rightarrow> string + json) \<Rightarrow> (string \<times> json) list \<Rightarrow> string + (string \<times> json) list" where
  "resolve_all f [] = Inr []"
| "resolve_all f ((name, source) # inputs) =
     rbind (f source) (\<lambda>v. rbind (resolve_all f inputs) (\<lambda>rest. Inr ((name, v) # rest)))"

definition resolve :: "zones \<Rightarrow> clock_reader \<Rightarrow> plan \<Rightarrow> plan_step \<Rightarrow> (selection_key \<times> json) list \<Rightarrow> int
    \<Rightarrow> (json \<Rightarrow> bool) \<Rightarrow> string + json" where
  "resolve z clock plan step selected started validate =
     rbind (resolve_all (resolve_source z clock plan selected started) (ps_inputs step)) (\<lambda>resolved.
       if length (canonical (Object resolved)) > MAX_RESOLVED_INPUT_BYTES then Inl ''plan-input-too-large''
       else if validate (Object resolved) then Inr (Object resolved) else Inl ''plan-input-type'')"

definition commitment :: "(string \<Rightarrow> string) \<Rightarrow> json \<Rightarrow> string" where
  "commitment sha resolved = sha (canonical resolved)"

section \<open>Pointers are RFC 6901\<close>

definition escape_token :: "string \<Rightarrow> string" where
  "escape_token t = concat (map (\<lambda>c. if c = CHR ''~'' then ''~0'' else if c = CHR ''/'' then ''~1'' else [c]) t)"

definition pointer_of :: "string list \<Rightarrow> string" where
  "pointer_of tokens = concat (map (\<lambda>t. CHR ''/'' # escape_token t) tokens)"

lemma replace_pair_Cons: "x \<noteq> a \<Longrightarrow> replace_pair a b r (x # s) = x # replace_pair a b r s"
  by (cases s) auto

lemma replace_pair_hit [simp]: "replace_pair a b r (a # b # s) = r # replace_pair a b r s"
  by simp

lemma replace_pair_miss: "y \<noteq> b \<Longrightarrow> y \<noteq> a \<Longrightarrow> replace_pair a b r (x # y # s) = x # y # replace_pair a b r s"
  by (simp add: replace_pair_Cons)

lemma unescape_escape: "unescape_token (escape_token t) = t"
proof -
  have slash: "replace_pair (CHR ''~'') (CHR ''1'') (CHR ''/'') (escape_token t)
      = concat (map (\<lambda>c. if c = CHR ''~'' then ''~0'' else [c]) t)" for t
  proof (induction t)
    case (Cons c t)
    then show ?case by (auto simp: escape_token_def replace_pair_Cons replace_pair_miss)
  qed (simp add: escape_token_def)
  have "replace_pair (CHR ''~'') (CHR ''0'') (CHR ''~'') (concat (map (\<lambda>c. if c = CHR ''~'' then ''~0'' else [c]) t)) = t" for t
    by (induction t) (auto simp: replace_pair_Cons)
  then show ?thesis by (simp add: unescape_token_def slash)
qed

lemma escape_token_Cons:
  "escape_token (c # t) = (if c = CHR ''~'' then ''~0'' else if c = CHR ''/'' then ''~1'' else [c]) @ escape_token t"
  "escape_token [] = []"
  by (simp_all add: escape_token_def)

lemma unescape_token_Cons:
  "unescape_token [] = []"
  "c \<noteq> CHR ''~'' \<Longrightarrow> unescape_token (c # t) = c # unescape_token t"
  "unescape_token (CHR ''~'' # CHR ''0'' # t) = CHR ''~'' # unescape_token t"
  "unescape_token (CHR ''~'' # CHR ''1'' # t) = CHR ''/'' # unescape_token t"
  by (simp_all add: unescape_token_def replace_pair_Cons replace_pair_miss)

lemma split_on_not_Nil: "split_on sep s \<noteq> []"
  by (cases s) (auto split: list.splits)

lemma split_on_head:
  "split_on sep s = t # ts \<Longrightarrow> c \<noteq> sep \<Longrightarrow> split_on sep (c # s) = (c # t) # ts"
  by simp

lemma pointer_tail_Cons: "c \<noteq> CHR ''~'' \<Longrightarrow> pointer_tail (c # s) = pointer_tail s"
  by (cases s) auto

lemma pointer_tail_escape: "pointer_tail (escape_token t @ s) = pointer_tail s"
proof (induction t)
  case (Cons c t)
  then show ?case by (auto simp: escape_token_Cons pointer_tail_Cons)
qed (simp add: escape_token_Cons)

lemma split_on_escape:
  "split_on (CHR ''/'') (escape_token t @ s) = (escape_token t @ hd (split_on (CHR ''/'') s)) # tl (split_on (CHR ''/'') s)"
proof (induction t)
  case Nil
  show ?case using split_on_not_Nil [of "CHR ''/''" s] by (simp add: escape_token_Cons)
next
  case (Cons c t)
  then show ?case by (auto simp: escape_token_Cons split_on_head)
qed

lemma pointer_of_split:
  "pointer_tail (escape_token t @ pointer_of ts) \<and>
   split_on (CHR ''/'') (escape_token t @ pointer_of ts) = map escape_token (t # ts)"
proof (induction ts arbitrary: t)
  case Nil
  show ?case using pointer_tail_escape [of t "[]"] split_on_escape [of t "[]"] by (simp add: pointer_of_def)
next
  case (Cons u us)
  have p: "pointer_of (u # us) = CHR ''/'' # escape_token u @ pointer_of us" by (simp add: pointer_of_def)
  show ?case using Cons.IH [of u] unfolding p by (simp add: pointer_tail_escape pointer_tail_Cons split_on_escape)
qed

lemma pointer_of_tokens: "pointer_tail s \<Longrightarrow> pointer_of (map unescape_token (split_on (CHR ''/'') s)) = CHR ''/'' # s"
proof (induction s rule: pointer_tail.induct)
  case 1
  show ?case by (simp add: pointer_of_def escape_token_Cons unescape_token_Cons)
next
  case (2 c)
  then show ?case by (simp add: pointer_of_def escape_token_Cons unescape_token_Cons)
next
  case (3 c d cs)
  show ?case
  proof (cases "c = CHR ''~''")
    case True
    then have tail: "d = CHR ''0'' \<or> d = CHR ''1''" "pointer_tail cs" using 3(3) by auto
    obtain t ts where ts: "split_on (CHR ''/'') cs = t # ts" using split_on_not_Nil by (cases "split_on (CHR ''/'') cs") auto
    have "split_on (CHR ''/'') (c # d # cs) = (c # d # t) # ts" using True tail(1) ts by auto
    then show ?thesis using 3(1) [OF True tail(2)] True tail(1) ts by (auto simp: pointer_of_def escape_token_Cons unescape_token_Cons)
  next
    case False
    then have ih: "pointer_of (map unescape_token (split_on (CHR ''/'') (d # cs))) = CHR ''/'' # d # cs" using 3 by simp
    obtain t ts where ts: "split_on (CHR ''/'') (d # cs) = t # ts"
      using split_on_not_Nil by (cases "split_on (CHR ''/'') (d # cs)") blast+
    show ?thesis
    proof (cases "c = CHR ''/''")
      case True
      then have "split_on (CHR ''/'') (c # d # cs) = [] # split_on (CHR ''/'') (d # cs)" by simp
      with ih True show ?thesis by (simp add: pointer_of_def escape_token_Cons unescape_token_Cons del: split_on.simps)
    next
      case slash: False
      have "split_on (CHR ''/'') (c # d # cs) = (c # t) # ts" by (rule split_on_head [OF ts slash])
      with ih ts slash False show ?thesis by (simp add: pointer_of_def escape_token_Cons unescape_token_Cons del: split_on.simps)
    qed
  qed
qed

text \<open>Pointers decode as RFC 6901 writes them. A text is a pointer with these tokens exactly when it is a slash before each
  token, in order, with every tilde written \<open>~0\<close> and every slash \<open>~1\<close>, of at most 256 characters; so no two pointers select by
  the same tokens and every token list short enough has its pointer.\<close>

theorem pointer_roundtrip:
  "pointer_tokens_of p = Some tokens \<longleftrightarrow> p = pointer_of tokens \<and> text_len p \<le> MAX_POINTER"
proof
  assume some: "pointer_tokens_of p = Some tokens"
  then have len: "text_len p \<le> MAX_POINTER" and re: "pointer_re p"
    by (auto simp: pointer_tokens_of_def split: if_splits)
  show "p = pointer_of tokens \<and> text_len p \<le> MAX_POINTER"
  proof (cases "p = []")
    case True
    then show ?thesis using some len by (auto simp: pointer_tokens_of_def pointer_of_def split: if_splits)
  next
    case False
    then obtain s where p: "p = CHR ''/'' # s" "pointer_tail s" using re by (auto simp: pointer_re_def starts_with_iff)
    have "tokens = map unescape_token (split_on (CHR ''/'') s)"
      using some p by (simp add: pointer_tokens_of_def split: if_splits)
    then show ?thesis using pointer_of_tokens [OF p(2)] p(1) len by simp
  qed
next
  assume p: "p = pointer_of tokens \<and> text_len p \<le> MAX_POINTER"
  show "pointer_tokens_of p = Some tokens"
  proof (cases tokens)
    case Nil
    then show ?thesis using p by (simp add: pointer_of_def pointer_tokens_of_def pointer_re_def text_len_def)
  next
    case (Cons t ts)
    then have "p = CHR ''/'' # escape_token t @ pointer_of ts" using p by (simp add: pointer_of_def)
    then show ?thesis
      using p Cons pointer_of_split [of t ts] by (auto simp: pointer_tokens_of_def pointer_re_def unescape_escape comp_def)
  qed
qed

end
