(* ===== verification/Shown_Output.thy ===== *)
theory Shown_Output
  imports Routine_Plan
begin

text \<open>
  The wire form of a completed run's result (\<^verbatim>\<open>protocol/http/rust/src/routine/output.rs\<close>) and the characters it never holds
  (\<^verbatim>\<open>routine/plan.rs\<close>: \<open>plan_unsafe\<close>, \<open>escaped\<close>, \<open>plain\<close>).
\<close>

section \<open>Characters\<close>

text \<open>A UTF-8 text's characters: the bytes of each sequence, and its code point.\<close>

definition sequence_value :: "string \<Rightarrow> nat" where
  "sequence_value s = (case s of
      [a] \<Rightarrow> of_char a
    | [a, b] \<Rightarrow> (of_char a - 0xC0) * 64 + (of_char b - 0x80)
    | [a, b, c] \<Rightarrow> (of_char a - 0xE0) * 4096 + (of_char b - 0x80) * 64 + (of_char c - 0x80)
    | [a, b, c, d] \<Rightarrow> (of_char a - 0xF0) * 262144 + (of_char b - 0x80) * 4096 + (of_char c - 0x80) * 64 + (of_char d - 0x80)
    | _ \<Rightarrow> 0)"

function chars :: "string \<Rightarrow> string list" where
  "chars s = (if s = [] then [] else if utf8_step s = 0 then [] else take (utf8_step s) s # chars (drop (utf8_step s) s))"
  by pat_completeness auto
termination
  by (relation "measure length") auto

declare chars.simps [simp del]

definition plan_unsafe :: "nat \<Rightarrow> bool" where
  "plan_unsafe point \<longleftrightarrow> point \<le> 0x1f \<or> (0x7f \<le> point \<and> point \<le> 0x9f) \<or> (0x200b \<le> point \<and> point \<le> 0x200f) \<or>
     (0x2028 \<le> point \<and> point \<le> 0x202e) \<or> (0x2060 \<le> point \<and> point \<le> 0x206f) \<or> (0xd800 \<le> point \<and> point \<le> 0xdfff) \<or>
     point = 0xfeff"

definition unsafe_text :: "string \<Rightarrow> bool" where
  "unsafe_text s \<longleftrightarrow> list_ex (\<lambda>c. plan_unsafe (sequence_value c)) (chars s)"

definition hex_quad :: "nat \<Rightarrow> string" where
  "hex_quad n = [hex_digit (n div 4096), hex_digit (n div 256 mod 16), hex_digit (n div 16 mod 16), hex_digit (n mod 16)]"

definition push_escaped :: "string \<Rightarrow> string" where
  "push_escaped c = (if plan_unsafe (sequence_value c) then [CHR 0x5C, CHR ''u''] @ hex_quad (sequence_value c) else c)"

definition escaped :: "string \<Rightarrow> string" where
  "escaped s = concat (map push_escaped (chars s))"

definition plain :: "json \<Rightarrow> nat \<Rightarrow> bool" where
  "plain v maximum = (case as_str v of
      None \<Rightarrow> False | Some s \<Rightarrow> 1 \<le> text_len s \<and> text_len s \<le> maximum \<and> \<not> unsafe_text s)"

section \<open>Outputs\<close>

definition OUTPUT_STATES :: "string list" where "OUTPUT_STATES = [''shown'', ''unchanged'', ''unavailable'']"
definition MAX_OUTPUT_DEPTH :: nat where "MAX_OUTPUT_DEPTH = 4"
definition MAX_OUTPUT_ITEMS :: nat where "MAX_OUTPUT_ITEMS = 50"
definition MAX_OUTPUT_FIELDS :: nat where "MAX_OUTPUT_FIELDS = 24"
definition MAX_OUTPUT_TEXT_CHARS :: nat where "MAX_OUTPUT_TEXT_CHARS = 300"
definition MAX_OUTPUT_KEY_CHARS :: nat where "MAX_OUTPUT_KEY_CHARS = 64"
definition MAX_OUTPUT_NUMBER_CHARS :: nat where "MAX_OUTPUT_NUMBER_CHARS = 64"
definition MAX_OUTPUT_BYTES :: nat where "MAX_OUTPUT_BYTES = 16 * 1024"
definition MAX_ROUTINE_STEPS :: int where "MAX_ROUTINE_STEPS = 256"

text \<open>\<open>-?(?:0|[1-9][0-9]*)(?:\.[0-9]+)?(?:[eE][+-]?[0-9]+)?\<close>: the scanner of the strict parser, to the end of the text.\<close>

definition output_number_re :: "string \<Rightarrow> bool" where
  "output_number_re s \<longleftrightarrow> rbind (integral_part 0 s) (\<lambda>i. rbind (fraction_part 0 i) (exponent_part 0)) = Inr []"

definition has_exactly :: "(string \<times> json) list \<Rightarrow> string list \<Rightarrow> bool" where
  "has_exactly ms entries \<longleftrightarrow> length ms = length entries \<and> list_all (\<lambda>(key, _). key \<in> set entries) ms"

definition count_ok :: "json option \<Rightarrow> bool" where
  "count_ok v = (case v of None \<Rightarrow> False | Some v \<Rightarrow> whole v 0 (2 ^ 31 - 1))"

definition plain_text :: "json option \<Rightarrow> nat \<Rightarrow> bool" where
  "plain_text v maximum = (case v of Some (Str s) \<Rightarrow> text_len s \<le> maximum \<and> \<not> unsafe_text s | _ \<Rightarrow> False)"

definition is_bool :: "json option \<Rightarrow> bool" where
  "is_bool v = (case v of Some (Bool _) \<Rightarrow> True | _ \<Rightarrow> False)"

definition scalar_node :: "(string \<times> json) list \<Rightarrow> string option \<Rightarrow> bool" where
  "scalar_node ms kind =
     (let item = get (Object ms) ''value'' in
      case kind of
        None \<Rightarrow> False
      | Some k \<Rightarrow>
          if k \<in> {''null'', ''redacted'', ''elided''} then has_exactly ms [''kind'']
          else if k = ''bool'' then has_exactly ms [''kind'', ''value''] \<and> is_bool item
          else if k = ''number'' then has_exactly ms [''kind'', ''value''] \<and>
            (case item of Some (Str t) \<Rightarrow> text_len t \<le> MAX_OUTPUT_NUMBER_CHARS \<and> output_number_re t | _ \<Rightarrow> False)
          else if k = ''text'' then has_exactly ms [''kind'', ''value'', ''cut''] \<and>
            is_bool (Some (field ms ''cut'')) \<and> plain_text item MAX_OUTPUT_TEXT_CHARS
          else False)"

definition kind_of :: "json \<Rightarrow> string option" where
  "kind_of v = (case get v ''kind'' of None \<Rightarrow> None | Some k \<Rightarrow> as_str k)"

definition key_of :: "json \<Rightarrow> json option" where
  "key_of entry = (case entry of Array (key # _) \<Rightarrow> Some key | _ \<Rightarrow> None)"

fun distinct_keys :: "json list \<Rightarrow> bool" where
  "distinct_keys [] \<longleftrightarrow> True"
| "distinct_keys (entry # entries) \<longleftrightarrow> \<not> list_ex (\<lambda>other. key_of other = key_of entry) entries \<and> distinct_keys entries"

text \<open>The recursion follows the nodes of a list and of a field entry, one level deeper; \<open>room\<close> is what is left of
  \<open>MAX_OUTPUT_DEPTH\<close>.\<close>

fun output_node :: "nat \<Rightarrow> json \<Rightarrow> bool" where
  "output_node room (Object ms) \<longleftrightarrow>
     (let kind = kind_of (Object ms) in
      if kind \<noteq> Some ''list'' \<and> kind \<noteq> Some ''fields'' then scalar_node ms kind
      else (case room of
          0 \<Rightarrow> False
        | Suc room' \<Rightarrow>
            count_ok (get (Object ms) ''omitted'') \<and>
            (if kind = Some ''list'' then has_exactly ms [''kind'', ''items'', ''omitted''] \<and>
               (case field ms ''items'' of
                  Array items \<Rightarrow> length items \<le> MAX_OUTPUT_ITEMS \<and> list_all (output_node room') items | _ \<Rightarrow> False)
             else has_exactly ms [''kind'', ''fields'', ''omitted''] \<and>
               (case field ms ''fields'' of
                  Array entries \<Rightarrow> length entries \<le> MAX_OUTPUT_FIELDS \<and>
                    list_all (\<lambda>entry. case entry of
                        Array [key, node] \<Rightarrow> plain key MAX_OUTPUT_KEY_CHARS \<and> output_node room' node | _ \<Rightarrow> False) entries \<and>
                    distinct_keys entries
                | _ \<Rightarrow> False))))"
| "output_node room _ \<longleftrightarrow> False"

definition position :: "json \<Rightarrow> int \<Rightarrow> bool" where
  "position v maximum = whole v 1 maximum"

definition canonical_output :: "json \<Rightarrow> json option" where
  "canonical_output v = (case exact_object v [''step'', ''state'', ''value'', ''truncated''] of
      None \<Rightarrow> None
    | Some ms \<Rightarrow>
        if position (field ms ''step'') MAX_ROUTINE_STEPS \<and> is_bool (Some (field ms ''truncated'')) \<and>
           (case as_str (field ms ''state'') of
              None \<Rightarrow> False
            | Some state \<Rightarrow>
                if state = ''shown'' then output_node MAX_OUTPUT_DEPTH (field ms ''value'')
                else state \<in> set OUTPUT_STATES \<and> field ms ''value'' = Null \<and> field ms ''truncated'' = Bool False) \<and>
           encoded_bytes v \<le> MAX_OUTPUT_BYTES
        then Some v else None)"

end
