(* ===== verification/Routine_Cursor.thy ===== *)
theory Routine_Cursor
  imports Shown_Output
begin

text \<open>
  The cursor of one Routine run: \<^verbatim>\<open>routine/src/cursor/mod.rs\<close>. It names the plan, the current step and its dispatched
  operation, the values later steps selected from completed ones, and the run's one recovery episode. Every transition
  answers the changed cursor only when it still has its closed shape (\<open>checked\<close>); \<open>encode\<close> and \<open>decode\<close> are its sealed form.

  \<open>usize\<close> and \<open>i64\<close> are \<open>nat\<close> and \<open>int\<close>; a step index is at most 256 in every checked cursor.
\<close>

section \<open>Cursors\<close>

definition CURSOR_VERSION :: int where "CURSOR_VERSION = 7"
definition MAX_CURSOR_BYTES :: nat where "MAX_CURSOR_BYTES = 256 * 1024"
definition FAULTS :: "string list" where
  "FAULTS = [[], ''handled'', ''transport'', ''unquiesced'', ''policy'', ''other'']"

definition CURSOR_FIELDS :: "string list" where
  "CURSOR_FIELDS = [''version'', ''boot'', ''protection_lost'', ''incarnation'', ''routine_id'', ''revision'', ''run_id'',
     ''plan'', ''started_at'', ''step'', ''operation_id'', ''attempts'', ''commitment'', ''selected'', ''episode'',
     ''continued'', ''absent'', ''carried'', ''fault'', ''workload'', ''dispatched_at'', ''shown'']"

record binding =
  bn_incarnation :: string
  bn_routine :: string
  bn_revision :: int
  bn_run :: string

type_synonym selected = "string \<times> string \<times> string \<times> string \<times> json"

datatype episode = Closed | Open | Continued bool

definition opened :: "episode \<Rightarrow> bool" where "opened e \<longleftrightarrow> e \<noteq> Closed"
definition has_continued :: "episode \<Rightarrow> bool" where "has_continued e \<longleftrightarrow> (case e of Continued _ \<Rightarrow> True | _ \<Rightarrow> False)"
definition carried :: "episode \<Rightarrow> bool" where "carried e \<longleftrightarrow> e = Continued True"

definition episode_of :: "bool \<Rightarrow> bool \<Rightarrow> bool \<Rightarrow> episode option" where
  "episode_of e c k =
     (if \<not> e \<and> \<not> c \<and> \<not> k then Some Closed
      else if e \<and> \<not> c \<and> \<not> k then Some Open
      else if e \<and> c then Some (Continued k)
      else None)"

record cursor =
  c_binding :: binding
  c_plan :: string
  c_started :: int
  c_step :: nat
  c_operation :: "string option"
  c_attempts :: int
  c_commitment :: "string option"
  c_selected :: "selected list"
  c_episode :: episode
  c_absent :: bool
  c_fault :: string
  c_workload :: string
  c_dispatched :: int
  c_shown :: "json option"
  c_boot :: string
  c_lost :: bool

definition generation_suffix :: "cursor \<Rightarrow> string" where
  "generation_suffix c = (if has_continued (c_episode c) then ''s1'' else [])"

definition selection_entry :: "selected \<Rightarrow> selection_key \<times> json" where
  "selection_entry s = (case s of (step, pointer, where_text, item, v) \<Rightarrow> ((step, pointer, where_text, item), v))"

definition cursor_selections :: "cursor \<Rightarrow> (selection_key \<times> json) list" where
  "cursor_selections c = btree_map (map selection_entry (c_selected c))"

definition cursor_done :: "cursor \<Rightarrow> plan \<Rightarrow> bool" where
  "cursor_done c plan \<longleftrightarrow> c_step c = length (pl_steps plan)"

section \<open>The closed shape\<close>

definition binding_valid :: "binding \<Rightarrow> bool" where
  "binding_valid b \<longleftrightarrow> sha256_re (bn_incarnation b) \<and> routine_id_re (bn_routine b) \<and>
     valid_revision (bn_revision b) \<and> routine_id_re (bn_run b)"

definition operation_valid :: "cursor \<Rightarrow> bool" where
  "operation_valid c = (case (c_operation c, c_commitment c) of
      (Some operation, Some committed) \<Rightarrow> operation_id_re operation \<and> c_attempts c \<ge> 1 \<and> sha256_re committed
    | (None, None) \<Rightarrow> c_attempts c = 0
    | _ \<Rightarrow> False)"

definition attempt_valid :: "cursor \<Rightarrow> bool" where
  "attempt_valid c \<longleftrightarrow>
     (c_fault c \<in> set FAULTS \<and> \<not> (c_absent c \<and> c_fault c = ''policy'')) \<and>
     ((c_workload c = [] \<or> workload_re (c_workload c)) \<and> c_dispatched c \<ge> 0) \<and>
     (c_operation c \<noteq> None \<or>
      (\<not> (c_absent c \<or> carried (c_episode c)) \<and> c_fault c = [] \<and> c_workload c = [] \<and> c_dispatched c = 0))"

definition shown_valid :: "json option \<Rightarrow> bool" where
  "shown_valid shown = (case shown of
      None \<Rightarrow> True
    | Some v \<Rightarrow>
        if \<not> has_fields v [''step'', ''output'', ''digest''] then False
        else (case canonical_output (at v ''output'') of
            None \<Rightarrow> False
          | Some out \<Rightarrow>
              full_value step_id_re (at v ''step'') \<and>
              as_str (at out ''state'') \<in> {Some ''shown'', Some ''unavailable''} \<and>
              (at v ''digest'' = Null \<or> full_value sha256_re (at v ''digest'')) \<and>
              (at v ''digest'' = Null \<or> as_str (at out ''state'') = Some ''shown'')))"

fun selection_ok :: "selected \<Rightarrow> bool" where
  "selection_ok (step, pointer, where_text, item, v) \<longleftrightarrow>
     step_id_re step \<and> pointer_tokens_of pointer \<noteq> None \<and> \<not> (where_text = [] \<and> item \<noteq> []) \<and> pointer_tokens_of item \<noteq> None"

definition selections_valid :: "selected list \<Rightarrow> nat \<Rightarrow> bool" where
  "selections_valid selected retained \<longleftrightarrow>
     list_all selection_ok selected \<and> distinct (map (fst \<circ> selection_entry) selected) \<and>
     retained_bytes (btree_map (map selection_entry selected)) \<le> retained"

definition optional :: "string option \<Rightarrow> json" where
  "optional v = (case v of None \<Rightarrow> Null | Some s \<Rightarrow> Str s)"

definition selected_value_of :: "selected \<Rightarrow> json" where
  "selected_value_of s = (case s of (step, pointer, where_text, item, v) \<Rightarrow> Array [Str step, Str pointer, Str where_text, Str item, v])"

definition document :: "cursor \<Rightarrow> json" where
  "document c = object
     [(''version'', int_value CURSOR_VERSION),
      (''incarnation'', Str (bn_incarnation (c_binding c))),
      (''routine_id'', Str (bn_routine (c_binding c))),
      (''revision'', int_value (bn_revision (c_binding c))),
      (''run_id'', Str (bn_run (c_binding c))),
      (''plan'', Str (c_plan c)),
      (''started_at'', int_value (c_started c)),
      (''step'', int_value (i64_of_nat (c_step c))),
      (''operation_id'', optional (c_operation c)),
      (''attempts'', int_value (c_attempts c)),
      (''commitment'', optional (c_commitment c)),
      (''selected'', Array (map selected_value_of (c_selected c))),
      (''episode'', Bool (opened (c_episode c))),
      (''continued'', Bool (has_continued (c_episode c))),
      (''absent'', Bool (c_absent c)),
      (''carried'', Bool (carried (c_episode c))),
      (''fault'', Str (c_fault c)),
      (''workload'', Str (c_workload c)),
      (''dispatched_at'', int_value (c_dispatched c)),
      (''shown'', (case c_shown c of None \<Rightarrow> Null | Some v \<Rightarrow> v)),
      (''boot'', Str (c_boot c)),
      (''protection_lost'', Bool (c_lost c))]"

definition cursor_shape :: "cursor \<Rightarrow> nat \<Rightarrow> bool" where
  "cursor_shape c retained \<longleftrightarrow>
     binding_valid (c_binding c) \<and> plan_digest_re (c_plan c) \<and> c_started c \<ge> 0 \<and> c_step c \<le> MAX_STEPS \<and>
     operation_valid c \<and> selections_valid (c_selected c) retained \<and> attempt_valid c \<and> shown_valid (c_shown c) \<and>
     boot_re (c_boot c)"

definition checked_within :: "cursor \<Rightarrow> nat \<Rightarrow> string + cursor" where
  "checked_within c retained =
     (if \<not> cursor_shape c retained then Inl ''cursor-invalid''
      else if length (canonical (document c)) > MAX_CURSOR_BYTES then Inl ''cursor-too-large''
      else Inr c)"

definition checked :: "cursor \<Rightarrow> string + cursor" where
  "checked c = checked_within c MAX_RETAINED_BYTES"

section \<open>Transitions\<close>

definition start_cursor :: "plan \<Rightarrow> binding \<Rightarrow> int \<Rightarrow> string \<Rightarrow> string + cursor" where
  "start_cursor plan binding started boot = checked
     \<lparr>c_binding = binding, c_plan = pl_digest plan, c_started = started, c_step = 0, c_operation = None, c_attempts = 0,
      c_commitment = None, c_selected = [], c_episode = Closed, c_absent = False, c_fault = [], c_workload = [],
      c_dispatched = 0, c_shown = None, c_boot = boot, c_lost = False\<rparr>"

definition cursor_lose_protection :: "cursor \<Rightarrow> string + cursor" where
  "cursor_lose_protection c = checked (c\<lparr>c_lost := True\<rparr>)"

definition cursor_same_plan :: "cursor \<Rightarrow> plan \<Rightarrow> string + unit" where
  "cursor_same_plan c plan = require (c_plan c = pl_digest plan) ''cursor-plan-changed''"

definition dispatch_step :: "cursor \<Rightarrow> plan \<Rightarrow> string \<Rightarrow> string \<Rightarrow> string \<Rightarrow> int \<Rightarrow> string + cursor" where
  "dispatch_step c plan operation committed workload now =
     rbind (cursor_same_plan c plan) (\<lambda>_.
       if cursor_done c plan \<or> \<not> operation_id_re operation \<or> \<not> sha256_re committed then Inl ''cursor-dispatch-invalid''
       else if c_operation c \<noteq> None \<and> (c_operation c, c_commitment c) \<noteq> (Some operation, Some committed)
         then Inl ''cursor-operation-changed''
       else checked (c\<lparr>c_operation := Some operation, c_attempts := c_attempts c + 1, c_commitment := Some committed,
              c_fault := [], c_workload := workload, c_dispatched := now\<rparr>))"

definition failed :: "cursor \<Rightarrow> string \<Rightarrow> string + cursor" where
  "failed c fault =
     (if c_operation c = None \<or> fault \<notin> set (tl FAULTS) then Inl ''cursor-not-dispatched''
      else checked (c\<lparr>c_fault := fault\<rparr>))"

definition shown_matches :: "cursor \<Rightarrow> plan \<Rightarrow> string \<Rightarrow> json option \<Rightarrow> bool" where
  "shown_matches c plan step_id shown =
     (let shown_here = (case shown_step plan of None \<Rightarrow> False | Some s \<Rightarrow> ps_id s = step_id) in
      case shown of
        None \<Rightarrow> \<not> shown_here
      | Some v \<Rightarrow>
          shown_here \<and> is_object v \<and> as_str (at v ''step'') = Some step_id \<and> is_object (at v ''output'') \<and>
          at (at v ''output'') ''step'' \<noteq> Null \<and> py_eq (at (at v ''output'') ''step'') (int_value (i64_of_nat (c_step c + 1))))"

definition uncarried :: "episode \<Rightarrow> episode" where
  "uncarried e = (case e of Continued _ \<Rightarrow> Continued False | _ \<Rightarrow> e)"

definition complete_step :: "f64_reader \<Rightarrow> cursor \<Rightarrow> plan \<Rightarrow> json \<Rightarrow> json option \<Rightarrow> string + cursor" where
  "complete_step read c plan result shown =
     rbind (cursor_same_plan c plan) (\<lambda>_.
       if cursor_done c plan \<or> c_operation c = None then Inl ''cursor-not-dispatched''
       else if c_step c \<ge> length (pl_steps plan) then Inl ''panic: step out of range''
       else let step_id = ps_id (pl_steps plan ! c_step c) in
         rbind (selections read plan step_id result) (\<lambda>chosen.
           if \<not> shown_matches c plan step_id shown then Inl ''cursor-shown-invalid''
           else checked (c\<lparr>
             c_selected := c_selected c @ map (\<lambda>((pointer, where_text, item), v). (step_id, pointer, where_text, item, v)) chosen,
             c_step := c_step c + 1, c_operation := None, c_attempts := 0, c_commitment := None, c_absent := False,
             c_episode := uncarried (c_episode c), c_fault := [], c_workload := [], c_dispatched := 0, c_shown := shown\<rparr>)))"

definition proven_absent :: "cursor \<Rightarrow> string + cursor" where
  "proven_absent c =
     (if c_operation c = None then Inl ''cursor-not-dispatched''
      else if c_fault c = ''policy'' then Inl ''cursor-policy-hold''
      else checked (c\<lparr>c_absent := True\<rparr>))"

definition retry :: "cursor \<Rightarrow> string + cursor" where
  "retry c = (if c_operation c = None \<or> \<not> c_absent c then Inl ''cursor-operation-uncertain''
     else checked (c\<lparr>c_absent := False\<rparr>))"

definition open_episode :: "cursor \<Rightarrow> string + cursor" where
  "open_episode c = (if opened (c_episode c) then Inl ''cursor-episode-spent'' else checked (c\<lparr>c_episode := Open\<rparr>))"

definition continued :: "cursor \<Rightarrow> string + cursor" where
  "continued c = (case c_episode c of
      Continued _ \<Rightarrow> Inl ''cursor-continued''
    | Closed \<Rightarrow> Inl ''cursor-invalid''
    | Open \<Rightarrow> checked (c\<lparr>c_episode := Continued (c_operation c \<noteq> None)\<rparr>))"

section \<open>The sealed form\<close>

definition encode :: "cursor \<Rightarrow> string + string" where
  "encode c = rbind (checked c) (\<lambda>valid. Inr (canonical (document valid)))"

fun integer_of :: "json \<Rightarrow> int option" where
  "integer_of (Number (Int64 i)) = Some i"
| "integer_of _ = None"

fun flag_of :: "json \<Rightarrow> bool option" where
  "flag_of (Bool b) = Some b"
| "flag_of _ = None"

fun nullable :: "json \<Rightarrow> string option option" where
  "nullable Null = Some None"
| "nullable (Str s) = Some (Some s)"
| "nullable _ = None"

fun selection_of :: "json \<Rightarrow> selected option" where
  "selection_of (Array [step, pointer, where_text, item, v]) =
     (case (as_str step, as_str pointer, as_str where_text, as_str item) of
        (Some a, Some b, Some c, Some d) \<Rightarrow> Some (a, b, c, d, v) | _ \<Rightarrow> None)"
| "selection_of _ = None"

definition read_binding :: "json \<Rightarrow> binding option" where
  "read_binding v =
     (case (as_str (at v ''incarnation''), as_str (at v ''routine_id''), integer_of (at v ''revision''), as_str (at v ''run_id'')) of
        (Some i, Some r, Some n, Some u) \<Rightarrow> Some \<lparr>bn_incarnation = i, bn_routine = r, bn_revision = n, bn_run = u\<rparr>
      | _ \<Rightarrow> None)"

definition read_progress :: "json \<Rightarrow> (string \<times> int \<times> nat \<times> selected list) option" where
  "read_progress v = (case at v ''selected'' of
      Array selected \<Rightarrow>
        (case (as_str (at v ''plan''), integer_of (at v ''started_at''), Option.bind (integer_of (at v ''step'')) usize_of_int,
               those (map selection_of selected)) of
           (Some p, Some s, Some n, Some xs) \<Rightarrow> Some (p, s, n, xs) | _ \<Rightarrow> None)
    | _ \<Rightarrow> None)"

definition read_operation :: "json \<Rightarrow> (string option \<times> int \<times> string option) option" where
  "read_operation v = (case (nullable (at v ''operation_id''), integer_of (at v ''attempts''), nullable (at v ''commitment'')) of
      (Some o1, Some n, Some c) \<Rightarrow> Some (o1, n, c) | _ \<Rightarrow> None)"

definition read_attempt :: "json \<Rightarrow> (string \<times> string \<times> int) option" where
  "read_attempt v = (case (as_str (at v ''fault''), as_str (at v ''workload''), integer_of (at v ''dispatched_at'')) of
      (Some f, Some w, Some d) \<Rightarrow> Some (f, w, d) | _ \<Rightarrow> None)"

definition read_state :: "json \<Rightarrow> (episode \<times> bool \<times> string \<times> bool) option" where
  "read_state v =
     (case (flag_of (at v ''episode''), flag_of (at v ''continued''), flag_of (at v ''carried'')) of
        (Some e, Some c, Some k) \<Rightarrow>
          (case (episode_of e c k, flag_of (at v ''absent''), as_str (at v ''boot''), flag_of (at v ''protection_lost'')) of
             (Some ep, Some a, Some b, Some l) \<Rightarrow> Some (ep, a, b, l) | _ \<Rightarrow> None)
      | _ \<Rightarrow> None)"

definition read_cursor :: "json \<Rightarrow> cursor option" where
  "read_cursor v = (case (read_progress v, read_operation v, read_attempt v, read_state v, read_binding v) of
      (Some (plan, started, step, selected), Some (operation, attempts, committed), Some (fault, workload, dispatched),
       Some (episode, absent, boot, lost), Some binding) \<Rightarrow>
        Some \<lparr>c_binding = binding, c_plan = plan, c_started = started, c_step = step, c_operation = operation,
          c_attempts = attempts, c_commitment = committed, c_selected = selected, c_episode = episode, c_absent = absent,
          c_fault = fault, c_workload = workload, c_dispatched = dispatched,
          c_shown = (case at v ''shown'' of Null \<Rightarrow> None | shown \<Rightarrow> Some shown), c_boot = boot, c_lost = lost\<rparr>
    | _ \<Rightarrow> None)"

definition decode_cursor :: "f64_reader \<Rightarrow> string \<Rightarrow> binding \<Rightarrow> string + cursor" where
  "decode_cursor read raw binding = (case parse read raw of
      Inl _ \<Rightarrow> Inl ''cursor-invalid''
    | Inr v \<Rightarrow>
        if \<not> has_fields v CURSOR_FIELDS \<or> get v ''version'' \<noteq> Some (int_value CURSOR_VERSION) then Inl ''cursor-invalid''
        else (case read_cursor v of
            None \<Rightarrow> Inl ''cursor-invalid''
          | Some c \<Rightarrow>
              if c_binding c \<noteq> binding \<or> canonical (document c) \<noteq> raw then Inl ''cursor-invalid'' else checked c))"

end
