(* ===== verification/Cursor_Codec.thy ===== *)
theory Cursor_Codec
  imports Routine_Cursor
begin

text \<open>
  A cursor survives its sealed form: \<open>decode_cursor\<close> of what \<open>encode\<close> wrote answers the same cursor, the values it retains
  with their members in sorted order. The lemmas show that reading a value does not depend on the order of its members.
\<close>

section \<open>Reading does not depend on the order of members\<close>

lemma find_by_sorted:
  assumes "distinct (map fst ms)"
  shows "find_by fst k (sort_key fst ms) = find_by fst k ms"
proof (cases "find_by fst k ms")
  case None
  then have "k \<notin> fst ` set (sort_key fst ms)" by (simp add: find_by_None)
  then show ?thesis unfolding None by (simp only: find_by_None not_False_eq_True)
next
  case (Some m)
  have "distinct (map fst (sort_key fst ms))" using assms by (simp add: distinct_map)
  then have "find_by fst k (sort_key fst ms) = Some m"
    by (rule find_by_distinct) (use find_by_Some_mem [OF Some] find_by_Some_key [OF Some] in auto)
  then show ?thesis using Some by simp
qed

lemma find_by_map_snd: "find_by fst k (map (\<lambda>(k, v). (k, f v)) ms) = map_option (\<lambda>(k, v). (k, f v)) (find_by fst k ms)"
  by (induction ms) auto

lemma get_ordered: "admissible fl v \<Longrightarrow> get (ordered v) k = map_option ordered (get v k)"
proof (cases v)
  case (Object ms)
  assume "admissible fl v"
  then have "distinct (map fst ms)" using Object by simp
  then have "distinct (map fst (map (\<lambda>(k, v). (k, ordered v)) ms))" by (simp add: comp_def split_def)
  note sorted = find_by_sorted [OF this]
  have "map_option snd (map_option (\<lambda>(k, v). (k, ordered v)) x) = map_option ordered (map_option snd x)" for x :: "(string \<times> json) option"
    by (cases x) auto
  then show ?thesis by (simp only: Object ordered.simps get.simps sorted find_by_map_snd)
qed simp_all

lemma at_ordered: "admissible fl v \<Longrightarrow> at (ordered v) k = ordered (at v k)"
  by (simp add: at_def get_ordered split: option.splits)

lemma find_by_fst_member: "find_by fst k ms = Some (k', v) \<Longrightarrow> (k', v) \<in> set ms"
  by (rule find_by_Some_mem)

lemma admissible_get: "admissible fl v \<Longrightarrow> get v k = Some w \<Longrightarrow> admissible fl w"
  by (cases v) (auto dest: find_by_fst_member)

lemma admissible_at: "admissible fl v \<Longrightarrow> admissible fl (at v k)"
  by (auto simp: at_def dest: admissible_get split: option.splits)

lemma ordered_simps [simp]:
  "as_str (ordered v) = as_str v" "is_object (ordered v) = is_object v" "ordered v = Null \<longleftrightarrow> v = Null"
  "ordered v = Bool b \<longleftrightarrow> v = Bool b" "small_int (ordered v) = small_int v" "integer_of (ordered v) = integer_of v"
  "flag_of (ordered v) = flag_of v" "nullable (ordered v) = nullable v"
  by (cases v; simp)+

lemma whole_ordered [simp]: "whole (ordered v) a b = whole v a b"
  by (simp add: whole_def)

lemma full_value_ordered [simp]: "full_value p (ordered v) = full_value p v"
  by (cases v) (simp_all add: full_value_def)

lemma members_sorted: "set (map fst (sort_key fst (map (\<lambda>(k, v). (k, f v)) ms))) = set (map fst ms)"
  by force

lemma has_fields_ordered [simp]: "has_fields (ordered v) names = has_fields v names"
  by (cases v) (auto simp: has_fields_def list_all_iff)

section \<open>Shown outputs\<close>

lemma has_exactly_object: "has_exactly ms names = has_fields (Object ms) names"
  by (simp add: has_exactly_def has_fields_def)

lemma field_object: "field ms k = at (Object ms) k"
  by (simp add: field_def)

lemma is_bool_ordered [simp]: "is_bool (map_option ordered v) = is_bool v" "is_bool (Some (ordered w)) = is_bool (Some w)"
  by (auto simp: is_bool_def split: option.splits json.splits)

lemma plain_ordered [simp]: "plain (ordered v) n = plain v n"
  by (simp add: plain_def)

lemma kind_of_ordered: "admissible fl v \<Longrightarrow> kind_of (ordered v) = kind_of v"
  by (simp add: kind_of_def get_ordered split: option.splits)

lemma count_ok_ordered [simp]: "count_ok (map_option ordered v) = count_ok v"
  by (auto simp: count_ok_def split: option.splits)

text \<open>A node's members, read by name, as the checks read them.\<close>

lemma scalar_node_ordered:
  assumes "admissible fl (Object ms)"
  shows "scalar_node (members (ordered (Object ms))) kind = scalar_node ms kind"
proof -
  have o: "Object (members (ordered (Object ms))) = ordered (Object ms)" by simp
  have item: "get (ordered (Object ms)) ''value'' = map_option ordered (get (Object ms) ''value'')" by (rule get_ordered [OF assms])
  have str: "(case map_option ordered x of Some (Str t) \<Rightarrow> P t | _ \<Rightarrow> False) = (case x of Some (Str t) \<Rightarrow> P t | _ \<Rightarrow> False)" for x P
    by (cases x; cases "the x") auto
  have plain: "plain_text (map_option ordered x) n = plain_text x n" for x n
    unfolding plain_text_def by (rule str)
  show ?thesis
    unfolding scalar_node_def Let_def has_exactly_object field_object o item
    by (simp only: has_fields_ordered is_bool_ordered plain str at_ordered [OF assms])
qed

definition entry_ok :: "nat \<Rightarrow> json \<Rightarrow> bool" where
  "entry_ok room entry = (case entry of
     Array [key, node] \<Rightarrow> plain key MAX_OUTPUT_KEY_CHARS \<and> output_node room node | _ \<Rightarrow> False)"

lemma entry_ok_iff:
  "entry_ok room entry \<longleftrightarrow> (\<exists>key node. entry = Array [key, node] \<and> plain key MAX_OUTPUT_KEY_CHARS \<and> output_node room node)"
  by (auto simp: entry_ok_def split: json.splits list.splits)

text \<open>A node's check in terms of what it reads of the node.\<close>

lemma output_node_unfold:
  "output_node room v \<longleftrightarrow> is_object v \<and>
     (if kind_of v \<noteq> Some ''list'' \<and> kind_of v \<noteq> Some ''fields'' then scalar_node (members v) (kind_of v)
      else room \<noteq> 0 \<and> count_ok (get v ''omitted'') \<and>
        (if kind_of v = Some ''list'' then has_fields v [''kind'', ''items'', ''omitted''] \<and>
           (\<exists>items. at v ''items'' = Array items \<and> length items \<le> MAX_OUTPUT_ITEMS \<and> list_all (output_node (room - 1)) items)
         else has_fields v [''kind'', ''fields'', ''omitted''] \<and>
           (\<exists>entries. at v ''fields'' = Array entries \<and> length entries \<le> MAX_OUTPUT_FIELDS \<and>
              list_all (entry_ok (room - 1)) entries \<and> distinct_keys entries)))"
proof (cases v)
  case (Object ms)
  have e: "(case x of Array xs \<Rightarrow> P xs | _ \<Rightarrow> False) \<longleftrightarrow> (\<exists>xs. x = Array xs \<and> P xs)" for x P by (cases x) auto
  show ?thesis
    unfolding Object output_node.simps Let_def has_exactly_object field_object
    by (cases room) (simp_all add: e [symmetric] entry_ok_def [abs_def] del: at_simps)
qed (simp_all del: at_simps)

lemma entry_ok_ordered:
  assumes "\<And>v. admissible fl v \<Longrightarrow> output_node room (ordered v) = output_node room v" "admissible fl e"
  shows "entry_ok room (ordered e) = entry_ok room e"
proof (cases e)
  case (Array xs)
  then show ?thesis
    using assms by (auto simp: entry_ok_iff map_eq_Cons_conv)
qed (simp_all add: entry_ok_iff)

lemma distinct_keys_ordered: "list_all (entry_ok room) entries \<Longrightarrow> distinct_keys (map ordered entries) = distinct_keys entries"
proof (induction entries)
  case (Cons e entries)
  have key: "key_of (ordered x) = key_of x" if "entry_ok room x" for x
    using that by (auto simp: entry_ok_iff key_of_def plain_def split: option.splits)
  have "list_ex (\<lambda>y. key_of y = key_of e) (map ordered entries) = list_ex (\<lambda>y. key_of y = key_of e) entries"
    using Cons.prems key by (auto simp: list_ex_iff list_all_iff)
  then show ?case using Cons key by simp
qed simp

lemma output_node_ordered: "admissible fl v \<Longrightarrow> output_node room (ordered v) = output_node room v"
proof (induction room arbitrary: v)
  case 0
  show ?case
  proof (cases v)
    case (Object ms)
    show ?thesis
      using 0 kind_of_ordered [OF 0] scalar_node_ordered [of fl ms] Object
      by (simp only: output_node_unfold ordered_simps) simp
  qed simp_all
next
  case (Suc room)
  note ih = Suc.IH
  have list: "(\<exists>items. ordered w = Array items \<and> length items \<le> m \<and> list_all (output_node room) items) \<longleftrightarrow>
      (\<exists>items. w = Array items \<and> length items \<le> m \<and> list_all (output_node room) items)" if "admissible fl w" for w m
    using that ih by (cases w) (auto simp: list_all_iff)
  have entries: "(\<exists>es. ordered w = Array es \<and> length es \<le> m \<and> list_all (entry_ok room) es \<and> distinct_keys es) \<longleftrightarrow>
      (\<exists>es. w = Array es \<and> length es \<le> m \<and> list_all (entry_ok room) es \<and> distinct_keys es)" if adm: "admissible fl w" for w m
  proof (cases w)
    case (Array es)
    then have "list_all (entry_ok room) (map ordered es) = list_all (entry_ok room) es"
      using adm entry_ok_ordered [OF ih] by (auto simp: list_all_iff)
    then show ?thesis using Array distinct_keys_ordered [of room es] by auto
  qed simp_all
  show ?case
  proof (cases v)
    case (Object ms)
    have "scalar_node (members (ordered v)) k = scalar_node (members v) k" for k
      using scalar_node_ordered [of fl ms k] Suc.prems Object by simp
    then show ?thesis
      using list [OF admissible_at [OF Suc.prems]] entries [OF admissible_at [OF Suc.prems]]
      by (simp only: output_node_unfold [of "Suc room"] ordered_simps kind_of_ordered [OF Suc.prems] get_ordered [OF Suc.prems]
          at_ordered [OF Suc.prems] count_ok_ordered has_fields_ordered diff_Suc_1)
  qed simp_all
qed

lemma canonical_output_ordered: "admissible fl v \<Longrightarrow> canonical_output (ordered v) \<noteq> None \<longleftrightarrow> canonical_output v \<noteq> None"
proof (cases v)
  case (Object ms)
  assume adm: "admissible fl v"
  have members: "field (members (ordered v)) k = ordered (field (members v) k)" for k
    using at_ordered [OF adm, of k] Object by (simp add: field_def)
  have "output_node n (ordered (field (members v) k)) = output_node n (field (members v) k)" for n k
    using output_node_ordered [OF admissible_at [OF adm, of k]] Object by (simp add: field_def)
  then show ?thesis
    by (auto simp: canonical_output_def exact_object_def members position_def encoded_bytes_def canonical_ordered [unfolded canonical_def]
        split: option.splits)
qed (simp_all add: canonical_output_def exact_object_def has_fields_def)

lemma canonical_output_Some: "canonical_output v = Some w \<Longrightarrow> w = v"
  by (auto simp: canonical_output_def split: option.splits if_splits)

lemma shown_valid_ordered: "admissible fl v \<Longrightarrow> shown_valid (Some v) \<Longrightarrow> shown_valid (Some (ordered v))"
proof -
  assume adm: "admissible fl v" and valid: "shown_valid (Some v)"
  then obtain out where f: "has_fields v [''step'', ''output'', ''digest'']" and out: "canonical_output (at v ''output'') = Some out"
    by (auto simp: shown_valid_def split: if_splits option.splits)
  then have eq: "canonical_output (at v ''output'') = Some (at v ''output'')" using canonical_output_Some by force
  have adm': "admissible fl (at v ''output'')" by (rule admissible_at [OF adm])
  obtain out' where "canonical_output (ordered (at v ''output'')) = Some out'"
    using canonical_output_ordered [OF adm'] eq by force
  then have eq': "canonical_output (ordered (at v ''output'')) = Some (ordered (at v ''output''))" using canonical_output_Some by force
  show ?thesis
    using valid f eq eq' by (simp add: shown_valid_def at_ordered [OF adm] at_ordered [OF adm'])
qed

section \<open>The document of a cursor\<close>

definition ordered_selected :: "selected \<Rightarrow> selected" where
  "ordered_selected s = (case s of (step, pointer, where_text, item, v) \<Rightarrow> (step, pointer, where_text, item, ordered v))"

definition ordered_cursor :: "cursor \<Rightarrow> cursor" where
  "ordered_cursor c = c\<lparr>c_selected := map ordered_selected (c_selected c), c_shown := map_option ordered (c_shown c)\<rparr>"

lemma document_at:
  "at (document c) ''incarnation'' = Str (bn_incarnation (c_binding c))"
  "at (document c) ''routine_id'' = Str (bn_routine (c_binding c))"
  "at (document c) ''revision'' = int_value (bn_revision (c_binding c))"
  "at (document c) ''run_id'' = Str (bn_run (c_binding c))"
  "at (document c) ''plan'' = Str (c_plan c)"
  "at (document c) ''started_at'' = int_value (c_started c)"
  "at (document c) ''step'' = int_value (i64_of_nat (c_step c))"
  "at (document c) ''operation_id'' = optional (c_operation c)"
  "at (document c) ''attempts'' = int_value (c_attempts c)"
  "at (document c) ''commitment'' = optional (c_commitment c)"
  "at (document c) ''selected'' = Array (map selected_value_of (c_selected c))"
  "at (document c) ''episode'' = Bool (opened (c_episode c))"
  "at (document c) ''continued'' = Bool (has_continued (c_episode c))"
  "at (document c) ''absent'' = Bool (c_absent c)"
  "at (document c) ''carried'' = Bool (carried (c_episode c))"
  "at (document c) ''fault'' = Str (c_fault c)"
  "at (document c) ''workload'' = Str (c_workload c)"
  "at (document c) ''dispatched_at'' = int_value (c_dispatched c)"
  "at (document c) ''shown'' = (case c_shown c of None \<Rightarrow> Null | Some v \<Rightarrow> v)"
  "at (document c) ''boot'' = Str (c_boot c)"
  "at (document c) ''protection_lost'' = Bool (c_lost c)"
  by (simp_all add: document_def object_def)

lemma document_version: "get (document c) ''version'' = Some (int_value CURSOR_VERSION)"
  by (simp add: document_def object_def)

lemma document_fields: "has_fields (document c) CURSOR_FIELDS"
  by (simp add: document_def object_def has_fields_def CURSOR_FIELDS_def)

lemma ordered_values [simp]: "ordered (int_value i) = int_value i" "ordered (optional m) = optional m"
  "integer_of (int_value i) = Some i" "nullable (optional m) = Some m"
  by (simp_all add: int_value_def optional_def split: option.splits)

lemma ordered_selected_value: "ordered (selected_value_of s) = selected_value_of (ordered_selected s)"
  by (simp add: selected_value_of_def ordered_selected_def split: prod.splits)

lemma selection_of_value [simp]: "selection_of (selected_value_of s) = Some s"
  by (simp add: selected_value_of_def split: prod.splits)

lemma those_selections: "those (map selection_of (map selected_value_of xs)) = Some xs"
  by (induction xs) auto

lemma episode_of_flags: "episode_of (opened e) (has_continued e) (carried e) = Some e"
  by (cases e) (auto simp: episode_of_def opened_def has_continued_def carried_def)

lemma read_document:
  assumes "admissible fl (document c)" "c_step c \<le> MAX_STEPS" "c_shown c \<noteq> Some Null"
  shows "read_cursor (ordered (document c)) = Some (ordered_cursor c)"
proof -
  note at' = at_ordered [OF assms(1)]
  have step: "usize_of_int (i64_of_nat (c_step c)) = Some (c_step c)"
    using assms(2) by (simp add: usize_of_int_def i64_of_nat_def i64_max_def MAX_STEPS_def)
  have shown: "(case ordered (case c_shown c of None \<Rightarrow> Null | Some v \<Rightarrow> v) of Null \<Rightarrow> None | shown \<Rightarrow> Some shown) = map_option ordered (c_shown c)"
  proof (cases "c_shown c")
    case (Some v)
    then have "ordered v \<noteq> Null" using assms(3) by simp
    then show ?thesis using Some by (simp split: json.splits)
  qed simp
  have sel: "map ordered (map selected_value_of (c_selected c)) = map selected_value_of (map ordered_selected (c_selected c))"
    by (simp add: ordered_selected_value)
  have progress: "read_progress (ordered (document c)) = Some (c_plan c, c_started c, c_step c, map ordered_selected (c_selected c))"
    unfolding read_progress_def at' document_at ordered.simps sel by (simp add: step those_selections del: map_map)
  have operation: "read_operation (ordered (document c)) = Some (c_operation c, c_attempts c, c_commitment c)"
    unfolding read_operation_def at' document_at by simp
  have attempt: "read_attempt (ordered (document c)) = Some (c_fault c, c_workload c, c_dispatched c)"
    unfolding read_attempt_def at' document_at by simp
  have state: "read_state (ordered (document c)) = Some (c_episode c, c_absent c, c_boot c, c_lost c)"
    unfolding read_state_def at' document_at by (simp add: episode_of_flags)
  have binding: "read_binding (ordered (document c)) = Some (c_binding c)"
    unfolding read_binding_def at' document_at by simp
  show ?thesis
    unfolding read_cursor_def progress operation attempt state binding at' document_at shown
    by (simp add: ordered_cursor_def)
qed

lemma canonical_map_ordered: "canonical (Object (map (\<lambda>(k, v). (k, ordered v)) ms)) = canonical (Object ms)"
proof -
  have "canonical (Object (map (\<lambda>(k, v). (k, ordered v)) ms)) = canonical (ordered (Object ms))"
    by (simp add: canonical_simps(6) sort_key_sorted)
  then show ?thesis by (simp only: canonical_ordered)
qed

lemma document_ordered: "canonical (document (ordered_cursor c)) = canonical (document c)"
proof -
  have "document (ordered_cursor c) = Object (map (\<lambda>(k, v). (k, ordered v)) (members (document c)))"
    by (simp add: document_def object_def ordered_cursor_def ordered_selected_value split: option.splits)
  then show ?thesis using canonical_map_ordered [of "members (document c)"] by (simp add: document_def object_def)
qed

lemma btree_map_snd: "btree_map (map (\<lambda>(k, v). (k, f v)) xs) = map (\<lambda>(k, v). (k, f v)) (btree_map xs)"
proof -
  have keys: "map fst (map (\<lambda>(k, v). (k, f v)) xs) = map fst xs" by (simp add: comp_def split_def)
  have val: "the (map_of (rev (map (\<lambda>(k, v). (k, f v)) xs)) k) = f (the (map_of (rev xs) k))" if "k \<in> set (map fst xs)" for k
  proof -
    have m: "map_of (rev (map (\<lambda>(k, v). (k, f v)) xs)) = map_option f \<circ> map_of (rev xs)"
      using map_of_map [of f "rev xs"] by (simp add: rev_map)
    have "k \<in> fst ` set (rev xs)" using that by simp
    then obtain v where "map_of (rev xs) k = Some v" using map_of_eq_None_iff [of "rev xs" k] by auto
    then show ?thesis by (simp add: m)
  qed
  show ?thesis
    unfolding btree_map_def keys by (simp only: map_map, rule map_cong [OF refl]) (use val in \<open>auto simp: btree_set_def\<close>)
qed

lemma canonical_entry: "canonical (Array [a, b, c, d, ordered v]) = canonical (Array [a, b, c, d, v])"
  by (simp add: canonical_simps canonical_ordered)

lemma retained_bytes_ordered: "retained_bytes (map (\<lambda>(k, v). (k, ordered v)) es) = retained_bytes es"
proof -
  have "map canonical (map (\<lambda>((s, p, w, i), v). Array [Str s, Str p, Str w, Str i, v]) (map (\<lambda>(k, v). (k, ordered v)) es)) =
      map canonical (map (\<lambda>((s, p, w, i), v). Array [Str s, Str p, Str w, Str i, v]) es)"
    using canonical_entry by auto
  then show ?thesis by (simp only: retained_bytes_def canonical_simps(5))
qed

lemma selection_entry_ordered: "selection_entry (ordered_selected s) = (case selection_entry s of (k, v) \<Rightarrow> (k, ordered v))"
  by (simp add: selection_entry_def ordered_selected_def split: prod.splits)

lemma selections_valid_ordered: "selections_valid (map ordered_selected xs) n = selections_valid xs n"
proof -
  have entries: "map selection_entry (map ordered_selected xs) = map (\<lambda>(k, v). (k, ordered v)) (map selection_entry xs)"
    by (simp add: selection_entry_ordered)
  have "selection_ok (ordered_selected s) = selection_ok s" for s by (cases s) (simp add: ordered_selected_def)
  then have ok: "list_all selection_ok (map ordered_selected xs) = list_all selection_ok xs" by (simp add: list_all_iff)
  have keys: "map (fst \<circ> selection_entry) (map ordered_selected xs) = map (fst \<circ> selection_entry) xs"
    by (simp add: selection_entry_ordered split: prod.splits)
  show ?thesis unfolding selections_valid_def ok keys entries btree_map_snd retained_bytes_ordered ..
qed

lemma same_attempt: "operation_valid (ordered_cursor c) = operation_valid c" "attempt_valid (ordered_cursor c) = attempt_valid c"
  by (simp_all add: operation_valid_def attempt_valid_def ordered_cursor_def split: option.splits)

lemma checked_ordered:
  assumes "admissible fl (document c)" "checked c = Inr c"
  shows "checked (ordered_cursor c) = Inr (ordered_cursor c)"
proof -
  have shape: "cursor_shape c MAX_RETAINED_BYTES" "length (canonical (document c)) \<le> MAX_CURSOR_BYTES"
    using assms(2) by (auto simp: checked_def checked_within_def split: if_splits)
  have "shown_valid (map_option ordered (c_shown c))"
  proof (cases "c_shown c")
    case (Some v)
    have "admissible fl v" using admissible_at [OF assms(1), of "''shown''"] Some by (simp only: document_at option.simps)
    then show ?thesis using shown_valid_ordered shape(1) Some by (simp add: cursor_shape_def)
  qed (simp add: shown_valid_def)
  then have "cursor_shape (ordered_cursor c) MAX_RETAINED_BYTES"
    using shape(1) same_attempt by (simp add: cursor_shape_def) (simp add: ordered_cursor_def selections_valid_ordered)
  then show ?thesis using shape(2) by (simp add: checked_def checked_within_def document_ordered)
qed

text \<open>What a cursor's parts are in the running program: texts are UTF-8, integers fit 64 bits, values have the parser's
  shape and do not nest to the parser's bound.\<close>

definition cursor_values :: "(bool \<Rightarrow> string \<Rightarrow> int \<Rightarrow> bool) \<Rightarrow> cursor \<Rightarrow> bool" where
  "cursor_values fl c \<longleftrightarrow> admissible fl (document c) \<and> levels (document c) \<le> MAX_DEPTH"

lemma decode_encoded:
  assumes rb: "reads_back read fl" and wf: "cursor_values fl c" and enc: "encode c = Inr raw"
  shows "decode_cursor read raw (c_binding c) = Inr (ordered_cursor c)"
proof -
  have checked: "checked c = Inr c" and raw: "raw = canonical (document c)"
    using enc by (auto simp: encode_def rbind_eq_Inr checked_def checked_within_def split: if_splits)
  have adm: "admissible fl (document c)" and lv: "levels (document c) \<le> MAX_DEPTH" using wf by (auto simp: cursor_values_def)
  have "c_step c \<le> MAX_STEPS" "shown_valid (c_shown c)"
    using checked by (auto simp: checked_def checked_within_def cursor_shape_def split: if_splits)
  moreover have "\<not> shown_valid (Some Null)" by (simp add: shown_valid_def has_fields_def)
  ultimately have "read_cursor (ordered (document c)) = Some (ordered_cursor c)"
    by (intro read_document [OF adm]) auto
  moreover have "get (ordered (document c)) ''version'' = Some (int_value CURSOR_VERSION)"
    by (simp add: get_ordered [OF adm] document_version)
  ultimately show ?thesis
    using parse_canonical [OF rb adm lv] document_fields checked_ordered [OF adm checked] document_ordered [of c]
    by (simp add: decode_cursor_def raw) (simp add: ordered_cursor_def)
qed

end
