(* ===== verification/Plan_Walk.thy ===== *)
theory Plan_Walk
  imports Routine_Plan
begin

text \<open>
  Which positions of an Action schema a value reaches and which of them may hold a secret:
  \<^verbatim>\<open>routine/src/plan/walk.rs\<close>, and the refusal of secret literals of \<^verbatim>\<open>routine/src/plan/mod.rs\<close>.

  Recursion that the code bounds by \<open>MAX_SECRET_DEPTH\<close> recurs here on the levels left, \<open>MAX_SECRET_DEPTH + 1 - depth\<close>: with
  none left the code refuses (\<open>collect\<close>) or says secret (\<open>could_hold_secret\<close>, \<open>secret_literal_at\<close>).
  \<open>walker\<close> holds what the walk calls elsewhere: lowercasing by the Unicode tables, and the pattern matcher of the vendored
  \<open>action-schema\<close> crate, whose work budget makes its answer depend on the searches before it.
\<close>

record walker =
  wk_lower :: "string \<Rightarrow> string"
  wk_matches :: "(string \<times> string) list \<Rightarrow> string \<Rightarrow> string \<Rightarrow> bool option"

definition MAX_SECRET_DEPTH :: nat where "MAX_SECRET_DEPTH = 64"

definition SECRET_MARKERS :: "string list" where
  "SECRET_MARKERS = [''secret'', ''password'', ''passwd'', ''token'', ''api_key'', ''apikey'', ''private_key'',
     ''access_key'', ''credential'']"

definition UNMODELLED :: "string list" where
  "UNMODELLED = [''if'', ''then'', ''else'', ''not'', ''contains'', ''unevaluatedItems'', ''contentSchema'', ''propertyNames'']"

definition APPLICATORS :: "string list" where
  "APPLICATORS = [''additionalProperties'', ''contains'', ''contentSchema'', ''else'', ''if'', ''items'', ''not'',
     ''propertyNames'', ''then'', ''unevaluatedItems'', ''unevaluatedProperties'']"

definition LIST_APPLICATORS :: "string list" where
  "LIST_APPLICATORS = [''allOf'', ''anyOf'', ''oneOf'', ''prefixItems'']"

definition MAP_APPLICATORS :: "string list" where
  "MAP_APPLICATORS = [''$defs'', ''definitions'', ''dependentSchemas'', ''patternProperties'', ''properties'']"

datatype sub = Node json | AllOf "json list"

datatype holding = Unknown | Value json | Supplied "(string \<times> json option) list"

fun depends :: "holding \<Rightarrow> string \<Rightarrow> bool option" where
  "depends Unknown key = Some True"
| "depends (Value v) key = (case v of Object found \<Rightarrow> Some (key \<in> set (map fst found)) | _ \<Rightarrow> None)"
| "depends (Supplied found) key = Some (key \<in> set (map fst found))"

section \<open>Positions\<close>

text \<open>\<open>chars().skip(k)\<close> of a UTF-8 text.\<close>

fun skip_chars :: "nat \<Rightarrow> string \<Rightarrow> string" where
  "skip_chars 0 s = s"
| "skip_chars (Suc k) s = skip_chars k (dropWhile (continuation 0x80 0xBF) (tl s))"

definition reference_target :: "json \<Rightarrow> string \<Rightarrow> json option" where
  "reference_target root reference =
     (if reference = ''#'' then Some root
      else let rest = skip_chars 2 reference;
               (container, name) = (case split_once (CHR ''/'') rest of None \<Rightarrow> (rest, []) | Some p \<Rightarrow> p) in
        case get root container of None \<Rightarrow> None | Some c \<Rightarrow> get c (unescape_token name))"

definition applied_subschemas :: "json \<Rightarrow> json list" where
  "applied_subschemas node =
     concat (map (\<lambda>keyword. case get node keyword of None \<Rightarrow> [] | Some child \<Rightarrow> [child]) APPLICATORS) @
     concat (map (\<lambda>keyword. case get node keyword of None \<Rightarrow> [] | Some child \<Rightarrow> elements child) LIST_APPLICATORS) @
     concat (map (\<lambda>keyword. case get node keyword of None \<Rightarrow> [] | Some child \<Rightarrow> map snd (members child)) MAP_APPLICATORS)"

definition ref_of :: "json \<Rightarrow> json \<Rightarrow> json option list" where
  \<comment> \<open>what a node's \<open>$ref\<close> adds to the positions it reaches\<close>
  "ref_of root node = (case get node ''$ref'' of
      Some (Str reference) \<Rightarrow> [reference_target root reference] | _ \<Rightarrow> [])"

definition reached_nodes :: "json \<Rightarrow> json \<Rightarrow> holding \<Rightarrow> json option list" where
  "reached_nodes root node held =
     ref_of root node @
     concat (map (\<lambda>combinator. case get node combinator of Some (Array items) \<Rightarrow> map Some items | _ \<Rightarrow> [])
       [''allOf'', ''anyOf'', ''oneOf'']) @
     (case get node ''dependentSchemas'' of
        Some (Object dependent) \<Rightarrow> concat (map (\<lambda>(key, item). if depends held key = Some True then [Some item] else []) dependent)
      | _ \<Rightarrow> [])"

fun collect_all :: "(json option \<Rightarrow> string + json list) \<Rightarrow> json option list \<Rightarrow> string + json list" where
  "collect_all f [] = Inr []"
| "collect_all f (m # ms) = rbind (f m) (\<lambda>found. rbind (collect_all f ms) (\<lambda>rest. Inr (found @ rest)))"

fun collect :: "nat \<Rightarrow> json \<Rightarrow> holding \<Rightarrow> json option \<Rightarrow> string + json list" where
  "collect 0 root held node = Inl ''plan-secret-literal''"
| "collect (Suc room) root held node = (case node of
      Some (Object ms) \<Rightarrow>
        rbind (collect_all (collect room root held) (reached_nodes root (Object ms) held)) (\<lambda>found. Inr (Object ms # found))
    | _ \<Rightarrow> Inr [])"

fun applicable :: "json \<Rightarrow> sub \<Rightarrow> holding \<Rightarrow> string + json list" where
  "applicable root (Node node) held = collect (Suc MAX_SECRET_DEPTH) root held (Some node)"
| "applicable root (AllOf reached) held = collect_all (collect MAX_SECRET_DEPTH root held) (map Some reached)"

fun match_patterns :: "walker \<Rightarrow> string \<Rightarrow> (string \<times> string) list \<Rightarrow> (string \<times> json) list
    \<Rightarrow> (json list \<times> (string \<times> string) list) option" where
  "match_patterns w key done [] = Some ([], done)"
| "match_patterns w key done ((pattern, schema) # ps) = (case wk_matches w done pattern key of
      None \<Rightarrow> None
    | Some hit \<Rightarrow> (case match_patterns w key (done @ [(pattern, key)]) ps of
        None \<Rightarrow> None
      | Some (matched, done') \<Rightarrow> Some ((if hit then [schema] else []) @ matched, done')))"

definition object_members :: "json \<Rightarrow> string \<Rightarrow> (string \<times> json) list" where
  "object_members node keyword = (case get node keyword of Some (Object ms) \<Rightarrow> ms | _ \<Rightarrow> [])"

fun member_loop :: "walker \<Rightarrow> string \<Rightarrow> (string \<times> string) list \<Rightarrow> json list \<Rightarrow> string + json list" where
  "member_loop w key done [] = Inr []"
| "member_loop w key done (item # items) =
     (case match_patterns w key done (object_members item ''patternProperties'') of
        None \<Rightarrow> Inl ''plan-secret-literal''
      | Some (matched, done') \<Rightarrow>
          (let property = map_option snd (find_by fst key (object_members item ''properties''));
               here = (case property of None \<Rightarrow> [] | Some p \<Rightarrow> [p]) @ matched @
                 (if property = None \<and> matched = [] then
                    (case get item ''additionalProperties'' of Some (Object ms) \<Rightarrow> [Object ms] | _ \<Rightarrow> [])
                  else [])
           in rbind (member_loop w key done' items) (\<lambda>rest. Inr (here @ rest))))"

definition member_schemas :: "walker \<Rightarrow> json list \<Rightarrow> string \<Rightarrow> string + sub" where
  "member_schemas w candidates key = rbind (member_loop w key [] candidates) (\<lambda>reached. Inr (AllOf reached))"

definition item_schemas :: "json list \<Rightarrow> nat \<Rightarrow> sub" where
  "item_schemas candidates index = AllOf (concat (map (\<lambda>item.
     case get item ''prefixItems'' of
       Some (Array prefix) \<Rightarrow>
         if index < length prefix then [prefix ! index] else (case get item ''items'' of None \<Rightarrow> [] | Some i \<Rightarrow> [i])
     | _ \<Rightarrow> (case get item ''items'' of None \<Rightarrow> [] | Some i \<Rightarrow> [i])) candidates))"

definition any_item :: "json list \<Rightarrow> json list" where
  "any_item candidates = concat (map (\<lambda>item.
     (case get item ''prefixItems'' of Some (Array prefix) \<Rightarrow> prefix | _ \<Rightarrow> []) @
     (case get item ''items'' of None \<Rightarrow> [] | Some i \<Rightarrow> [i])) candidates)"

section \<open>Secret positions\<close>

fun contains :: "string \<Rightarrow> string \<Rightarrow> bool" where
  "contains [] pat \<longleftrightarrow> pat = []"
| "contains (c # cs) pat \<longleftrightarrow> take (length pat) (c # cs) = pat \<or> contains cs pat"

definition secret_name :: "walker \<Rightarrow> string \<Rightarrow> bool" where
  "secret_name w name = (let lowered = map (\<lambda>c. if c = CHR ''-'' then CHR ''_'' else c) (wk_lower w name) in
     list_ex (contains lowered) SECRET_MARKERS)"

definition marked :: "json \<Rightarrow> bool" where
  "marked subschema \<longleftrightarrow> get subschema ''writeOnly'' = Some (Bool True) \<or> get subschema ''format'' = Some (Str ''password'')"

fun could_hold_secret :: "walker \<Rightarrow> json \<Rightarrow> nat \<Rightarrow> json option \<Rightarrow> bool" where
  "could_hold_secret w root 0 subschema \<longleftrightarrow> True"
| "could_hold_secret w root (Suc room) subschema \<longleftrightarrow> (case subschema of
      Some (Object ms) \<Rightarrow>
        marked (Object ms) \<or> list_ex (\<lambda>(key, _). secret_name w key) (object_members (Object ms) ''properties'') \<or>
        list_ex (could_hold_secret w root room) (map Some (applied_subschemas (Object ms)) @ ref_of root (Object ms))
    | _ \<Rightarrow> False)"

definition secret_position :: "walker \<Rightarrow> json \<Rightarrow> string \<Rightarrow> json list \<Rightarrow> bool" where
  "secret_position w root name candidates \<longleftrightarrow>
     secret_name w name \<or> list_ex marked candidates \<or>
     list_ex (\<lambda>item. list_ex (\<lambda>keyword. case get item keyword of
         None \<Rightarrow> False | Some reached \<Rightarrow> could_hold_secret w root (Suc MAX_SECRET_DEPTH) (Some reached)) UNMODELLED) candidates"

end
