(* ===== verification/Plan_Admit.thy ===== *)
theory Plan_Admit
  imports Plan_Walk
begin

text \<open>
  The admission of a plan document (\<^verbatim>\<open>routine/src/plan/mod.rs\<close>: \<open>admit\<close> and \<open>well_formed\<close>): its closed shape, every step's
  value sources, the refusal of secret literals, and the contracts of the Actions it names.

  \<open>plan_host\<close> holds what admission calls elsewhere: the timezone database, the digest, the dates a clock source writes, the
  credential patterns and the vendored schema validator. They are arguments; every theorem holds for all of them.
\<close>

record plan_host =
  ph_zones :: zones
  ph_sha :: "string \<Rightarrow> string"
  ph_clock :: clock_reader
  ph_clock_ok :: "json \<Rightarrow> bool"
  ph_credential :: "string \<Rightarrow> bool"
  ph_walker :: walker
  ph_validate :: "json \<Rightarrow> json \<Rightarrow> bool"

record contract =
  ct_pin :: string
  ct_input_schema :: json
  ct_input_files :: "string list"
  ct_output_schema :: json
  ct_read_only :: bool
  ct_stored_inputs :: "string list"

type_synonym contracts = "string \<times> string \<Rightarrow> contract option"

definition PLAN_VERSION :: int where "PLAN_VERSION = 4"
definition MAX_PLAN_BYTES :: nat where "MAX_PLAN_BYTES = 256 * 1024"
definition SAMPLE_INSTANT :: int where "SAMPLE_INSTANT = 1767225600"

section \<open>Secrets and credentials\<close>

fun any_result :: "('a \<Rightarrow> string + bool) \<Rightarrow> 'a list \<Rightarrow> string + bool" where
  "any_result f [] = Inr False"
| "any_result f (x # xs) = rbind (f x) (\<lambda>hit. if hit then Inr True else any_result f xs)"

fun secret_literal_at :: "walker \<Rightarrow> json \<Rightarrow> nat \<Rightarrow> string \<Rightarrow> json \<Rightarrow> sub \<Rightarrow> string + bool" where
  "secret_literal_at w root 0 name v subschema = Inr True"
| "secret_literal_at w root (Suc room) name v subschema =
     rbind (applicable root subschema (Value v)) (\<lambda>candidates.
       if secret_position w root name candidates then Inr True
       else (case v of
           Object found \<Rightarrow> any_result (\<lambda>(key, item).
             rbind (member_schemas w candidates key) (\<lambda>m. secret_literal_at w root room key item m)) found
         | Array items \<Rightarrow> any_result (\<lambda>(index, item).
             secret_literal_at w root room name item (item_schemas candidates index)) (enumerate 0 items)
         | _ \<Rightarrow> Inr False))"

definition step_secret_literal :: "walker \<Rightarrow> json \<Rightarrow> (string \<times> json option) list \<Rightarrow> string + bool" where
  "step_secret_literal w schema supplied =
     rbind (applicable schema (Node schema) (Supplied supplied)) (\<lambda>candidates.
       if secret_position w schema [] candidates then Inr True
       else any_result (\<lambda>(key, item). rbind (member_schemas w candidates key) (\<lambda>m.
              case item of None \<Rightarrow> Inr False | Some v \<Rightarrow> secret_literal_at w schema MAX_SECRET_DEPTH key v m)) supplied)"

definition secret_literal :: "walker \<Rightarrow> json \<Rightarrow> json \<Rightarrow> string + bool" where
  "secret_literal w schema supplied = secret_literal_at w schema (Suc MAX_SECRET_DEPTH) [] supplied (Node schema)"

fun holds_credential :: "(string \<Rightarrow> bool) \<Rightarrow> json \<Rightarrow> bool" where
  "holds_credential cred (Str s) \<longleftrightarrow> cred s"
| "holds_credential cred (Array items) \<longleftrightarrow> list_ex (holds_credential cred) items"
| "holds_credential cred (Object found) \<longleftrightarrow> list_ex (\<lambda>(key, item). cred key \<or> holds_credential cred item) found"
| "holds_credential cred _ \<longleftrightarrow> False"

section \<open>Sources\<close>

definition sample_clock :: "plan_host \<Rightarrow> json \<Rightarrow> string + json" where
  "sample_clock h source = ok_or (ph_clock h source SAMPLE_INSTANT ''UTC'') ''plan-input-invalid''"

definition supplied_value :: "plan_host \<Rightarrow> json \<Rightarrow> string + json option" where
  "supplied_value h source =
     (if as_str (at source ''kind'') = Some ''run_clock'' \<and> get source ''parts'' \<noteq> None
      then rbind (sample_clock h source) (\<lambda>v. Inr (Some v)) else Inr (get source ''value''))"

definition SOURCE_FIELDS :: "(string \<times> string list) list" where
  "SOURCE_FIELDS =
     [(''literal'', [''kind'', ''value'']), (''run_clock'', [''kind'', ''format'']),
      (''run_clock'', [''kind'', ''format'', ''parts'']), (''step_output'', [''kind'', ''step'', ''pointer'']),
      (''step_output'', [''kind'', ''step'', ''pointer'', ''where'', ''item''])]"

definition source_kind :: "json \<Rightarrow> string option" where
  "source_kind source = (case as_str (at source ''kind'') of
      None \<Rightarrow> None
    | Some kind \<Rightarrow> if list_ex (\<lambda>(name, fields). kind = name \<and> has_fields source fields) SOURCE_FIELDS then Some kind else None)"

definition reference_ok :: "json \<Rightarrow> string list \<Rightarrow> bool" where
  "reference_ok source earlier \<longleftrightarrow>
     list_ex (\<lambda>known. as_str (at source ''step'') = Some known) earlier \<and>
     pointer_tokens (at source ''pointer'') \<noteq> None \<and>
     (get source ''where'' \<noteq> None \<longrightarrow> where_shape (at source ''where'') \<and> pointer_tokens (at source ''item'') \<noteq> None)"

definition check_source :: "plan_host \<Rightarrow> json \<Rightarrow> string list \<Rightarrow> string + unit" where
  "check_source h source earlier = (case source_kind source of
      None \<Rightarrow> Inl ''plan-input-invalid''
    | Some kind \<Rightarrow>
        if kind = ''literal'' \<and> holds_credential (ph_credential h) (at source ''value'') then Inl ''plan-secret-literal''
        else if kind = ''run_clock'' \<and> \<not> ph_clock_ok h source then Inl ''plan-input-invalid''
        else rbind (if kind = ''run_clock'' \<and> get source ''parts'' \<noteq> None
                    then rbind (sample_clock h source) (\<lambda>v. Inr (holds_credential (ph_credential h) v)) else Inr False) (\<lambda>secret.
          if secret then Inl ''plan-secret-literal''
          else if kind = ''step_output'' \<and> \<not> reference_ok source earlier then Inl ''plan-reference-invalid''
          else Inr ()))"

definition admit_member :: "plan_host \<Rightarrow> json \<Rightarrow> string \<Rightarrow> json \<Rightarrow> string + unit" where
  "admit_member h schema name v =
     (let property = (case find_by fst name (members (at schema ''properties'')) of None \<Rightarrow> Null | Some (_, p) \<Rightarrow> p);
          member = object [(''type'', Str ''object''), (''properties'', Object [(name, property)]),
            (''required'', Array [Str name]), (''additionalProperties'', Bool False)];
          with_defs = foldl (\<lambda>m definitions. case get schema definitions of
            None \<Rightarrow> m | Some found \<Rightarrow> set_member m definitions found) member [''$defs'', ''definitions'']
      in if ph_validate h with_defs (Object [(name, v)]) then Inr () else Inl ''plan-input-type'')"

definition typed :: "plan_host \<Rightarrow> string \<Rightarrow> json \<Rightarrow> json \<Rightarrow> string + unit" where
  "typed h name source schema =
     (if as_str (at source ''kind'') = Some ''literal'' then admit_member h schema name (at source ''value'')
      else if as_str (at source ''kind'') = Some ''run_clock'' then rbind (sample_clock h source) (admit_member h schema name)
      else Inr ())"

fun all_ok :: "('a \<Rightarrow> string + unit) \<Rightarrow> 'a list \<Rightarrow> string + unit" where
  "all_ok f [] = Inr ()"
| "all_ok f (x # xs) = rbind (f x) (\<lambda>_. all_ok f xs)"

section \<open>Steps and documents\<close>

definition step_shape :: "plan_host \<Rightarrow> json \<Rightarrow> string list
    \<Rightarrow> string + string \<times> string \<times> string \<times> string \<times> (string \<times> json) list" where
  "step_shape h raw earlier =
     (if \<not> has_fields raw [''id'', ''assistant'', ''action'', ''pin'', ''input''] then Inl ''plan-step-invalid''
      else if \<not> full_value step_id_re (at raw ''id'') \<or> list_ex (\<lambda>known. as_str (at raw ''id'') = Some known) earlier \<or>
        canonical_assistant_id (at raw ''assistant'') = None \<or> canonical_action_id (at raw ''action'') = None \<or>
        \<not> full_value plan_digest_re (at raw ''pin'') \<or> \<not> is_object (at raw ''input'') then Inl ''plan-step-invalid''
      else rbind (all_ok (\<lambda>(_, source). check_source h source earlier) (members (at raw ''input''))) (\<lambda>_.
        Inr (or_empty (as_str (at raw ''id'')), or_empty (as_str (at raw ''assistant'')), or_empty (as_str (at raw ''action'')),
             or_empty (as_str (at raw ''pin'')), members (at raw ''input''))))"

fun supplied_values :: "plan_host \<Rightarrow> (string \<times> json) list \<Rightarrow> string + (string \<times> json option) list" where
  "supplied_values h [] = Inr []"
| "supplied_values h ((name, source) # inputs) =
     rbind (supplied_value h source) (\<lambda>v. rbind (supplied_values h inputs) (\<lambda>rest. Inr ((name, v) # rest)))"

definition admitted_step :: "plan_host \<Rightarrow> json \<Rightarrow> contracts \<Rightarrow> string list \<Rightarrow> string + plan_step" where
  "admitted_step h raw contracts earlier =
     rbind (step_shape h raw earlier) (\<lambda>(step_id, assistant, action, pin, inputs).
     rbind (ok_or (case contracts (assistant, action) of
              None \<Rightarrow> None | Some c \<Rightarrow> if ct_pin c = pin then Some c else None) ''plan-pin-drift'') (\<lambda>c.
       if ct_input_files c \<noteq> [] then Inl ''plan-file-input''
       else if \<not> (list_all (\<lambda>(name, _). name \<in> set (map fst (members (at (ct_input_schema c) ''properties'')))) inputs \<and>
                  list_all (\<lambda>required. list_ex (\<lambda>(name, _). as_str required = Some name) inputs)
                    (elements (at (ct_input_schema c) ''required''))) then Inl ''plan-input-mismatch''
       else
         rbind (supplied_values h inputs) (\<lambda>supplied.
         rbind (step_secret_literal (ph_walker h) (ct_input_schema c) supplied) (\<lambda>secret.
           if secret then Inl ''plan-secret-literal''
           else rbind (all_ok (\<lambda>(name, source). typed h name source (ct_input_schema c)) inputs) (\<lambda>_.
             Inr \<lparr>ps_id = step_id, ps_assistant = assistant, ps_action = action, ps_pin = pin, ps_inputs = inputs,
                  ps_output_schema = ct_output_schema c, ps_input_schema = ct_input_schema c\<rparr>)))))"

definition document_parts :: "plan_host \<Rightarrow> json \<Rightarrow> string + string \<times> json list \<times> json \<times> string" where
  "document_parts h document =
     (if \<not> has_fields document [''version'', ''timezone'', ''steps'', ''output''] then Inl ''plan-invalid''
      else if get document ''version'' \<noteq> Some (Number (Int64 PLAN_VERSION)) \<or> length (canonical document) > MAX_PLAN_BYTES
        then Inl ''plan-invalid''
      else if \<not> is_ok (zone (ph_zones h) (at document ''timezone'')) then Inl ''plan-timezone-invalid''
      else (case at document ''steps'' of
          Array raw_steps \<Rightarrow>
            if length raw_steps > MAX_STEPS then Inl ''plan-invalid''
            else Inr (or_empty (as_str (at document ''timezone'')), raw_steps, at document ''output'', canonical document)
        | _ \<Rightarrow> Inl ''plan-invalid''))"

definition check_output :: "json \<Rightarrow> string list \<Rightarrow> string + unit" where
  "check_output v ids =
     (if \<not> has_fields v [''mode'', ''step''] then Inl ''plan-output-invalid''
      else (case as_str (at v ''mode'') of
          None \<Rightarrow> Inl ''plan-output-invalid''
        | Some mode \<Rightarrow>
            if mode \<notin> set OUTPUT_MODES \<or> ids = [] then Inl ''plan-output-invalid''
            else if (if mode \<in> set SHOWN_MODES then as_str (at v ''step'') = Some (last ids) else at v ''step'' = Null)
              then Inr () else Inl ''plan-output-invalid''))"

fun admit_steps :: "plan_host \<Rightarrow> contracts \<Rightarrow> plan_step list \<Rightarrow> json list \<Rightarrow> string + plan_step list" where
  "admit_steps h contracts steps [] = Inr steps"
| "admit_steps h contracts steps (raw # rest) =
     rbind (admitted_step h raw contracts (map ps_id steps)) (\<lambda>step. admit_steps h contracts (steps @ [step]) rest)"

definition admit :: "plan_host \<Rightarrow> json \<Rightarrow> contracts \<Rightarrow> string + plan" where
  "admit h document contracts =
     rbind (document_parts h document) (\<lambda>(timezone, raw_steps, output, encoded).
     rbind (admit_steps h contracts [] raw_steps) (\<lambda>steps.
     rbind (check_output output (map ps_id steps)) (\<lambda>_.
       Inr \<lparr>pl_timezone = timezone, pl_steps = steps, pl_digest = ''sha256:'' @ ph_sha h encoded, pl_output = output\<rparr>)))"

fun shapes :: "plan_host \<Rightarrow> string list \<Rightarrow> json list \<Rightarrow> string + string list" where
  "shapes h ids [] = Inr ids"
| "shapes h ids (raw # rest) = rbind (step_shape h raw ids) (\<lambda>shape. shapes h (ids @ [fst shape]) rest)"

definition well_formed :: "plan_host \<Rightarrow> json \<Rightarrow> bool" where
  "well_formed h document = is_ok
     (rbind (document_parts h document) (\<lambda>(timezone, raw_steps, output, encoded).
      rbind (shapes h [] raw_steps) (check_output output)))"

end
