(* ===== verification/Plan_Closed.thy ===== *)
theory Plan_Closed
  imports Plan_Admit
begin

text \<open>
  What the admission of a plan guarantees: an admitted plan is closed (its steps take values only from earlier ones), and
  every step fits the contract it is pinned to.
\<close>

section \<open>Admitted plans\<close>

text \<open>A closed plan: it has steps, their ids differ, and a step only takes from steps before it.\<close>

definition takes_from :: "json \<Rightarrow> string list \<Rightarrow> bool" where
  "takes_from source earlier \<longleftrightarrow> (step_output source \<longrightarrow> list_ex (\<lambda>known. as_str (at source ''step'') = Some known) earlier)"

definition steps_closed :: "plan_step list \<Rightarrow> bool" where
  "steps_closed steps \<longleftrightarrow> distinct (map ps_id steps) \<and>
     list_all (\<lambda>i. list_all (\<lambda>(_, source). takes_from source (take i (map ps_id steps))) (ps_inputs (steps ! i))) [0..<length steps]"

definition plan_closed :: "plan \<Rightarrow> bool" where
  "plan_closed plan \<longleftrightarrow> pl_steps plan \<noteq> [] \<and> steps_closed (pl_steps plan)"

lemma steps_closed_snoc:
  "steps_closed (steps @ [s]) \<longleftrightarrow> steps_closed steps \<and> ps_id s \<notin> set (map ps_id steps) \<and>
     list_all (\<lambda>(_, source). takes_from source (map ps_id steps)) (ps_inputs s)"
proof -
  have "list_all (\<lambda>i. list_all (\<lambda>(_, source). takes_from source (take i (map ps_id (steps @ [s])))) (ps_inputs ((steps @ [s]) ! i)))
      [0..<length steps] \<longleftrightarrow>
    list_all (\<lambda>i. list_all (\<lambda>(_, source). takes_from source (take i (map ps_id steps))) (ps_inputs (steps ! i))) [0..<length steps]"
    by (rule list.pred_cong [OF refl]) (simp add: nth_append)
  then show ?thesis by (auto simp: steps_closed_def)
qed

text \<open>What admission has checked of a step: its Action is installed at the pinned contract, takes no files, its members are
  members of the contract's schema with every required one there, and a literal holds no credential and fits its member.\<close>

definition literal :: "json \<Rightarrow> bool" where
  "literal source \<longleftrightarrow> as_str (at source ''kind'') = Some ''literal''"

definition step_admitted :: "plan_host \<Rightarrow> contracts \<Rightarrow> plan_step \<Rightarrow> bool" where
  "step_admitted h contracts s \<longleftrightarrow> (case contracts (ps_assistant s, ps_action s) of
      None \<Rightarrow> False
    | Some c \<Rightarrow>
        ct_pin c = ps_pin s \<and> ct_input_files c = [] \<and> ps_input_schema s = ct_input_schema c \<and>
        list_all (\<lambda>(name, source). name \<in> set (map fst (members (at (ct_input_schema c) ''properties''))) \<and>
          (literal source \<longrightarrow> \<not> holds_credential (ph_credential h) (at source ''value'') \<and>
             admit_member h (ct_input_schema c) name (at source ''value'') = Inr ())) (ps_inputs s) \<and>
        list_all (\<lambda>required. list_ex (\<lambda>(name, _). as_str required = Some name) (ps_inputs s))
          (elements (at (ct_input_schema c) ''required'')))"

lemma all_ok_Inr: "all_ok f xs = Inr () \<longleftrightarrow> list_all (\<lambda>x. f x = Inr ()) xs"
  by (induction xs) (auto simp: rbind_eq_Inr)

lemma check_source_Inr:
  assumes "check_source h source earlier = Inr ()"
  shows "takes_from source earlier" "literal source \<Longrightarrow> \<not> holds_credential (ph_credential h) (at source ''value'')"
proof -
  from assms obtain kind where k: "as_str (at source ''kind'') = Some kind"
    and c: "kind = ''literal'' \<longrightarrow> \<not> holds_credential (ph_credential h) (at source ''value'')"
      "kind = ''step_output'' \<longrightarrow> reference_ok source earlier"
    by (auto simp: check_source_def source_kind_def rbind_eq_Inr split: option.splits if_splits)
  then show "takes_from source earlier" "literal source \<Longrightarrow> \<not> holds_credential (ph_credential h) (at source ''value'')"
    by (auto simp: takes_from_def step_output_def reference_ok_def literal_def)
qed

lemma step_shape_Inr:
  assumes "step_shape h raw earlier = Inr (i, a, n, p, inputs)"
  shows "i \<notin> set earlier" "list_all (\<lambda>(_, source). check_source h source earlier = Inr ()) inputs"
proof -
  from assms have id: "full_value step_id_re (at raw ''id'')" "\<not> list_ex (\<lambda>known. as_str (at raw ''id'') = Some known) earlier"
    "i = or_empty (as_str (at raw ''id''))" and inputs: "inputs = members (at raw ''input'')"
    "all_ok (\<lambda>(_, source). check_source h source earlier) inputs = Inr ()"
    unfolding step_shape_def by (auto simp: rbind_eq_Inr split: if_splits)
  from id(1) obtain s where "at raw ''id'' = Str s" by (cases "at raw ''id''") (auto simp: full_value_def)
  then show "i \<notin> set earlier" using id by (auto simp: or_empty_def list_ex_iff)
  show "list_all (\<lambda>(_, source). check_source h source earlier = Inr ()) inputs"
    using inputs by (simp add: all_ok_Inr split_def)
qed

lemma admitted_step_Inr:
  assumes "admitted_step h raw contracts earlier = Inr s"
  shows "step_admitted h contracts s" "ps_id s \<notin> set earlier"
    "list_all (\<lambda>(_, source). takes_from source earlier) (ps_inputs s)"
    "\<exists>rest. step_shape h raw earlier = Inr (ps_id s, rest)"
proof -
  from assms obtain i a n p inputs c where sh: "step_shape h raw earlier = Inr (i, a, n, p, inputs)"
    and c: "contracts (a, n) = Some c" "ct_pin c = p" "ct_input_files c = []"
    and names: "list_all (\<lambda>(name, _). name \<in> set (map fst (members (at (ct_input_schema c) ''properties'')))) inputs"
      "list_all (\<lambda>required. list_ex (\<lambda>(name, _). as_str required = Some name) inputs) (elements (at (ct_input_schema c) ''required''))"
    and ty: "list_all (\<lambda>(name, source). typed h name source (ct_input_schema c) = Inr ()) inputs"
    and s: "s = \<lparr>ps_id = i, ps_assistant = a, ps_action = n, ps_pin = p, ps_inputs = inputs,
                  ps_output_schema = ct_output_schema c, ps_input_schema = ct_input_schema c\<rparr>"
    unfolding admitted_step_def rbind_eq_Inr ok_or_def
    by (auto simp: rbind_eq_Inr all_ok_Inr split_def split: option.splits if_splits)
  note shape = step_shape_Inr [OF sh]
  have "list_all (\<lambda>(name, source). name \<in> set (map fst (members (at (ct_input_schema c) ''properties''))) \<and>
          (literal source \<longrightarrow> \<not> holds_credential (ph_credential h) (at source ''value'') \<and>
             admit_member h (ct_input_schema c) name (at source ''value'') = Inr ())) inputs"
    unfolding list_all_iff
  proof (clarify, intro conjI impI)
    fix name source assume mem: "(name, source) \<in> set inputs"
    show "name \<in> set (map fst (members (at (ct_input_schema c) ''properties'')))" using names(1) mem by (auto simp: list_all_iff)
    assume lit: "literal source"
    have "check_source h source earlier = Inr ()" using shape(2) mem by (auto simp: list_all_iff)
    then show "\<not> holds_credential (ph_credential h) (at source ''value'')" using check_source_Inr(2) lit by blast
    have "typed h name source (ct_input_schema c) = Inr ()" using ty mem by (auto simp: list_all_iff)
    then show "admit_member h (ct_input_schema c) name (at source ''value'') = Inr ()" using lit by (simp add: typed_def literal_def)
  qed
  then show "step_admitted h contracts s" using c names(2) by (simp add: step_admitted_def s)
  show "ps_id s \<notin> set earlier" "\<exists>rest. step_shape h raw earlier = Inr (ps_id s, rest)" using shape(1) sh by (simp_all add: s)
  show "list_all (\<lambda>(_, source). takes_from source earlier) (ps_inputs s)"
    using shape(2) check_source_Inr(1) by (fastforce simp: s list_all_iff)
qed

lemma admit_steps_Inr:
  assumes "admit_steps h contracts steps raws = Inr out" "steps_closed steps" "list_all (step_admitted h contracts) steps"
  shows "steps_closed out \<and> list_all (step_admitted h contracts) out \<and> shapes h (map ps_id steps) raws = Inr (map ps_id out) \<and>
    length out = length steps + length raws"
  using assms
proof (induction raws arbitrary: steps)
  case (Cons raw raws)
  then obtain s where s: "admitted_step h raw contracts (map ps_id steps) = Inr s"
    and rest: "admit_steps h contracts (steps @ [s]) raws = Inr out" by (auto simp: rbind_eq_Inr)
  note step = admitted_step_Inr [OF s]
  obtain more where shape: "step_shape h raw (map ps_id steps) = Inr (ps_id s, more)" using step(4) by blast
  have "steps_closed (steps @ [s])" "list_all (step_admitted h contracts) (steps @ [s])"
    using Cons.prems(2,3) step(1-3) by (simp_all add: steps_closed_snoc)
  from Cons.IH [OF rest this] show ?case by (simp add: shape)
qed simp

lemma admit_closed:
  assumes "admit h document contracts = Inr plan"
  shows "well_formed h document \<and> plan_closed plan \<and> length (pl_steps plan) \<le> MAX_STEPS \<and>
    length (pl_steps plan) = length (elements (at document ''steps'')) \<and>
    pl_digest plan = ''sha256:'' @ ph_sha h (canonical document) \<and> list_all (step_admitted h contracts) (pl_steps plan)"
proof -
  from assms obtain tz raws shows_out encoded steps where parts: "document_parts h document = Inr (tz, raws, shows_out, encoded)"
    and steps: "admit_steps h contracts [] raws = Inr steps" and out: "check_output shows_out (map ps_id steps) = Inr ()"
    and plan: "plan = \<lparr>pl_timezone = tz, pl_steps = steps, pl_digest = ''sha256:'' @ ph_sha h encoded, pl_output = shows_out\<rparr>"
    by (auto simp: admit_def rbind_eq_Inr)
  have doc: "at document ''steps'' = Array raws" "length raws \<le> MAX_STEPS" "encoded = canonical document"
    using parts by (auto simp: document_parts_def split: if_splits json.splits)
  have "steps_closed []" "list_all (step_admitted h contracts) []" by (simp_all add: steps_closed_def)
  note admitted = admit_steps_Inr [OF steps this]
  have "steps \<noteq> []" using out by (auto simp: check_output_def split: if_splits option.splits)
  moreover have "well_formed h document" using admitted out by (simp add: well_formed_def parts is_ok_def)
  ultimately show ?thesis using admitted doc by (simp add: plan plan_closed_def)
qed

text \<open>C30: Admission. A plan that is admitted is one the stored-plan check accepts too; it has 1 to 256 steps with different ids,
  each taking values only from steps before it; its digest is that of the document; every step's Action is installed at
  the pinned contract, takes no files, is given only declared members and every required one; and no literal it carries
  holds a credential or fails its member's schema.\<close>

theorem admitted_plan_closed:
  assumes "admit h document contracts = Inr plan"
  shows "well_formed h document \<and> plan_closed plan \<and> length (pl_steps plan) \<le> MAX_STEPS \<and>
    length (pl_steps plan) = length (elements (at document ''steps'')) \<and>
    pl_digest plan = ''sha256:'' @ ph_sha h (canonical document) \<and> list_all (step_admitted h contracts) (pl_steps plan)"
  using assms by (rule admit_closed)

end
