(* ===== verification/Cursor_Machine.thy ===== *)
theory Cursor_Machine
  imports Cursor_Codec Plan_Closed
begin

text \<open>
  A run's cursor over its whole life: every transition of \<open>Routine_Cursor\<close> as an event, with a reload of the sealed cursor
  after a restart possible between any two, and what every reached cursor keeps. The results of the completed steps are read
  off the events: the cursor itself keeps only the values later steps select from them.
\<close>

section \<open>Events\<close>

datatype cursor_event =
    Lose
  | Dispatched string string string int
  | Attempt_failed string
  | Completed json "json option"
  | Absent
  | Retried
  | Episode_opened
  | Episode_continued

fun cursor_apply :: "f64_reader \<Rightarrow> plan \<Rightarrow> cursor_event \<Rightarrow> cursor \<Rightarrow> string + cursor" where
  "cursor_apply read plan Lose c = cursor_lose_protection c"
| "cursor_apply read plan (Dispatched operation committed workload now) c = dispatch_step c plan operation committed workload now"
| "cursor_apply read plan (Attempt_failed fault) c = failed c fault"
| "cursor_apply read plan (Completed result shown) c = complete_step read c plan result shown"
| "cursor_apply read plan Absent c = proven_absent c"
| "cursor_apply read plan Retried c = retry c"
| "cursor_apply read plan Episode_opened c = open_episode c"
| "cursor_apply read plan Episode_continued c = continued c"

fun is_completed :: "cursor_event \<Rightarrow> bool" where
  "is_completed (Completed result shown) = True"
| "is_completed _ = False"

fun completed_result :: "cursor_event \<Rightarrow> json list" where
  "completed_result (Completed result shown) = [result]"
| "completed_result _ = []"

definition results :: "cursor_event list \<Rightarrow> json list" where
  "results es = concat (map completed_result es)"

lemma results_simps [simp]: "results [] = []" "results (es @ [e]) = results es @ completed_result e"
  by (simp_all add: results_def)

text \<open>The cursors a sequence of events leads to; a reload reads back the bytes the cursor was sealed as.\<close>

inductive cursor_trace :: "f64_reader \<Rightarrow> (bool \<Rightarrow> string \<Rightarrow> int \<Rightarrow> bool) \<Rightarrow> plan \<Rightarrow> cursor \<Rightarrow> cursor_event list \<Rightarrow> cursor \<Rightarrow> bool"
  for read fl plan c where
  stopped: "cursor_trace read fl plan c [] c"
| applied: "cursor_trace read fl plan c es c' \<Longrightarrow> cursor_apply read plan e c' = Inr c'' \<Longrightarrow> cursor_trace read fl plan c (es @ [e]) c''"
| reloaded: "cursor_trace read fl plan c es c' \<Longrightarrow> cursor_values fl c' \<Longrightarrow> encode c' = Inr raw \<Longrightarrow>
    decode_cursor read raw (c_binding c') = Inr c'' \<Longrightarrow> cursor_trace read fl plan c es c''"

section \<open>What one event changes\<close>

lemma checked_self: "checked c = Inr c' \<Longrightarrow> c' = c \<and> checked c' = Inr c'"
  by (auto simp: checked_def checked_within_def split: if_splits)

lemma checked_eq: "checked c = Inr c' \<Longrightarrow> c' = c"
  by (simp add: checked_self)

text \<open>A completed step: its selections are appended, its operation is cleared, and the cursor is at the next step.\<close>

definition entries_of :: "string \<Rightarrow> (selector_key \<times> json) list \<Rightarrow> selected list" where
  "entries_of step chosen = map (\<lambda>((pointer, where_text, item), v). (step, pointer, where_text, item, v)) chosen"

lemma complete_Inr:
  assumes "complete_step read c plan result shown = Inr c'"
  obtains chosen where "c_plan c = pl_digest plan" "c_step c < length (pl_steps plan)" "c_operation c \<noteq> None"
    "selections read plan (ps_id (pl_steps plan ! c_step c)) result = Inr chosen"
    "shown_matches c plan (ps_id (pl_steps plan ! c_step c)) shown"
    "c' = c\<lparr>c_selected := c_selected c @ entries_of (ps_id (pl_steps plan ! c_step c)) chosen,
       c_step := c_step c + 1, c_operation := None, c_attempts := 0, c_commitment := None, c_absent := False,
       c_episode := uncarried (c_episode c), c_fault := [], c_workload := [], c_dispatched := 0, c_shown := shown\<rparr>"
    "checked c' = Inr c'"
proof -
  let ?id = "ps_id (pl_steps plan ! c_step c)"
  from assms obtain chosen where "c_plan c = pl_digest plan" "c_operation c \<noteq> None"
    "\<not> length (pl_steps plan) \<le> c_step c" "selections read plan ?id result = Inr chosen" "shown_matches c plan ?id shown"
    and ch: "checked (c\<lparr>c_selected := c_selected c @ entries_of ?id chosen,
       c_step := c_step c + 1, c_operation := None, c_attempts := 0, c_commitment := None, c_absent := False,
       c_episode := uncarried (c_episode c), c_fault := [], c_workload := [], c_dispatched := 0, c_shown := shown\<rparr>) = Inr c'"
    by (auto simp: complete_step_def cursor_same_plan_def rbind_eq_Inr Let_def entries_of_def split: if_splits)
  then show thesis using that checked_self [OF ch] by (metis not_le)
qed

text \<open>Every other event stays at its step and keeps what was selected and shown, and a dispatched operation.\<close>

definition stays :: "cursor \<Rightarrow> cursor \<Rightarrow> bool" where
  "stays c c' \<longleftrightarrow> c_binding c' = c_binding c \<and> c_plan c' = c_plan c \<and> c_started c' = c_started c \<and> c_boot c' = c_boot c \<and>
     c_step c' = c_step c \<and> c_selected c' = c_selected c \<and> c_shown c' = c_shown c \<and> (c_lost c \<longrightarrow> c_lost c') \<and>
     (c_operation c \<noteq> None \<longrightarrow> c_operation c' = c_operation c \<and> c_commitment c' = c_commitment c)"

lemma checked_stays: "checked c1 = Inr c' \<Longrightarrow> stays c c1 \<Longrightarrow> stays c c' \<and> checked c' = Inr c'"
  by (drule checked_self) clarsimp

lemma lose_stays: "cursor_lose_protection c = Inr c' \<Longrightarrow> stays c c' \<and> checked c' = Inr c'"
  unfolding cursor_lose_protection_def by (erule checked_stays) (simp add: stays_def)

lemma dispatch_Inr:
  assumes "dispatch_step c plan operation committed workload now = Inr c'"
  shows "stays c c' \<and> checked c' = Inr c'" "c_operation c' = Some operation" "c_commitment c' = Some committed"
    "\<not> cursor_done c plan" "c_operation c \<noteq> None \<longrightarrow> c_operation c = Some operation \<and> c_commitment c = Some committed"
    "c_episode c' = c_episode c" "c_absent c' = c_absent c"
proof -
  have "\<not> cursor_done c plan" and
    same: "c_operation c \<noteq> None \<longrightarrow> c_operation c = Some operation \<and> c_commitment c = Some committed" and
    "checked (c\<lparr>c_operation := Some operation, c_attempts := c_attempts c + 1, c_commitment := Some committed,
              c_fault := [], c_workload := workload, c_dispatched := now\<rparr>) = Inr c'"
    using assms by (auto simp: dispatch_step_def rbind_eq_Inr split: if_splits)
  from this(1,2) checked_self [OF this(3)] show "stays c c' \<and> checked c' = Inr c'" "c_operation c' = Some operation"
    "c_commitment c' = Some committed" "\<not> cursor_done c plan"
    "c_operation c \<noteq> None \<longrightarrow> c_operation c = Some operation \<and> c_commitment c = Some committed"
    "c_episode c' = c_episode c" "c_absent c' = c_absent c"
    by (auto simp: stays_def)
qed

lemma failed_stays: "failed c fault = Inr c' \<Longrightarrow> stays c c' \<and> checked c' = Inr c'"
  unfolding failed_def by (simp split: if_splits) (erule checked_stays, simp add: stays_def)

lemma absent_stays: "proven_absent c = Inr c' \<Longrightarrow> stays c c' \<and> checked c' = Inr c'"
  unfolding proven_absent_def by (simp split: if_splits) (erule checked_stays, simp add: stays_def)

lemma retry_stays: "retry c = Inr c' \<Longrightarrow> stays c c' \<and> checked c' = Inr c'"
  unfolding retry_def by (simp split: if_splits) (erule checked_stays, simp add: stays_def)

lemma open_stays: "open_episode c = Inr c' \<Longrightarrow> stays c c' \<and> checked c' = Inr c'"
  unfolding open_episode_def by (simp split: if_splits) (erule checked_stays, simp add: stays_def)

lemma continued_stays: "continued c = Inr c' \<Longrightarrow> stays c c' \<and> checked c' = Inr c'"
  unfolding continued_def by (simp split: episode.splits) (erule checked_stays, simp add: stays_def)

lemma apply_stays:
  "cursor_apply read plan e c = Inr c' \<Longrightarrow> \<not> is_completed e \<Longrightarrow> stays c c' \<and> checked c' = Inr c'"
  by (cases e) (simp_all add: lose_stays dispatch_Inr(1) failed_stays absent_stays retry_stays open_stays continued_stays)

lemma complete_keeps:
  "complete_step read c plan r shown = Inr c' \<Longrightarrow> c_binding c' = c_binding c \<and> c_plan c' = c_plan c \<and>
     c_started c' = c_started c \<and> c_boot c' = c_boot c \<and> c_lost c' = c_lost c \<and> c_operation c \<noteq> None \<and>
     c_operation c' = None \<and> \<not> c_absent c' \<and> c_episode c' = uncarried (c_episode c)"
  by (erule complete_Inr) simp

lemma completed_result_none: "\<not> is_completed e \<Longrightarrow> completed_result e = []"
  by (cases e) simp_all

text \<open>A reload answers the cursor with the members of its values in order.\<close>

lemma reload_ordered:
  assumes "reads_back read fl" "cursor_values fl c" "encode c = Inr raw" "decode_cursor read raw (c_binding c) = Inr c'"
  shows "c' = ordered_cursor c" "checked c' = Inr c'"
proof -
  show eq: "c' = ordered_cursor c" using decode_encoded [OF assms(1,2,3)] assms(4) by simp
  have "checked c = Inr c" using assms(3) by (auto simp: encode_def rbind_eq_Inr dest: checked_self)
  then show "checked c' = Inr c'" using checked_ordered assms(2) by (auto simp: cursor_values_def eq)
qed

lemma ordered_cursor_simps [simp]:
  "c_binding (ordered_cursor c) = c_binding c" "c_plan (ordered_cursor c) = c_plan c" "c_started (ordered_cursor c) = c_started c"
  "c_step (ordered_cursor c) = c_step c" "c_operation (ordered_cursor c) = c_operation c"
  "c_commitment (ordered_cursor c) = c_commitment c" "c_episode (ordered_cursor c) = c_episode c"
  "c_absent (ordered_cursor c) = c_absent c" "c_boot (ordered_cursor c) = c_boot c" "c_lost (ordered_cursor c) = c_lost c"
  "c_selected (ordered_cursor c) = map ordered_selected (c_selected c)" "c_shown (ordered_cursor c) = map_option ordered (c_shown c)"
  by (simp_all add: ordered_cursor_def)

lemma ordered_idem [simp]: "ordered (ordered v) = ordered v"
proof (induction v)
  case (Object ms)
  let ?g = "\<lambda>(k, v). (k, ordered v)"
  have "map ?g (sort_key fst (map ?g ms)) = sort_key fst (map ?g ms)"
    by (rule map_idI) (use Object in auto)
  then show ?case by (simp add: sort_key_sorted)
qed simp_all

lemma ordered_selected_idem [simp]: "ordered_selected (ordered_selected s) = ordered_selected s"
  by (simp add: ordered_selected_def split: prod.splits)

section \<open>The values a cursor keeps\<close>

text \<open>What the results of the completed steps give the later ones, in the order of the steps.\<close>

fun kept_of :: "f64_reader \<Rightarrow> plan \<Rightarrow> plan_step \<Rightarrow> json \<Rightarrow> selected list" where
  "kept_of read plan step result = (case selections read plan (ps_id step) result of
      Inl _ \<Rightarrow> [] | Inr chosen \<Rightarrow> entries_of (ps_id step) chosen)"

definition kept :: "f64_reader \<Rightarrow> plan \<Rightarrow> json list \<Rightarrow> selected list" where
  "kept read plan rs = concat (map (\<lambda>(step, result). kept_of read plan step result) (zip (pl_steps plan) rs))"

definition all_selected :: "f64_reader \<Rightarrow> plan \<Rightarrow> json list \<Rightarrow> bool" where
  "all_selected read plan rs \<longleftrightarrow> list_all (\<lambda>(step, result). is_ok (selections read plan (ps_id step) result)) (zip (pl_steps plan) rs)"

lemma zip_extend: "length ys < length xs \<Longrightarrow> zip xs (ys @ [y]) = zip xs ys @ [(xs ! length ys, y)]"
proof (induction xs arbitrary: ys)
  case (Cons x xs) then show ?case by (cases ys) auto
qed simp

lemma kept_extend:
  assumes "length rs < length (pl_steps plan)" "selections read plan (ps_id (pl_steps plan ! length rs)) r = Inr chosen"
  shows "kept read plan (rs @ [r]) = kept read plan rs @ entries_of (ps_id (pl_steps plan ! length rs)) chosen"
    "all_selected read plan (rs @ [r]) = all_selected read plan rs"
  using assms by (simp_all add: kept_def all_selected_def zip_extend is_ok_def)

text \<open>What a cursor of a plan is after these results: at the step after them, of this plan, in its closed shape, with exactly
  what they give later steps, and with a shown output only from the last step of a plan that shows one.\<close>

definition tracks :: "f64_reader \<Rightarrow> plan \<Rightarrow> json list \<Rightarrow> cursor \<Rightarrow> bool" where
  "tracks read plan rs c \<longleftrightarrow>
     c_plan c = pl_digest plan \<and> c_step c = length rs \<and> length rs \<le> length (pl_steps plan) \<and> checked c = Inr c \<and>
     all_selected read plan rs \<and> map ordered_selected (c_selected c) = map ordered_selected (kept read plan rs) \<and>
     (c_shown c \<noteq> None \<longleftrightarrow> shown_step plan \<noteq> None \<and> cursor_done c plan)"

lemma start_tracks: "start_cursor plan b t boot = Inr c \<Longrightarrow> tracks read plan [] c"
  unfolding start_cursor_def by (drule checked_self)
    (auto simp: tracks_def all_selected_def kept_def cursor_done_def shown_step_def split: option.splits)

lemma stays_tracks: "tracks read plan rs c \<Longrightarrow> stays c c' \<Longrightarrow> checked c' = Inr c' \<Longrightarrow> tracks read plan rs c'"
  by (simp add: tracks_def stays_def cursor_done_def)

lemma shown_here:
  assumes "distinct (map ps_id (pl_steps plan))" "i < length (pl_steps plan)"
    "shown_matches c plan (ps_id (pl_steps plan ! i)) shown"
  shows "shown \<noteq> None \<longleftrightarrow> shown_step plan \<noteq> None \<and> Suc i = length (pl_steps plan)"
proof -
  have ne: "pl_steps plan \<noteq> []" "length (pl_steps plan) - 1 < length (pl_steps plan)" using assms(2) by auto
  have "ps_id (last (pl_steps plan)) = ps_id (pl_steps plan ! i) \<longleftrightarrow> Suc i = length (pl_steps plan)"
    using nth_eq_iff_index_eq [OF assms(1), unfolded length_map, OF ne(2) assms(2)] assms(2) ne
    by (simp add: last_conv_nth) linarith
  moreover have "s = last (pl_steps plan)" if "shown_step plan = Some s" for s
    using that by (auto simp: shown_step_def split: option.splits if_splits)
  ultimately show ?thesis
    using assms(3) by (auto simp: shown_matches_def Let_def split: option.splits)
qed

lemma complete_tracks:
  assumes dist: "distinct (map ps_id (pl_steps plan))" and tr: "tracks read plan rs c"
    and step: "complete_step read c plan r shown = Inr c'"
  shows "tracks read plan (rs @ [r]) c'"
proof -
  from step obtain chosen where lt: "c_step c < length (pl_steps plan)"
    and sel: "selections read plan (ps_id (pl_steps plan ! c_step c)) r = Inr chosen"
    and sh: "shown_matches c plan (ps_id (pl_steps plan ! c_step c)) shown"
    and eq: "c' = c\<lparr>c_selected := c_selected c @ entries_of (ps_id (pl_steps plan ! c_step c)) chosen,
       c_step := c_step c + 1, c_operation := None, c_attempts := 0, c_commitment := None, c_absent := False,
       c_episode := uncarried (c_episode c), c_fault := [], c_workload := [], c_dispatched := 0, c_shown := shown\<rparr>"
    and ch: "checked c' = Inr c'"
    by (rule complete_Inr)
  have n: "c_step c = length rs" using tr by (simp add: tracks_def)
  have shown: "shown \<noteq> None \<longleftrightarrow> shown_step plan \<noteq> None \<and> Suc (length rs) = length (pl_steps plan)"
    using shown_here [OF dist lt sh] n by simp
  have parts: "c_plan c' = c_plan c" "c_step c' = Suc (length rs)" "c_shown c' = shown"
    "c_selected c' = c_selected c @ entries_of (ps_id (pl_steps plan ! length rs)) chosen"
    using n by (simp_all add: eq)
  have lt': "length rs < length (pl_steps plan)" using lt n by simp
  note ext = kept_extend [OF lt' sel [unfolded n]]
  show ?thesis
    using tr lt' shown ch unfolding tracks_def cursor_done_def parts ext by auto
qed

lemma trace_tracks:
  assumes "reads_back read fl" "distinct (map ps_id (pl_steps plan))" "tracks read plan [] c"
  shows "cursor_trace read fl plan c es c' \<Longrightarrow> tracks read plan (results es) c'"
proof (induction rule: cursor_trace.induct)
  case stopped
  then show ?case using assms(3) by simp
next
  case (applied es c' e c'')
  show ?case
  proof (cases "is_completed e")
    case True
    then obtain r shown where "e = Completed r shown" by (cases e) auto
    then show ?thesis using complete_tracks [OF assms(2) applied.IH] applied.hyps by simp
  next
    case False
    then show ?thesis using stays_tracks [OF applied.IH] apply_stays [OF applied.hyps(2)] completed_result_none by simp
  qed
next
  case (reloaded es c' raw c'')
  from reload_ordered [OF assms(1) reloaded.hyps(2-4)] reloaded.IH show ?case
    by (simp add: tracks_def cursor_done_def comp_def)
qed

section \<open>What a step is given\<close>

lemma btree_map_find:
  fixes es :: "('k :: linorder \<times> 'v) list"
  assumes "distinct (map fst es)" "(k, v) \<in> set es"
  shows "find_by fst k (btree_map es) = Some (k, v)"
proof -
  have "map_of (rev es) k = Some v" using assms by (simp add: map_of_is_SomeI rev_map [symmetric])
  moreover have "k \<in> set (btree_set (map fst es))" using assms(2) by (force simp: btree_set_def)
  ultimately have "(k, v) \<in> set (btree_map es)" by (force simp: btree_map_def)
  moreover have "map fst (btree_map es) = btree_set (map fst es)" by (simp add: btree_map_def comp_def)
  then have "distinct (map fst (btree_map es))" by (simp add: btree_set_def)
  ultimately show ?thesis by (intro find_by_distinct) auto
qed

lemma select_all_Inr:
  assumes "select_all read result keys = Inr chosen" "k \<in> set keys"
  obtains v where "selected_value read result k = Inr v" "(k, v) \<in> set chosen"
  using assms by (induction keys arbitrary: chosen) (auto simp: rbind_eq_Inr)

lemma references_mem:
  assumes "s \<in> set (pl_steps plan)" "(name, source) \<in> set (ps_inputs s)" "step_output source"
    "as_str (at source ''step'') = Some i"
  shows "snd (selector source) \<in> set (references plan i)"
  unfolding references_def btree_set_def using assms by force

lemma selector_fst: "as_str (at source ''step'') = Some i \<Longrightarrow> fst (selector source) = i"
  by (simp add: selector_def or_empty_def)

text \<open>The value a completed step's result gave a source is kept by the cursor, whatever happened since.\<close>

lemma tracks_source:
  assumes tr: "tracks read plan rs c" and j: "j < length rs" and i: "as_str (at source ''step'') = Some (ps_id (pl_steps plan ! j))"
    and s: "s \<in> set (pl_steps plan)" "(name, source) \<in> set (ps_inputs s)" "step_output source"
  obtains v w where "find_by fst (selector source) (cursor_selections c) = Some (selector source, v)"
    "selected_value read (rs ! j) (snd (selector source)) = Inr w" "ordered v = ordered w"
proof -
  let ?step = "pl_steps plan ! j"
  have len: "length rs \<le> length (pl_steps plan)" and all: "all_selected read plan rs"
    and kept: "map ordered_selected (c_selected c) = map ordered_selected (kept read plan rs)"
    and "checked c = Inr c" using tr by (auto simp: tracks_def)
  then have dist: "distinct (map fst (map selection_entry (c_selected c)))"
    by (auto simp: checked_def checked_within_def cursor_shape_def selections_valid_def split: if_splits)
  have mem: "(?step, rs ! j) \<in> set (zip (pl_steps plan) rs)" using j len by (auto simp: set_zip)
  then have "is_ok (selections read plan (ps_id ?step) (rs ! j))" using all by (auto simp: all_selected_def list_all_iff)
  then obtain chosen where chosen: "selections read plan (ps_id ?step) (rs ! j) = Inr chosen"
    by (cases "selections read plan (ps_id ?step) (rs ! j)") (auto simp: is_ok_def)
  obtain w where w: "selected_value read (rs ! j) (snd (selector source)) = Inr w" "(snd (selector source), w) \<in> set chosen"
    using select_all_Inr [OF chosen [unfolded selections_def] references_mem [OF s i]] .
  obtain p wh it where sel: "selector source = (ps_id ?step, p, wh, it)" using selector_fst [OF i] by (cases "selector source") auto
  have "(ps_id ?step, p, wh, it, w) \<in> set (kept_of read plan ?step (rs ! j))"
    using w(2) chosen sel by (force simp: entries_of_def)
  then have "(ps_id ?step, p, wh, it, w) \<in> set (kept read plan rs)" using mem by (force simp: kept_def)
  then have "ordered_selected (ps_id ?step, p, wh, it, w) \<in> set (map ordered_selected (c_selected c))"
    unfolding kept by (metis imageI set_map)
  then obtain v where v: "(ps_id ?step, p, wh, it, v) \<in> set (c_selected c)" "ordered v = ordered w"
    by (auto simp: ordered_selected_def split: prod.splits)
  then have "(selector source, v) \<in> set (map selection_entry (c_selected c))" by (force simp: selection_entry_def sel)
  then show thesis using that btree_map_find [OF dist] w(1) v(2) by (simp add: cursor_selections_def)
qed

end
