(* ===== verification/Cursor_Properties.thy ===== *)
theory Cursor_Properties
  imports Cursor_Machine Schedule_Properties
begin

text \<open>
  What a run can rely on of its cursor: it always stands for the results recorded so far, the inputs of its current step are
  there, a step is only ever dispatched under one operation, recovery happens once, and sealing loses nothing.
\<close>

section \<open>Traces\<close>

lemma trace_snoc:
  assumes "reads_back read fl" "cursor_trace read fl plan c es' c'" "es' = es @ [e]"
  obtains c1 c2 where "cursor_trace read fl plan c es c1" "cursor_apply read plan e c1 = Inr c2" "c' = c2 \<or> c' = ordered_cursor c2"
  using assms(2,3)
proof (induction arbitrary: thesis rule: cursor_trace.induct)
  case (reloaded es1 c1 raw c2)
  obtain d1 d2 where d: "cursor_trace read fl plan c es d1" "cursor_apply read plan e d1 = Inr d2" "c1 = d2 \<or> c1 = ordered_cursor d2"
    using reloaded.IH reloaded.prems(2) by blast
  have "c2 = ordered_cursor c1" by (rule reload_ordered(1) [OF assms(1) reloaded.hyps(2-4)])
  moreover have "ordered_cursor (ordered_cursor d2) = ordered_cursor d2"
    by (simp add: ordered_cursor_def option.map_comp comp_def)
  ultimately show ?case using reloaded.prems(1) [OF d(1,2)] d(3) by metis
qed auto

lemma trace_append:
  assumes "cursor_trace read fl plan c es c'" "es = es1 @ es2"
  obtains c1 where "cursor_trace read fl plan c es1 c1" "cursor_trace read fl plan c1 es2 c'"
  using assms
proof (induction arbitrary: thesis es2 rule: cursor_trace.induct)
  case stopped
  then show ?case by (metis Nil_is_append_conv cursor_trace.stopped)
next
  case (applied es' c' e c'')
  show ?case
  proof (cases es2 rule: rev_cases)
    case Nil
    then show ?thesis using applied.prems cursor_trace.applied [OF applied.hyps] cursor_trace.stopped by (metis append_Nil2)
  next
    case (snoc es3 e')
    then have eq: "es' = es1 @ es3" "e' = e" using applied.prems(2) by auto
    obtain c1 where c1: "cursor_trace read fl plan c es1 c1" "cursor_trace read fl plan c1 es3 c'"
      using applied.IH [OF _ eq(1)] by blast
    show ?thesis using applied.prems(1) [OF c1(1)] cursor_trace.applied [OF c1(2) applied.hyps(2)] snoc eq(2) by simp
  qed
next
  case (reloaded es' c' raw c'')
  obtain c1 where "cursor_trace read fl plan c es1 c1" "cursor_trace read fl plan c1 es2 c'"
    using reloaded.IH reloaded.prems(2) by blast
  then show ?case using reloaded.prems(1) cursor_trace.reloaded reloaded.hyps(2-4) by metis
qed

text \<open>Until a step completes, its dispatched operation and commitment are kept.\<close>

lemma trace_keeps_operation:
  assumes "reads_back read fl" "cursor_trace read fl plan c es c'" "list_all (\<lambda>e. \<not> is_completed e) es"
    "c_operation c = Some operation" "c_commitment c = Some committed"
  shows "c_operation c' = Some operation \<and> c_commitment c' = Some committed"
  using assms(2,3)
proof (induction rule: cursor_trace.induct)
  case (applied es c' e c'')
  then have "stays c' c''" "c_operation c' = Some operation" "c_commitment c' = Some committed" using apply_stays by auto
  then show ?case by (simp add: stays_def)
next
  case (reloaded es c' raw c'')
  then show ?case using reload_ordered(1) [OF assms(1) reloaded.hyps(2-4)] by simp
qed (use assms in simp)

text \<open>C12: One operation per step. Between two dispatches with no completed step between them, whatever failures, proofs of
  absence, retries, recoveries and restarts happened, the second names the same operation and commitment as the first: an
  uncertain attempt is only ever asked for again under the operation the Action journal already knows.\<close>

theorem one_operation_per_step:
  assumes "reads_back read fl"
    "cursor_trace read fl plan c (before @ Dispatched operation committed workload now # during @ [Dispatched operation' committed' workload' now']) c'"
    "list_all (\<lambda>e. \<not> is_completed e) during"
  shows "operation' = operation \<and> committed' = committed"
proof -
  let ?first = "Dispatched operation committed workload now" and ?second = "Dispatched operation' committed' workload' now'"
  obtain d where d: "cursor_trace read fl plan c ((before @ [?first]) @ during) d"
    "\<exists>d'. cursor_apply read plan ?second d = Inr d'"
    by (rule trace_snoc [OF assms(1,2), of "before @ ?first # during" ?second]) auto
  obtain c1 where c1: "cursor_trace read fl plan c (before @ [?first]) c1" "cursor_trace read fl plan c1 during d"
    using trace_append [OF d(1) refl] .
  obtain b1 b2 where "cursor_apply read plan ?first b1 = Inr b2" "c1 = b2 \<or> c1 = ordered_cursor b2"
    using trace_snoc [OF assms(1) c1(1) refl] .
  then have "c_operation c1 = Some operation" "c_commitment c1 = Some committed" using dispatch_Inr(2,3) by force+
  from trace_keeps_operation [OF assms(1) c1(2) assms(3) this] show ?thesis using d(2) dispatch_Inr(5) by fastforce
qed

section \<open>The cursor of a run\<close>

text \<open>C13: What a cursor stands for. A cursor reached from the start of a run of a closed plan, through any events and restarts,
  keeps its run's binding, start and boot, is in its closed shape, is at the step after the results recorded, holds
  exactly what those results give later steps (up to the order of members), and shows an output exactly when a plan that
  shows one is done.\<close>

theorem cursor_invariant:
  assumes "reads_back read fl" "plan_closed plan" "start_cursor plan b t boot = Inr c0" "cursor_trace read fl plan c0 es c"
  shows "tracks read plan (results es) c \<and> c_binding c = b \<and> c_started c = t \<and> c_boot c = boot"
proof -
  have dist: "distinct (map ps_id (pl_steps plan))" using assms(2) by (simp add: plan_closed_def steps_closed_def)
  have start: "c_binding c0 = b \<and> c_started c0 = t \<and> c_boot c0 = boot"
    using assms(3) unfolding start_cursor_def by (auto dest!: checked_eq)
  from assms(4) have "c_binding c = b \<and> c_started c = t \<and> c_boot c = boot"
  proof (induction rule: cursor_trace.induct)
    case (applied es c' e c'')
    show ?case
    proof (cases "is_completed e")
      case True
      then show ?thesis using applied.hyps(2) applied.IH complete_keeps by (cases e) auto
    next
      case False
      then show ?thesis using apply_stays [OF applied.hyps(2)] applied.IH by (simp add: stays_def)
    qed
  next
    case (reloaded es c' raw c'')
    then show ?case using reload_ordered(1) [OF assms(1) reloaded.hyps(2-4)] by simp
  qed (use start in simp)
  then show ?thesis using trace_tracks [OF assms(1) dist start_tracks [OF assms(3)] assms(4)] by simp
qed

text \<open>C11: A step's inputs are there. At the current step of an admitted plan's cursor, whatever restarts there were, every
  source that names a step's output names an earlier, completed step, resolving it finds a value, and that value is the one
  the source selects in the result that step recorded.\<close>

theorem cursor_inputs_available:
  assumes "reads_back read fl" "admit h plan_document contracts = Inr plan" "start_cursor plan b t boot = Inr c0"
    "cursor_trace read fl plan c0 es c" "\<not> cursor_done c plan"
    "(name, source) \<in> set (ps_inputs (pl_steps plan ! c_step c))" "step_output source"
  shows "\<exists>j v w. j < c_step c \<and> as_str (at source ''step'') = Some (ps_id (pl_steps plan ! j)) \<and>
    selected_value read (results es ! j) (snd (selector source)) = Inr w \<and>
    resolve_source z clock plan (cursor_selections c) started source = Inr v \<and> ordered v = ordered w"
proof -
  have closed: "steps_closed (pl_steps plan)" using admit_closed [OF assms(2)] by (simp add: plan_closed_def)
  then have dist: "distinct (map ps_id (pl_steps plan))" by (simp add: steps_closed_def)
  have tr: "tracks read plan (results es) c" by (rule trace_tracks [OF assms(1) dist start_tracks [OF assms(3)] assms(4)])
  then have n: "c_step c = length (results es)" "c_step c < length (pl_steps plan)"
    using assms(5) by (auto simp: tracks_def cursor_done_def)
  have "takes_from source (take (c_step c) (map ps_id (pl_steps plan)))"
    using closed n(2) assms(6) by (auto simp: steps_closed_def list_all_iff)
  then obtain j where j: "j < c_step c" "as_str (at source ''step'') = Some (ps_id (pl_steps plan ! j))"
    using assms(7) n(2) by (auto simp: takes_from_def list_ex_iff in_set_conv_nth)
  obtain v w where "find_by fst (selector source) (cursor_selections c) = Some (selector source, v)"
    "selected_value read (results es ! j) (snd (selector source)) = Inr w" "ordered v = ordered w"
    using tracks_source [OF tr j(1) [unfolded n(1)] j(2) nth_mem [OF n(2)] assms(6,7)] .
  moreover have "resolve_source z clock plan (cursor_selections c) started source =
      ok_or (map_option snd (find_by fst (selector source) (cursor_selections c))) ''plan-reference-missing''"
    using assms(7) by (simp add: resolve_source_def step_output_def)
  ultimately show ?thesis using j by (auto simp: ok_or_def)
qed

section \<open>Recovery\<close>

fun is_dispatched :: "cursor_event \<Rightarrow> bool" where
  "is_dispatched (Dispatched operation committed workload now) = True"
| "is_dispatched _ = False"

lemma apply_recovery:
  assumes "cursor_apply read plan e c = Inr c'"
  shows "opened (c_episode c') \<longleftrightarrow> opened (c_episode c) \<or> e = Episode_opened"
    "e = Episode_opened \<Longrightarrow> \<not> opened (c_episode c)"
    "has_continued (c_episode c') \<longleftrightarrow> has_continued (c_episode c) \<or> e = Episode_continued"
    "e = Episode_continued \<Longrightarrow> \<not> has_continued (c_episode c)"
    "c_absent c' \<Longrightarrow> c_absent c \<or> e = Absent"
    "e = Retried \<Longrightarrow> c_absent c \<and> \<not> c_absent c'"
    "c_operation c' \<noteq> None \<Longrightarrow> c_operation c \<noteq> None \<or> is_dispatched e"
    "is_completed e \<Longrightarrow> c_operation c \<noteq> None \<and> c_operation c' = None"
proof -
  have opened: "opened (uncarried (c_episode c)) = opened (c_episode c)" "has_continued (uncarried (c_episode c)) = has_continued (c_episode c)"
    by (simp_all add: uncarried_def opened_def has_continued_def split: episode.splits)
  show "opened (c_episode c') \<longleftrightarrow> opened (c_episode c) \<or> e = Episode_opened"
    "e = Episode_opened \<Longrightarrow> \<not> opened (c_episode c)"
    "has_continued (c_episode c') \<longleftrightarrow> has_continued (c_episode c) \<or> e = Episode_continued"
    "e = Episode_continued \<Longrightarrow> \<not> has_continued (c_episode c)"
    "c_absent c' \<Longrightarrow> c_absent c \<or> e = Absent"
    "e = Retried \<Longrightarrow> c_absent c \<and> \<not> c_absent c'"
    "c_operation c' \<noteq> None \<Longrightarrow> c_operation c \<noteq> None \<or> is_dispatched e"
    "is_completed e \<Longrightarrow> c_operation c \<noteq> None \<and> c_operation c' = None"
    using assms opened
    by (cases e; auto simp: cursor_lose_protection_def dispatch_step_def rbind_eq_Inr failed_def proven_absent_def retry_def
        open_episode_def continued_def opened_def has_continued_def dest!: checked_eq complete_keeps
        split: if_splits episode.splits)+
qed

text \<open>C31: Recovery is spent once. Over a run's whole life, restarts included, the recovery episode is opened at most once and
  continued at most once, only after it was opened; every retry has its own proof of absence; and every completed step has
  its own dispatch.\<close>

theorem recovery_spent_once:
  assumes "reads_back read fl" "start_cursor plan b t boot = Inr c0" "cursor_trace read fl plan c0 es c"
  shows "count_list es Episode_opened = (if opened (c_episode c) then 1 else 0) \<and>
    count_list es Episode_continued = (if has_continued (c_episode c) then 1 else 0) \<and>
    count_list es Episode_continued \<le> count_list es Episode_opened \<and>
    count_list es Retried + (if c_absent c then 1 else 0) \<le> count_list es Absent \<and>
    length (results es) + (if c_operation c = None then 0 else 1) \<le> length (filter is_dispatched es)"
proof -
  have start: "c_episode c0 = Closed" "\<not> c_absent c0" "c_operation c0 = None"
    using assms(2) unfolding start_cursor_def by (auto dest!: checked_eq)
  have implied: "has_continued e \<Longrightarrow> opened e" for e by (cases e) (simp_all add: has_continued_def opened_def)
  from assms(3) have "count_list es Episode_opened = (if opened (c_episode c) then 1 else 0) \<and>
    count_list es Episode_continued = (if has_continued (c_episode c) then 1 else 0) \<and>
    count_list es Retried + (if c_absent c then 1 else 0) \<le> count_list es Absent \<and>
    length (results es) + (if c_operation c = None then 0 else 1) \<le> length (filter is_dispatched es)"
  proof (induction rule: cursor_trace.induct)
    case (applied es c' e c'')
    note step = apply_recovery [OF applied.hyps(2)]
    have "count_list (es @ [e]) Episode_opened = (if opened (c_episode c'') then 1 else 0)"
      "count_list (es @ [e]) Episode_continued = (if has_continued (c_episode c'') then 1 else 0)"
      using step(1-4) applied.IH by auto
    moreover have "count_list (es @ [e]) Retried + (if c_absent c'' then 1 else 0) \<le> count_list (es @ [e]) Absent"
      using step(5,6) applied.IH by (cases "c_absent c''") auto
    moreover have "length (completed_result e) = (if is_completed e then 1 else 0)" by (cases e) simp_all
    then have "length (results (es @ [e])) + (if c_operation c'' = None then 0 else 1) \<le> length (filter is_dispatched (es @ [e]))"
      using step(7,8) applied.IH by (cases "c_operation c''"; cases "is_completed e"; cases "c_operation c'") auto
    ultimately show ?case by blast
  next
    case (reloaded es c' raw c'')
    then show ?case using reload_ordered(1) [OF assms(1) reloaded.hyps(2-4)] by simp
  qed (simp add: start opened_def has_continued_def)
  then show ?thesis using implied by auto
qed

section \<open>The sealed form\<close>

text \<open>C32: The sealed form. The bytes a cursor is sealed as read back as that cursor, with the members of its values in order,
  for its own binding and are refused for any other; and the cursor read back is sealed as the same bytes.\<close>

theorem cursor_codec:
  assumes "reads_back read fl" "cursor_values fl c" "encode c = Inr raw"
  shows "decode_cursor read raw binding = (if binding = c_binding c then Inr (ordered_cursor c) else Inl ''cursor-invalid'') \<and>
    encode (ordered_cursor c) = Inr raw"
proof -
  have self: "decode_cursor read raw (c_binding c) = Inr (ordered_cursor c)" by (rule decode_encoded [OF assms])
  then obtain v c1 where v: "parse read raw = Inr v" "has_fields v CURSOR_FIELDS" "get v ''version'' = Some (int_value CURSOR_VERSION)"
    "read_cursor v = Some c1" "checked c1 = Inr (ordered_cursor c)"
    by (auto simp: decode_cursor_def split: sum.splits if_splits option.splits)
  then have c1: "c1 = ordered_cursor c" using checked_eq by auto
  have "decode_cursor read raw binding = Inl ''cursor-invalid''" if "binding \<noteq> c_binding c"
    using v that by (simp add: decode_cursor_def c1)
  moreover have "encode (ordered_cursor c) = Inr raw"
    using reload_ordered(2) [OF assms self] assms(3) document_ordered [of c]
    by (auto simp: encode_def rbind_eq_Inr dest!: checked_eq)
  ultimately show ?thesis using self by simp
qed

end
