(* ===== verification/Cursor_Example.thy ===== *)
theory Cursor_Example
  imports Cursor_Properties
begin

text \<open>A plan of two steps, the second taking a value from the first, and a run of it with a lost attempt and a restart: the
  concrete inputs the witnesses apply the plan and cursor theorems to.\<close>

definition example_pin :: string where "example_pin = ''sha256:'' @ replicate 64 (CHR ''b'')"

definition example_host :: plan_host where
  "example_host = \<lparr>ph_zones = example_zones, ph_sha = (\<lambda>_. replicate 64 (CHR ''a'')), ph_clock = (\<lambda>_ _ _. None),
     ph_clock_ok = (\<lambda>_. False), ph_credential = (\<lambda>s. s = ''ghp''), ph_walker = \<lparr>wk_lower = (\<lambda>s. s), wk_matches = (\<lambda>_ _ _. Some False)\<rparr>,
     ph_validate = (\<lambda>_ v. is_object v)\<rparr>"

definition example_schema :: json where
  "example_schema = Object [(''type'', Str ''object''), (''properties'', Object [(''key'', Object [(''type'', Str ''string'')])]),
     (''required'', Array [Str ''key''])]"

definition example_contracts :: contracts where
  "example_contracts an = (if an = (''files'', ''find'') \<or> an = (''files'', ''open'') then
     Some \<lparr>ct_pin = example_pin, ct_input_schema = example_schema, ct_input_files = [], ct_output_schema = Null,
       ct_read_only = True, ct_stored_inputs = []\<rparr> else None)"

definition example_source :: json where
  "example_source = Object [(''kind'', Str ''step_output''), (''step'', Str ''find''), (''pointer'', Str ''/id'')]"

definition example_document :: json where
  "example_document = Object [(''version'', int_value 4), (''timezone'', Str ''UTC''),
     (''steps'', Array
       [Object [(''id'', Str ''find''), (''assistant'', Str ''files''), (''action'', Str ''find''), (''pin'', Str example_pin),
          (''input'', Object [(''key'', Object [(''kind'', Str ''literal''), (''value'', Str ''report'')])])],
        Object [(''id'', Str ''open''), (''assistant'', Str ''files''), (''action'', Str ''open''), (''pin'', Str example_pin),
          (''input'', Object [(''key'', example_source)])]]),
     (''output'', Object [(''mode'', Str ''none''), (''step'', Null)])]"

definition example_plan :: plan where
  "example_plan = \<lparr>pl_timezone = ''UTC'', pl_steps =
     [\<lparr>ps_id = ''find'', ps_assistant = ''files'', ps_action = ''find'', ps_pin = example_pin,
        ps_inputs = [(''key'', Object [(''kind'', Str ''literal''), (''value'', Str ''report'')])],
        ps_output_schema = Null, ps_input_schema = example_schema\<rparr>,
      \<lparr>ps_id = ''open'', ps_assistant = ''files'', ps_action = ''open'', ps_pin = example_pin,
        ps_inputs = [(''key'', example_source)], ps_output_schema = Null, ps_input_schema = example_schema\<rparr>],
     pl_digest = ''sha256:'' @ replicate 64 (CHR ''a''), pl_output = Object [(''mode'', Str ''none''), (''step'', Null)]\<rparr>"

definition short :: "nat \<Rightarrow> 'a list \<Rightarrow> bool" where
  "short n xs \<longleftrightarrow> length xs \<le> n"

lemma example_short: "short 600 (canonical example_document)"
  by code_simp

lemma example_parts: "document_parts example_host example_document =
   Inr (''UTC'', elements (at example_document ''steps''), at example_document ''output'', canonical example_document)"
proof -
  have "has_fields example_document [''version'', ''timezone'', ''steps'', ''output'']" by code_simp
  moreover have "get example_document ''version'' = Some (Number (Int64 PLAN_VERSION))" by code_simp
  moreover have "\<not> length (canonical example_document) > MAX_PLAN_BYTES"
    using example_short by (simp add: short_def MAX_PLAN_BYTES_def)
  moreover have "is_ok (zone (ph_zones example_host) (at example_document ''timezone''))" by code_simp
  moreover have "or_empty (as_str (at example_document ''timezone'')) = ''UTC''" by code_simp
  ultimately show ?thesis by (simp add: document_parts_def) (simp add: example_document_def MAX_STEPS_def)
qed

lemma example_steps: "admit_steps example_host example_contracts [] (elements (at example_document ''steps'')) = Inr (pl_steps example_plan)"
  by code_simp

lemma example_output: "check_output (at example_document ''output'') (map ps_id (pl_steps example_plan)) = Inr ()"
  by code_simp

lemma example_admitted: "admit example_host example_document example_contracts = Inr example_plan"
  by (simp add: admit_def example_parts example_steps example_output)
    (simp add: example_plan_def example_host_def example_document_def)

section \<open>A run of it\<close>

definition example_binding :: binding where
  "example_binding = \<lparr>bn_incarnation = replicate 64 (CHR ''c''), bn_routine = replicate 32 (CHR ''d''), bn_revision = 1,
     bn_run = replicate 32 (CHR ''e'')\<rparr>"

definition example_operation :: string where "example_operation = ''12345678-1234-4234-8234-123456789abc''"
definition example_commitment :: string where "example_commitment = replicate 64 (CHR ''f'')"

definition example_cursor :: "nat \<Rightarrow> cursor" where
  "example_cursor n = \<lparr>c_binding = example_binding, c_plan = pl_digest example_plan, c_started = 1000,
     c_step = (if n = 4 then 1 else 0), c_operation = (if n \<in> {0, 4} then None else Some example_operation),
     c_attempts = (if n \<in> {0, 4} then 0 else if n = 3 then 2 else 1),
     c_commitment = (if n \<in> {0, 4} then None else Some example_commitment),
     c_selected = (if n = 4 then [(''find'', ''/id'', [], [], Str ''r7'')] else []), c_episode = Closed, c_absent = False,
     c_fault = (if n = 2 then ''transport'' else []), c_workload = (if n \<in> {0, 4} then [] else ''w1''),
     c_dispatched = (if n \<in> {0, 4} then 0 else if n = 3 then 1009 else 1005), c_shown = None,
     c_boot = replicate 32 (CHR ''0''), c_lost = False\<rparr>"

lemma cursor_shape_mono: "cursor_shape c n \<Longrightarrow> n \<le> m \<Longrightarrow> cursor_shape c m"
  by (auto simp: cursor_shape_def selections_valid_def)

lemma checked_short: "cursor_shape c 900 \<and> short 900 (canonical (document c)) \<Longrightarrow> checked c = Inr c"
  using cursor_shape_mono [of c 900 MAX_RETAINED_BYTES]
  by (auto simp: checked_def checked_within_def short_def MAX_RETAINED_BYTES_def MAX_CURSOR_BYTES_def)

lemma example_checked_0: "checked (example_cursor 0) = Inr (example_cursor 0)"
  by (rule checked_short) code_simp

lemma example_checked_1: "checked (example_cursor 1) = Inr (example_cursor 1)"
  by (rule checked_short) code_simp

lemma example_checked_2: "checked (example_cursor 2) = Inr (example_cursor 2)"
  by (rule checked_short) code_simp

lemma example_checked_3: "checked (example_cursor 3) = Inr (example_cursor 3)"
  by (rule checked_short) code_simp

lemma example_checked_4: "checked (example_cursor 4) = Inr (example_cursor 4)"
  by (rule checked_short) code_simp

lemmas example_checked = example_checked_0 example_checked_1 example_checked_2 example_checked_3 example_checked_4

lemma example_start: "start_cursor example_plan example_binding 1000 (replicate 32 (CHR ''0'')) = Inr (example_cursor 0)"
  using example_checked(1) by (simp add: start_cursor_def) (simp add: example_cursor_def)


definition example_events :: "cursor_event list" where
  "example_events = [Dispatched example_operation example_commitment ''w1'' 1005, Attempt_failed ''transport'',
     Dispatched example_operation example_commitment ''w1'' 1009]"

definition example_result :: json where "example_result = Object [(''id'', Str ''r7''), (''size'', int_value 3)]"

lemma example_applied_1: "cursor_apply example_reader example_plan (Dispatched example_operation example_commitment ''w1'' 1005)
    (example_cursor 0) = Inr (example_cursor 1)"
proof -
  have "cursor_same_plan (example_cursor 0) example_plan = Inr ()" "\<not> cursor_done (example_cursor 0) example_plan"
    "operation_id_re example_operation" "sha256_re example_commitment" by code_simp+
  moreover have "(example_cursor 0)\<lparr>c_operation := Some example_operation, c_attempts := c_attempts (example_cursor 0) + 1,
     c_commitment := Some example_commitment, c_fault := [], c_workload := ''w1'', c_dispatched := 1005\<rparr> = example_cursor 1"
    "c_operation (example_cursor 0) = None" by (simp_all add: example_cursor_def)
  ultimately show ?thesis using example_checked(2) by (simp add: dispatch_step_def)
qed

lemma example_applied_2: "cursor_apply example_reader example_plan (Attempt_failed ''transport'') (example_cursor 1) = Inr (example_cursor 2)"
proof -
  have "(example_cursor 1)\<lparr>c_fault := ''transport''\<rparr> = example_cursor 2" "c_operation (example_cursor 1) \<noteq> None"
    by (simp_all add: example_cursor_def)
  then show ?thesis using example_checked(3) by (simp add: failed_def FAULTS_def)
qed

lemma example_applied_3: "cursor_apply example_reader example_plan (Dispatched example_operation example_commitment ''w1'' 1009)
    (example_cursor 2) = Inr (example_cursor 3)"
proof -
  have "cursor_same_plan (example_cursor 2) example_plan = Inr ()" "\<not> cursor_done (example_cursor 2) example_plan"
    "operation_id_re example_operation" "sha256_re example_commitment" by code_simp+
  moreover have "(example_cursor 2)\<lparr>c_operation := Some example_operation, c_attempts := c_attempts (example_cursor 2) + 1,
     c_commitment := Some example_commitment, c_fault := [], c_workload := ''w1'', c_dispatched := 1009\<rparr> = example_cursor 3"
    "c_operation (example_cursor 2) = Some example_operation" "c_commitment (example_cursor 2) = Some example_commitment"
    by (simp_all add: example_cursor_def)
  ultimately show ?thesis using example_checked(4) by (simp add: dispatch_step_def)
qed

lemma example_applied_4: "cursor_apply example_reader example_plan (Completed example_result None) (example_cursor 3) = Inr (example_cursor 4)"
proof -
  have "cursor_same_plan (example_cursor 3) example_plan = Inr ()" "\<not> cursor_done (example_cursor 3) example_plan"
    "\<not> length (pl_steps example_plan) \<le> c_step (example_cursor 3)" "ps_id (pl_steps example_plan ! c_step (example_cursor 3)) = ''find''"
    "selections example_reader example_plan ''find'' example_result = Inr [((''/id'', [], []), Str ''r7'')]"
    "shown_matches (example_cursor 3) example_plan ''find'' None" by code_simp+
  moreover have "(example_cursor 3)\<lparr>c_selected := c_selected (example_cursor 3) @ [(''find'', ''/id'', [], [], Str ''r7'')],
     c_step := c_step (example_cursor 3) + 1, c_operation := None, c_attempts := 0, c_commitment := None, c_absent := False,
     c_episode := uncarried (c_episode (example_cursor 3)), c_fault := [], c_workload := [], c_dispatched := 0, c_shown := None\<rparr> = example_cursor 4"
    "c_operation (example_cursor 3) \<noteq> None" by (simp_all add: example_cursor_def uncarried_def)
  ultimately show ?thesis using example_checked(5) by (simp add: complete_step_def Let_def)
qed

lemma example_retried: "cursor_trace example_reader example_float example_plan (example_cursor 0) example_events (example_cursor 3)"
  using cursor_trace.applied [OF cursor_trace.applied [OF cursor_trace.applied [OF cursor_trace.stopped
    example_applied_1] example_applied_2] example_applied_3] by (simp add: example_events_def)

lemma example_first_step: "cursor_trace example_reader example_float example_plan (example_cursor 0)
    (example_events @ [Completed example_result None]) (example_cursor 4)"
  by (rule cursor_trace.applied [OF example_retried example_applied_4])

lemma example_values: "cursor_values example_float (example_cursor 4)"
  by code_simp

section \<open>Witnesses\<close>

theorem admitted_plan_closed_witness:
  "well_formed example_host example_document \<and> plan_closed example_plan \<and> list_all (step_admitted example_host example_contracts) (pl_steps example_plan)"
  using admitted_plan_closed [OF example_admitted] by blast

theorem one_operation_per_step_witness:
  "cursor_trace example_reader example_float example_plan (example_cursor 0) example_events (example_cursor 3) \<and>
   example_commitment = example_commitment \<and>
   (\<forall>c. \<not> cursor_trace example_reader example_float example_plan (example_cursor 0)
     (example_events @ [Dispatched example_operation (replicate 64 (CHR ''0'')) ''w1'' 1010]) c)"
proof (intro conjI allI notI)
  show "cursor_trace example_reader example_float example_plan (example_cursor 0) example_events (example_cursor 3)"
    by (rule example_retried)
  then have "cursor_trace example_reader example_float example_plan (example_cursor 0)
     ([] @ Dispatched example_operation example_commitment ''w1'' 1005 # [Attempt_failed ''transport''] @
       [Dispatched example_operation example_commitment ''w1'' 1009]) (example_cursor 3)"
    by (simp add: example_events_def)
  from one_operation_per_step [OF example_reads(1) this] show "example_commitment = example_commitment" by simp
  fix c assume "cursor_trace example_reader example_float example_plan (example_cursor 0)
     (example_events @ [Dispatched example_operation (replicate 64 (CHR ''0'')) ''w1'' 1010]) c"
  then have "cursor_trace example_reader example_float example_plan (example_cursor 0)
     ([Dispatched example_operation example_commitment ''w1'' 1005, Attempt_failed ''transport''] @
       Dispatched example_operation example_commitment ''w1'' 1009 # [] @
       [Dispatched example_operation (replicate 64 (CHR ''0'')) ''w1'' 1010]) c"
    by (simp add: example_events_def)
  from one_operation_per_step [OF example_reads(1) this] show False by (simp add: example_commitment_def numeral_eq_Suc)
qed

theorem cursor_invariant_witness:
  "tracks example_reader example_plan [example_result] (example_cursor 4) \<and> c_binding (example_cursor 4) = example_binding"
  using cursor_invariant [OF example_reads(1) _ example_start example_first_step] admit_closed [OF example_admitted]
  by (simp add: example_events_def results_def)

theorem cursor_inputs_available_witness:
  "\<exists>j v w. j < c_step (example_cursor 4) \<and> as_str (at example_source ''step'') = Some (ps_id (pl_steps example_plan ! j)) \<and>
    selected_value example_reader (results (example_events @ [Completed example_result None]) ! j) (snd (selector example_source)) = Inr w \<and>
    resolve_source example_zones (\<lambda>_ _ _. None) example_plan (cursor_selections (example_cursor 4)) 1000 example_source = Inr v \<and>
    ordered v = ordered w"
proof -
  have "\<not> cursor_done (example_cursor 4) example_plan"
    "(''key'', example_source) \<in> set (ps_inputs (pl_steps example_plan ! c_step (example_cursor 4)))" "step_output example_source"
    by code_simp+
  then show ?thesis by (rule cursor_inputs_available [OF example_reads(1) example_admitted example_start example_first_step])
qed

theorem recovery_spent_once_witness:
  "count_list (example_events @ [Completed example_result None]) Retried = 0 \<and>
   length (results (example_events @ [Completed example_result None])) \<le> length (filter is_dispatched (example_events @ [Completed example_result None]))"
  using recovery_spent_once [OF example_reads(1) example_start example_first_step] by (simp add: example_events_def)

theorem cursor_codec_witness:
  "decode_cursor example_reader (canonical (document (example_cursor 4))) example_binding = Inr (ordered_cursor (example_cursor 4))"
proof -
  have "encode (example_cursor 4) = Inr (canonical (document (example_cursor 4)))" by (simp add: encode_def example_checked)
  from cursor_codec [OF example_reads(1) example_values this, of example_binding] show ?thesis by (simp add: example_cursor_def)
qed

end
