(* ===== verification/File_Store.thy ===== *)
theory File_Store
  imports Text_Patterns
begin

text \<open>
  Team-held files: the custody a file or directory must have and the strict read (\<^verbatim>\<open>storage/src/custody.rs\<close>), durable
  replacement and private directories (\<^verbatim>\<open>storage/src/durable.rs\<close>).

  \<open>disk\<close> is the file system under one process: a map from resolved paths to entries, every earlier content of that map
  (the states a crash can leave behind), the process's ids, its random source, and the operating system's answers to come.
  A system call takes the next answer; it may be refused at any point, a write after any number of bytes, and an entry
  may change under a reader. Without an answer left every call works. What a file system does after power loss with data
  that was never synchronised is outside the model, so \<open>sync_all\<close> only may fail.
\<close>

unbundle bit_operations_syntax

section \<open>Entries\<close>

type_synonym path = "string list"

datatype entry_kind = Regular | Dir | Link | Socket | Special

record node =
  n_kind :: entry_kind
  n_links :: nat
  n_uid :: nat
  n_gid :: nat
  n_permissions :: nat
  n_bytes :: string

type_synonym files = "path \<Rightarrow> node option"

datatype kind = File | Directory | Other

record facts =
  f_kind :: kind
  f_links :: nat
  f_uid :: nat
  f_gid :: nat
  f_permissions :: nat
  f_size :: nat

definition facts_of :: "node \<Rightarrow> facts" where
  "facts_of n = \<lparr>f_kind = (case n_kind n of Regular \<Rightarrow> File | Dir \<Rightarrow> Directory | _ \<Rightarrow> Other), f_links = n_links n, f_uid = n_uid n,
     f_gid = n_gid n, f_permissions = n_permissions n, f_size = length (n_bytes n)\<rparr>"

section \<open>Custody\<close>

datatype mode = Any_mode | Exact nat | Owner_only

text \<open>\<open>Owner_only\<close>: the low six bits are clear.\<close>

fun mode_holds :: "mode \<Rightarrow> nat \<Rightarrow> bool" where
  "mode_holds Any_mode permissions \<longleftrightarrow> True"
| "mode_holds (Exact bits) permissions \<longleftrightarrow> permissions = bits"
| "mode_holds Owner_only permissions \<longleftrightarrow> permissions mod 64 = 0"

record file_custody =
  fc_uid :: "nat option"
  fc_gid :: "nat option"
  fc_mode :: mode
  fc_size :: "(nat \<times> nat) option"

definition none_or :: "'a option \<Rightarrow> ('a \<Rightarrow> bool) \<Rightarrow> bool" where
  "none_or m p \<longleftrightarrow> (case m of None \<Rightarrow> True | Some x \<Rightarrow> p x)"

definition file_holds :: "file_custody \<Rightarrow> facts \<Rightarrow> bool" where
  "file_holds c f \<longleftrightarrow> f_kind f = File \<and> f_links f = 1 \<and> none_or (fc_uid c) (\<lambda>uid. f_uid f = uid) \<and>
     none_or (fc_gid c) (\<lambda>gid. f_gid f = gid) \<and> mode_holds (fc_mode c) (f_permissions f) \<and>
     none_or (fc_size c) (\<lambda>(minimum, maximum). minimum \<le> f_size f \<and> f_size f \<le> maximum)"

record directory_custody =
  dc_uid :: "nat option"
  dc_gid :: "nat option"
  dc_mode :: mode

definition directory_holds :: "directory_custody \<Rightarrow> facts \<Rightarrow> bool" where
  "directory_holds c f \<longleftrightarrow> f_kind f = Directory \<and> none_or (dc_uid c) (\<lambda>uid. f_uid f = uid) \<and>
     none_or (dc_gid c) (\<lambda>gid. f_gid f = gid) \<and> mode_holds (dc_mode c) (f_permissions f)"

section \<open>The disk\<close>

datatype answer = Works | Refuses nat | Races

record disk =
  d_files :: files
  d_past :: "files list"
  d_answers :: "answer list"
  d_entropy :: entropy
  d_uid :: nat
  d_gid :: nat
  d_umask :: nat

type_synonym ('e, 'a) call = "disk \<Rightarrow> ('e + 'a) \<times> disk"

definition andthen :: "('e, 'a) call \<Rightarrow> ('a \<Rightarrow> ('e, 'b) call) \<Rightarrow> ('e, 'b) call" where
  "andthen m f d = (case m d of (Inl e, d') \<Rightarrow> (Inl e, d') | (Inr x, d') \<Rightarrow> f x d')"

definition answered :: "'a \<Rightarrow> ('e, 'a) call" where "answered x d = (Inr x, d)"
definition failing :: "'e \<Rightarrow> ('e, 'a) call" where "failing e d = (Inl e, d)"

definition map_err :: "('e \<Rightarrow> 'g) \<Rightarrow> ('e, 'a) call \<Rightarrow> ('g, 'a) call" where
  "map_err f m d = (case m d of (Inl e, d') \<Rightarrow> (Inl (f e), d') | (Inr x, d') \<Rightarrow> (Inr x, d'))"

definition next_answer :: "('e, answer) call" where
  "next_answer d = (case d_answers d of [] \<Rightarrow> (Inr Works, d) | a # rest \<Rightarrow> (Inr a, d\<lparr>d_answers := rest\<rparr>))"

text \<open>A call that only may be refused.\<close>

definition permitted_call :: "'e \<Rightarrow> ('e, unit) call" where
  "permitted_call e = andthen next_answer (\<lambda>a. if a = Works then answered () else failing e)"

definition current :: "('e, files) call" where "current d = (Inr (d_files d), d)"

definition commit :: "files \<Rightarrow> ('e, unit) call" where
  "commit s d = (Inr (), d\<lparr>d_past := d_files d # d_past d, d_files := s\<rparr>)"

definition current_uid :: "disk \<Rightarrow> nat" where "current_uid d = d_uid d"

definition private_file :: "nat \<Rightarrow> disk \<Rightarrow> file_custody" where
  "private_file maximum d = \<lparr>fc_uid = Some (current_uid d), fc_gid = None, fc_mode = Exact 0x180, fc_size = Some (0, maximum)\<rparr>"

definition private_directory :: "disk \<Rightarrow> directory_custody" where
  "private_directory d = \<lparr>dc_uid = Some (current_uid d), dc_gid = None, dc_mode = Exact 0x1C0\<rparr>"

section \<open>Reading\<close>

datatype os_error = No_entry | Loop | Failed_call

definition facts_at :: "path \<Rightarrow> (os_error, facts option) call" where
  "facts_at p = andthen (permitted_call Failed_call) (\<lambda>_. andthen current (\<lambda>s. answered (map_option facts_of (s p))))"

text \<open>Opening to read, without following a link: a link refuses with \<open>ELOOP\<close>, a socket cannot be opened.\<close>

definition open_read :: "path \<Rightarrow> (os_error, node) call" where
  "open_read p = andthen (permitted_call Failed_call) (\<lambda>_. andthen current (\<lambda>s. case s p of
      None \<Rightarrow> failing No_entry
    | Some n \<Rightarrow> if n_kind n = Link then failing Loop else if n_kind n = Socket then failing Failed_call else answered n))"

datatype custody_error = Unavailable | Unsafe | Too_large | Changed

definition read_bounded :: "node \<Rightarrow> nat \<Rightarrow> (custody_error, string) call" where
  "read_bounded n maximum = andthen (permitted_call Unavailable) (\<lambda>_.
     if length (n_bytes n) > maximum then failing Too_large else answered (n_bytes n))"

text \<open>\<open>snapshot\<close> of an opened entry, without an earlier identity: the second \<open>metadata\<close> shows whether the file changed while it
  was read.\<close>

definition snapshot :: "node \<Rightarrow> file_custody \<Rightarrow> nat \<Rightarrow> (custody_error, string option) call" where
  "snapshot n c maximum = andthen (permitted_call Unavailable) (\<lambda>_.
     if \<not> file_holds c (facts_of n) then failing Unsafe
     else andthen (read_bounded n maximum) (\<lambda>content.
       andthen next_answer (\<lambda>a. case a of
         Works \<Rightarrow> answered (Some content) | Refuses _ \<Rightarrow> failing Unavailable | Races \<Rightarrow> failing Changed)))"

definition read_custody :: "path \<Rightarrow> file_custody \<Rightarrow> nat \<Rightarrow> (custody_error, string option) call" where
  "read_custody p c maximum d = (case open_read p d of
      (Inl No_entry, d') \<Rightarrow> (Inr None, d')
    | (Inl Loop, d') \<Rightarrow> (Inl Unsafe, d')
    | (Inl Failed_call, d') \<Rightarrow> (Inl Unavailable, d')
    | (Inr n, d') \<Rightarrow> snapshot n c maximum d')"

section \<open>Durable replacement\<close>

definition set_entry :: "path \<Rightarrow> node \<Rightarrow> ('e, unit) call" where
  "set_entry p n = andthen current (\<lambda>s. commit (s(p := Some n)))"

definition open_directory :: "path \<Rightarrow> (os_error, unit) call" where
  "open_directory p = andthen (permitted_call Failed_call) (\<lambda>_. andthen current (\<lambda>s. case s p of
      None \<Rightarrow> failing No_entry
    | Some n \<Rightarrow> if n_kind n = Dir then answered () else failing (if n_kind n = Link then Loop else Failed_call)))"

definition fsync_directory :: "path \<Rightarrow> (os_error, unit) call" where
  "fsync_directory p = andthen (open_directory p) (\<lambda>_. permitted_call Failed_call)"

text \<open>The new file: exclusively created, then given its group, its mode, and its bytes.\<close>

definition created :: "disk \<Rightarrow> nat \<Rightarrow> node" where
  "created d bits = \<lparr>n_kind = Regular, n_links = 1, n_uid = d_uid d, n_gid = d_gid d, n_permissions = bits - (bits AND d_umask d), n_bytes = []\<rparr>"

definition group_of :: "disk \<Rightarrow> nat option \<Rightarrow> nat" where
  "group_of d owner_group = (case owner_group of None \<Rightarrow> d_gid d | Some g \<Rightarrow> g)"

definition replacement :: "disk \<Rightarrow> string \<Rightarrow> nat \<Rightarrow> nat option \<Rightarrow> node" where
  "replacement d payload bits owner_group = \<lparr>n_kind = Regular, n_links = 1, n_uid = d_uid d, n_gid = group_of d owner_group,
     n_permissions = bits, n_bytes = payload\<rparr>"

definition write_temporary :: "path \<Rightarrow> string \<Rightarrow> nat \<Rightarrow> nat option \<Rightarrow> (os_error, unit) call" where
  "write_temporary p payload bits owner_group d =
     andthen (permitted_call Failed_call) (\<lambda>_. andthen current (\<lambda>s.
       if s p \<noteq> None then failing Failed_call
       else andthen (set_entry p (created d bits)) (\<lambda>_.
         andthen (case owner_group of None \<Rightarrow> answered () | Some g \<Rightarrow>
           andthen (permitted_call Failed_call) (\<lambda>_. set_entry p ((created d bits)\<lparr>n_gid := g\<rparr>))) (\<lambda>_.
         andthen (permitted_call Failed_call) (\<lambda>_.
         andthen (set_entry p ((replacement d payload bits owner_group)\<lparr>n_bytes := []\<rparr>)) (\<lambda>_.
         andthen next_answer (\<lambda>a. case a of
             Works \<Rightarrow> andthen (set_entry p (replacement d payload bits owner_group)) (\<lambda>_. permitted_call Failed_call)
           | Refuses k \<Rightarrow> andthen (set_entry p ((replacement d payload bits owner_group)\<lparr>n_bytes := take k payload\<rparr>)) (\<lambda>_. failing Failed_call)
           | Races \<Rightarrow> failing Failed_call))))))) d"

definition rename_entry :: "path \<Rightarrow> path \<Rightarrow> (os_error, unit) call" where
  "rename_entry old target = andthen (permitted_call Failed_call) (\<lambda>_. andthen current (\<lambda>s. case s old of
      None \<Rightarrow> failing No_entry
    | Some n \<Rightarrow>
        if (case s target of Some t \<Rightarrow> n_kind t = Dir | None \<Rightarrow> False) then failing Failed_call
        else commit (s(old := None, target := Some n))))"

definition unlink_entry :: "path \<Rightarrow> (os_error, unit) call" where
  "unlink_entry p = andthen (permitted_call Failed_call) (\<lambda>_. andthen current (\<lambda>s. case s p of
      None \<Rightarrow> failing No_entry
    | Some n \<Rightarrow> if n_kind n = Dir then failing Failed_call else commit (s(p := None))))"

definition temporary_name :: "string \<Rightarrow> string \<Rightarrow> string" where
  "temporary_name name suffix = ''.'' @ name @ ''.'' @ suffix @ ''.tmp''"

definition replace_in_directory :: "path \<Rightarrow> string \<Rightarrow> string \<Rightarrow> nat \<Rightarrow> nat option \<Rightarrow> (os_error, unit) call" where
  "replace_in_directory directory name payload bits owner_group d =
     (case token_hex (d_entropy d) 8 of
        None \<Rightarrow> (Inl Failed_call, d)
      | Some (suffix, rest) \<Rightarrow>
          let temporary = directory @ [temporary_name name suffix];
              (written, d') = andthen (write_temporary temporary payload bits owner_group) (\<lambda>_.
                andthen (rename_entry temporary (directory @ [name])) (\<lambda>_. permitted_call Failed_call)) (d\<lparr>d_entropy := rest\<rparr>)
          in (written, if is_ok written then d' else snd (unlink_entry temporary d')))"

definition replace_file :: "path \<Rightarrow> string \<Rightarrow> nat \<Rightarrow> nat option \<Rightarrow> (os_error, unit) call" where
  "replace_file p payload bits owner_group =
     (if p = [] then failing Failed_call
      else andthen (open_directory (butlast p)) (\<lambda>_. replace_in_directory (butlast p) (last p) payload bits owner_group))"

section \<open>Directories\<close>

datatype directory_error = Directory_unavailable | Directory_unsafe

text \<open>\<open>DirBuilder\<close>, recursive: missing parents first. A link at the path is accepted when it leads to a directory, which the
  answer says.\<close>

function create_private_directory :: "path \<Rightarrow> (os_error, unit) call" where
  "create_private_directory p =
     (if p = [] then answered ()
      else andthen (permitted_call Failed_call) (\<lambda>_. andthen current (\<lambda>s. case s p of
          Some n \<Rightarrow> if n_kind n = Dir \<or> n_kind n = Link then answered () else failing Failed_call
        | None \<Rightarrow> andthen (create_private_directory (butlast p)) (\<lambda>_ d.
            set_entry p \<lparr>n_kind = Dir, n_links = 2, n_uid = d_uid d, n_gid = d_gid d,
              n_permissions = 0x1C0 - (0x1C0 AND d_umask d), n_bytes = []\<rparr> d))))"
  by auto
termination by (relation "measure length") auto

declare create_private_directory.simps [simp del]

definition ensure_directory :: "path \<Rightarrow> directory_custody \<Rightarrow> (directory_error, unit) call" where
  "ensure_directory p c = andthen (map_err (\<lambda>_. Directory_unavailable) (andthen (create_private_directory p) (\<lambda>_. facts_at p)))
     (\<lambda>found. case found of
        None \<Rightarrow> failing Directory_unavailable
      | Some f \<Rightarrow> if directory_holds c f then answered () else failing Directory_unsafe)"

section \<open>What a call leaves\<close>

text \<open>\<open>within Q m\<close>: every file system the call passes through, and the one it leaves, satisfies \<open>Q\<close> when the one it starts from
  does, whatever the operating system answers; the process's ids stay.\<close>

definition within :: "(files \<Rightarrow> bool) \<Rightarrow> ('e, 'a) call \<Rightarrow> bool" where
  "within Q m \<longleftrightarrow> (\<forall>d r d'. m d = (r, d') \<longrightarrow> Q (d_files d) \<longrightarrow>
     Q (d_files d') \<and> (\<exists>new. d_past d' = new @ d_past d \<and> list_all Q new) \<and>
     d_uid d' = d_uid d \<and> d_gid d' = d_gid d \<and> (d_answers d = [] \<longrightarrow> d_answers d' = []))"

lemma withinD:
  assumes "within Q m" "m d = (r, d')" "Q (d_files d)"
  shows "Q (d_files d')" "\<exists>new. d_past d' = new @ d_past d \<and> list_all Q new" "d_uid d' = d_uid d" "d_gid d' = d_gid d"
    "d_answers d = [] \<Longrightarrow> d_answers d' = []"
  using assms unfolding within_def by blast+

lemma within_andthen: "within Q m \<Longrightarrow> (\<And>x. within Q (f x)) \<Longrightarrow> within Q (andthen m f)"
  unfolding within_def [of Q "andthen m f"]
proof (intro allI impI)
  fix d r d' assume m: "within Q m" and f: "\<And>x. within Q (f x)" and run: "andthen m f d = (r, d')" and Q: "Q (d_files d)"
  obtain r1 d1 where one: "m d = (r1, d1)" by (cases "m d")
  note first = withinD [OF m one Q]
  show "Q (d_files d') \<and> (\<exists>new. d_past d' = new @ d_past d \<and> list_all Q new) \<and> d_uid d' = d_uid d \<and> d_gid d' = d_gid d \<and>
      (d_answers d = [] \<longrightarrow> d_answers d' = [])"
  proof (cases r1)
    case (Inl e)
    then show ?thesis using run first one by (auto simp: andthen_def)
  next
    case (Inr x)
    then have two: "f x d1 = (r, d')" using run one by (simp add: andthen_def)
    note second = withinD [OF f two first(1)]
    obtain n1 n2 where "d_past d1 = n1 @ d_past d" "list_all Q n1" "d_past d' = n2 @ d_past d1" "list_all Q n2"
      using first(2) second(2) by blast
    then have "d_past d' = (n2 @ n1) @ d_past d \<and> list_all Q (n2 @ n1)" by simp
    then show ?thesis using second first by metis
  qed
qed

lemma within_basic [simp]:
  "within Q (answered x)" "within Q (failing e)" "within Q next_answer" "within Q current"
  by (auto simp: within_def answered_def failing_def next_answer_def current_def split: list.splits)

lemma within_permitted [simp]: "within Q (permitted_call e)"
  unfolding permitted_call_def by (rule within_andthen) simp_all

lemma within_commit: "Q s \<Longrightarrow> within Q (commit s)"
  unfolding within_def commit_def by auto

lemma within_current: "(\<And>s. Q s \<Longrightarrow> within Q (f s)) \<Longrightarrow> within Q (andthen current f)"
  unfolding within_def andthen_def current_def by simp

lemma within_set_entry: "(\<And>s. Q s \<Longrightarrow> Q (s(p := Some n))) \<Longrightarrow> within Q (set_entry p n)"
  unfolding set_entry_def by (intro within_current within_commit) blast

lemma within_map_err: "within Q m \<Longrightarrow> within Q (map_err f m)"
  unfolding within_def map_err_def by (auto split: prod.splits sum.splits)

lemma within_dep: "(\<And>d0. within Q (m d0)) \<Longrightarrow> within Q (\<lambda>d. m d d)"
  unfolding within_def by blast

lemma andthen_Inr: "andthen m f d = (Inr y, d') \<longleftrightarrow> (\<exists>x d1. m d = (Inr x, d1) \<and> f x d1 = (Inr y, d'))"
  by (auto simp: andthen_def split: prod.splits sum.splits)

lemma permitted_files: "permitted_call e d = (r, d') \<Longrightarrow> d_files d' = d_files d"
  by (auto simp: permitted_call_def andthen_def next_answer_def answered_def failing_def split: list.splits if_splits)

lemma set_entry_files: "set_entry p n d = (r, d') \<Longrightarrow> d_files d' = (d_files d)(p := Some n)"
  by (auto simp: set_entry_def andthen_def current_def commit_def)

lemma write_temporary_within:
  assumes "\<And>s n. Q s \<Longrightarrow> Q (s(p := Some n))"
  shows "within Q (write_temporary p payload bits owner_group)"
proof -
  have "within Q (\<lambda>d. write_temporary p payload bits owner_group d)"
    unfolding write_temporary_def
    by (rule within_dep, intro within_andthen within_current)
      (auto intro!: within_andthen within_set_entry assms split: option.splits answer.splits)
  then show ?thesis .
qed

lemma write_temporary_ok:
  assumes "write_temporary p payload bits owner_group d = (Inr (), d')"
  shows "d_files d' p = Some (replacement d payload bits owner_group)"
  using assms unfolding write_temporary_def andthen_Inr
  by (auto simp: andthen_Inr failing_def split: if_splits answer.splits dest!: set_entry_files permitted_files)
    (metis answer.exhaust)

section \<open>A replacement is atomic\<close>

definition old_or_new :: "path \<Rightarrow> path \<Rightarrow> node \<Rightarrow> files \<Rightarrow> files \<Rightarrow> bool" where
  "old_or_new target temporary n before s \<longleftrightarrow> (s target = before target \<or> s target = Some n) \<and>
     (\<forall>p. p \<noteq> target \<longrightarrow> p \<noteq> temporary \<longrightarrow> s p = before p)"

lemma rename_within:
  assumes "temporary \<noteq> target"
  shows "within (\<lambda>s. old_or_new target temporary n before s \<and> (s temporary = Some n \<or> s temporary = None \<and> s target = Some n))
    (andthen (rename_entry temporary target) (\<lambda>_. permitted_call Failed_call))"
  unfolding rename_entry_def using assms
  by (intro within_andthen within_current within_permitted)
    (auto intro!: within_commit simp: old_or_new_def split: option.splits)

lemma unlink_within: "temporary \<noteq> target \<Longrightarrow> within (old_or_new target temporary n before) (unlink_entry temporary)"
  unfolding unlink_entry_def
  by (intro within_andthen within_current within_permitted)
    (auto intro!: within_commit simp: old_or_new_def split: option.splits)

lemma temporary_other: "temporary_name name suffix \<noteq> name"
proof -
  have "length (temporary_name name suffix) \<noteq> length name" by (simp add: temporary_name_def)
  then show ?thesis by metis
qed

definition publish :: "path \<Rightarrow> path \<Rightarrow> string \<Rightarrow> nat \<Rightarrow> nat option \<Rightarrow> (os_error, unit) call" where
  "publish temporary target payload bits owner_group = andthen (write_temporary temporary payload bits owner_group) (\<lambda>_.
     andthen (rename_entry temporary target) (\<lambda>_. permitted_call Failed_call))"

definition atomic :: "path \<Rightarrow> path \<Rightarrow> node \<Rightarrow> disk \<Rightarrow> disk \<Rightarrow> bool" where
  "atomic target temporary n d d' \<longleftrightarrow> (\<exists>new. d_past d' = new @ d_past d \<and>
     list_all (old_or_new target temporary n (d_files d)) (d_files d' # new)) \<and> d_uid d' = d_uid d \<and> d_gid d' = d_gid d \<and>
     (d_answers d = [] \<longrightarrow> d_answers d' = [])"

lemma within_atomic:
  assumes "within Q m" "m d1 = (r, d2)" "Q (d_files d1)" "\<And>s. Q s \<Longrightarrow> old_or_new target temporary n (d_files d) s"
    "atomic target temporary n d d1"
  shows "atomic target temporary n d d2"
proof -
  obtain n1 where "d_past d1 = n1 @ d_past d" "list_all (old_or_new target temporary n (d_files d)) n1"
    using assms(5) by (auto simp: atomic_def)
  moreover obtain n2 where "d_past d2 = n2 @ d_past d1" "list_all Q n2" using withinD(2) [OF assms(1-3)] by blast
  moreover have "list_all (old_or_new target temporary n (d_files d)) n2" using calculation(4) assms(4) by (simp add: list_all_iff)
  ultimately show ?thesis
    using withinD(1,3-5) [OF assms(1-3)] assms(4,5) by (auto simp: atomic_def intro!: exI [of _ "n2 @ n1"])
qed

lemma atomic_refl: "d_files d' = d_files d \<Longrightarrow> d_past d' = d_past d \<Longrightarrow> d_uid d' = d_uid d \<Longrightarrow> d_gid d' = d_gid d \<Longrightarrow>
    (d_answers d = [] \<Longrightarrow> d_answers d' = []) \<Longrightarrow> atomic target temporary n d d'"
  by (simp add: atomic_def old_or_new_def)

lemma atomic_files: "atomic target temporary n d d' \<Longrightarrow> old_or_new target temporary n (d_files d) (d_files d')"
  by (auto simp: atomic_def)

lemma publish_atomic:
  assumes tp: "temporary \<noteq> target" and run: "publish temporary target payload bits owner_group d = (r, d')"
  defines "n \<equiv> replacement d payload bits owner_group"
  shows "atomic target temporary n d d'" "is_ok r \<Longrightarrow> d_files d' target = Some n \<and> d_files d' temporary = None"
proof -
  let ?Q = "\<lambda>s. s target = d_files d target \<and> old_or_new target temporary n (d_files d) s"
  obtain w d1 where w: "write_temporary temporary payload bits owner_group d = (w, d1)"
    by (cases "write_temporary temporary payload bits owner_group d")
  have "within ?Q (write_temporary temporary payload bits owner_group)"
    by (rule write_temporary_within) (use tp in \<open>simp add: old_or_new_def\<close>)
  then have first: "atomic target temporary n d d1" using w
    by (rule within_atomic) (simp_all add: old_or_new_def atomic_refl)
  have "atomic target temporary n d d' \<and> (is_ok r \<longrightarrow> d_files d' target = Some n \<and> d_files d' temporary = None)"
  proof (cases w)
    case (Inl e)
    then show ?thesis using first run w by (auto simp: publish_def andthen_def)
  next
    case (Inr u)
    then have new: "d_files d1 temporary = Some n" using write_temporary_ok w by (simp add: n_def)
    have two: "andthen (rename_entry temporary target) (\<lambda>_. permitted_call Failed_call) d1 = (r, d')"
      using run w Inr by (simp add: publish_def andthen_def)
    have "atomic target temporary n d d'"
      by (rule within_atomic [OF rename_within [OF tp, of n "d_files d"] two]) (use first new atomic_files [OF first] in simp_all)
    moreover have "d_files d' target = Some n \<and> d_files d' temporary = None" if ok: "is_ok r"
    proof -
      obtain d3 where "rename_entry temporary target d1 = (Inr (), d3)" "d_files d' = d_files d3"
        using ok two by (cases r) (auto simp: andthen_Inr dest: permitted_files)
      then show ?thesis
        using new tp by (auto simp: rename_entry_def andthen_Inr current_def commit_def failing_def split: if_splits dest!: permitted_files)
    qed
    ultimately show ?thesis by blast
  qed
  then show "atomic target temporary n d d'" "is_ok r \<Longrightarrow> d_files d' target = Some n \<and> d_files d' temporary = None" by blast+
qed

lemma replace_in_directory_atomic:
  assumes run: "replace_in_directory dir name payload bits owner_group d = (r, d')"
  shows "\<exists>suffix. atomic (dir @ [name]) (dir @ [temporary_name name suffix]) (replacement d payload bits owner_group) d d' \<and>
    (is_ok r \<longrightarrow> d_files d' (dir @ [name]) = Some (replacement d payload bits owner_group) \<and>
      d_files d' (dir @ [temporary_name name suffix]) = None)"
proof (cases "token_hex (d_entropy d) 8")
  case None
  then have "d' = d" "r = Inl Failed_call" using run by (auto simp: replace_in_directory_def)
  then show ?thesis using atomic_refl by (intro exI [of _ "[]"]) simp
next
  case (Some st)
  obtain suffix rest where st: "st = (suffix, rest)" by (cases st)
  let ?t = "dir @ [temporary_name name suffix]" and ?p = "dir @ [name]" and ?n = "replacement d payload bits owner_group"
  let ?d0 = "d\<lparr>d_entropy := rest\<rparr>"
  have tp: "?t \<noteq> ?p" using temporary_other by simp
  have same: "replacement ?d0 payload bits owner_group = ?n" by (simp add: replacement_def group_of_def split: option.splits)
  obtain v d2 where d2: "publish ?t ?p payload bits owner_group ?d0 = (v, d2)" by (cases "publish ?t ?p payload bits owner_group ?d0")
  then have body: "r = v" "d' = (if is_ok v then d2 else snd (unlink_entry ?t d2))"
    using run Some st by (auto simp: replace_in_directory_def publish_def)
  note published = publish_atomic [OF tp d2, unfolded same]
  have two: "atomic ?p ?t ?n d d2" using published(1) by (simp add: atomic_def)
  have "atomic ?p ?t ?n d d'"
  proof (cases "is_ok v")
    case False
    then have "unlink_entry ?t d2 = (fst (unlink_entry ?t d2), d')" using body by simp
    then show ?thesis by (rule within_atomic [OF unlink_within [OF tp]]) (use two atomic_files [OF two] in simp_all)
  qed (use two body in simp)
  then show ?thesis using published(2) body by (intro exI [of _ suffix]) auto
qed

lemma open_directory_same: "open_directory p d = (r, d') \<Longrightarrow> d_files d' = d_files d \<and> d_past d' = d_past d \<and> d_uid d' = d_uid d \<and> d_gid d' = d_gid d \<and>
    (d_answers d = [] \<longrightarrow> d_answers d' = [])"
  by (auto simp: open_directory_def andthen_def permitted_call_def next_answer_def current_def answered_def failing_def
      split: list.splits if_splits option.splits)

lemma replacement_same: "d_uid d' = d_uid d \<Longrightarrow> d_gid d' = d_gid d \<Longrightarrow> replacement d' = replacement d"
  by (simp add: replacement_def group_of_def fun_eq_iff split: option.splits)

lemma replace_file_atomic:
  assumes "replace_file (dir @ [name]) payload bits owner_group d = (r, d')"
  shows "\<exists>suffix. atomic (dir @ [name]) (dir @ [temporary_name name suffix]) (replacement d payload bits owner_group) d d' \<and>
    (is_ok r \<longrightarrow> d_files d' (dir @ [name]) = Some (replacement d payload bits owner_group) \<and>
      d_files d' (dir @ [temporary_name name suffix]) = None)"
proof -
  obtain o1 d1 where o: "open_directory dir d = (o1, d1)" by (cases "open_directory dir d")
  note same = open_directory_same [OF o]
  then have rep: "replacement d1 = replacement d" by (intro replacement_same) auto
  show ?thesis
  proof (cases o1)
    case (Inl e)
    then have "d' = d1" "\<not> is_ok r" using assms o by (auto simp: replace_file_def andthen_def)
    then show ?thesis using same atomic_refl by (intro exI [of _ "[]"]) simp
  next
    case (Inr u)
    then have "replace_in_directory dir name payload bits owner_group d1 = (r, d')"
      using assms o by (simp add: replace_file_def andthen_def)
    from replace_in_directory_atomic [OF this] show ?thesis using same unfolding rep atomic_def by metis
  qed
qed

text \<open>C15: A durable replacement is atomic. Whatever the operating system refuses, and at whatever call the process stops, the
  path holds its complete earlier entry or the complete new file with its owner, group, mode and bytes, and no other path
  but one temporary beside it ever changes; when the replacement succeeds, the new file is there and the temporary gone.\<close>

theorem replace_atomic:
  assumes "replace_file (dir @ [name]) payload bits owner_group d = (r, d')"
  shows "\<exists>temporary new. temporary \<noteq> name \<and> d_past d' = new @ d_past d \<and>
    list_all (old_or_new (dir @ [name]) (dir @ [temporary]) (replacement d payload bits owner_group) (d_files d)) (d_files d' # new) \<and>
    (is_ok r \<longrightarrow> d_files d' (dir @ [name]) = Some (replacement d payload bits owner_group) \<and> d_files d' (dir @ [temporary]) = None)"
  using replace_file_atomic [OF assms] temporary_other by (auto simp: atomic_def)

definition example_disk :: "answer list \<Rightarrow> disk" where
  "example_disk answers = \<lparr>d_files = (\<lambda>p.
       if p = [''team''] then Some \<lparr>n_kind = Dir, n_links = 2, n_uid = 7, n_gid = 7, n_permissions = 0x1E8, n_bytes = []\<rparr>
       else if p = [''team'', ''record''] then
         Some \<lparr>n_kind = Regular, n_links = 1, n_uid = 7, n_gid = 7, n_permissions = 0x180, n_bytes = ''old''\<rparr>
       else None),
     d_past = [], d_answers = answers, d_entropy = [Some (replicate 8 0)], d_uid = 7, d_gid = 7, d_umask = 18\<rparr>"

theorem replace_atomic_witness:
  "\<exists>temporary. d_files (snd (replace_file ([''team''] @ [''record'']) ''new'' 0x180 None (example_disk [])))
     ([''team''] @ [temporary]) = None \<and>
   d_files (snd (replace_file ([''team''] @ [''record'']) ''new'' 0x180 None (example_disk []))) ([''team''] @ [''record'']) =
     Some \<lparr>n_kind = Regular, n_links = 1, n_uid = 7, n_gid = 7, n_permissions = 0x180, n_bytes = ''new''\<rparr>"
proof -
  have "is_ok (fst (replace_file ([''team''] @ [''record'']) ''new'' 0x180 None (example_disk [])))" by code_simp
  then show ?thesis
    using replace_atomic [of "[''team'']" "''record''" "''new''" "0x180" None "example_disk []",
        OF prod.collapse [symmetric]]
    by (auto simp: replacement_def group_of_def example_disk_def)
qed

text \<open>An example of the other direction: a refused replacement need not leave the earlier content: when the directory's own synchronisation is refused after the
  rename, the path already holds the new file.\<close>

theorem refused_replacement_may_replace:
  "fst (replace_file [''team'', ''record''] ''new'' 0x180 None (example_disk (replicate 6 Works @ [Refuses 0]))) = Inl Failed_call \<and>
   map_option n_bytes (d_files (snd (replace_file [''team'', ''record''] ''new'' 0x180 None
     (example_disk (replicate 6 Works @ [Refuses 0])))) [''team'', ''record'']) = Some ''new''"
  by code_simp

end
