(* ===== verification/Egress_Policy.thy ===== *)
theory Egress_Policy
  imports File_Store Json_Soundness Schedule
begin

text \<open>
  The egress policy store: the reviewed hosts of an Assistant (\<^verbatim>\<open>egress/src/hosts.rs\<close>) and the token and policy files under
  the shared policy directory (\<^verbatim>\<open>egress/src/policy.rs\<close>), over the files of \<open>File_Store\<close> and the strict parser. SHA-256 and the
  reader of float literals are arguments.
\<close>

section \<open>Hosts\<close>

definition MAX_ALLOWED_HOSTS :: nat where "MAX_ALLOWED_HOSTS = 32"

definition NON_PUBLIC_SUFFIXES :: "string list" where
  "NON_PUBLIC_SUFFIXES = [''.arpa'', ''.example'', ''.home'', ''.internal'', ''.invalid'', ''.lan'', ''.local'', ''.localdomain'',
     ''.localhost'', ''.onion'', ''.test'']"

definition ends_with :: "string \<Rightarrow> string \<Rightarrow> bool" where
  "ends_with s suffix \<longleftrightarrow> length suffix \<le> length s \<and> drop (length s - length suffix) s = suffix"

definition label_holds :: "string \<Rightarrow> bool" where
  "label_holds label \<longleftrightarrow> 1 \<le> length label \<and> length label \<le> 63 \<and>
     (lower (hd label) \<or> digit (hd label)) \<and> (lower (last label) \<or> digit (last label)) \<and>
     list_all (\<lambda>c. lower c \<or> digit c \<or> c = CHR ''-'') label"

definition public_host :: "string \<Rightarrow> bool" where
  "public_host host =
     (if host = [] \<or> length host > 253 \<or> list_ex (ends_with host) NON_PUBLIC_SUFFIXES then False
      else let labels = split_on (CHR ''.'') host; leading = butlast labels; final_label = last labels in
        leading \<noteq> [] \<and> list_all label_holds leading \<and> label_holds final_label \<and> lower (hd final_label))"

fun repeated :: "string list \<Rightarrow> bool" where
  "repeated (a # b # rest) \<longleftrightarrow> a = b \<or> repeated (b # rest)"
| "repeated _ \<longleftrightarrow> False"

definition canonical_allowed_hosts :: "string list \<Rightarrow> string list option" where
  "canonical_allowed_hosts hosts =
     (if length hosts > MAX_ALLOWED_HOSTS then None
      else if \<not> list_all public_host hosts then None
      else if repeated (sort hosts) then None
      else Some (sort hosts))"

definition quoted :: "string \<Rightarrow> string" where
  "quoted host = CHR 0x22 # host @ [CHR 0x22]"

fun encoded_loop :: "nat \<Rightarrow> string list \<Rightarrow> string" where
  "encoded_loop index [] = []"
| "encoded_loop index (host # hosts) = (if index > 0 then '','' else []) @ quoted host @ encoded_loop (Suc index) hosts"

definition encoded_hosts :: "string list \<Rightarrow> string" where
  "encoded_hosts hosts = ''['' @ encoded_loop 0 hosts @ '']''"

section \<open>The policy store\<close>

definition MAX_POLICY_BYTES :: nat where "MAX_POLICY_BYTES = 16 * 1024"
definition TOKEN_FILE_BYTES :: nat where "TOKEN_FILE_BYTES = 33"

datatype policy_error = Policy_unavailable | Drift

record admitted =
  ad_token :: string
  ad_hosts :: "string list"

record policy_store =
  po_root :: path
  po_gid :: nat

definition root_custody :: "policy_store \<Rightarrow> directory_custody" where
  "root_custody store = \<lparr>dc_uid = None, dc_gid = Some (po_gid store), dc_mode = Exact 0x1E8\<rparr>"

definition require_root :: "policy_store \<Rightarrow> (policy_error, path) call" where
  "require_root store = andthen (map_err (\<lambda>_. Policy_unavailable) (facts_at (po_root store))) (\<lambda>found. case found of
      None \<Rightarrow> failing Policy_unavailable
    | Some f \<Rightarrow> if directory_holds (root_custody store) f then answered (po_root store) else failing Drift)"

definition token_directory :: "policy_store \<Rightarrow> (policy_error, path) call" where
  "token_directory store = andthen (require_root store) (\<lambda>root d.
     andthen (map_err (\<lambda>e. case e of Directory_unavailable \<Rightarrow> Policy_unavailable | Directory_unsafe \<Rightarrow> Drift)
       (ensure_directory (root @ [''.tokens'']) (private_directory d))) (\<lambda>_. answered (root @ [''.tokens''])) d)"

definition token_path :: "(string \<Rightarrow> string) \<Rightarrow> policy_store \<Rightarrow> string \<Rightarrow> (policy_error, path) call" where
  "token_path sha store identity =
     (if identity = [] then failing Drift
      else andthen (token_directory store) (\<lambda>directory. answered (directory @ [sha identity @ ''.token''])))"

definition canonical_token :: "string \<Rightarrow> bool" where
  "canonical_token token \<longleftrightarrow> length token = 32 \<and> list_all hex token"

definition token_custody :: "disk \<Rightarrow> file_custody" where
  "token_custody d = \<lparr>fc_uid = Some (current_uid d), fc_gid = None, fc_mode = Exact 0x180,
     fc_size = Some (TOKEN_FILE_BYTES, TOKEN_FILE_BYTES)\<rparr>"

text \<open>\<open>read(...).ok().flatten().ok_or(Drift)\<close>.\<close>

definition read_or_drift :: "path \<Rightarrow> file_custody \<Rightarrow> nat \<Rightarrow> (policy_error, string) call" where
  "read_or_drift p c maximum = andthen (map_err (\<lambda>_. Drift) (read_custody p c maximum)) (\<lambda>raw. case raw of
      None \<Rightarrow> failing Drift | Some bytes \<Rightarrow> answered bytes)"

text \<open>The token must be UTF-8 before it is judged; a text that is not is no canonical token either, and both answer \<open>Drift\<close>.\<close>

definition read_token :: "path \<Rightarrow> (policy_error, string) call" where
  "read_token p d = andthen (read_or_drift p (token_custody d) TOKEN_FILE_BYTES) (\<lambda>raw.
     if raw \<noteq> [] \<and> last raw = CHR 0x0A \<and> canonical_token (butlast raw) then answered (butlast raw) else failing Drift) d"

definition token :: "(string \<Rightarrow> string) \<Rightarrow> policy_store \<Rightarrow> string \<Rightarrow> bool \<Rightarrow> entropy \<Rightarrow> (policy_error, string option) call" where
  "token sha store identity create ent = andthen (token_path sha store identity) (\<lambda>p.
     andthen (map_err (\<lambda>_. Drift) (facts_at p)) (\<lambda>found.
       if found \<noteq> None then andthen (read_token p) (\<lambda>t. answered (Some t))
       else if \<not> create then answered None
       else (case token_hex ent 16 of
           None \<Rightarrow> failing Policy_unavailable
         | Some (fresh, _) \<Rightarrow>
             andthen (map_err (\<lambda>_. Policy_unavailable) (replace_file p (fresh @ [CHR 0x0A]) 0x180 None)) (\<lambda>_.
               andthen (read_token p) (\<lambda>t. answered (Some t))))))"

definition canonical_hosts :: "string list \<Rightarrow> policy_error + string list" where
  "canonical_hosts hosts = (case canonical_allowed_hosts hosts of
      None \<Rightarrow> Inl Drift
    | Some canonical_list \<Rightarrow> if canonical_list \<noteq> [] \<and> canonical_list = hosts then Inr canonical_list else Inl Drift)"

definition policy_custody :: "policy_store \<Rightarrow> disk \<Rightarrow> file_custody" where
  "policy_custody store d = \<lparr>fc_uid = Some (current_uid d), fc_gid = Some (po_gid store), fc_mode = Exact 0x1A0, fc_size = None\<rparr>"

definition policy_file :: "path \<Rightarrow> string \<Rightarrow> path" where
  "policy_file root t = root @ [t @ ''.json'']"

definition write_policy :: "policy_store \<Rightarrow> string \<Rightarrow> string list \<Rightarrow> (policy_error, unit) call" where
  "write_policy store t hosts =
     (if \<not> canonical_token t then failing Drift
      else (case canonical_hosts hosts of
          Inl e \<Rightarrow> failing e
        | Inr canonical_list \<Rightarrow> andthen (require_root store) (\<lambda>root.
            andthen (map_err (\<lambda>_. Policy_unavailable)
              (replace_file (policy_file root t) (encoded_hosts canonical_list) 0x1A0 (Some (po_gid store)))) (\<lambda>_.
            andthen (map_err (\<lambda>_. Policy_unavailable) (facts_at (policy_file root t))) (\<lambda>found. case found of
                None \<Rightarrow> failing Policy_unavailable
              | Some f \<Rightarrow> (\<lambda>d. if file_holds (policy_custody store d) f then answered () d else failing Drift d))))))"

definition hosts_of :: "f64_reader \<Rightarrow> string \<Rightarrow> string list option" where
  "hosts_of read raw = (case parse read raw of
      Inr (Array items) \<Rightarrow> Option.bind (those (map as_str items)) canonical_allowed_hosts
    | _ \<Rightarrow> None)"

definition admitted_policy :: "f64_reader \<Rightarrow> (string \<Rightarrow> string) \<Rightarrow> policy_store \<Rightarrow> string \<Rightarrow> entropy \<Rightarrow> (policy_error, admitted option) call" where
  "admitted_policy read sha store identity ent = andthen (token sha store identity False ent) (\<lambda>found. case found of
      None \<Rightarrow> answered None
    | Some t \<Rightarrow> andthen (require_root store) (\<lambda>root d.
        andthen (read_or_drift (policy_file root t) ((policy_custody store d)\<lparr>fc_size := Some (1, MAX_POLICY_BYTES)\<rparr>) MAX_POLICY_BYTES) (\<lambda>raw.
          case hosts_of read raw of
            None \<Rightarrow> failing Drift
          | Some hosts \<Rightarrow>
              if hosts = [] \<or> raw \<noteq> encoded_hosts hosts then failing Drift
              else answered (Some \<lparr>ad_token = t, ad_hosts = hosts\<rparr>)) d))"

definition validate_admitted :: "admitted option \<Rightarrow> string list \<Rightarrow> policy_error + string" where
  "validate_admitted found hosts = rbind (canonical_hosts hosts) (\<lambda>expected. case found of
      None \<Rightarrow> Inl Drift
    | Some a \<Rightarrow> if ad_hosts a \<noteq> expected then Inl Drift else Inr (ad_token a))"

definition validate :: "f64_reader \<Rightarrow> (string \<Rightarrow> string) \<Rightarrow> policy_store \<Rightarrow> string \<Rightarrow> string list \<Rightarrow> entropy \<Rightarrow> (policy_error, string) call" where
  "validate read sha store identity hosts ent =
     andthen (admitted_policy read sha store identity ent) (\<lambda>found d. (validate_admitted found hosts, d))"

definition remove_file :: "path \<Rightarrow> (policy_error, unit) call" where
  "remove_file p = map_err (\<lambda>_. Policy_unavailable) (unlink_entry p)"

definition remove_policy :: "(string \<Rightarrow> string) \<Rightarrow> policy_store \<Rightarrow> string \<Rightarrow> (policy_error, unit) call" where
  "remove_policy sha store identity = andthen (token_path sha store identity) (\<lambda>p.
     andthen (map_err (\<lambda>_. Policy_unavailable) (facts_at p)) (\<lambda>found.
       if found = None then answered ()
       else andthen (read_token p) (\<lambda>t.
         andthen (require_root store) (\<lambda>root.
         andthen (map_err (\<lambda>_. Policy_unavailable) (facts_at (policy_file root t))) (\<lambda>policy.
         andthen (case policy of
             None \<Rightarrow> answered ()
           | Some f \<Rightarrow> (\<lambda>d. if \<not> file_holds (policy_custody store d) f then failing Drift d
               else remove_file (policy_file root t) d)) (\<lambda>_.
         andthen (remove_file p) (\<lambda>_.
         andthen (map_err (\<lambda>_. Policy_unavailable) (fsync_directory root)) (\<lambda>_.
           map_err (\<lambda>_. Policy_unavailable) (fsync_directory (butlast p))))))))))"

fun environment_loop :: "(string \<times> string) list \<Rightarrow> string list \<Rightarrow> (string \<times> string) list option" where
  "environment_loop environment [] = Some environment"
| "environment_loop environment (item # raw) = (case split_once (CHR ''='') item of
      None \<Rightarrow> None
    | Some (key, v) \<Rightarrow>
        if key = [] \<or> list_ex (\<lambda>(existing, _). existing = key) environment then None
        else environment_loop (environment @ [(key, v)]) raw)"

definition environment_map :: "string list \<Rightarrow> (string \<times> string) list option" where
  "environment_map raw = environment_loop [] raw"

section \<open>Hosts as JSON\<close>

lemma split_on_chars: "x \<in> set s \<Longrightarrow> x = sep \<or> (\<exists>part \<in> set (split_on sep s). x \<in> set part)"
proof (induction s)
  case (Cons a s) then show ?case by (cases "split_on sep s") auto
qed simp

lemma public_host_chars: "public_host host \<Longrightarrow> list_all (\<lambda>c. lower c \<or> digit c \<or> c = CHR ''-'' \<or> c = CHR ''.'') host"
proof -
  assume "public_host host"
  then have labels: "list_all label_holds (butlast (split_on (CHR ''.'') host))" "label_holds (last (split_on (CHR ''.'') host))"
    by (simp_all add: public_host_def Let_def split: if_splits)
  have "label_holds part" if part: "part \<in> set (split_on (CHR ''.'') host)" for part
  proof -
    from part have "part \<in> set (butlast (split_on (CHR ''.'') host)) \<or> part = last (split_on (CHR ''.'') host)"
      by (cases "split_on (CHR ''.'') host" rule: rev_cases) auto
    then show ?thesis using labels by (auto simp: list_all_iff)
  qed
  then have "lower c \<or> digit c \<or> c = CHR ''-'' \<or> c = CHR ''.''" if "c \<in> set host" for c
    using split_on_chars [OF that, of "CHR ''.''"] by (auto simp: label_holds_def list_all_iff)
  then show ?thesis by (simp add: list_all_iff)
qed

lemma host_char: "lower c \<or> digit c \<or> c = CHR ''-'' \<or> c = CHR ''.'' \<Longrightarrow> escape_char c = [c] \<and> ascii c"
proof -
  assume "lower c \<or> digit c \<or> c = CHR ''-'' \<or> c = CHR ''.''"
  then have "of_char c \<in> {45 :: nat, 46} \<union> {48..57} \<union> {97..122}"
    by (auto simp: lower_def digit_def between_def)
  then show ?thesis by (auto simp: escape_char_def Let_def ascii_def)
qed

lemma quoted_host: "public_host host \<Longrightarrow> quoted host = write_string host \<and> utf8 host"
proof -
  assume "public_host host"
  then have "list_all (\<lambda>c. escape_char c = [c] \<and> ascii c) host"
    using public_host_chars [of host] host_char by (simp add: list_all_iff)
  moreover have "list_all (\<lambda>c. escape_char c = [c] \<and> ascii c) s \<Longrightarrow> concat (map escape_char s) = s" for s by (induction s) auto
  ultimately show ?thesis by (auto simp: quoted_def write_string_def list_all_iff intro!: utf8_ascii_text)
qed

lemma encoded_loop_join: "encoded_loop n hosts = (if n > 0 \<and> hosts \<noteq> [] then '','' else []) @ join '','' (map quoted hosts)"
proof (induction hosts arbitrary: n)
  case (Cons h hosts) then show ?case by (cases hosts) auto
qed simp

text \<open>The bytes written for the proxy are the canonical JSON of the list of hosts, so the strict parser reads the list back.\<close>

lemma encoded_canonical: "list_all public_host hosts \<Longrightarrow> encoded_hosts hosts = canonical (Array (map Str hosts))"
proof -
  assume "list_all public_host hosts"
  then have "map quoted hosts = map (canonical \<circ> Str) hosts" using quoted_host by (auto simp: list_all_iff canonical_simps)
  then show ?thesis by (simp only: encoded_hosts_def encoded_loop_join canonical_simps(5) map_map) simp
qed

lemma parse_hosts: "list_all public_host hosts \<Longrightarrow> parse read (encoded_hosts hosts) = Inr (Array (map Str hosts))"
proof -
  assume pub: "list_all public_host hosts"
  have "fold max (map (\<lambda>_. 0 :: nat) hosts) 0 = 0" by (induction hosts) auto
  then have "levels (Array (map Str hosts)) \<le> MAX_DEPTH" by (simp add: MAX_DEPTH_def comp_def levels.simps)
  moreover have "admissible (\<lambda>_ _ _. False) (Array (map Str hosts))" using pub quoted_host by (auto simp: list_all_iff)
  moreover have "reads_back read (\<lambda>_ _ _. False)" by (simp add: reads_back_def)
  moreover have "ordered (Array (map Str hosts)) = Array (map Str hosts)" by simp
  ultimately show ?thesis using parse_canonical encoded_canonical [OF pub] by metis
qed

lemma canonical_hosts_Inr:
  assumes "canonical_hosts hosts = Inr x"
  shows "x = hosts" "hosts \<noteq> []" "canonical_allowed_hosts hosts = Some hosts" "list_all public_host hosts" "length hosts \<le> MAX_ALLOWED_HOSTS"
  using assms by (auto simp: canonical_hosts_def canonical_allowed_hosts_def split: option.splits if_splits)

lemma canonical_hosts_of:
  assumes "canonical_allowed_hosts hosts = Some out" "out \<noteq> []"
  shows "canonical_hosts out = Inr out"
  using assms by (auto simp: canonical_hosts_def canonical_allowed_hosts_def list_all_iff sorted_sort_id split: if_splits)

lemma hosts_of_encoded: "canonical_hosts hosts = Inr hosts \<Longrightarrow> hosts_of read (encoded_hosts hosts) = Some hosts"
proof -
  have "those (map (as_str \<circ> Str) hosts) = Some hosts" by (induction hosts) auto
  moreover assume "canonical_hosts hosts = Inr hosts"
  ultimately show ?thesis using canonical_hosts_Inr(3,4) by (simp add: hosts_of_def parse_hosts)
qed

text \<open>At most 32 hosts of at most 253 bytes stay far under the policy's byte bound.\<close>

lemma encoded_length: "list_all public_host hosts \<Longrightarrow> length (encoded_hosts hosts) \<le> 2 + 256 * length hosts"
proof -
  have loop: "list_all (\<lambda>h. length h \<le> 253) hosts \<Longrightarrow> length (encoded_loop n hosts) \<le> 256 * length hosts" for n
  proof (induction hosts arbitrary: n)
    case (Cons h hosts)
    then have "length (encoded_loop (Suc n) hosts) \<le> 256 * length hosts" "length h \<le> 253" by simp_all
    then show ?case by (cases n) (simp_all add: quoted_def)
  qed simp
  assume "list_all public_host hosts"
  then have "list_all (\<lambda>h. length h \<le> 253) hosts" by (auto simp: list_all_iff public_host_def split: if_splits)
  from loop [OF this, of 0] show ?thesis by (simp add: encoded_hosts_def)
qed

section \<open>Calls that only read\<close>

definition reading :: "('e, 'a) call \<Rightarrow> bool" where
  "reading m \<longleftrightarrow> (\<forall>d r d'. m d = (r, d') \<longrightarrow> d_files d' = d_files d \<and> d_uid d' = d_uid d \<and> (d_answers d = [] \<longrightarrow> d' = d))"

lemma readingD: "reading m \<Longrightarrow> m d = (r, d') \<Longrightarrow> d_files d' = d_files d \<and> d_uid d' = d_uid d"
  "reading m \<Longrightarrow> m d = (r, d') \<Longrightarrow> d_answers d = [] \<Longrightarrow> d' = d"
  unfolding reading_def by blast+

lemma reading_andthen: "reading m \<Longrightarrow> (\<And>x. reading (f x)) \<Longrightarrow> reading (andthen m f)"
  unfolding reading_def andthen_def by (auto split: prod.splits sum.splits) metis+

lemma reading_map_err: "reading m \<Longrightarrow> reading (map_err f m)"
  unfolding reading_def map_err_def by (auto split: prod.splits sum.splits)

lemma reading_basic [simp]: "reading (answered x)" "reading (failing e)" "reading next_answer" "reading current"
  by (auto simp: reading_def answered_def failing_def next_answer_def current_def split: list.splits)

lemma reading_permitted [simp]: "reading (permitted_call e)"
  unfolding permitted_call_def by (rule reading_andthen) simp_all

lemma reading_facts [simp]: "reading (facts_at p)"
  unfolding facts_at_def by (intro reading_andthen) simp_all

lemma reading_dep: "(\<And>d0. reading (m d0)) \<Longrightarrow> reading (\<lambda>d. m d d)"
  unfolding reading_def by blast

lemma reading_open [simp]: "reading (open_read p)"
  unfolding open_read_def by (intro reading_andthen) (simp_all split: option.splits)

lemma reading_snapshot [simp]: "reading (snapshot n c maximum)"
  unfolding snapshot_def read_bounded_def
  by (intro reading_andthen) (auto intro!: reading_andthen split: answer.splits)

lemma reading_custody [simp]: "reading (read_custody p c maximum)"
  unfolding reading_def
proof (intro allI impI)
  fix d r d' assume run: "read_custody p c maximum d = (r, d')"
  obtain o1 d1 where o: "open_read p d = (o1, d1)" by (cases "open_read p d")
  have "d' = d1 \<or> (\<exists>n. snapshot n c maximum d1 = (r, d'))"
    using run o by (auto simp: read_custody_def split: sum.splits os_error.splits)
  then show "d_files d' = d_files d \<and> d_uid d' = d_uid d \<and> (d_answers d = [] \<longrightarrow> d' = d)"
    using readingD [OF reading_open o] readingD [OF reading_snapshot] by metis
qed

lemma reading_or_drift [simp]: "reading (read_or_drift p c maximum)"
  unfolding read_or_drift_def by (intro reading_andthen reading_map_err) (simp_all split: option.splits)

lemma reading_token [simp]: "reading (read_token p)"
  unfolding read_token_def by (rule reading_dep, intro reading_andthen) simp_all

lemma reading_root [simp]: "reading (require_root store)"
  unfolding require_root_def by (intro reading_andthen reading_map_err) (simp_all split: option.splits)

lemma facts_Inr: "facts_at p d = (Inr f, d') \<Longrightarrow> f = map_option facts_of (d_files d p)"
  by (auto simp: facts_at_def andthen_Inr current_def answered_def dest!: permitted_files)

lemma map_err_Inr: "map_err f m d = (Inr x, d') \<longleftrightarrow> m d = (Inr x, d')"
  by (auto simp: map_err_def split: prod.splits sum.splits)

lemma failing_not_Inr [simp]: "failing e d \<noteq> (Inr x, d')"
  by (simp add: failing_def)

lemma answered_Inr [simp]: "answered x d = (Inr y, d') \<longleftrightarrow> y = x \<and> d' = d"
  by (auto simp: answered_def)

lemma andthen_InrE:
  assumes "andthen m f d = (Inr y, d')"
  obtains x d1 where "m d = (Inr x, d1)" "f x d1 = (Inr y, d')"
  using assms by (auto simp: andthen_Inr)

lemma open_Inr: "open_read p d = (Inr n, d') \<Longrightarrow> d_files d p = Some n"
  unfolding open_read_def
proof (elim andthen_InrE)
  fix u d1 s d2 assume p: "permitted_call Failed_call d = (Inr u, d1)" and c: "current d1 = (Inr s, d2)"
    and run: "(case s p of None \<Rightarrow> failing No_entry | Some n \<Rightarrow> if n_kind n = Link then failing Loop
      else if n_kind n = Socket then failing Failed_call else answered n) d2 = (Inr n, d')"
  have "s = d_files d" using permitted_files [OF p] c by (simp add: current_def)
  then show "d_files d p = Some n" using run by (cases "s p") (auto split: if_split_asm)
qed

lemma read_custody_Inr:
  assumes "read_custody p c maximum d = (Inr (Some b), d')"
  shows "\<exists>n. d_files d p = Some n \<and> file_holds c (facts_of n) \<and> n_bytes n = b"
proof -
  obtain o1 d1 where o: "open_read p d = (o1, d1)" by (cases "open_read p d")
  with assms obtain n where n: "o1 = Inr n" "snapshot n c maximum d1 = (Inr (Some b), d')"
    by (auto simp: read_custody_def split: sum.splits os_error.splits)
  have "file_holds c (facts_of n) \<and> n_bytes n = b"
    using n(2) by (auto simp: snapshot_def read_bounded_def andthen_Inr split: if_splits answer.splits) (metis answer.exhaust)+
  then show ?thesis using open_Inr o n(1) by auto
qed

lemma read_or_drift_Inr:
  "read_or_drift p c maximum d = (Inr b, d') \<Longrightarrow> \<exists>n. d_files d p = Some n \<and> file_holds c (facts_of n) \<and> n_bytes n = b"
  unfolding read_or_drift_def
  by (auto simp: andthen_Inr map_err_Inr split: option.splits dest!: read_custody_Inr) 

lemma calm [simp]: "d_answers d = [] \<Longrightarrow> permitted_call e d = (Inr (), d)" "d_answers d = [] \<Longrightarrow> next_answer d = (Inr Works, d)"
  by (simp_all add: permitted_call_def andthen_def next_answer_def answered_def)

lemma calm_facts: "d_answers d = [] \<Longrightarrow> facts_at p d = (Inr (map_option facts_of (d_files d p)), d)"
  by (simp add: facts_at_def andthen_def current_def answered_def)

lemma calm_read:
  assumes "d_answers d = []" "d_files d p = Some n" "file_holds c (facts_of n)" "length (n_bytes n) \<le> maximum"
  shows "read_or_drift p c maximum d = (Inr (n_bytes n), d)"
proof -
  have "n_kind n = Regular" using assms(3) by (auto simp: file_holds_def facts_of_def split: entry_kind.splits)
  then show ?thesis
    using assms by (simp add: read_or_drift_def map_err_def read_custody_def open_read_def snapshot_def read_bounded_def andthen_def
        current_def answered_def)
qed

section \<open>The files of a policy\<close>

definition tokens_of :: "policy_store \<Rightarrow> path" where "tokens_of store = po_root store @ [''.tokens'']"

definition root_at :: "policy_store \<Rightarrow> disk \<Rightarrow> bool" where
  "root_at store d \<longleftrightarrow> (\<exists>n. d_files d (po_root store) = Some n \<and> directory_holds (root_custody store) (facts_of n))"

definition token_at :: "(string \<Rightarrow> string) \<Rightarrow> policy_store \<Rightarrow> string \<Rightarrow> string \<Rightarrow> disk \<Rightarrow> bool" where
  "token_at sha store identity t d \<longleftrightarrow> identity \<noteq> [] \<and> canonical_token t \<and>
     (\<exists>n. d_files d (tokens_of store) = Some n \<and> directory_holds (private_directory d) (facts_of n)) \<and>
     (\<exists>n. d_files d (tokens_of store @ [sha identity @ ''.token'']) = Some n \<and> file_holds (token_custody d) (facts_of n) \<and>
       n_bytes n = t @ [CHR 0x0A])"

definition policy_at :: "policy_store \<Rightarrow> string \<Rightarrow> string list \<Rightarrow> disk \<Rightarrow> bool" where
  "policy_at store t hosts d \<longleftrightarrow> (\<exists>n. d_files d (policy_file (po_root store) t) = Some n \<and>
     file_holds (policy_custody store d) (facts_of n) \<and> n_bytes n = encoded_hosts hosts)"

lemma at_same:
  assumes "d_files d' = d_files d" "d_uid d' = d_uid d"
  shows "root_at store d' = root_at store d" "token_at sha store identity t d' = token_at sha store identity t d"
    "policy_at store t hosts d' = policy_at store t hosts d"
  using assms by (simp_all add: root_at_def token_at_def policy_at_def token_custody_def policy_custody_def private_directory_def current_uid_def)

lemma require_root_Inr: "require_root store d = (Inr root, d') \<Longrightarrow> root = po_root store \<and> root_at store d'"
proof -
  assume run: "require_root store d = (Inr root, d')"
  then obtain found d1 where f: "map_err (\<lambda>_. Policy_unavailable) (facts_at (po_root store)) d = (Inr found, d1)"
    and rest: "(case found of None \<Rightarrow> failing Policy_unavailable
      | Some f \<Rightarrow> if directory_holds (root_custody store) f then answered (po_root store) else failing Drift) d1 = (Inr root, d')"
    unfolding require_root_def by (rule andthen_InrE)
  have "found = map_option facts_of (d_files d (po_root store))" using facts_Inr f by (auto simp: map_err_Inr)
  then show ?thesis
    using rest readingD(1) [OF reading_root run] by (cases "d_files d (po_root store)") (auto simp: root_at_def split: if_split_asm)
qed

lemma calm_root: "d_answers d = [] \<Longrightarrow> root_at store d \<Longrightarrow> require_root store d = (Inr (po_root store), d)"
  by (auto simp: require_root_def root_at_def andthen_def map_err_def calm_facts answered_def)

lemma create_directory_within: "within (\<lambda>_. True) (create_private_directory p)"
proof (induction "length p" arbitrary: p rule: less_induct)
  case less
  let ?made = "\<lambda>d. \<lparr>n_kind = Dir, n_links = 2, n_uid = d_uid d, n_gid = d_gid d,
    n_permissions = 0x1C0 - (0x1C0 AND d_umask d), n_bytes = []\<rparr>"
  have made: "within (\<lambda>_. True) (\<lambda>d. set_entry p (?made d) d)"
    by (rule within_dep, rule within_set_entry) simp
  have body: "within (\<lambda>_. True) (case s p of
          Some n \<Rightarrow> if n_kind n = Dir \<or> n_kind n = Link then answered () else failing Failed_call
        | None \<Rightarrow> andthen (create_private_directory (butlast p)) (\<lambda>_ d. set_entry p (?made d) d))" if "p \<noteq> []" for s
  proof (cases "s p")
    case None
    have "within (\<lambda>_. True) (create_private_directory (butlast p))" by (rule less) (use that in simp)
    from within_andthen [OF this made] show ?thesis using None by simp
  qed simp
  show ?case
  proof (cases "p = []")
    case False
    then show ?thesis
      by (subst create_private_directory.simps) (simp only: if_False, rule within_andthen [OF within_permitted],
        rule within_andthen [OF within_basic(4)], rule body)
  qed (simp add: create_private_directory.simps)
qed

lemma ensure_Inr:
  assumes "ensure_directory p c d = (Inr u, d')"
  shows "d_uid d' = d_uid d" "\<exists>n. d_files d' p = Some n \<and> directory_holds c (facts_of n)"
proof -
  from assms obtain found d2 where "andthen (create_private_directory p) (\<lambda>_. facts_at p) d = (Inr found, d2)"
    and rest: "(case found of None \<Rightarrow> failing Directory_unavailable
      | Some f \<Rightarrow> if directory_holds c f then answered () else failing Directory_unsafe) d2 = (Inr u, d')"
    unfolding ensure_directory_def by (elim andthen_InrE) (simp add: map_err_Inr)
  then obtain v d1 where d1: "create_private_directory p d = (Inr v, d1)" and d2: "facts_at p d1 = (Inr found, d2)"
    by (elim andthen_InrE)
  note same = readingD(1) [OF reading_facts d2]
  have "d' = d2" using rest by (cases found) (auto split: if_split_asm)
  then show "d_uid d' = d_uid d" using withinD(3) [OF create_directory_within d1] same by simp
  show "\<exists>n. d_files d' p = Some n \<and> directory_holds c (facts_of n)"
    using rest facts_Inr [OF d2] same \<open>d' = d2\<close> by (cases "d_files d1 p") (auto split: if_split_asm)
qed

lemma calm_ensure:
  assumes "d_answers d = []" "d_files d p = Some n" "directory_holds c (facts_of n)"
  shows "ensure_directory p c d = (Inr (), d)"
proof -
  have "n_kind n = Dir" using assms(3) by (auto simp: directory_holds_def facts_of_def split: entry_kind.splits)
  then have "create_private_directory p d = (Inr (), d)"
    using assms by (subst create_private_directory.simps) (simp add: andthen_def current_def answered_def)
  then show ?thesis using assms by (simp add: ensure_directory_def map_err_def andthen_def calm_facts answered_def)
qed

lemma token_path_Inr:
  assumes "token_path sha store identity d = (Inr p, d')"
  shows "identity \<noteq> []" "p = tokens_of store @ [sha identity @ ''.token'']"
    "\<exists>n. d_files d' (tokens_of store) = Some n \<and> directory_holds (private_directory d') (facts_of n)"
proof -
  from assms obtain dir where id: "identity \<noteq> []" and td: "token_directory store d = (Inr dir, d')"
    and p: "p = dir @ [sha identity @ ''.token'']"
    by (auto simp: token_path_def andthen_Inr split: if_split_asm)
  from td obtain root d1 where root: "require_root store d = (Inr root, d1)"
    and e: "ensure_directory (root @ [''.tokens'']) (private_directory d1) d1 = (Inr (), d')" and dir: "dir = root @ [''.tokens'']"
    unfolding token_directory_def by (auto simp: andthen_Inr map_err_Inr)
  have "root @ [''.tokens''] = tokens_of store" using require_root_Inr [OF root] by (simp add: tokens_of_def)
  moreover have "private_directory d1 = private_directory d'"
    using ensure_Inr(1) [OF e] by (simp add: private_directory_def current_uid_def)
  ultimately show "identity \<noteq> []" "p = tokens_of store @ [sha identity @ ''.token'']"
    "\<exists>n. d_files d' (tokens_of store) = Some n \<and> directory_holds (private_directory d') (facts_of n)"
    using id p dir ensure_Inr(2) [OF e] by simp_all
qed

lemma calm_token_path:
  assumes "d_answers d = []" "root_at store d" "identity \<noteq> []"
    "d_files d (tokens_of store) = Some n" "directory_holds (private_directory d) (facts_of n)"
  shows "token_path sha store identity d = (Inr (tokens_of store @ [sha identity @ ''.token'']), d)"
  using assms calm_ensure [OF assms(1,4,5)] calm_root [OF assms(1,2)]
  by (simp add: token_path_def token_directory_def andthen_def map_err_def answered_def tokens_of_def)

section \<open>Reading a policy\<close>

lemma read_token_Inr:
  assumes "read_token p d = (Inr t, d')"
  shows "canonical_token t" "\<exists>n. d_files d p = Some n \<and> file_holds (token_custody d) (facts_of n) \<and> n_bytes n = t @ [CHR 0x0A]"
proof -
  from assms obtain raw d1 where raw: "read_or_drift p (token_custody d) TOKEN_FILE_BYTES d = (Inr raw, d1)"
    and ok: "raw \<noteq> []" "last raw = CHR 0x0A" "canonical_token (butlast raw)" "t = butlast raw"
    unfolding read_token_def by (elim andthen_InrE) (auto split: if_split_asm)
  have "raw = t @ [CHR 0x0A]" using ok append_butlast_last_id [of raw] by simp
  then show "canonical_token t" "\<exists>n. d_files d p = Some n \<and> file_holds (token_custody d) (facts_of n) \<and> n_bytes n = t @ [CHR 0x0A]"
    using ok read_or_drift_Inr [OF raw] by simp_all
qed

lemma token_sound:
  assumes "token sha store identity False ent d = (Inr (Some t), d')"
  shows "token_at sha store identity t d'"
proof -
  from assms obtain p d1 found d2 where path: "token_path sha store identity d = (Inr p, d1)"
    and f: "facts_at p d1 = (Inr found, d2)"
    and r: "(if found \<noteq> None then andthen (read_token p) (\<lambda>t. answered (Some t)) else answered None) d2 = (Inr (Some t), d')"
    unfolding token_def by (elim andthen_InrE) (simp add: map_err_Inr cong: if_cong)
  then have r: "read_token p d2 = (Inr t, d')" by (auto simp: andthen_Inr split: if_split_asm)
  have same: "d_files d' = d_files d1" "d_uid d' = d_uid d1" "d_files d' = d_files d2" "d_uid d' = d_uid d2"
    using readingD(1) [OF reading_facts f] readingD(1) [OF reading_token r] by simp_all
  show ?thesis
    using token_path_Inr [OF path] read_token_Inr [OF r] same
    by (simp add: token_at_def token_custody_def private_directory_def current_uid_def)
qed

lemma token_complete:
  assumes "d_answers d = []" "root_at store d" "token_at sha store identity t d"
  shows "token sha store identity False ent d = (Inr (Some t), d)"
proof -
  let ?p = "tokens_of store @ [sha identity @ ''.token'']"
  from assms(3) obtain n m where n: "d_files d (tokens_of store) = Some n" "directory_holds (private_directory d) (facts_of n)"
    and m: "d_files d ?p = Some m" "file_holds (token_custody d) (facts_of m)" "n_bytes m = t @ [CHR 0x0A]"
    and t: "identity \<noteq> []" "canonical_token t"
    by (auto simp: token_at_def)
  have "length (n_bytes m) \<le> TOKEN_FILE_BYTES" using m(3) t(2) by (simp add: canonical_token_def TOKEN_FILE_BYTES_def)
  then have "read_token ?p d = (Inr t, d)"
    using calm_read [OF assms(1) m(1,2)] m(3) t(2) by (simp add: read_token_def andthen_def answered_def)
  then show ?thesis
    using calm_token_path [OF assms(1,2) t(1) n, of sha] m(1)
    by (simp add: token_def andthen_def map_err_def calm_facts [OF assms(1)] answered_def)
qed

lemma hosts_of_Some: "hosts_of read raw = Some hosts \<Longrightarrow> hosts \<noteq> [] \<Longrightarrow> canonical_hosts hosts = Inr hosts"
proof -
  assume "hosts_of read raw = Some hosts" "hosts \<noteq> []"
  moreover then obtain items where "canonical_allowed_hosts items = Some hosts"
    by (auto simp: hosts_of_def Option.bind_eq_Some_conv split: sum.splits json.splits)
  ultimately show ?thesis by (intro canonical_hosts_of) auto
qed

lemma admitted_sound:
  assumes "admitted_policy read sha store identity ent d = (Inr (Some a), d')"
  shows "root_at store d' \<and> token_at sha store identity (ad_token a) d' \<and> policy_at store (ad_token a) (ad_hosts a) d' \<and>
    canonical_hosts (ad_hosts a) = Inr (ad_hosts a)"
proof -
  from assms obtain found d1 where "token sha store identity False ent d = (Inr found, d1)"
    and rest: "(case found of None \<Rightarrow> answered None
    | Some t \<Rightarrow> andthen (require_root store) (\<lambda>root d.
        andthen (read_or_drift (policy_file root t) ((policy_custody store d)\<lparr>fc_size := Some (1, MAX_POLICY_BYTES)\<rparr>) MAX_POLICY_BYTES) (\<lambda>raw.
          case hosts_of read raw of None \<Rightarrow> failing Drift
          | Some hosts \<Rightarrow> if hosts = [] \<or> raw \<noteq> encoded_hosts hosts then failing Drift
              else answered (Some \<lparr>ad_token = t, ad_hosts = hosts\<rparr>)) d)) d1 = (Inr (Some a), d')"
    unfolding admitted_policy_def by (rule andthen_InrE)
  moreover then obtain t where t: "found = Some t" by (cases found) auto
  ultimately have tok: "token_at sha store identity t d1" by (simp add: token_sound)
  from rest t obtain root d2 raw d3 where root: "require_root store d1 = (Inr root, d2)"
    and raw: "read_or_drift (policy_file root t) ((policy_custody store d2)\<lparr>fc_size := Some (1, MAX_POLICY_BYTES)\<rparr>) MAX_POLICY_BYTES d2 = (Inr raw, d3)"
    and last: "(case hosts_of read raw of None \<Rightarrow> failing Drift
          | Some hosts \<Rightarrow> if hosts = [] \<or> raw \<noteq> encoded_hosts hosts then failing Drift
              else answered (Some \<lparr>ad_token = t, ad_hosts = hosts\<rparr>)) d3 = (Inr (Some a), d')"
    by (simp, elim andthen_InrE)
  have hosts: "hosts_of read raw = Some (ad_hosts a)" "ad_hosts a \<noteq> []" "raw = encoded_hosts (ad_hosts a)" "ad_token a = t" "d' = d3"
    using last by (cases "hosts_of read raw"; auto split: if_split_asm)+
  have same: "d_files d2 = d_files d1" "d_uid d2 = d_uid d1" "d_files d' = d_files d2" "d_uid d' = d_uid d2"
    using readingD(1) [OF reading_root root] readingD(1) [OF reading_or_drift raw] hosts(5) by simp_all
  obtain n where n: "d_files d2 (policy_file root t) = Some n"
    "file_holds ((policy_custody store d2)\<lparr>fc_size := Some (1, MAX_POLICY_BYTES)\<rparr>) (facts_of n)" "n_bytes n = raw"
    using read_or_drift_Inr [OF raw] by blast
  have "policy_at store t (ad_hosts a) d2"
    using n hosts(3) require_root_Inr [OF root] by (auto simp: policy_at_def file_holds_def policy_custody_def none_or_def)
  then show ?thesis
    using tok require_root_Inr [OF root] hosts_of_Some [OF hosts(1,2)] hosts(4) same
      at_same(1) [OF same(3,4)] at_same(2) [OF same(1,2)] at_same(2) [OF same(3,4)] at_same(3) [OF same(3,4)] by simp
qed

lemma admitted_complete:
  assumes "d_answers d = []" "root_at store d" "token_at sha store identity t d" "policy_at store t hosts d"
    "canonical_hosts hosts = Inr hosts"
  shows "admitted_policy read sha store identity ent d = (Inr (Some \<lparr>ad_token = t, ad_hosts = hosts\<rparr>), d)"
proof -
  let ?c = "(policy_custody store d)\<lparr>fc_size := Some (1, MAX_POLICY_BYTES)\<rparr>"
  from assms(4) obtain n where n: "d_files d (policy_file (po_root store) t) = Some n"
    "file_holds (policy_custody store d) (facts_of n)" "n_bytes n = encoded_hosts hosts" by (auto simp: policy_at_def)
  note hosts = canonical_hosts_Inr [OF assms(5)]
  have len: "length (n_bytes n) \<le> MAX_POLICY_BYTES" "1 \<le> length (n_bytes n)"
    using encoded_length [OF hosts(4)] hosts(5) n(3) by (simp_all add: MAX_ALLOWED_HOSTS_def MAX_POLICY_BYTES_def encoded_hosts_def)
  then have "file_holds ?c (facts_of n)" using n(2) by (simp add: file_holds_def none_or_def facts_of_def policy_custody_def)
  from calm_read [OF assms(1) n(1) this len(1)] show ?thesis
    using token_complete [OF assms(1-3), of ent] calm_root [OF assms(1,2)] hosts_of_encoded [OF assms(5)] hosts(2) n(3)
    by (simp add: admitted_policy_def andthen_def answered_def)
qed

section \<open>Writing a policy\<close>

lemma token_other: "canonical_token t \<Longrightarrow> temporary_name (t @ ''.json'') suffix \<noteq> ''.tokens'' \<and> t @ ''.json'' \<noteq> ''.tokens''"
proof -
  assume "canonical_token t"
  then have "length (temporary_name (t @ ''.json'') suffix) \<noteq> length ''.tokens''" "length (t @ ''.json'') \<noteq> length ''.tokens''"
    by (simp_all add: canonical_token_def temporary_name_def)
  then show ?thesis by metis
qed

lemma write_policy_sound:
  assumes stored: "write_policy store t hosts d = (Inr (), d')" and tok: "token_at sha store identity t d"
  shows "root_at store d' \<and> token_at sha store identity t d' \<and> policy_at store t hosts d' \<and> canonical_hosts hosts = Inr hosts \<and>
    (d_answers d = [] \<longrightarrow> d_answers d' = [])"
proof -
  let ?p = "policy_file (po_root store) t"
  have t: "canonical_token t" and hosts: "canonical_hosts hosts = Inr hosts"
    using stored canonical_hosts_Inr(1) by (auto simp: write_policy_def split: if_split_asm sum.split_asm)
  from stored t hosts obtain root d1 d2 found d3 where root: "require_root store d = (Inr root, d1)"
    and rep: "replace_file (policy_file root t) (encoded_hosts hosts) 0x1A0 (Some (po_gid store)) d1 = (Inr (), d2)"
    and f: "facts_at (policy_file root t) d2 = (Inr found, d3)" and last: "(case found of None \<Rightarrow> failing Policy_unavailable
              | Some f \<Rightarrow> (\<lambda>d. if file_holds (policy_custody store d) f then answered () d else failing Drift d)) d3 = (Inr (), d')"
    unfolding write_policy_def by (simp, elim andthen_InrE) (simp add: map_err_Inr)
  have rt: "root = po_root store" "root_at store d1" using require_root_Inr [OF root] by simp_all
  note first = readingD [OF reading_root root]
  have tok1: "token_at sha store identity t d1" using tok at_same(2) [of d1 d] first(1) by simp
  have "replace_file (po_root store @ [t @ ''.json'']) (encoded_hosts hosts) 0x1A0 (Some (po_gid store)) d1 = (Inr (), d2)"
    using rep by (simp add: policy_file_def rt)
  from replace_file_atomic [OF this] obtain suffix where
    whole_file: "atomic ?p (po_root store @ [temporary_name (t @ ''.json'') suffix]) (replacement d1 (encoded_hosts hosts) 0x1A0 (Some (po_gid store))) d1 d2"
    and new: "d_files d2 ?p = Some (replacement d1 (encoded_hosts hosts) 0x1A0 (Some (po_gid store)))"
    by (auto simp: policy_file_def)
  have uid: "d_uid d2 = d_uid d1" "d_answers d1 = [] \<Longrightarrow> d_answers d2 = []" using whole_file by (auto simp: atomic_def)
  have other: "d_files d2 q = d_files d1 q" if "q \<noteq> ?p" "q \<noteq> po_root store @ [temporary_name (t @ ''.json'') suffix]" for q
    using atomic_files [OF whole_file] that by (simp add: old_or_new_def)
  have "d_files d2 (po_root store) = d_files d1 (po_root store)" "d_files d2 (tokens_of store) = d_files d1 (tokens_of store)"
    "d_files d2 (tokens_of store @ [x]) = d_files d1 (tokens_of store @ [x])" for x
    using token_other [OF t, of suffix] by (auto intro!: other simp: policy_file_def tokens_of_def)
  then have "root_at store d2" "token_at sha store identity t d2"
    using rt(2) tok1 uid(1) by (simp_all add: root_at_def token_at_def token_custody_def private_directory_def current_uid_def)
  moreover have "policy_at store t hosts d2"
    using new uid(1) by (simp add: policy_at_def replacement_def group_of_def file_holds_def facts_of_def policy_custody_def none_or_def current_uid_def)
  moreover have "d' = d3" using last by (cases found) (auto split: if_split_asm)
  moreover note second = readingD [OF reading_facts f]
  ultimately show ?thesis
    using at_same [of d3 d2] second hosts first(2) uid(2) by auto
qed

section \<open>What a validated policy is\<close>

text \<open>C14: Validation is exact. Whatever state the store's files are in and whatever the operating system refuses, a token
  is only answered for an identity whose token file and policy file are single-link files in their exact custody, whose
  policy bytes are exactly the canonical encoding of the reviewed hosts, and the reviewed hosts are a sorted list of
  distinct public names: no drifted, linked, regrouped or differently encoded policy is ever accepted.\<close>

theorem validate_exact:
  assumes "validate read sha store identity hosts ent d = (Inr t, d')"
  shows "root_at store d' \<and> token_at sha store identity t d' \<and> policy_at store t hosts d' \<and> canonical_hosts hosts = Inr hosts \<and>
    hosts \<noteq> [] \<and> sorted hosts \<and> distinct hosts \<and> list_all public_host hosts"
proof -
  from assms obtain a where adm: "admitted_policy read sha store identity ent d = (Inr (Some a), d')"
    and v: "validate_admitted (Some a) hosts = Inr t"
    unfolding validate_def by (auto simp: andthen_Inr validate_admitted_def rbind_eq_Inr split: option.split_asm)
  from v have "canonical_hosts hosts = Inr (ad_hosts a)" "t = ad_token a"
    by (auto simp: validate_admitted_def rbind_eq_Inr split: if_split_asm)
  moreover note canonical_hosts_Inr [OF this(1)]
  moreover have "sort hosts = hosts" "\<not> repeated hosts"
    using calculation(5) by (auto simp: canonical_allowed_hosts_def split: if_split_asm)
  moreover have "sorted hosts \<Longrightarrow> \<not> repeated hosts \<Longrightarrow> distinct hosts"
    by (induction hosts rule: repeated.induct) (auto simp: le_less)
  ultimately show ?thesis using admitted_sound [OF adm] sorted_sort [of hosts] by auto
qed

text \<open>C33: A written policy is the one admitted. Once an identity has its token and a list of hosts was written for it,
  validation answers that token exactly for that list and refuses every other one, and changes nothing.\<close>

theorem policy_roundtrip:
  assumes "token sha store identity False ent d = (Inr (Some t), d1)" "write_policy store t hosts d1 = (Inr (), d2)" "d_answers d1 = []"
  shows "validate read sha store identity reviewed ent' d2 = (if reviewed = hosts then Inr t else Inl Drift, d2)"
proof -
  note stored = write_policy_sound [OF assms(2) token_sound [OF assms(1)]]
  have "admitted_policy read sha store identity ent' d2 = (Inr (Some \<lparr>ad_token = t, ad_hosts = hosts\<rparr>), d2)"
    using stored assms(3) by (intro admitted_complete) auto
  then have "validate read sha store identity reviewed ent' d2 = (validate_admitted (Some \<lparr>ad_token = t, ad_hosts = hosts\<rparr>) reviewed, d2)"
    by (simp add: validate_def andthen_def)
  moreover have "validate_admitted (Some \<lparr>ad_token = t, ad_hosts = hosts\<rparr>) reviewed = (if reviewed = hosts then Inr t else Inl Drift)"
  proof (cases "canonical_hosts reviewed")
    case (Inl e)
    then have "e = Drift" by (auto simp: canonical_hosts_def split: option.split_asm if_split_asm)
    then show ?thesis using Inl stored by (auto simp: validate_admitted_def)
  next
    case (Inr x)
    then show ?thesis using canonical_hosts_Inr(1) [OF Inr] by (simp add: validate_admitted_def)
  qed
  ultimately show ?thesis by simp
qed

section \<open>Witnesses\<close>

definition example_store :: policy_store where "example_store = \<lparr>po_root = [''egress''], po_gid = 9\<rparr>"

definition example_token :: string where "example_token = replicate 32 (CHR ''a'')"

definition example_hosts :: "string list" where "example_hosts = [''api.shimpz.com'', ''b.co'']"

definition example_digest :: "string \<Rightarrow> string" where "example_digest identity = identity"

definition example_policy_disk :: disk where
  "example_policy_disk = (example_disk [])\<lparr>d_files := (\<lambda>p.
     if p = [''egress''] then Some \<lparr>n_kind = Dir, n_links = 3, n_uid = 7, n_gid = 9, n_permissions = 0x1E8, n_bytes = []\<rparr>
     else if p = [''egress'', ''.tokens''] then Some \<lparr>n_kind = Dir, n_links = 2, n_uid = 7, n_gid = 7, n_permissions = 0x1C0, n_bytes = []\<rparr>
     else if p = [''egress'', ''.tokens'', ''mail.token''] then
       Some \<lparr>n_kind = Regular, n_links = 1, n_uid = 7, n_gid = 7, n_permissions = 0x180, n_bytes = example_token @ [CHR 0x0A]\<rparr>
     else None)\<rparr>"

lemma example_token_found: "token example_digest example_store ''mail'' False [] example_policy_disk = (Inr (Some example_token), example_policy_disk)"
proof (rule token_complete)
  show "d_answers example_policy_disk = []" by (simp add: example_policy_disk_def example_disk_def)
  show "root_at example_store example_policy_disk"
    by (simp add: root_at_def example_store_def example_policy_disk_def root_custody_def directory_holds_def facts_of_def none_or_def)
  show "token_at example_digest example_store ''mail'' example_token example_policy_disk"
    by (simp add: token_at_def example_store_def example_policy_disk_def directory_holds_def file_holds_def facts_of_def none_or_def
        tokens_of_def example_digest_def private_directory_def token_custody_def current_uid_def example_disk_def canonical_token_def
        example_token_def TOKEN_FILE_BYTES_def list_all_iff hex_def digit_def between_def)
qed

lemma example_written: "fst (write_policy example_store example_token example_hosts example_policy_disk) = Inr ()"
  by code_simp

theorem policy_roundtrip_witness:
  "validate example_reader example_digest example_store ''mail'' example_hosts []
     (snd (write_policy example_store example_token example_hosts example_policy_disk)) =
   (Inr example_token, snd (write_policy example_store example_token example_hosts example_policy_disk))"
proof -
  have "write_policy example_store example_token example_hosts example_policy_disk =
      (Inr (), snd (write_policy example_store example_token example_hosts example_policy_disk))"
    using example_written by (simp add: prod_eq_iff)
  moreover have "d_answers example_policy_disk = []" by (simp add: example_policy_disk_def example_disk_def)
  ultimately show ?thesis
    using policy_roundtrip [OF example_token_found, of example_hosts _ example_reader example_hosts "[]"] by simp
qed

lemma example_validated: "fst (validate example_reader example_digest example_store ''mail'' example_hosts []
     (snd (write_policy example_store example_token example_hosts example_policy_disk))) = Inr example_token"
  by code_simp

theorem validate_exact_witness:
  "policy_at example_store example_token example_hosts
     (snd (validate example_reader example_digest example_store ''mail'' example_hosts []
       (snd (write_policy example_store example_token example_hosts example_policy_disk))))"
proof -
  have "validate example_reader example_digest example_store ''mail'' example_hosts []
     (snd (write_policy example_store example_token example_hosts example_policy_disk)) =
    (Inr example_token, snd (validate example_reader example_digest example_store ''mail'' example_hosts []
     (snd (write_policy example_store example_token example_hosts example_policy_disk))))"
    using example_validated by (simp add: prod_eq_iff)
  from validate_exact [OF this] show ?thesis by blast
qed

end
