(* ===== verification/Ascii_Json.thy ===== *)
theory Ascii_Json
  imports Json_Parser
begin

text \<open>
  The writer of \<^verbatim>\<open>protocol/http/rust/src/python/json.rs\<close> with \<open>ensure_ascii\<close> on: every character outside
  printable ASCII is written as its UTF-16 units, each a lowercase \<open>\u\<close> escape. A Rust \<open>String\<close> is its UTF-8
  bytes here, so its characters are read off the bytes first (\<open>text_chars\<close>).

  The lemmas say what the writer does with a \<open>plain\<close> text (printable ASCII without quote and backslash): it
  copies it, so sizes of closed documents can be computed.
\<close>

definition byte_of :: "char \<Rightarrow> nat" where
  "byte_of c = of_char c"

definition code_point :: "string \<Rightarrow> nat" where
  \<comment> \<open>the character of one well-formed UTF-8 sequence\<close>
  "code_point bs = (case map byte_of bs of
      [a] \<Rightarrow> a
    | [a, b] \<Rightarrow> (a - 0xC0) * 64 + (b - 0x80)
    | [a, b, c] \<Rightarrow> (a - 0xE0) * 4096 + (b - 0x80) * 64 + (c - 0x80)
    | [a, b, c, d] \<Rightarrow> (a - 0xF0) * 262144 + (b - 0x80) * 4096 + (c - 0x80) * 64 + (d - 0x80)
    | _ \<Rightarrow> 0)"

function text_chars :: "string \<Rightarrow> nat list" where
  "text_chars s = (if s = [] \<or> utf8_step s = 0 then []
     else code_point (take (utf8_step s) s) # text_chars (drop (utf8_step s) s))"
  by pat_completeness auto
termination
  by (relation "measure length") auto

declare text_chars.simps [simp del]

definition char_count :: "string \<Rightarrow> nat" where
  "char_count s = length (text_chars s)"

definition push_escape :: "nat \<Rightarrow> string" where
  "push_escape u = [CHR 0x5C, CHR ''u'', hex_digit (u div 4096 mod 16), hex_digit (u div 256 mod 16),
     hex_digit (u div 16 mod 16), hex_digit (u mod 16)]"

definition utf16_units :: "nat \<Rightarrow> nat list" where
  "utf16_units code = (if code < 0x10000 then [code]
     else [0xD800 + (code - 0x10000) div 1024, 0xDC00 + (code - 0x10000) mod 1024])"

definition ascii_char :: "nat \<Rightarrow> string" where
  "ascii_char code =
     (if code = 34 then [CHR 0x5C, CHR 0x22]
      else if code = 92 then [CHR 0x5C, CHR 0x5C]
      else if code = 10 then [CHR 0x5C, CHR ''n'']
      else if code = 13 then [CHR 0x5C, CHR ''r'']
      else if code = 9 then [CHR 0x5C, CHR ''t'']
      else if code = 8 then [CHR 0x5C, CHR ''b'']
      else if code = 12 then [CHR 0x5C, CHR ''f'']
      else if code < 32 then push_escape code
      else if code \<le> 126 then [char_of code]
      else concat (map push_escape (utf16_units code)))"

definition ascii_string :: "string \<Rightarrow> string" where
  "ascii_string s = CHR 0x22 # concat (map ascii_char (text_chars s)) @ [CHR 0x22]"

function ascii_value :: "options \<Rightarrow> json \<Rightarrow> string" where
  "ascii_value opts Null = ''null''"
| "ascii_value opts (Bool b) = (if b then ''true'' else ''false'')"
| "ascii_value opts (Number n) = number_text n"
| "ascii_value opts (Str s) = ascii_string s"
| "ascii_value opts (Array xs) = ''['' @ join (item_separator opts) (map (ascii_value opts) xs) @ '']''"
| "ascii_value opts (Object ms) =
     (let ordered = (if sort_keys opts then sort_key fst ms else ms) in
      ''{'' @ join (item_separator opts)
        (map (\<lambda>(k, v). ascii_string k @ (if compact opts then '':'' else '': '') @ ascii_value opts v) ordered)
      @ ''}'')"
  by pat_completeness auto
termination
proof (relation "measure (size \<circ> snd)", goal_cases)
  case (2 opts xs x)
  then show ?case by (simp add: less_Suc_eq_le size_list_estimation')
next
  case (3 opts ms ordered kv k v)
  then have "(k, v) \<in> set ms" by (auto split: if_splits)
  then have "size v < Suc (size_list (size_prod (\<lambda>x. 0) size) ms)"
    by (auto simp: less_Suc_eq_le intro: size_list_estimation')
  then show ?case by simp
qed simp

definition dumps_ascii :: "json \<Rightarrow> options \<Rightarrow> string" where
  "dumps_ascii v opts = ascii_value opts v"

section \<open>Plain texts are copied\<close>

definition plain_char :: "char \<Rightarrow> bool" where
  "plain_char c \<longleftrightarrow> 32 \<le> byte_of c \<and> byte_of c \<le> 126 \<and> byte_of c \<noteq> 34 \<and> byte_of c \<noteq> 92"

definition plain :: "string \<Rightarrow> bool" where
  "plain s = list_all plain_char s"

lemma text_chars_plain: "plain s \<Longrightarrow> text_chars s = map byte_of s"
proof (induction s)
  case (Cons c s)
  then have "plain_char c" "plain s" by (simp_all add: plain_def)
  moreover from this have "utf8_step (c # s) = 1" by (simp add: plain_char_def byte_of_def)
  ultimately show ?case using Cons.IH by (subst text_chars.simps) (simp add: code_point_def)
qed (simp add: text_chars.simps)

lemma ascii_char_plain: "plain_char c \<Longrightarrow> ascii_char (byte_of c) = [c]"
  by (auto simp: plain_char_def ascii_char_def byte_of_def)

lemma ascii_string_plain:
  assumes "plain s"
  shows "ascii_string s = CHR 0x22 # s @ [CHR 0x22]"
proof -
  have "concat (map (ascii_char \<circ> byte_of) s) = s"
    using assms by (induction s) (simp_all add: plain_def ascii_char_plain)
  then show ?thesis by (simp add: ascii_string_def text_chars_plain [OF assms])
qed

lemma char_count_le: "char_count s \<le> length s"
proof (induction s rule: text_chars.induct)
  case (1 s)
  show ?case
  proof (cases "s = [] \<or> utf8_step s = 0")
    case False
    with 1 have "char_count (drop (utf8_step s) s) \<le> length s - utf8_step s" by simp
    with False have "Suc (char_count (drop (utf8_step s) s)) \<le> length s" by (cases s) (auto simp del: utf8_step.simps)
    then show ?thesis using False by (simp add: char_count_def text_chars.simps [of s])
  qed (auto simp: char_count_def text_chars.simps [of s])
qed

lemma length_join:
  "xs \<noteq> [] \<Longrightarrow> length (join sep xs) = sum_list (map length xs) + (length xs - 1) * length sep"
  by (induction sep xs rule: join.induct) auto

lemma sum_list_bound: "(\<And>x. x \<in> set xs \<Longrightarrow> f x \<le> k) \<Longrightarrow> sum_list (map f xs) \<le> length xs * (k :: nat)"
  by (induction xs) (auto simp: add_mono)

lemma length_join_bound:
  assumes "\<And>x. x \<in> set xs \<Longrightarrow> length x \<le> k" "length xs \<le> n"
  shows "length (join sep xs) \<le> n * (k + length sep)"
proof (cases "xs = []")
  case False
  have "sum_list (map length xs) \<le> n * k"
    using sum_list_bound [of xs length k] assms by (meson order_trans mult_le_mono1)
  moreover have "(length xs - 1) * length sep \<le> n * length sep" using assms(2) by (intro mult_le_mono1) simp
  ultimately show ?thesis using False by (simp add: length_join algebra_simps)
qed simp

lemma length_show_nat: "n < 10 ^ k \<Longrightarrow> 0 < k \<Longrightarrow> length (show_nat n) \<le> k"
proof (induction n arbitrary: k rule: show_nat.induct)
  case (1 n)
  show ?case
  proof (cases "n < 10")
    case False
    then obtain j where k: "k = Suc j" "0 < j"
      using "1.prems" by (cases k; cases "k - 1") auto
    then have "n div 10 < 10 ^ j" using "1.prems" by (simp add: less_mult_imp_div_less)
    from "1.IH" [OF False this k(2)] show ?thesis using False k by (subst show_nat.simps) simp
  qed (use "1.prems" in \<open>simp add: show_nat.simps\<close>)
qed

lemma length_show_int: "\<bar>i\<bar> < 10 ^ k \<Longrightarrow> 0 < k \<Longrightarrow> length (show_int i) \<le> Suc k"
  using length_show_nat [of "nat \<bar>i\<bar>" k] by (auto simp: show_int_def nat_less_iff le_SucI)

end
