(* ===== verification/Action_Cause.thy ===== *)
theory Action_Cause
  imports Ascii_Json
begin

text \<open>
  The closed cause of a failed Action: \<^verbatim>\<open>protocol/http/rust/src/payload/cause.rs\<close>.

  Each closed word list of the code is a datatype with its wire text, its list \<open>ALL\<close> and its \<open>parse\<close>; the
  locale \<open>closed_words\<close> states what the \<open>closed!\<close> macro promises of such a list and is interpreted on the four
  of them. A cause is the record \<open>cause\<close>; \<open>to_value\<close> and \<open>from_value\<close> are its codec, \<open>render\<close> its one line.

  \<open>cause_ok\<close> says that the parameters of a cause are exactly the ones its condition admits, within their
  bounds. The codec is exact on those causes, admits no others, and their documents and lines respect the
  code's two size bounds, so the size filter of \<open>canonical_cause\<close> never refuses one.
\<close>

section \<open>The closed words\<close>

datatype cause_kind =
    Kind_action_admission | Kind_assistant_request | Kind_team_audit | Kind_team_state | Kind_docker
    | Kind_integration | Kind_file | Kind_stop | Kind_workload | Kind_assistant_transport | Kind_assistant_timeout
    | Kind_assistant_exit | Kind_assistant_output_invalid | Kind_assistant_secret_echo | Kind_assistant_answer

definition kind_ALL :: "cause_kind list" where
  "kind_ALL = [
     Kind_action_admission, Kind_assistant_request, Kind_team_audit, Kind_team_state, Kind_docker, Kind_integration,
     Kind_file, Kind_stop, Kind_workload, Kind_assistant_transport, Kind_assistant_timeout, Kind_assistant_exit,
     Kind_assistant_output_invalid, Kind_assistant_secret_echo, Kind_assistant_answer]"

primrec kind_str :: "cause_kind \<Rightarrow> string" where
  "kind_str Kind_action_admission = ''action-admission''"
| "kind_str Kind_assistant_request = ''assistant-request''"
| "kind_str Kind_team_audit = ''team-audit''"
| "kind_str Kind_team_state = ''team-state''"
| "kind_str Kind_docker = ''docker''"
| "kind_str Kind_integration = ''integration''"
| "kind_str Kind_file = ''file''"
| "kind_str Kind_stop = ''stop''"
| "kind_str Kind_workload = ''workload''"
| "kind_str Kind_assistant_transport = ''assistant-transport''"
| "kind_str Kind_assistant_timeout = ''assistant-timeout''"
| "kind_str Kind_assistant_exit = ''assistant-exit''"
| "kind_str Kind_assistant_output_invalid = ''assistant-output-invalid''"
| "kind_str Kind_assistant_secret_echo = ''assistant-secret-echo''"
| "kind_str Kind_assistant_answer = ''assistant-answer''"

definition kind_parse :: "string \<Rightarrow> cause_kind option" where
  "kind_parse t = find_by kind_str t kind_ALL"

datatype cause_condition =
    Cond_action_not_declared | Cond_input_invalid | Cond_context_changed | Cond_invocation_too_large
    | Cond_attempt_uncertain | Cond_human_request_required | Cond_record_refused | Cond_write_failed
    | Cond_journal_closed | Cond_journal_unavailable | Cond_stored_input_unavailable | Cond_dispatch_seal_refused
    | Cond_operation_id_unavailable | Cond_docker_unavailable | Cond_slot_timeout | Cond_integration_unavailable
    | Cond_file_unavailable | Cond_file_busy | Cond_stopped | Cond_workload_blocked | Cond_exec_start_failed
    | Cond_stream_failed | Cond_reply_write_failed | Cond_deadline_passed | Cond_exit_status | Cond_exit_unavailable
    | Cond_still_running | Cond_stderr_output | Cond_stream_unknown | Cond_output_too_large | Cond_frame_truncated
    | Cond_line_not_json | Cond_output_after_terminal | Cond_terminal_not_object | Cond_request_after_provider_call
    | Cond_frame_type_invalid | Cond_frame_members_invalid | Cond_failure_invalid | Cond_request_invalid
    | Cond_authorization_repeated | Cond_held_input_requested | Cond_stored_input_not_held
    | Cond_result_with_withheld_file | Cond_result_not_object | Cond_result_too_deep | Cond_result_schema_mismatch
    | Cond_schema_pattern_unevaluable | Cond_result_number_unevaluable | Cond_schema_unsupported
    | Cond_result_not_durable | Cond_injected_value_echoed | Cond_handled_failure | Cond_stored_input_rejected

definition condition_ALL :: "cause_condition list" where
  "condition_ALL = [
     Cond_action_not_declared, Cond_input_invalid, Cond_context_changed, Cond_invocation_too_large,
     Cond_attempt_uncertain, Cond_human_request_required, Cond_record_refused, Cond_write_failed,
     Cond_journal_closed, Cond_journal_unavailable, Cond_stored_input_unavailable, Cond_dispatch_seal_refused,
     Cond_operation_id_unavailable, Cond_docker_unavailable, Cond_slot_timeout, Cond_integration_unavailable,
     Cond_file_unavailable, Cond_file_busy, Cond_stopped, Cond_workload_blocked, Cond_exec_start_failed,
     Cond_stream_failed, Cond_reply_write_failed, Cond_deadline_passed, Cond_exit_status, Cond_exit_unavailable,
     Cond_still_running, Cond_stderr_output, Cond_stream_unknown, Cond_output_too_large, Cond_frame_truncated,
     Cond_line_not_json, Cond_output_after_terminal, Cond_terminal_not_object, Cond_request_after_provider_call,
     Cond_frame_type_invalid, Cond_frame_members_invalid, Cond_failure_invalid, Cond_request_invalid,
     Cond_authorization_repeated, Cond_held_input_requested, Cond_stored_input_not_held,
     Cond_result_with_withheld_file, Cond_result_not_object, Cond_result_too_deep, Cond_result_schema_mismatch,
     Cond_schema_pattern_unevaluable, Cond_result_number_unevaluable, Cond_schema_unsupported,
     Cond_result_not_durable, Cond_injected_value_echoed, Cond_handled_failure, Cond_stored_input_rejected]"

primrec condition_str :: "cause_condition \<Rightarrow> string" where
  "condition_str Cond_action_not_declared = ''action-not-declared''"
| "condition_str Cond_input_invalid = ''input-invalid''"
| "condition_str Cond_context_changed = ''context-changed''"
| "condition_str Cond_invocation_too_large = ''invocation-too-large''"
| "condition_str Cond_attempt_uncertain = ''attempt-uncertain''"
| "condition_str Cond_human_request_required = ''human-request-required''"
| "condition_str Cond_record_refused = ''record-refused''"
| "condition_str Cond_write_failed = ''write-failed''"
| "condition_str Cond_journal_closed = ''journal-closed''"
| "condition_str Cond_journal_unavailable = ''journal-unavailable''"
| "condition_str Cond_stored_input_unavailable = ''stored-input-unavailable''"
| "condition_str Cond_dispatch_seal_refused = ''dispatch-seal-refused''"
| "condition_str Cond_operation_id_unavailable = ''operation-id-unavailable''"
| "condition_str Cond_docker_unavailable = ''docker-unavailable''"
| "condition_str Cond_slot_timeout = ''slot-timeout''"
| "condition_str Cond_integration_unavailable = ''integration-unavailable''"
| "condition_str Cond_file_unavailable = ''file-unavailable''"
| "condition_str Cond_file_busy = ''file-busy''"
| "condition_str Cond_stopped = ''stopped''"
| "condition_str Cond_workload_blocked = ''workload-blocked''"
| "condition_str Cond_exec_start_failed = ''exec-start-failed''"
| "condition_str Cond_stream_failed = ''stream-failed''"
| "condition_str Cond_reply_write_failed = ''reply-write-failed''"
| "condition_str Cond_deadline_passed = ''deadline-passed''"
| "condition_str Cond_exit_status = ''exit-status''"
| "condition_str Cond_exit_unavailable = ''exit-unavailable''"
| "condition_str Cond_still_running = ''still-running''"
| "condition_str Cond_stderr_output = ''stderr-output''"
| "condition_str Cond_stream_unknown = ''stream-unknown''"
| "condition_str Cond_output_too_large = ''output-too-large''"
| "condition_str Cond_frame_truncated = ''frame-truncated''"
| "condition_str Cond_line_not_json = ''line-not-json''"
| "condition_str Cond_output_after_terminal = ''output-after-terminal''"
| "condition_str Cond_terminal_not_object = ''terminal-not-object''"
| "condition_str Cond_request_after_provider_call = ''request-after-provider-call''"
| "condition_str Cond_frame_type_invalid = ''frame-type-invalid''"
| "condition_str Cond_frame_members_invalid = ''frame-members-invalid''"
| "condition_str Cond_failure_invalid = ''failure-invalid''"
| "condition_str Cond_request_invalid = ''request-invalid''"
| "condition_str Cond_authorization_repeated = ''authorization-repeated''"
| "condition_str Cond_held_input_requested = ''held-input-requested''"
| "condition_str Cond_stored_input_not_held = ''stored-input-not-held''"
| "condition_str Cond_result_with_withheld_file = ''result-with-withheld-file''"
| "condition_str Cond_result_not_object = ''result-not-object''"
| "condition_str Cond_result_too_deep = ''result-too-deep''"
| "condition_str Cond_result_schema_mismatch = ''result-schema-mismatch''"
| "condition_str Cond_schema_pattern_unevaluable = ''schema-pattern-unevaluable''"
| "condition_str Cond_result_number_unevaluable = ''result-number-unevaluable''"
| "condition_str Cond_schema_unsupported = ''schema-unsupported''"
| "condition_str Cond_result_not_durable = ''result-not-durable''"
| "condition_str Cond_injected_value_echoed = ''injected-value-echoed''"
| "condition_str Cond_handled_failure = ''handled-failure''"
| "condition_str Cond_stored_input_rejected = ''stored-input-rejected''"

definition condition_parse :: "string \<Rightarrow> cause_condition option" where
  "condition_parse t = find_by condition_str t condition_ALL"

datatype cause_phase =
    Phase_admission | Phase_preparation | Phase_file_slot | Phase_journal | Phase_dispatch_record
    | Phase_slot_admission | Phase_exec_start | Phase_exchange | Phase_provider_call | Phase_exit_inspection
    | Phase_result_validation | Phase_settlement

definition phase_ALL :: "cause_phase list" where
  "phase_ALL = [
     Phase_admission, Phase_preparation, Phase_file_slot, Phase_journal, Phase_dispatch_record, Phase_slot_admission,
     Phase_exec_start, Phase_exchange, Phase_provider_call, Phase_exit_inspection, Phase_result_validation,
     Phase_settlement]"

primrec phase_str :: "cause_phase \<Rightarrow> string" where
  "phase_str Phase_admission = ''admission''"
| "phase_str Phase_preparation = ''preparation''"
| "phase_str Phase_file_slot = ''file-slot''"
| "phase_str Phase_journal = ''journal''"
| "phase_str Phase_dispatch_record = ''dispatch-record''"
| "phase_str Phase_slot_admission = ''slot-admission''"
| "phase_str Phase_exec_start = ''exec-start''"
| "phase_str Phase_exchange = ''exchange''"
| "phase_str Phase_provider_call = ''provider-call''"
| "phase_str Phase_exit_inspection = ''exit-inspection''"
| "phase_str Phase_result_validation = ''result-validation''"
| "phase_str Phase_settlement = ''settlement''"

definition phase_parse :: "string \<Rightarrow> cause_phase option" where
  "phase_parse t = find_by phase_str t phase_ALL"

datatype cause_cleanup =
    Cleanup_workload_stopped | Cleanup_workload_stop_unconfirmed | Cleanup_journal_unavailable

definition cleanup_ALL :: "cause_cleanup list" where
  "cleanup_ALL = [
     Cleanup_workload_stopped, Cleanup_workload_stop_unconfirmed, Cleanup_journal_unavailable]"

primrec cleanup_str :: "cause_cleanup \<Rightarrow> string" where
  "cleanup_str Cleanup_workload_stopped = ''workload-stopped''"
| "cleanup_str Cleanup_workload_stop_unconfirmed = ''workload-stop-unconfirmed''"
| "cleanup_str Cleanup_journal_unavailable = ''journal-unavailable''"

definition cleanup_parse :: "string \<Rightarrow> cause_cleanup option" where
  "cleanup_parse t = find_by cleanup_str t cleanup_ALL"

primrec condition_kind :: "cause_condition \<Rightarrow> cause_kind" where
  "condition_kind Cond_action_not_declared = Kind_action_admission"
| "condition_kind Cond_input_invalid = Kind_action_admission"
| "condition_kind Cond_context_changed = Kind_action_admission"
| "condition_kind Cond_invocation_too_large = Kind_action_admission"
| "condition_kind Cond_attempt_uncertain = Kind_action_admission"
| "condition_kind Cond_human_request_required = Kind_assistant_request"
| "condition_kind Cond_record_refused = Kind_team_audit"
| "condition_kind Cond_write_failed = Kind_team_audit"
| "condition_kind Cond_journal_closed = Kind_team_audit"
| "condition_kind Cond_journal_unavailable = Kind_team_state"
| "condition_kind Cond_stored_input_unavailable = Kind_team_state"
| "condition_kind Cond_dispatch_seal_refused = Kind_team_state"
| "condition_kind Cond_operation_id_unavailable = Kind_team_state"
| "condition_kind Cond_docker_unavailable = Kind_docker"
| "condition_kind Cond_slot_timeout = Kind_docker"
| "condition_kind Cond_integration_unavailable = Kind_integration"
| "condition_kind Cond_file_unavailable = Kind_file"
| "condition_kind Cond_file_busy = Kind_file"
| "condition_kind Cond_stopped = Kind_stop"
| "condition_kind Cond_workload_blocked = Kind_workload"
| "condition_kind Cond_exec_start_failed = Kind_assistant_transport"
| "condition_kind Cond_stream_failed = Kind_assistant_transport"
| "condition_kind Cond_reply_write_failed = Kind_assistant_transport"
| "condition_kind Cond_deadline_passed = Kind_assistant_timeout"
| "condition_kind Cond_exit_status = Kind_assistant_exit"
| "condition_kind Cond_exit_unavailable = Kind_assistant_exit"
| "condition_kind Cond_still_running = Kind_assistant_exit"
| "condition_kind Cond_stderr_output = Kind_assistant_exit"
| "condition_kind Cond_stream_unknown = Kind_assistant_output_invalid"
| "condition_kind Cond_output_too_large = Kind_assistant_output_invalid"
| "condition_kind Cond_frame_truncated = Kind_assistant_output_invalid"
| "condition_kind Cond_line_not_json = Kind_assistant_output_invalid"
| "condition_kind Cond_output_after_terminal = Kind_assistant_output_invalid"
| "condition_kind Cond_terminal_not_object = Kind_assistant_output_invalid"
| "condition_kind Cond_request_after_provider_call = Kind_assistant_output_invalid"
| "condition_kind Cond_frame_type_invalid = Kind_assistant_output_invalid"
| "condition_kind Cond_frame_members_invalid = Kind_assistant_output_invalid"
| "condition_kind Cond_failure_invalid = Kind_assistant_output_invalid"
| "condition_kind Cond_request_invalid = Kind_assistant_output_invalid"
| "condition_kind Cond_authorization_repeated = Kind_assistant_output_invalid"
| "condition_kind Cond_held_input_requested = Kind_assistant_output_invalid"
| "condition_kind Cond_stored_input_not_held = Kind_assistant_output_invalid"
| "condition_kind Cond_result_with_withheld_file = Kind_assistant_output_invalid"
| "condition_kind Cond_result_not_object = Kind_assistant_output_invalid"
| "condition_kind Cond_result_too_deep = Kind_assistant_output_invalid"
| "condition_kind Cond_result_schema_mismatch = Kind_assistant_output_invalid"
| "condition_kind Cond_schema_pattern_unevaluable = Kind_assistant_output_invalid"
| "condition_kind Cond_result_number_unevaluable = Kind_assistant_output_invalid"
| "condition_kind Cond_schema_unsupported = Kind_assistant_output_invalid"
| "condition_kind Cond_result_not_durable = Kind_assistant_output_invalid"
| "condition_kind Cond_injected_value_echoed = Kind_assistant_secret_echo"
| "condition_kind Cond_handled_failure = Kind_assistant_answer"
| "condition_kind Cond_stored_input_rejected = Kind_assistant_answer"

definition states_stderr :: "cause_condition \<Rightarrow> bool" where
  "states_stderr c \<longleftrightarrow> condition_kind c = Kind_assistant_exit"

section \<open>Causes\<close>

record cause =
  ca_condition :: cause_condition
  ca_phase :: cause_phase
  ca_exit_code :: "int option"
  ca_http_status :: "int option"
  ca_bytes :: "int option"
  ca_stderr_bytes :: "int option"
  ca_cleanup :: "cause_cleanup option"

definition MAX_CAUSE_BYTES :: nat where "MAX_CAUSE_BYTES = 1024"
definition MAX_RENDERED_CHARS :: nat where "MAX_RENDERED_CHARS = 512"
definition MAX_CAUSE_COUNT :: int where "MAX_CAUSE_COUNT = 2 ^ 31 - 1"
definition i32_min :: int where "i32_min = - (2 ^ 31)"
definition i32_max :: int where "i32_max = 2 ^ 31 - 1"
definition u32_max :: int where "u32_max = 2 ^ 32 - 1"

definition CAUSE_MEMBERS :: "string list" where
  "CAUSE_MEMBERS = [''kind'', ''condition'', ''phase'', ''exit_code'', ''http_status'', ''bytes'', ''stderr_bytes'',
     ''cleanup'']"

definition UNKNOWN_CAUSE :: string where "UNKNOWN_CAUSE = ''cause unknown''"

definition cause_count :: "nat \<Rightarrow> int" where
  "cause_count n = min (min (int n) u32_max) (min MAX_CAUSE_COUNT u32_max)"

definition new_cause :: "cause_condition \<Rightarrow> cause_phase \<Rightarrow> cause" where
  "new_cause c p = \<lparr>ca_condition = c, ca_phase = p, ca_exit_code = None, ca_http_status = None, ca_bytes = None,
     ca_stderr_bytes = None, ca_cleanup = None\<rparr>"

definition exit_status :: "int \<Rightarrow> cause" where
  "exit_status code = (new_cause Cond_exit_status Phase_exit_inspection)\<lparr>ca_exit_code := Some (max i32_min (min i32_max code))\<rparr>"

definition stderr_output :: "nat \<Rightarrow> cause" where
  "stderr_output n = (new_cause Cond_stderr_output Phase_exit_inspection)\<lparr>ca_stderr_bytes := Some (cause_count (max n 1))\<rparr>"

definition output_too_large :: "nat \<Rightarrow> cause_phase \<Rightarrow> cause" where
  "output_too_large n p = (new_cause Cond_output_too_large p)\<lparr>ca_bytes := Some (cause_count n)\<rparr>"

definition handled_cause :: "int option \<Rightarrow> cause" where
  "handled_cause status = (new_cause Cond_handled_failure Phase_result_validation)\<lparr>ca_http_status :=
     (case status of None \<Rightarrow> None | Some s \<Rightarrow> if 100 \<le> s \<and> s \<le> 599 then Some s else None)\<rparr>"

definition with_stderr :: "cause \<Rightarrow> nat \<Rightarrow> cause" where
  "with_stderr c n = (if \<not> states_stderr (ca_condition c) \<or> n = 0 then c
     else c\<lparr>ca_stderr_bytes := Some (cause_count n)\<rparr>)"

definition with_cleanup :: "cause \<Rightarrow> cause_cleanup \<Rightarrow> cause" where
  "with_cleanup c k = c\<lparr>ca_cleanup := Some k\<rparr>"

definition kind_of_cause :: "cause \<Rightarrow> cause_kind" where
  "kind_of_cause c = condition_kind (ca_condition c)"

definition stated :: "(string \<times> int option) list \<Rightarrow> (string \<times> int) list" where
  "stated ns = List.map_filter (\<lambda>(name, n). map_option (Pair name) n) ns"

definition to_value :: "cause \<Rightarrow> json" where
  "to_value c = Object (
     [(''kind'', text_value (kind_str (kind_of_cause c))), (''condition'', text_value (condition_str (ca_condition c))),
      (''phase'', text_value (phase_str (ca_phase c)))]
     @ map (\<lambda>(name, n). (name, int_value n))
         (stated [(''exit_code'', ca_exit_code c), (''http_status'', ca_http_status c), (''bytes'', ca_bytes c),
                  (''stderr_bytes'', ca_stderr_bytes c)])
     @ (case ca_cleanup c of None \<Rightarrow> [] | Some k \<Rightarrow> [(''cleanup'', text_value (cleanup_str k))]))"

definition present :: "(string \<times> json) list \<Rightarrow> string \<Rightarrow> bool" where
  "present ms name = list_ex (\<lambda>(key, _). key = name) ms"

definition bounded_number :: "(string \<times> json) list \<Rightarrow> string \<Rightarrow> int \<Rightarrow> int \<Rightarrow> int option option" where
  "bounded_number ms name low high =
     (if \<not> present ms name then Some None
      else case small_int (field ms name) of None \<Rightarrow> None
        | Some n \<Rightarrow> if low \<le> n \<and> n \<le> high then Some (Some n) else None)"

definition cause_fits ::
    "cause_condition \<Rightarrow> int option \<Rightarrow> int option \<Rightarrow> int option \<Rightarrow> int option \<Rightarrow> bool" where
  "cause_fits c exit_code http_status count stderr_count \<longleftrightarrow>
     (exit_code \<noteq> None) = (c = Cond_exit_status) \<and> (count \<noteq> None) = (c = Cond_output_too_large) \<and>
     (http_status = None \<or> c = Cond_handled_failure) \<and> (stderr_count = None \<or> states_stderr c) \<and>
     (stderr_count \<noteq> None \<or> c \<noteq> Cond_stderr_output)"

definition from_value :: "json \<Rightarrow> cause option" where
  "from_value v = (case v of Object ms \<Rightarrow>
       if length ms > length CAUSE_MEMBERS \<or> list_ex (\<lambda>(name, _). name \<notin> set CAUSE_MEMBERS) ms then None
       else Option.bind (as_str (field ms ''condition'')) (\<lambda>c. Option.bind (condition_parse c) (\<lambda>condition.
         Option.bind (as_str (field ms ''phase'')) (\<lambda>p. Option.bind (phase_parse p) (\<lambda>phase.
         Option.bind (as_str (field ms ''kind'')) (\<lambda>kind.
           if kind \<noteq> kind_str (condition_kind condition) then None
           else Option.bind (bounded_number ms ''exit_code'' i32_min i32_max) (\<lambda>exit_code.
             Option.bind (bounded_number ms ''http_status'' 100 599) (\<lambda>http_status.
             Option.bind (bounded_number ms ''bytes'' 0 MAX_CAUSE_COUNT) (\<lambda>count.
             Option.bind (bounded_number ms ''stderr_bytes'' 1 MAX_CAUSE_COUNT) (\<lambda>stderr_count.
             Option.bind (if present ms ''cleanup''
                          then Option.bind (as_str (field ms ''cleanup'')) (\<lambda>k. map_option Some (cleanup_parse k))
                          else Some None) (\<lambda>cleanup.
               if \<not> cause_fits condition exit_code http_status count stderr_count then None
               else Some \<lparr>ca_condition = condition, ca_phase = phase, ca_exit_code = exit_code,
                      ca_http_status = http_status, ca_bytes = count, ca_stderr_bytes = stderr_count,
                      ca_cleanup = cleanup\<rparr>))))))))))
     | _ \<Rightarrow> None)"

definition middle_dot :: string where
  \<comment> \<open>\<open>" \<cdot> "\<close>: a space, U+00B7 and a space\<close>
  "middle_dot = [CHR '' '', CHR 0xC2, CHR 0xB7, CHR '' '']"

definition render :: "cause \<Rightarrow> string" where
  "render c = join middle_dot (
     [kind_str (kind_of_cause c), condition_str (ca_condition c), phase_str (ca_phase c)]
     @ map (\<lambda>(name, n). name @ '' '' @ show_int n)
         (stated [(''exit-code'', ca_exit_code c), (''http-status'', ca_http_status c), (''bytes'', ca_bytes c),
                  (''stderr-bytes'', ca_stderr_bytes c)])
     @ (case ca_cleanup c of None \<Rightarrow> [] | Some k \<Rightarrow> [cleanup_str k]))"

definition canonical_cause :: "json \<Rightarrow> json option" where
  "canonical_cause v = (case from_value v of None \<Rightarrow> None
     | Some c \<Rightarrow> let canonical = to_value c in
         if length (dumps_ascii canonical \<lparr>sort_keys = False, compact = True\<rparr>) \<le> MAX_CAUSE_BYTES
         then Some canonical else None)"

definition render_cause :: "cause option \<Rightarrow> string" where
  "render_cause c = (case c of None \<Rightarrow> UNKNOWN_CAUSE | Some c \<Rightarrow> render c)"

section \<open>What a closed word list promises\<close>

locale closed_words =
  fixes all_words :: "'w list"
    and word_str :: "'w \<Rightarrow> string"
    and word_parse :: "string \<Rightarrow> 'w option"
  assumes complete_words: "w \<in> set all_words"
    and distinct_words: "distinct (map word_str all_words)"
    and parse_words: "word_parse t = find_by word_str t all_words"
begin

lemma parse_str [simp]: "word_parse (word_str w) = Some w"
  by (simp add: parse_words find_by_distinct distinct_words complete_words)

lemma parse_Some: "word_parse t = Some w \<longleftrightarrow> t = word_str w"
  using find_by_Some_key [of word_str t all_words w] by (auto simp: parse_words find_by_distinct distinct_words complete_words)

lemma for_all_words: "list_all P all_words \<Longrightarrow> P w"
  using complete_words by (simp add: list_all_iff)

lemma str_inject [simp]: "word_str v = word_str w \<longleftrightarrow> v = w"
  by (metis parse_str option.inject)

end

interpretation kinds: closed_words kind_ALL kind_str kind_parse
proof
  show "w \<in> set kind_ALL" for w by (cases w) (simp_all add: kind_ALL_def)
  show "distinct (map kind_str kind_ALL)" by code_simp
qed (simp add: kind_parse_def)

interpretation conditions: closed_words condition_ALL condition_str condition_parse
proof
  show "w \<in> set condition_ALL" for w by (cases w) (simp_all add: condition_ALL_def)
  show "distinct (map condition_str condition_ALL)" by code_simp
qed (simp add: condition_parse_def)

interpretation phases: closed_words phase_ALL phase_str phase_parse
proof
  show "w \<in> set phase_ALL" for w by (cases w) (simp_all add: phase_ALL_def)
  show "distinct (map phase_str phase_ALL)" by code_simp
qed (simp add: phase_parse_def)

interpretation cleanups: closed_words cleanup_ALL cleanup_str cleanup_parse
proof
  show "w \<in> set cleanup_ALL" for w by (cases w) (simp_all add: cleanup_ALL_def)
  show "distinct (map cleanup_str cleanup_ALL)" by code_simp
qed (simp add: cleanup_parse_def)

section \<open>The codec\<close>

definition in_range :: "int \<Rightarrow> int \<Rightarrow> int option \<Rightarrow> bool" where
  "in_range low high n = (case n of None \<Rightarrow> True | Some i \<Rightarrow> low \<le> i \<and> i \<le> high)"

definition cause_ok :: "cause \<Rightarrow> bool" where
  "cause_ok c \<longleftrightarrow>
     cause_fits (ca_condition c) (ca_exit_code c) (ca_http_status c) (ca_bytes c) (ca_stderr_bytes c) \<and>
     in_range i32_min i32_max (ca_exit_code c) \<and> in_range 100 599 (ca_http_status c) \<and>
     in_range 0 MAX_CAUSE_COUNT (ca_bytes c) \<and> in_range 1 MAX_CAUSE_COUNT (ca_stderr_bytes c)"

lemma in_range_simps [simp]: "in_range low high None" "in_range low high (Some i) \<longleftrightarrow> low \<le> i \<and> i \<le> high"
  by (simp_all add: in_range_def)

lemma field_simps' [simp]:
  "field [] name = Null" "field ((k, v) # ms) name = (if k = name then v else field ms name)"
  by (simp_all add: field_def)

lemma present_simps [simp]:
  "present [] name \<longleftrightarrow> False" "present ((k, v) # ms) name \<longleftrightarrow> k = name \<or> present ms name"
  by (simp_all add: present_def)

lemma field_append: "field (xs @ ys) name = (if present xs name then field xs name else field ys name)"
  by (induction xs) auto

lemma present_append: "present (xs @ ys) name \<longleftrightarrow> present xs name \<or> present ys name"
  by (induction xs) auto

lemma stated_simps [simp]:
  "stated [] = []" "stated ((name, n) # ns) = (case n of None \<Rightarrow> stated ns | Some i \<Rightarrow> (name, i) # stated ns)"
  by (simp_all add: stated_def map_filter_simps split: option.split)

definition stated_members :: "(string \<times> int option) list \<Rightarrow> (string \<times> json) list" where
  "stated_members ns = map (\<lambda>(name, n). (name, int_value n)) (stated ns)"

lemma field_stated:
  assumes "distinct (map fst ns)"
  shows "field (stated_members ns) name = (case map_of ns name of Some (Some i) \<Rightarrow> int_value i | _ \<Rightarrow> Null) \<and>
     (present (stated_members ns) name \<longleftrightarrow> (case map_of ns name of Some (Some i) \<Rightarrow> True | _ \<Rightarrow> False))"
  using assms
proof (induction ns)
  case (Cons p ns)
  obtain m n where p: "p = (m, n)" by fastforce
  have "map_of ns m = None" using Cons.prems(1) by (simp add: p map_of_eq_None_iff)
  then show ?case using Cons p by (auto simp: stated_members_def split: option.split)
qed (simp add: stated_members_def)

definition cause_numbers :: "cause \<Rightarrow> (string \<times> int option) list" where
  "cause_numbers c = [(''exit_code'', ca_exit_code c), (''http_status'', ca_http_status c), (''bytes'', ca_bytes c),
     (''stderr_bytes'', ca_stderr_bytes c)]"

definition cleanup_members :: "cause \<Rightarrow> (string \<times> json) list" where
  "cleanup_members c = (case ca_cleanup c of None \<Rightarrow> [] | Some k \<Rightarrow> [(''cleanup'', Str (cleanup_str k))])"

definition cause_members :: "cause \<Rightarrow> (string \<times> json) list" where
  "cause_members c = (''kind'', Str (kind_str (kind_of_cause c))) # (''condition'', Str (condition_str (ca_condition c)))
     # (''phase'', Str (phase_str (ca_phase c))) # stated_members (cause_numbers c) @ cleanup_members c"

lemma to_value_members: "to_value c = Object (cause_members c)"
  by (simp add: to_value_def stated_members_def cause_numbers_def text_value_def cause_members_def cleanup_members_def
      cong: option.case_cong)

lemma cause_numbers_field:
  "field (stated_members (cause_numbers c)) name = (case map_of (cause_numbers c) name of Some (Some i) \<Rightarrow> int_value i | _ \<Rightarrow> Null)"
  "present (stated_members (cause_numbers c)) name \<longleftrightarrow> (case map_of (cause_numbers c) name of Some (Some i) \<Rightarrow> True | _ \<Rightarrow> False)"
  using field_stated [of "cause_numbers c" name] by (simp_all add: cause_numbers_def)

lemma stated_members_length: "length (stated_members ns) \<le> length ns"
  by (induction ns) (auto simp: stated_members_def split: option.splits)

lemma stated_members_names: "fst ` set (stated_members ns) \<subseteq> fst ` set ns"
proof (induction ns)
  case (Cons p ns)
  obtain m n where "p = (m, n)" by fastforce
  then show ?case using Cons.IH by (cases n) (auto simp: stated_members_def)
qed (simp add: stated_members_def)

text \<open>What the reader finds in the document of a cause, one member at a time.\<close>

lemma cause_words:
  "field (cause_members c) ''kind'' = Str (kind_str (kind_of_cause c))"
  "field (cause_members c) ''condition'' = Str (condition_str (ca_condition c))"
  "field (cause_members c) ''phase'' = Str (phase_str (ca_phase c))"
  by (simp_all add: cause_members_def)

lemma cause_cleanup:
  "(if present (cause_members c) ''cleanup''
    then Option.bind (as_str (field (cause_members c) ''cleanup'')) (\<lambda>k. map_option Some (cleanup_parse k))
    else Some None) = Some (ca_cleanup c)"
proof -
  have "map_of (cause_numbers c) ''cleanup'' = None" by (simp add: cause_numbers_def)
  then show ?thesis
    by (cases "ca_cleanup c") (simp_all add: cause_members_def present_append field_append cause_numbers_field cleanup_members_def)
qed

lemma cause_names:
  "length (cause_members c) \<le> 8" "list_all (\<lambda>(name, _). name \<in> set CAUSE_MEMBERS) (cause_members c)"
proof -
  have "length (stated_members (cause_numbers c)) \<le> 4"
    using stated_members_length [of "cause_numbers c"] by (simp add: cause_numbers_def)
  then show "length (cause_members c) \<le> 8" by (cases "ca_cleanup c") (simp_all add: cause_members_def cleanup_members_def)
  have "list_all (\<lambda>(name, _). name \<in> set CAUSE_MEMBERS) (stated_members (cause_numbers c))"
    using stated_members_names [of "cause_numbers c"] by (fastforce simp: list_all_iff cause_numbers_def CAUSE_MEMBERS_def)
  then show "list_all (\<lambda>(name, _). name \<in> set CAUSE_MEMBERS) (cause_members c)"
    by (cases "ca_cleanup c") (simp_all add: cause_members_def cleanup_members_def CAUSE_MEMBERS_def)
qed

lemma cause_bounded:
  assumes "map_of (cause_numbers c) name = Some n" "in_range low high n"
  shows "bounded_number (cause_members c) name low high = Some n"
proof -
  have name: "name \<in> {''exit_code'', ''http_status'', ''bytes'', ''stderr_bytes''}"
    using map_of_SomeD [OF assms(1)] by (auto simp: cause_numbers_def)
  then have none: "\<not> present (cleanup_members c) name" "field (cleanup_members c) name = Null"
    and skip: "name \<noteq> ''kind''" "name \<noteq> ''condition''" "name \<noteq> ''phase''"
    by (auto simp: cleanup_members_def split: option.split)
  have "present (cause_members c) name \<longleftrightarrow> n \<noteq> None"
    "field (cause_members c) name = (case n of None \<Rightarrow> Null | Some i \<Rightarrow> int_value i)"
    using none skip assms(1)
    by (cases n; simp add: cause_members_def present_append field_append cause_numbers_field)+
  then show ?thesis using assms(2) by (cases n) (simp_all add: bounded_number_def int_value_def)
qed

lemma from_to_value:
  assumes "cause_ok c"
  shows "from_value (to_value c) = Some c"
proof -
  have no: "\<not> (length CAUSE_MEMBERS < length (cause_members c)
      \<or> list_ex (\<lambda>(name, _). name \<notin> set CAUSE_MEMBERS) (cause_members c))"
  proof -
    have "length CAUSE_MEMBERS = 8" by (simp add: CAUSE_MEMBERS_def)
    then show ?thesis using cause_names [of c] by (fastforce simp: list_ex_iff list_all_iff)
  qed
  have numbers: "bounded_number (cause_members c) ''exit_code'' i32_min i32_max = Some (ca_exit_code c)"
    "bounded_number (cause_members c) ''http_status'' 100 599 = Some (ca_http_status c)"
    "bounded_number (cause_members c) ''bytes'' 0 MAX_CAUSE_COUNT = Some (ca_bytes c)"
    "bounded_number (cause_members c) ''stderr_bytes'' 1 MAX_CAUSE_COUNT = Some (ca_stderr_bytes c)"
    using assms by (simp_all add: cause_bounded cause_ok_def cause_numbers_def)
  have fits: "cause_fits (ca_condition c) (ca_exit_code c) (ca_http_status c) (ca_bytes c) (ca_stderr_bytes c)"
    using assms by (simp add: cause_ok_def)
  show ?thesis
    unfolding from_value_def to_value_members json.case cause_words as_str.simps numbers cause_cleanup if_not_P [OF no]
      Option.bind_lunit conditions.parse_str phases.parse_str kind_of_cause_def
    using fits by simp
qed

lemma bounded_number_range:
  assumes "bounded_number ms name low high = Some n"
  shows "in_range low high n"
proof (cases n)
  case (Some i)
  then have "small_int (field ms name) = Some i \<and> low \<le> i \<and> i \<le> high"
    using assms by (cases "small_int (field ms name)") (simp_all add: bounded_number_def split: if_split_asm)
  then show ?thesis using Some by simp
qed simp

lemma from_value_ok:
  assumes "from_value v = Some c"
  shows "cause_ok c"
  using assms
  by (auto simp: from_value_def cause_ok_def bind_eq_Some_conv dest: bounded_number_range split: json.splits if_split_asm)

section \<open>The bounds\<close>

definition short_word :: "string \<Rightarrow> bool" where
  "short_word w \<longleftrightarrow> plain w \<and> length w \<le> 27"

lemma kind_short: "short_word (kind_str k)"
  by (rule kinds.for_all_words [where P = "\<lambda>w. short_word (kind_str w)"]) code_simp

lemma condition_short: "short_word (condition_str c)"
  by (rule conditions.for_all_words [where P = "\<lambda>w. short_word (condition_str w)"]) code_simp

lemma phase_short: "short_word (phase_str p)"
  by (rule phases.for_all_words [where P = "\<lambda>w. short_word (phase_str w)"]) code_simp

lemma cleanup_short: "short_word (cleanup_str k)"
  by (rule cleanups.for_all_words [where P = "\<lambda>w. short_word (cleanup_str w)"]) code_simp

lemma show_count_length: "- (2 ^ 31) \<le> i \<Longrightarrow> i < 2 ^ 31 \<Longrightarrow> length (show_int i) \<le> 11"
  using length_show_int [of i 10] by simp

lemma cause_number_size:
  assumes "cause_ok c" "Some i \<in> {ca_exit_code c, ca_http_status c, ca_bytes c, ca_stderr_bytes c}"
  shows "length (show_int i) \<le> 11"
proof -
  note bounds = i32_min_def i32_max_def MAX_CAUSE_COUNT_def
  consider "in_range i32_min i32_max (Some i)" | "in_range 100 599 (Some i)" | "in_range 0 MAX_CAUSE_COUNT (Some i)"
    | "in_range 1 MAX_CAUSE_COUNT (Some i)"
    using assms unfolding cause_ok_def by (metis insertE singletonD)
  then show ?thesis by cases (simp_all add: bounds show_count_length)
qed

lemma stated_mem: "(name, i) \<in> set (stated ns) \<Longrightarrow> (name, Some i) \<in> set ns"
  by (induction ns) (auto split: option.splits)

lemma short_number: "length (ascii_value opts (int_value i)) = length (show_int i)"
  by (simp add: int_value_def)

lemma short_text: "short_word w \<Longrightarrow> length (ascii_value opts (Str w)) \<le> 29"
  by (simp add: short_word_def ascii_string_plain)

lemma cause_member_size:
  assumes ok: "cause_ok c" and p: "(k, v) \<in> set (cause_members c)"
  shows "length (ascii_string k) \<le> 14" "length (ascii_value opts v) \<le> 29"
proof -
  have names: "list_all (\<lambda>k. plain k \<and> length k \<le> 12) CAUSE_MEMBERS" by code_simp
  have "k \<in> set CAUSE_MEMBERS" using cause_names(2) [of c] p by (auto simp: list_all_iff)
  with names show "length (ascii_string k) \<le> 14" by (simp add: list_all_iff ascii_string_plain)
  consider (word) w where "short_word w" "v = Str w" | (number) "(k, v) \<in> set (stated_members (cause_numbers c))"
    using p kind_short condition_short phase_short cleanup_short [of "the (ca_cleanup c)"]
    by (cases "ca_cleanup c") (fastforce simp: cause_members_def cleanup_members_def)+
  then show "length (ascii_value opts v) \<le> 29"
  proof cases
    case word
    then show ?thesis using short_text by simp
  next
    case number
    then obtain i where i: "(k, Some i) \<in> set (cause_numbers c)" "v = int_value i"
      by (auto simp: stated_members_def dest: stated_mem)
    then have "length (show_int i) \<le> 11"
      using cause_number_size [OF ok, of i] by (auto simp: cause_numbers_def)
    then show ?thesis using short_number i(2) by simp
  qed
qed

lemma cause_document_size:
  assumes "cause_ok c"
  shows "length (dumps_ascii (to_value c) \<lparr>sort_keys = False, compact = True\<rparr>) \<le> MAX_CAUSE_BYTES"
proof -
  let ?opts = "\<lparr>sort_keys = False, compact = True\<rparr>"
  let ?parts = "map (\<lambda>(k, v). ascii_string k @ '':'' @ ascii_value ?opts v) (cause_members c)"
  have "length (join '','' ?parts) \<le> 8 * (44 + length '','')"
  proof (rule length_join_bound)
    fix x assume "x \<in> set ?parts"
    then obtain k v where "(k, v) \<in> set (cause_members c)" "x = ascii_string k @ '':'' @ ascii_value ?opts v" by auto
    then show "length x \<le> 44" using cause_member_size(1) [OF assms] cause_member_size(2) [OF assms, where opts = ?opts] by fastforce
  qed (use cause_names(1) [of c] in simp)
  then show ?thesis
    by (simp add: dumps_ascii_def to_value_members item_separator_def MAX_CAUSE_BYTES_def)
qed

lemma cause_line_size:
  assumes "cause_ok c"
  shows "char_count (render c) \<le> MAX_RENDERED_CHARS"
proof -
  let ?numbers = "[(''exit-code'', ca_exit_code c), (''http-status'', ca_http_status c), (''bytes'', ca_bytes c),
     (''stderr-bytes'', ca_stderr_bytes c)]"
  define parts where "parts = [kind_str (kind_of_cause c), condition_str (ca_condition c), phase_str (ca_phase c)]
     @ map (\<lambda>(name, n). name @ '' '' @ show_int n) (stated ?numbers)
     @ (case ca_cleanup c of None \<Rightarrow> [] | Some k \<Rightarrow> [cleanup_str k])"
  have "length (stated ?numbers) \<le> 4"
    using stated_members_length [of ?numbers] by (simp add: stated_members_def)
  then have count: "length parts \<le> 8" by (cases "ca_cleanup c") (simp_all add: parts_def)
  have size: "length x \<le> 27" if x: "x \<in> set parts" for x
  proof -
    consider "short_word x" | name i where "(name, i) \<in> set (stated ?numbers)" "x = name @ '' '' @ show_int i"
      using x kind_short condition_short phase_short cleanup_short
      by (auto simp: parts_def simp del: stated_simps split: option.splits)
    then show ?thesis
    proof cases
      case 2
      have "(name, Some i) \<in> set ?numbers" by (rule stated_mem [OF 2(1)])
      moreover from this have "length (show_int i) \<le> 11"
        using cause_number_size [OF assms, of i] by auto
      ultimately show ?thesis using 2(2) by auto
    qed (simp add: short_word_def)
  qed
  have "length (join middle_dot parts) \<le> 8 * (27 + length middle_dot)" by (rule length_join_bound [OF size count])
  then have "length (render c) \<le> 248" by (simp add: render_def parts_def middle_dot_def del: stated_simps)
  then show ?thesis using char_count_le [of "render c"] by (simp add: MAX_RENDERED_CHARS_def)
qed

text \<open>C37: The cause codec is exact. A cause whose parameters fit its condition reads back from its document as itself,
  that document is its own canonical form (the size filter of \<open>canonical_cause\<close> never refuses one) and its rendered
  line is within its bound; and whatever document the reader accepts states such a cause, so the canonical form of any
  accepted document reads back as the same cause.\<close>
theorem cause_codec:
  "(cause_ok c \<longrightarrow> from_value (to_value c) = Some c \<and> canonical_cause (to_value c) = Some (to_value c)
      \<and> char_count (render c) \<le> MAX_RENDERED_CHARS) \<and>
   (from_value v = Some d \<longrightarrow> cause_ok d \<and> canonical_cause v = Some (to_value d) \<and> from_value (to_value d) = Some d)"
proof -
  have canonical: "canonical_cause w = Some (to_value e)" if "from_value w = Some e" "cause_ok e" for w e
    using that cause_document_size [OF that(2)] by (simp add: canonical_cause_def Let_def)
  show ?thesis using from_to_value canonical cause_line_size from_value_ok by blast
qed

definition example_cause :: cause where
  "example_cause = with_cleanup (with_stderr (exit_status 137) 42) Cleanup_workload_stop_unconfirmed"

theorem cause_codec_witness:
  "from_value (to_value example_cause) = Some example_cause \<and> char_count (render example_cause) \<le> MAX_RENDERED_CHARS \<and>
   canonical_cause (to_value example_cause) = Some (to_value example_cause)"
proof -
  have "cause_ok example_cause" by code_simp
  then show ?thesis using cause_codec [of example_cause "to_value example_cause" example_cause] by blast
qed

end
