(* ===== verification/Assistant_Request.thy ===== *)
theory Assistant_Request
  imports Routine_Plan Ascii_Json
begin

text \<open>
  The rules of one human request against the reviewed catalog of its Assistant, as the Team reads them from
  \<^verbatim>\<open>vendor/assistant-protocol/src/human_request.rs\<close> with the readers of \<^verbatim>\<open>python.rs\<close> and \<^verbatim>\<open>catalog.rs\<close>.

  An error code is a \<open>string option\<close>, \<open>None\<close> for an admitted request. \<open>pr\<close> is the printability of a text under
  the pinned Unicode table (generated data). A catalog is the map a reader builds from the reviewed messages.
\<close>

section \<open>Readers\<close>

definition member_of :: "(string \<times> json) list \<Rightarrow> string \<Rightarrow> json option" where
  "member_of ms key = map_option snd (find_by fst key ms)"

definition has_exactly :: "(string \<times> json) list \<Rightarrow> string list \<Rightarrow> bool" where
  "has_exactly ms keys \<longleftrightarrow> length ms = length keys \<and> list_all (\<lambda>key. member_of ms key \<noteq> None) keys"

fun as_object :: "json \<Rightarrow> (string \<times> json) list option" where
  "as_object (Object ms) = Some ms"
| "as_object _ = None"

fun as_array :: "json \<Rightarrow> json list option" where
  "as_array (Array xs) = Some xs"
| "as_array _ = None"

definition int_within :: "json \<Rightarrow> int \<Rightarrow> int \<Rightarrow> bool" where
  "int_within v low high = (case v of Number (Int64 i) \<Rightarrow> low \<le> i \<and> i \<le> high | _ \<Rightarrow> False)"

definition is_true :: "json \<Rightarrow> bool" where
  "is_true v = (v = Bool True)"

definition text_member :: "(string \<times> json) list \<Rightarrow> string \<Rightarrow> string option" where
  \<comment> \<open>\<open>member(members, key).and_then(string)\<close>\<close>
  "text_member ms key = Option.bind (member_of ms key) as_str"

definition is_space :: "nat \<Rightarrow> bool" where
  "is_space c \<longleftrightarrow> (9 \<le> c \<and> c \<le> 13) \<or> (0x1C \<le> c \<and> c \<le> 0x20) \<or> c = 0x85 \<or> c = 0xA0 \<or> c = 0x1680 \<or>
     (0x2000 \<le> c \<and> c \<le> 0x200A) \<or> c = 0x2028 \<or> c = 0x2029 \<or> c = 0x202F \<or> c = 0x205F \<or> c = 0x3000"

definition is_stripped :: "string \<Rightarrow> bool" where
  "is_stripped s = (let cs = text_chars s in cs = [] \<or> (\<not> is_space (hd cs) \<and> \<not> is_space (last cs)))"

section \<open>Catalogs\<close>

type_synonym message = "(string \<times> json) list"
type_synonym catalog = "string \<Rightarrow> message option"

definition catalog_by_id :: "json \<Rightarrow> catalog" where
  \<comment> \<open>a later duplicate wins\<close>
  "catalog_by_id messages = map_of (rev (List.map_filter
     (\<lambda>v. Option.bind (as_object v) (\<lambda>ms. map_option (\<lambda>i. (i, ms)) (text_member ms ''id'')))
     (case as_array messages of None \<Rightarrow> [] | Some xs \<Rightarrow> xs)))"

definition max_length :: "message \<Rightarrow> nat option" where
  "max_length ms = Option.bind (member_of ms ''max_length'') (\<lambda>v. Option.bind (small_int v) usize_of_int)"

section \<open>Copy references\<close>

definition BASE :: "string list" where
  "BASE = [''kind'', ''ordinal'', ''title'', ''description'']"

definition LENGTH_KINDS :: "(string \<times> int) list" where
  "LENGTH_KINDS = [(''input:text'', 4096), (''input:textarea'', 16000), (''input:password'', 1024), (''input:phone'', 64)]"

definition CHOICE_KINDS :: "string list" where
  "CHOICE_KINDS = [''input:select'', ''input:choice'']"

definition AUTH_KINDS :: "string list" where
  "AUTH_KINDS = [''auth:password'', ''auth:totp'', ''auth:passkey'']"

definition AUTHORIZATION_KINDS :: "string list" where
  "AUTHORIZATION_KINDS = [''approval'', ''auth:password'', ''auth:totp'', ''auth:passkey'']"

definition COPY_BOUNDS :: "(string \<times> nat) list" where
  "COPY_BOUNDS = [(''title'', 80), (''description'', 500), (''label'', 80), (''placeholder'', 120),
     (''option_label'', 80), (''option_description'', 160)]"

definition MAX_OPTIONS :: nat where "MAX_OPTIONS = 32"

definition host_label :: "(char \<Rightarrow> bool) \<Rightarrow> string \<Rightarrow> bool" where
  "host_label extra s = (let ch = (\<lambda>c. lower c \<or> digit c \<or> extra c) in
     1 \<le> length s \<and> length s \<le> 63 \<and> list_all (\<lambda>c. ch c \<or> c = CHR ''-'') s \<and> ch (hd s) \<and> ch (last s))"

definition domain_text :: "string \<Rightarrow> bool" where
  "domain_text s = (let labels = split_on (CHR ''.'') s in
     2 \<le> length labels \<and> list_all (host_label (\<lambda>_. False)) labels)"

definition dns_name_text :: "string \<Rightarrow> bool" where
  "dns_name_text s = list_all (host_label (\<lambda>c. c = CHR ''_'')) (split_on (CHR ''.'') s)"

definition identifier_text :: "string \<Rightarrow> bool" where
  "identifier_text s \<longleftrightarrow> s \<noteq> [] \<and> alnum (hd s) \<and>
     list_all (\<lambda>c. alnum c \<or> c \<in> {CHR ''.'', CHR ''_'', CHR '':'', CHR ''-''}) s"

definition power_limit :: "int \<Rightarrow> int" where
  \<comment> \<open>\<open>u32::try_from(maximum).ok().and_then(|e| 10_i64.checked_pow(e)).unwrap_or(i64::MAX)\<close>\<close>
  "power_limit maximum = (if 0 \<le> maximum \<and> maximum \<le> 18 then 10 ^ nat maximum else i64_max)"

definition param_value :: "json \<Rightarrow> json \<Rightarrow> bool" where
  "param_value declaration v = (case Option.bind (get declaration ''max_length'') small_int of
      None \<Rightarrow> False
    | Some maximum \<Rightarrow>
        let kind = (case Option.bind (get declaration ''kind'') as_str of None \<Rightarrow> [] | Some k \<Rightarrow> k) in
        if kind = ''integer'' then int_within v 0 (power_limit maximum - 1)
        else (case as_str v of
            None \<Rightarrow> False
          | Some s \<Rightarrow> int (char_count s) \<le> maximum \<and>
              (if kind = ''domain'' then domain_text s
               else if kind = ''dns_name'' then dns_name_text s
               else if kind = ''identifier'' then identifier_text s
               else False)))"

definition reference_error :: "json \<Rightarrow> catalog \<Rightarrow> nat \<Rightarrow> string option" where
  "reference_error reference cat bound = (case as_object reference of
      None \<Rightarrow> Some ''copy_reference''
    | Some ms \<Rightarrow>
        if \<not> has_exactly ms [''message'', ''params''] then Some ''copy_reference''
        else (case (Option.bind (text_member ms ''message'') cat, Option.bind (member_of ms ''params'') as_object) of
            (Some message, Some values) \<Rightarrow>
              if (case max_length message of None \<Rightarrow> True | Some n \<Rightarrow> n > bound) then Some ''copy_bound''
              else
                let declared = (case Option.bind (member_of message ''params'') as_array of None \<Rightarrow> [] | Some xs \<Rightarrow> xs);
                    names = List.map_filter (\<lambda>item. Option.bind (get item ''name'') as_str) declared;
                    same_names = (length values = length names \<and> list_all (\<lambda>(name, _). name \<in> set names) values);
                    admitted = (same_names \<and> list_all (\<lambda>item.
                      let name = (case Option.bind (get item ''name'') as_str of None \<Rightarrow> [] | Some s \<Rightarrow> s) in
                      (case member_of values name of None \<Rightarrow> False | Some v \<Rightarrow> param_value item v)) declared)
                in if admitted then None else Some ''copy_params''
          | _ \<Rightarrow> Some ''copy_reference''))"

definition strip_option :: "string \<Rightarrow> string" where
  "strip_option f = (if take 7 f = ''option_'' then drop 7 f else f)"

fun find_error :: "('a \<Rightarrow> string option) \<Rightarrow> 'a list \<Rightarrow> string option" where
  "find_error f [] = None"
| "find_error f (x # xs) = (case f x of Some e \<Rightarrow> Some e | None \<Rightarrow> find_error f xs)"

definition copy_error :: "(string \<times> json) list \<Rightarrow> catalog \<Rightarrow> (string \<times> bool) list \<Rightarrow> string option" where
  "copy_error ms cat named = find_error (\<lambda>(f, nullable). case member_of ms (strip_option f) of
      None \<Rightarrow> None
    | Some reference \<Rightarrow>
        if reference = Null \<and> nullable then None
        else reference_error reference cat (case find_by fst f COPY_BOUNDS of None \<Rightarrow> 0 | Some (_, b) \<Rightarrow> b)) named"

section \<open>Requests\<close>

definition base_error :: "json \<Rightarrow> catalog \<Rightarrow> string + (string \<times> json) list" where
  "base_error request cat = (case as_object request of
      None \<Rightarrow> Inl ''request_shape''
    | Some ms \<Rightarrow>
        if \<not> list_all (\<lambda>key. member_of ms key \<noteq> None) BASE then Inl ''request_shape''
        else if text_member ms ''kind'' = None
             \<or> (case member_of ms ''ordinal'' of None \<Rightarrow> True | Some v \<Rightarrow> \<not> int_within v 0 7)
          then Inl ''request_shape''
        else (case copy_error ms cat [(''title'', False), (''description'', False)] of
            Some e \<Rightarrow> Inl e | None \<Rightarrow> Inr ms))"

definition contains_pair :: "string \<Rightarrow> bool" where
  \<comment> \<open>\<open>text.contains("--")\<close>\<close>
  "contains_pair s = list_ex (\<lambda>(a, b). a = CHR ''-'' \<and> b = CHR ''-'') (zip s (drop 1 s))"

definition slot_identifier :: "string \<Rightarrow> bool" where
  "slot_identifier s \<longleftrightarrow> 1 \<le> length s \<and> length s \<le> 64 \<and> lower (hd s) \<and> last s \<noteq> CHR ''-'' \<and> \<not> contains_pair s \<and>
     list_all (\<lambda>c. lower c \<or> digit c \<or> c = CHR ''-'') s"

definition is_bool_member :: "(string \<times> json) list \<Rightarrow> string \<Rightarrow> bool" where
  "is_bool_member ms key = (case member_of ms key of Some (Bool _) \<Rightarrow> True | _ \<Rightarrow> False)"

definition range_error :: "json option \<Rightarrow> json option \<Rightarrow> int \<Rightarrow> string \<Rightarrow> string option" where
  "range_error minimum maximum limit code =
     (case (Option.bind minimum small_int, Option.bind maximum small_int) of
        (Some low, Some high) \<Rightarrow> if 0 \<le> low \<and> low \<le> high \<and> high \<le> limit then None else Some code
      | _ \<Rightarrow> Some code)"

definition length_error :: "(string \<times> json) list \<Rightarrow> int \<Rightarrow> catalog \<Rightarrow> string option" where
  "length_error ms limit cat =
     (let password = (text_member ms ''kind'' = Some ''input:password'');
          expected = BASE @ [''label'', ''required'', ''placeholder'', ''min_length'', ''max_length'']
            @ (if password then [''stored_input''] else []) in
      if \<not> has_exactly ms expected \<or> \<not> is_bool_member ms ''required'' then Some ''request_shape''
      else if (case member_of ms ''stored_input'' of None \<Rightarrow> False
               | Some slot \<Rightarrow> \<not> (case as_str slot of None \<Rightarrow> False | Some s \<Rightarrow> slot_identifier s)) then Some ''stored_input''
      else (case copy_error ms cat [(''label'', False), (''placeholder'', True)] of
          Some e \<Rightarrow> Some e
        | None \<Rightarrow> range_error (member_of ms ''min_length'') (member_of ms ''max_length'') limit ''length_bounds''))"

definition choice_text :: "(string \<Rightarrow> bool) \<Rightarrow> string \<Rightarrow> nat \<Rightarrow> bool" where
  "choice_text pr s maximum \<longleftrightarrow> is_stripped s \<and> 1 \<le> char_count s \<and> char_count s \<le> maximum \<and> pr s"

definition choice_option :: "(string \<Rightarrow> bool) \<Rightarrow> json \<Rightarrow> bool" where
  "choice_option pr v = (case as_object v of
      None \<Rightarrow> False
    | Some ms \<Rightarrow> has_exactly ms [''value'', ''label'', ''description''] \<and>
        (case text_member ms ''value'' of None \<Rightarrow> False | Some s \<Rightarrow> choice_text pr s 128))"

definition choice_error :: "(string \<Rightarrow> bool) \<Rightarrow> (string \<times> json) list \<Rightarrow> catalog \<Rightarrow> bool \<Rightarrow> string option" where
  "choice_error pr ms cat multiple =
     (let expected = BASE @ [''label'', ''required'', ''options'']
            @ (if multiple then [''min_selections'', ''max_selections''] else []) in
      if \<not> has_exactly ms expected \<or> \<not> is_bool_member ms ''required'' then Some ''request_shape''
      else
        let options = (case Option.bind (member_of ms ''options'') as_array of None \<Rightarrow> [] | Some xs \<Rightarrow> xs);
            values = List.map_filter (\<lambda>item. Option.bind (get item ''value'') as_str) options in
        if length options < 2 \<or> length options > MAX_OPTIONS \<or> \<not> list_all (choice_option pr) options then Some ''options''
        else if \<not> distinct values then Some ''options''
        else
          let copy = (case copy_error ms cat [(''label'', False)] of
              Some e \<Rightarrow> Some e
            | None \<Rightarrow> find_error (\<lambda>item. copy_error item cat [(''option_label'', False), (''option_description'', True)])
                (List.map_filter as_object options)) in
          if copy \<noteq> None \<or> \<not> multiple then copy
          else range_error (member_of ms ''min_selections'') (member_of ms ''max_selections'')
                 (i64_of_nat (length options)) ''selection_bounds'')"

definition request_error :: "(string \<Rightarrow> bool) \<Rightarrow> json \<Rightarrow> catalog \<Rightarrow> string option" where
  "request_error pr request cat = (case base_error request cat of
      Inl e \<Rightarrow> Some e
    | Inr ms \<Rightarrow>
        let kind = (case text_member ms ''kind'' of None \<Rightarrow> [] | Some k \<Rightarrow> k) in
        if kind = ''approval'' \<or> kind \<in> set AUTH_KINDS
          then (if length ms \<noteq> length BASE then Some ''request_shape'' else None)
        else (case find_by fst kind LENGTH_KINDS of
            Some (_, limit) \<Rightarrow> length_error ms limit cat
          | None \<Rightarrow>
              if kind \<in> set CHOICE_KINDS then choice_error pr ms cat False
              else if kind = ''input:choices'' then choice_error pr ms cat True
              else Some ''request_kind''))"

section \<open>What an admitted request is\<close>

lemma member_of_get: "member_of ms key = get (Object ms) key"
  by (simp add: member_of_def)

lemma text_member_Some: "text_member ms key = Some s \<longleftrightarrow> get (Object ms) key = Some (Str s)"
  by (cases "member_of ms key"; cases "the (member_of ms key)") (auto simp: text_member_def member_of_get)

lemma int_within_iff: "int_within v low high \<longleftrightarrow> (\<exists>i. v = Number (Int64 i) \<and> low \<le> i \<and> i \<le> high)"
  by (auto simp: int_within_def split: json.split number.split)

lemma base_error_Inr:
  assumes "base_error request cat = Inr ms"
  shows "request = Object ms" "list_all (\<lambda>key. member_of ms key \<noteq> None) BASE" "\<exists>k. get request ''kind'' = Some (Str k)"
    "\<exists>i. get request ''ordinal'' = Some (Number (Int64 i)) \<and> 0 \<le> i \<and> i \<le> 7"
proof -
  from assms have "as_object request = Some ms" and base: "list_all (\<lambda>key. member_of ms key \<noteq> None) BASE"
    and kind: "\<exists>k. text_member ms ''kind'' = Some k" and ord: "\<exists>v. member_of ms ''ordinal'' = Some v \<and> int_within v 0 7"
    by (auto simp: base_error_def split: option.splits if_splits)
  then show r: "request = Object ms" by (cases request) auto
  show "list_all (\<lambda>key. member_of ms key \<noteq> None) BASE" by (rule base)
  show "\<exists>k. get request ''kind'' = Some (Str k)" using kind unfolding r text_member_Some .
  show "\<exists>i. get request ''ordinal'' = Some (Number (Int64 i)) \<and> 0 \<le> i \<and> i \<le> 7"
    using ord unfolding r member_of_get int_within_iff by blast
qed

lemma request_admitted:
  assumes "request_error pr request cat = None"
  obtains ms where "base_error request cat = Inr ms" "request = Object ms"
proof (cases "base_error request cat")
  case (Inl e)
  then show ?thesis using assms by (simp add: request_error_def)
next
  case (Inr ms)
  then show ?thesis using that base_error_Inr(1) by blast
qed

text \<open>Only a password request may name a Stored Input.\<close>

lemma has_exactly_names:
  assumes "has_exactly ms keys" "distinct keys" "k \<in> fst ` set ms"
  shows "k \<in> set keys"
proof -
  have "set keys \<subseteq> fst ` set ms"
    using assms(1) by (auto simp: has_exactly_def list_all_iff member_of_def find_by_None)
  moreover have "card (fst ` set ms) \<le> card (set keys)"
    using assms(1,2) by (metis card_length has_exactly_def length_map list.set_map distinct_card)
  ultimately have "set keys = fst ` set ms" by (intro card_seteq) auto
  with assms(3) show ?thesis by simp
qed

lemma has_exactly_absent:
  assumes "has_exactly ms keys" "distinct keys" "k \<notin> set keys"
  shows "member_of ms k = None"
  using has_exactly_names [OF assms(1,2), of k] assms(3) by (auto simp: member_of_def find_by_None)

lemma stored_input_password:
  assumes "request_error pr request cat = None" "get request ''stored_input'' \<noteq> None"
  shows "get request ''kind'' = Some (Str ''input:password'')"
proof -
  from assms(1) obtain ms where b: "base_error request cat = Inr ms" and r: "request = Object ms"
    by (rule request_admitted)
  note base = base_error_Inr [OF b]
  from base(3) obtain k where k: "text_member ms ''kind'' = Some k" unfolding r text_member_Some [symmetric] ..
  have some: "member_of ms ''stored_input'' \<noteq> None" using assms(2) by (simp add: r member_of_get)
  have none: False if "has_exactly ms keys" "distinct keys" "''stored_input'' \<notin> set keys" for keys
    using has_exactly_absent [OF that] some by simp
  have err: "(if k = ''approval'' \<or> k \<in> set AUTH_KINDS
          then (if length ms \<noteq> length BASE then Some ''request_shape'' else None)
        else (case find_by fst k LENGTH_KINDS of
            Some (_, limit) \<Rightarrow> length_error ms limit cat
          | None \<Rightarrow>
              if k \<in> set CHOICE_KINDS then choice_error pr ms cat False
              else if k = ''input:choices'' then choice_error pr ms cat True
              else Some ''request_kind'')) = None"
    using assms(1) by (simp add: request_error_def b k Let_def)
  have "k \<noteq> ''approval'' \<and> k \<notin> set AUTH_KINDS"
  proof (rule ccontr)
    assume "\<not> ?thesis"
    then have "length ms = length BASE" using err by (auto split: if_splits)
    then show False using none [of BASE] base(2) by (simp add: has_exactly_def BASE_def)
  qed
  moreover have "choice_error pr ms cat m = None \<Longrightarrow> False" for m
    using none [of "BASE @ [''label'', ''required'', ''options''] @ (if m then [''min_selections'', ''max_selections''] else [])"]
    by (cases m) (auto simp: choice_error_def BASE_def split: if_splits)
  ultimately obtain limit where "length_error ms limit cat = None"
    using err by (auto split: option.splits if_splits)
  then have "k = ''input:password''"
    using none [of "BASE @ [''label'', ''required'', ''placeholder'', ''min_length'', ''max_length'']"] k
    by (auto simp: length_error_def BASE_def Let_def split: if_splits)
  then show ?thesis using k by (simp add: r text_member_Some del: get.simps)
qed

end
