(* ===== verification/Human_Transcript.thy ===== *)
theory Human_Transcript
  imports Assistant_Request
begin

text \<open>
  Human requests of Actions and the transcripts of their answers: \<^verbatim>\<open>action/src/human/mod.rs\<close>.

  \<open>validate_request\<close> admits one suspension against the binding's reviewed messages, \<open>admit_response\<close> one answer
  against its request, and \<open>append_response\<close> keeps the answers of a turn within its budgets. \<open>sha\<close> is the
  SHA-256 hexadecimal digest, \<open>pr\<close> the pinned printability table and \<open>read\<close> the reader of float literals.

  \<open>answered\<close> are the transcripts a turn reaches by admitted answers and finished Actions. Over them an
  authorization is exactly one person's \<open>true\<close>.
\<close>

definition MAX_REQUESTS_PER_ACTION :: nat where "MAX_REQUESTS_PER_ACTION = 8"
definition MAX_REQUESTS_PER_TURN :: nat where "MAX_REQUESTS_PER_TURN = 16"

definition COPY_FIELDS :: "string list" where
  "COPY_FIELDS = [''title'', ''description'', ''label'', ''placeholder'']"

definition OPTION_COPY_FIELDS :: "string list" where
  "OPTION_COPY_FIELDS = [''label'', ''description'']"

definition authorizes :: "string \<Rightarrow> bool" where
  "authorizes kind \<longleftrightarrow> kind \<in> set AUTHORIZATION_KINDS"

record human_request =
  hr_kind :: string
  hr_ordinal :: nat
  hr_fingerprint :: string
  hr_canonical :: string
  hr_stored_input :: "string option"
  hr_catalog :: string

definition parsed_or_null :: "f64_reader \<Rightarrow> string \<Rightarrow> json" where
  "parsed_or_null read bytes = (case parse read bytes of Inl _ \<Rightarrow> Null | Inr v \<Rightarrow> v)"

definition request_payload :: "f64_reader \<Rightarrow> human_request \<Rightarrow> json" where
  "request_payload read r = parsed_or_null read (hr_canonical r)"

definition request_messages :: "f64_reader \<Rightarrow> human_request \<Rightarrow> json" where
  "request_messages read r = parsed_or_null read (hr_catalog r)"

definition declared_stored_input :: "json \<Rightarrow> string list \<Rightarrow> string + string option" where
  "declared_stored_input request stored_inputs = (case get request ''stored_input'' of
      Some (Str i) \<Rightarrow> if i \<in> set stored_inputs then Inr (Some i)
        else Inl ''Assistant Action Stored Input request is undeclared''
    | _ \<Rightarrow> Inr None)"

definition framed :: "json \<Rightarrow> string \<Rightarrow> string" where
  "framed request fingerprint = (case request of
      Object ms \<Rightarrow> canonical (Object (ms @ [(''fingerprint'', Str fingerprint)]))
    | _ \<Rightarrow> canonical request)"

definition referenced_messages :: "json \<Rightarrow> string list" where
  "referenced_messages request =
     (let references = List.map_filter (get request) COPY_FIELDS
        @ (case get request ''options'' of
             Some (Array options) \<Rightarrow> concat (map (\<lambda>x. List.map_filter (get x) OPTION_COPY_FIELDS) options)
           | _ \<Rightarrow> [])
      in List.map_filter (\<lambda>reference. case get reference ''message'' of Some (Str i) \<Rightarrow> Some i | _ \<Rightarrow> None) references)"

definition referenced_catalog :: "json \<Rightarrow> catalog \<Rightarrow> string" where
  "referenced_catalog request cat = canonical (Array
     (List.map_filter (\<lambda>i. map_option Object (cat i)) (remdups_adj (sort (referenced_messages request)))))"

definition request_invalid :: string where
  "request_invalid = ''Assistant Action human request is invalid''"

definition validate_request ::
    "(string \<Rightarrow> string) \<Rightarrow> (string \<Rightarrow> bool) \<Rightarrow> json \<Rightarrow> string list \<Rightarrow> string list \<Rightarrow> json \<Rightarrow> string + human_request" where
  "validate_request sha pr v capabilities stored_inputs messages = (case v of
      Object ms \<Rightarrow> (case get v ''fingerprint'' of
          Some (Str fingerprint) \<Rightarrow>
            if \<not> sha256_re fingerprint then Inl request_invalid
            else
              let request = Object (filter (\<lambda>(name, _). name \<noteq> ''fingerprint'') ms);
                  cat = catalog_by_id messages in
              (case get request ''kind'' of
                 Some (Str kind) \<Rightarrow>
                   if kind \<notin> set capabilities then Inl request_invalid
                   else if request_error pr request cat \<noteq> None then Inl request_invalid
                   else if fingerprint \<noteq> sha (canonical request)
                     then Inl ''Assistant Action human request fingerprint is invalid''
                   else rbind (declared_stored_input request stored_inputs) (\<lambda>stored_input.
                     case get request ''ordinal'' of
                       Some (Number (Int64 i)) \<Rightarrow> rbind (ok_or (usize_of_int i) request_invalid) (\<lambda>ordinal.
                         Inr \<lparr>hr_kind = kind, hr_ordinal = ordinal, hr_fingerprint = fingerprint,
                              hr_canonical = framed request fingerprint, hr_stored_input = stored_input,
                              hr_catalog = referenced_catalog request cat\<rparr>)
                     | _ \<Rightarrow> Inl request_invalid)
               | _ \<Rightarrow> Inl request_invalid)
        | _ \<Rightarrow> Inl request_invalid)
    | _ \<Rightarrow> Inl request_invalid)"

section \<open>Answers\<close>

record human_response =
  hs_kind :: string
  hs_ordinal :: nat
  hs_fingerprint :: string
  hs_value :: json

definition response_payload :: "human_response \<Rightarrow> json" where
  "response_payload s = Object [(''kind'', Str (hs_kind s)), (''ordinal'', Number (Int64 (i64_of_nat (hs_ordinal s)))),
     (''fingerprint'', Str (hs_fingerprint s)), (''value'', hs_value s)]"

definition int_member :: "json \<Rightarrow> string \<Rightarrow> int option" where
  "int_member request key = (case get request key of Some (Number (Int64 i)) \<Rightarrow> Some i | _ \<Rightarrow> None)"

definition option_values :: "json \<Rightarrow> string list option" where
  "option_values request = (case get request ''options'' of
      Some (Array options) \<Rightarrow> Some (List.map_filter
        (\<lambda>x. case get x ''value'' of Some (Str s) \<Rightarrow> Some s | _ \<Rightarrow> None) options)
    | _ \<Rightarrow> None)"

definition is_optional :: "json \<Rightarrow> bool" where
  "is_optional request \<longleftrightarrow> get request ''required'' = Some (Bool False)"

fun all_strings :: "json list \<Rightarrow> string list option" where
  "all_strings [] = Some []"
| "all_strings (Str s # xs) = map_option (Cons s) (all_strings xs)"
| "all_strings (_ # xs) = None"

definition at_least :: "int option \<Rightarrow> int \<Rightarrow> bool" where
  "at_least minimum n = (case minimum of None \<Rightarrow> False | Some m \<Rightarrow> m \<le> n)"

definition at_most :: "int \<Rightarrow> int option \<Rightarrow> bool" where
  "at_most n maximum = (case maximum of None \<Rightarrow> False | Some m \<Rightarrow> n \<le> m)"

definition admitted_answer :: "json \<Rightarrow> string \<Rightarrow> json \<Rightarrow> bool" where
  "admitted_answer request kind v =
     (if authorizes kind then v = Bool True
      else if kind \<in> {''input:select'', ''input:choice''} then
        (case v of
           Str choice \<Rightarrow> (case option_values request of None \<Rightarrow> False
             | Some allowed \<Rightarrow> choice \<in> set allowed \<or> (choice = [] \<and> is_optional request))
         | _ \<Rightarrow> False)
      else if kind = ''input:choices'' then
        (case (v, option_values request) of
           (Array xs, Some allowed) \<Rightarrow> (case all_strings xs of None \<Rightarrow> False
             | Some chosen \<Rightarrow>
                 let count = i64_of_nat (length chosen) in
                 distinct chosen \<and> at_least (int_member request ''min_selections'') count \<and>
                 at_most count (int_member request ''max_selections'') \<and> set chosen \<subseteq> set allowed)
         | _ \<Rightarrow> False)
      else
        (case v of
           Str s \<Rightarrow>
             let count = i64_of_nat (char_count s) in
             (is_optional request \<or> s \<noteq> []) \<and> at_least (int_member request ''min_length'') count \<and>
             at_most count (int_member request ''max_length'')
         | _ \<Rightarrow> False))"

definition response_mismatch :: string where
  "response_mismatch = ''human response does not match its reviewed request''"

definition admit_response :: "f64_reader \<Rightarrow> human_request \<Rightarrow> json \<Rightarrow> string + human_response" where
  "admit_response read r v =
     (if \<not> admitted_answer (request_payload read r) (hr_kind r) v then Inl response_mismatch
      else Inr \<lparr>hs_kind = hr_kind r, hs_ordinal = hr_ordinal r, hs_fingerprint = hr_fingerprint r, hs_value = v\<rparr>)"

section \<open>Transcripts\<close>

record transcript =
  tr_interrupt :: string
  tr_responses :: "human_response list"

definition new_transcript :: "string \<Rightarrow> transcript" where
  "new_transcript interrupt = \<lparr>tr_interrupt = interrupt, tr_responses = []\<rparr>"

definition require_next :: "transcript \<Rightarrow> human_request \<Rightarrow> string + unit" where
  "require_next t r =
     (if length (tr_responses t) \<ge> MAX_REQUESTS_PER_ACTION \<or> hr_ordinal r \<noteq> length (tr_responses t)
      then Inl ''Assistant Action human request sequence is invalid'' else Inr ())"

definition append_answer :: "f64_reader \<Rightarrow> transcript \<Rightarrow> human_request \<Rightarrow> json \<Rightarrow> string + transcript" where
  "append_answer read t r v =
     (if hr_stored_input r \<noteq> None then Inl ''Assistant Action Stored Input is answered by injection''
      else rbind (require_next t r) (\<lambda>_.
        if authorizes (hr_kind r) \<and> list_ex (\<lambda>s. authorizes (hs_kind s)) (tr_responses t)
        then Inl ''Assistant Action requested authorization more than once''
        else rbind (admit_response read r v) (\<lambda>s. Inr (t\<lparr>tr_responses := tr_responses t @ [s]\<rparr>))))"

definition authorized :: "transcript \<Rightarrow> string list \<Rightarrow> bool" where
  "authorized t human_requests = (case filter authorizes human_requests of
      [kind] \<Rightarrow> list_ex (\<lambda>s. hs_kind s = kind) (tr_responses t)
    | _ \<Rightarrow> False)"

definition transcript_payloads :: "transcript \<Rightarrow> json list" where
  "transcript_payloads t = map response_payload (tr_responses t)"

record admission =
  ad_transcripts :: "transcript list"
  ad_requests_used :: nat
  ad_stored_input :: "(string \<times> string) option"

definition append_response ::
    "f64_reader \<Rightarrow> transcript list \<Rightarrow> string \<Rightarrow> human_request \<Rightarrow> json \<Rightarrow> nat \<Rightarrow> string + admission" where
  "append_response read transcripts interrupt r v used =
     (if used \<ge> MAX_REQUESTS_PER_TURN then Inl ''Team turn exceeded its human request limit''
      else
        let matching = filter (\<lambda>t. tr_interrupt t = interrupt) transcripts in
        if length matching > 1 then Inl ''Action human transcript is ambiguous''
        else
          let current = (case matching of [] \<Rightarrow> new_transcript interrupt | t # _ \<Rightarrow> t) in
          (case hr_stored_input r of
             Some i \<Rightarrow> rbind (require_next current r) (\<lambda>_. rbind (admit_response read r v) (\<lambda>s.
               case hs_value s of
                 Str secret \<Rightarrow> Inr \<lparr>ad_transcripts = transcripts, ad_requests_used = used + 1,
                                  ad_stored_input = Some (i, secret)\<rparr>
               | _ \<Rightarrow> Inl response_mismatch))
           | None \<Rightarrow> rbind (append_answer read current r v) (\<lambda>updated.
               Inr \<lparr>ad_transcripts = filter (\<lambda>t. tr_interrupt t \<noteq> interrupt) transcripts @ [updated],
                    ad_requests_used = used + 1, ad_stored_input = None\<rparr>)))"

definition retain_unfinished :: "transcript list \<Rightarrow> string list \<Rightarrow> transcript list" where
  "retain_unfinished transcripts completed = filter (\<lambda>t. tr_interrupt t \<notin> set completed) transcripts"

section \<open>What the transcripts of a turn hold\<close>

definition transcript_ok :: "transcript \<Rightarrow> bool" where
  "transcript_ok t \<longleftrightarrow>
     length (tr_responses t) \<le> MAX_REQUESTS_PER_ACTION \<and>
     map hs_ordinal (tr_responses t) = [0..<length (tr_responses t)] \<and>
     length (filter (\<lambda>s. authorizes (hs_kind s)) (tr_responses t)) \<le> 1 \<and>
     list_all (\<lambda>s. authorizes (hs_kind s) \<longrightarrow> hs_value s = Bool True) (tr_responses t)"

text \<open>The transcripts and the request budget one turn reaches, from none.\<close>

inductive answered :: "f64_reader \<Rightarrow> transcript list \<Rightarrow> nat \<Rightarrow> bool" for read where
  begun: "answered read [] 0"
| answer: "answered read ts used \<Longrightarrow> append_response read ts interrupt r v used = Inr adm \<Longrightarrow>
    answered read (ad_transcripts adm) (ad_requests_used adm)"
| finish: "answered read ts used \<Longrightarrow> answered read (retain_unfinished ts completed) used"

lemma new_transcript_ok: "transcript_ok (new_transcript i)"
  by (simp add: transcript_ok_def new_transcript_def)

lemma append_answer_ok:
  assumes "transcript_ok t" "append_answer read t r v = Inr t'"
  shows "transcript_ok t'" "tr_interrupt t' = tr_interrupt t"
proof -
  from assms(2) obtain s where s: "admit_response read r v = Inr s" "t' = t\<lparr>tr_responses := tr_responses t @ [s]\<rparr>"
    "length (tr_responses t) < MAX_REQUESTS_PER_ACTION" "hr_ordinal r = length (tr_responses t)"
    "authorizes (hr_kind r) \<longrightarrow> \<not> list_ex (\<lambda>s. authorizes (hs_kind s)) (tr_responses t)"
    by (auto simp: append_answer_def require_next_def rbind_eq_Inr split: if_splits)
  have r: "hs_kind s = hr_kind r" "hs_ordinal s = hr_ordinal r" "authorizes (hr_kind r) \<longrightarrow> hs_value s = Bool True"
    using s(1) by (auto simp: admit_response_def admitted_answer_def split: if_splits)
  have none: "authorizes (hr_kind r) \<Longrightarrow> filter (\<lambda>s. authorizes (hs_kind s)) (tr_responses t) = []"
    using s(5) by (auto simp: list_ex_iff filter_empty_conv)
  show "transcript_ok t'" "tr_interrupt t' = tr_interrupt t"
    using assms(1) s none r by (auto simp: transcript_ok_def)
qed

lemma sum_list_split:
  "sum_list (map f (filter P xs)) + sum_list (map f (filter (\<lambda>x. \<not> P x) xs)) = (sum_list (map f xs) :: nat)"
  by (induction xs) auto

lemma append_response_Inr:
  assumes "append_response read ts interrupt r v used = Inr adm"
  obtains (stored) "ad_transcripts adm = ts" "ad_requests_used adm = used + 1" "used < MAX_REQUESTS_PER_TURN"
  | (answered) t t' where "filter (\<lambda>t. tr_interrupt t = interrupt) ts = [] \<and> t = new_transcript interrupt
        \<or> filter (\<lambda>t. tr_interrupt t = interrupt) ts = [t]"
      "append_answer read t r v = Inr t'" "hr_stored_input r = None" "used < MAX_REQUESTS_PER_TURN"
      "ad_transcripts adm = filter (\<lambda>t. tr_interrupt t \<noteq> interrupt) ts @ [t']" "ad_requests_used adm = used + 1"
proof -
  let ?matching = "filter (\<lambda>t. tr_interrupt t = interrupt) ts"
  define t where "t = (case ?matching of [] \<Rightarrow> new_transcript interrupt | t # _ \<Rightarrow> t)"
  have used: "used < MAX_REQUESTS_PER_TURN" and one: "length ?matching \<le> 1"
    using assms by (auto simp: append_response_def Let_def split: if_splits)
  have t: "?matching = [] \<and> t = new_transcript interrupt \<or> ?matching = [t]"
    using one by (cases ?matching; cases "tl ?matching") (simp_all add: t_def)
  note eq = assms [unfolded append_response_def Let_def t_def [symmetric]]
  show ?thesis
  proof (cases "hr_stored_input r")
    case None
    then obtain t' where "append_answer read t r v = Inr t'"
      "ad_transcripts adm = filter (\<lambda>t. tr_interrupt t \<noteq> interrupt) ts @ [t']" "ad_requests_used adm = used + 1"
      using eq by (auto simp: rbind_eq_Inr split: if_splits)
    then show ?thesis using answered t None used by blast
  next
    case (Some i)
    then obtain s :: human_response where "(case hs_value s of
        Str secret \<Rightarrow> Inr \<lparr>ad_transcripts = ts, ad_requests_used = used + 1, ad_stored_input = Some (i, secret)\<rparr>
      | _ \<Rightarrow> Inl response_mismatch) = Inr adm"
      using eq by (auto simp: rbind_eq_Inr split: if_split_asm)
    then have "ad_transcripts adm = ts \<and> ad_requests_used adm = used + 1" by (cases "hs_value s") auto
    then show ?thesis using stored used by blast
  qed
qed

definition turn_ok :: "transcript list \<Rightarrow> nat \<Rightarrow> bool" where
  "turn_ok ts used \<longleftrightarrow> distinct (map tr_interrupt ts) \<and> list_all transcript_ok ts \<and> used \<le> MAX_REQUESTS_PER_TURN \<and>
     sum_list (map (\<lambda>t. length (tr_responses t)) ts) \<le> used"

lemma answered_ok:
  assumes "answered read ts used"
  shows "turn_ok ts used"
  using assms
proof (induction rule: answered.induct)
  case (answer ts used interrupt r v adm)
  let ?count = "\<lambda>ts. sum_list (map (\<lambda>t. length (tr_responses t)) ts)"
  from answer.hyps(2) show ?case
  proof (cases rule: append_response_Inr)
    case (answered t t')
    have t: "transcript_ok t" "tr_interrupt t = interrupt"
      "?count (filter (\<lambda>t. tr_interrupt t = interrupt) ts) = length (tr_responses t)"
      using answered(1) answer.IH new_transcript_ok filter_eq_ConsD [of "\<lambda>t. tr_interrupt t = interrupt" ts t "[]"]
      by (auto simp: new_transcript_def turn_ok_def list_all_iff)
    note new = append_answer_ok [OF t(1) answered(2)]
    have more: "length (tr_responses t') = Suc (length (tr_responses t))"
      using answered(2) by (auto simp: append_answer_def rbind_eq_Inr split: if_splits)
    have "?count (filter (\<lambda>t. tr_interrupt t \<noteq> interrupt) ts) + length (tr_responses t) \<le> used"
      using sum_list_split [of "\<lambda>t. length (tr_responses t)" "\<lambda>t. tr_interrupt t = interrupt" ts] t(3) answer.IH
      by (simp add: turn_ok_def)
    then show ?thesis
      using answer.IH answered(4-6) new t(2) more by (auto simp: turn_ok_def distinct_map_filter list_all_iff)
  qed (use answer.IH in \<open>simp add: turn_ok_def\<close>)
next
  case (finish ts used completed)
  have "sum_list (map (\<lambda>t. length (tr_responses t)) (filter (\<lambda>t. tr_interrupt t \<notin> set completed) ts))
      \<le> sum_list (map (\<lambda>t. length (tr_responses t)) ts)"
    by (induction ts) auto
  then show ?case using finish by (auto simp: turn_ok_def retain_unfinished_def list_all_iff distinct_map_filter)
qed (simp add: turn_ok_def)

lemma authorized_answer:
  assumes "transcript_ok t" "authorized t hrs"
  obtains kind s where "filter authorizes hrs = [kind]" "filter (\<lambda>s. authorizes (hs_kind s)) (tr_responses t) = [s]"
    "hs_kind s = kind" "hs_value s = Bool True"
proof -
  from assms(2) obtain kind s where k: "filter authorizes hrs = [kind]" "s \<in> set (tr_responses t)" "hs_kind s = kind"
    by (auto simp: authorized_def list_ex_iff split: list.splits)
  have "authorizes kind" using k(1) by (metis filter_eq_ConsD)
  then have mem: "s \<in> set (filter (\<lambda>s. authorizes (hs_kind s)) (tr_responses t))" using k by simp
  moreover have "length (filter (\<lambda>s. authorizes (hs_kind s)) (tr_responses t)) \<le> 1" using assms(1) by (simp add: transcript_ok_def)
  ultimately have "filter (\<lambda>s. authorizes (hs_kind s)) (tr_responses t) = [s]"
    by (cases "filter (\<lambda>s. authorizes (hs_kind s)) (tr_responses t)") auto
  moreover have "hs_value s = Bool True" using assms(1) k \<open>authorizes kind\<close> by (auto simp: transcript_ok_def list_all_iff)
  ultimately show ?thesis using that k by simp
qed

text \<open>C16: An authorization is one person's consent. However a turn's human requests are answered, each Action's transcript
  holds its answers in the exact order of its requests, at most eight of them and sixteen over the turn, one transcript
  per Action; and an Action counts as authorized only when it declares exactly one authorization kind and its transcript
  holds exactly one authorizing answer, to that kind, whose value is \<open>true\<close>.\<close>
theorem authorization_is_consent:
  assumes "answered read ts used" "t \<in> set ts"
  shows "map hs_ordinal (tr_responses t) = [0..<length (tr_responses t)] \<and> length (tr_responses t) \<le> 8 \<and> used \<le> 16 \<and>
    sum_list (map (\<lambda>t. length (tr_responses t)) ts) \<le> used \<and>
    (\<forall>u \<in> set ts. tr_interrupt u = tr_interrupt t \<longrightarrow> u = t) \<and>
    (authorized t hrs \<longrightarrow> (\<exists>kind s. filter authorizes hrs = [kind] \<and>
       filter (\<lambda>s. authorizes (hs_kind s)) (tr_responses t) = [s] \<and> hs_kind s = kind \<and> hs_value s = Bool True))"
proof -
  have ok: "turn_ok ts used" by (rule answered_ok [OF assms(1)])
  then have t: "transcript_ok t" and dist: "distinct (map tr_interrupt ts)" using assms(2) by (auto simp: turn_ok_def list_all_iff)
  have "u = t" if "u \<in> set ts" "tr_interrupt u = tr_interrupt t" for u
    using dist that assms(2) by (simp add: distinct_map inj_on_def)
  moreover have "\<exists>kind s. filter authorizes hrs = [kind] \<and> filter (\<lambda>s. authorizes (hs_kind s)) (tr_responses t) = [s] \<and>
      hs_kind s = kind \<and> hs_value s = Bool True" if "authorized t hrs"
    using authorized_answer [OF t that] by metis
  ultimately show ?thesis
    using ok t by (auto simp: turn_ok_def transcript_ok_def MAX_REQUESTS_PER_ACTION_def MAX_REQUESTS_PER_TURN_def)
qed

definition example_request :: human_request where
  "example_request = \<lparr>hr_kind = ''approval'', hr_ordinal = 0, hr_fingerprint = replicate 64 (CHR ''a''),
     hr_canonical = ''{}'', hr_stored_input = None, hr_catalog = ''[]''\<rparr>"

definition example_transcript :: transcript where
  "example_transcript = \<lparr>tr_interrupt = ''i1'', tr_responses =
     [\<lparr>hs_kind = ''approval'', hs_ordinal = 0, hs_fingerprint = replicate 64 (CHR ''a''), hs_value = Bool True\<rparr>]\<rparr>"

lemma example_answered: "answered read [example_transcript] 1"
proof -
  have "append_response read [] ''i1'' example_request (Bool True) 0 =
      Inr \<lparr>ad_transcripts = [example_transcript], ad_requests_used = 1, ad_stored_input = None\<rparr>"
    by (simp add: append_response_def append_answer_def require_next_def admit_response_def admitted_answer_def
        example_request_def example_transcript_def new_transcript_def authorizes_def AUTHORIZATION_KINDS_def
        MAX_REQUESTS_PER_ACTION_def MAX_REQUESTS_PER_TURN_def)
  from answered.answer [OF answered.begun this] show ?thesis by simp
qed

theorem authorization_is_consent_witness:
  "authorized example_transcript [''input:text'', ''approval''] \<and>
   (\<exists>s. filter (\<lambda>s. authorizes (hs_kind s)) (tr_responses example_transcript) = [s] \<and> hs_value s = Bool True)"
proof -
  have a: "authorized example_transcript [''input:text'', ''approval'']"
    by (simp add: authorized_def example_transcript_def authorizes_def AUTHORIZATION_KINDS_def)
  from authorization_is_consent [OF example_answered, of example_transcript "[''input:text'', ''approval'']"] a
  show ?thesis by auto
qed

end
