(* ===== verification/Action_Executor.thy ===== *)
theory Action_Executor
  imports Action_Cause Human_Transcript
begin

text \<open>
  The seam through which every caller runs Actions: \<^verbatim>\<open>action/src/executor.rs\<close>, with the declared Action of
  \<^verbatim>\<open>assistant/src/spec.rs\<close> it names.

  An \<open>action_error\<close> is a closed failure and the cause the Team observed. A cause only describes: the lemmas say
  that completing a cause with the journal's own failure never hides a workload whose stop is unconfirmed.
\<close>

record action_spec =
  sp_id :: string
  sp_summary :: string
  sp_input_schema :: json
  sp_output_schema :: json
  sp_integrations :: "string list"
  sp_stored_inputs :: "string list"
  sp_human_requests :: "string list"
  sp_input_files :: "string list"
  sp_effect :: string
  sp_verifier :: "json option"
  sp_idempotency :: "json option"

record action_file =
  af_id :: string
  af_name :: string
  af_media_type :: string
  af_size :: int
  af_sha256 :: string

record action_request =
  rq_interrupt :: string
  rq_assistant :: string
  rq_action :: string
  rq_input :: json
  rq_files :: "action_file list"

record batch_scope =
  sc_team :: string
  sc_generation :: string
  sc_thread :: string
  sc_routine :: bool
  sc_transcripts :: "transcript list"

datatype invoke_outcome = Invoked json | Asked json

datatype action_failure =
    Failure_not_declared | Failure_invalid_input | Failure_context_changed | Failure_blocked | Failure_human_request_required | Failure_stopped
  | Failure_uncertain | Failure_failed | Failure_state_unavailable | Failure_docker_unavailable
  | Failure_integration_unavailable | Failure_file_unavailable | Failure_file_busy

record action_error =
  ae_failure :: action_failure
  ae_cause :: "cause option"

definition new_error :: "action_failure \<Rightarrow> cause \<Rightarrow> action_error" where
  "new_error failure cause = \<lparr>ae_failure = failure, ae_cause = Some cause\<rparr>"

text \<open>The one condition a failure implies; an uncertain and a handled failure imply none.\<close>

fun implied :: "action_failure \<Rightarrow> cause_condition option" where
  "implied Failure_not_declared = Some Cond_action_not_declared"
| "implied Failure_invalid_input = Some Cond_input_invalid"
| "implied Failure_context_changed = Some Cond_context_changed"
| "implied Failure_blocked = Some Cond_workload_blocked"
| "implied Failure_human_request_required = Some Cond_human_request_required"
| "implied Failure_stopped = Some Cond_stopped"
| "implied Failure_uncertain = None"
| "implied Failure_failed = None"
| "implied Failure_state_unavailable = Some Cond_journal_unavailable"
| "implied Failure_docker_unavailable = Some Cond_docker_unavailable"
| "implied Failure_integration_unavailable = Some Cond_integration_unavailable"
| "implied Failure_file_unavailable = Some Cond_file_unavailable"
| "implied Failure_file_busy = Some Cond_file_busy"

definition error_at :: "action_failure \<Rightarrow> cause_phase \<Rightarrow> action_error" where
  "error_at failure phase = (case implied failure of
      None \<Rightarrow> \<lparr>ae_failure = failure, ae_cause = None\<rparr>
    | Some condition \<Rightarrow> new_error failure (new_cause condition phase))"

definition journal_cleanup :: "cause \<Rightarrow> cause" where
  "journal_cleanup c = (case ca_cleanup c of
      Some Cleanup_workload_stop_unconfirmed \<Rightarrow> c
    | _ \<Rightarrow> with_cleanup c Cleanup_journal_unavailable)"

datatype audit_unavailable = Audit_refused | Audit_unwritten | Audit_closed

fun audit_condition :: "audit_unavailable \<Rightarrow> cause_condition" where
  "audit_condition Audit_refused = Cond_record_refused"
| "audit_condition Audit_unwritten = Cond_write_failed"
| "audit_condition Audit_closed = Cond_journal_closed"

lemma error_at_failure [simp]: "ae_failure (error_at failure phase) = failure"
  by (simp add: error_at_def new_error_def split: option.split)

lemma new_error_simps [simp]: "ae_failure (new_error f c) = f" "ae_cause (new_error f c) = Some c"
  by (simp_all add: new_error_def)

lemma new_cause_ok:
  "c \<notin> {Cond_exit_status, Cond_output_too_large, Cond_stderr_output} \<Longrightarrow> cause_ok (new_cause c p)"
  by (simp add: cause_ok_def new_cause_def cause_fits_def)

lemma cause_ok_cleanup [simp]: "cause_ok (with_cleanup c k) \<longleftrightarrow> cause_ok c"
  by (simp add: cause_ok_def with_cleanup_def)

lemma journal_cleanup_keeps:
  "ca_condition (journal_cleanup c) = ca_condition c" "ca_phase (journal_cleanup c) = ca_phase c"
  "ca_cleanup c = Some Cleanup_workload_stop_unconfirmed \<Longrightarrow> journal_cleanup c = c"
  "ca_cleanup (journal_cleanup c) \<in> {Some Cleanup_workload_stop_unconfirmed, Some Cleanup_journal_unavailable}"
  by (auto simp: journal_cleanup_def with_cleanup_def split: option.split cause_cleanup.split)

lemma error_at_ok: "ae_cause (error_at f p) = Some c \<Longrightarrow> cause_ok c"
  by (cases f) (auto simp: error_at_def new_error_def intro!: new_cause_ok)

end
