(* ===== verification/Exec_Frames.thy ===== *)
theory Exec_Frames
  imports Action_Executor
begin

text \<open>
  The exec frame exchange of one Action process: \<^verbatim>\<open>action/src/frames/mod.rs\<close>.

  \<open>frame_reader\<close> parses Docker's multiplexed frames incrementally; \<open>feed\<close> is its loop, \<open>next_call\<close> the line
  protocol and \<open>finish\<close> the end of stream. \<open>exchange_loop\<close> is the read/write loop over what the operating system
  reports, one \<open>io_event\<close> after another; \<open>read\<close> is the reader of float literals of the line parser, and the
  provider broker's replies are an argument.

  \<open>frames_of\<close> is the reference: a whole byte stream cut into frames at once. \<open>feed\<close> agrees with it however the
  stream arrives in pieces.
\<close>

definition FRAME_HEADER_BYTES :: nat where "FRAME_HEADER_BYTES = 8"
definition CHUNK_BYTES :: nat where "CHUNK_BYTES = 64 * 1024"

datatype frame_error = Frame_timeout | Frame_invalid cause | Frame_transport cause

definition invalid_frame :: "cause_condition \<Rightarrow> frame_error" where
  "invalid_frame c = Frame_invalid (new_cause c Phase_exchange)"

definition transport_error :: "cause_condition \<Rightarrow> frame_error" where
  "transport_error c = Frame_transport (new_cause c Phase_exchange)"

definition too_large :: "nat \<Rightarrow> frame_error" where
  "too_large n = Frame_invalid (output_too_large n Phase_exchange)"

record frame_reader =
  fr_maximum :: nat
  fr_pending :: string
  fr_stdout :: string
  fr_stderr :: string
  fr_terminal :: "nat option"

definition new_reader :: "nat \<Rightarrow> frame_reader" where
  "new_reader maximum = \<lparr>fr_maximum = maximum, fr_pending = [], fr_stdout = [], fr_stderr = [], fr_terminal = None\<rparr>"

definition be32 :: "string \<Rightarrow> nat" where
  \<comment> \<open>\<open>u32::from_be_bytes\<close> of four bytes\<close>
  "be32 bs = foldl (\<lambda>n c. n * 256 + byte_of c) 0 bs"

text \<open>One turn of the loop of \<open>feed\<close>: no complete frame, an error, or a frame taken.\<close>

definition take_frame :: "frame_reader \<Rightarrow> (frame_error + frame_reader) option" where
  "take_frame r =
     (let pending = fr_pending r in
      if length pending < FRAME_HEADER_BYTES then None
      else
        let stream = byte_of (pending ! 0); count = be32 (take 4 (drop 4 pending)) in
        if stream \<notin> {1, 2} then Some (Inl (invalid_frame Cond_stream_unknown))
        else if count > fr_maximum r + 1 then Some (Inl (too_large count))
        else if length pending < FRAME_HEADER_BYTES + count then None
        else
          let payload = take count (drop FRAME_HEADER_BYTES pending);
              r' = (if stream = 1 then r\<lparr>fr_stdout := fr_stdout r @ payload\<rparr> else r\<lparr>fr_stderr := fr_stderr r @ payload\<rparr>);
              r' = r'\<lparr>fr_pending := drop (FRAME_HEADER_BYTES + count) pending\<rparr>;
              held = length (fr_stdout r') + length (fr_stderr r') in
          if held > fr_maximum r then Some (Inl (too_large held)) else Some (Inr r'))"

lemma take_frame_shorter: "take_frame r = Some (Inr r') \<Longrightarrow> length (fr_pending r') < length (fr_pending r)"
  by (auto simp: take_frame_def Let_def FRAME_HEADER_BYTES_def split: if_splits)

function drain_frames :: "frame_reader \<Rightarrow> frame_error + frame_reader" where
  "drain_frames r = (case take_frame r of
      None \<Rightarrow> Inr r
    | Some (Inl e) \<Rightarrow> Inl e
    | Some (Inr r') \<Rightarrow> drain_frames r')"
  by pat_completeness auto
termination
  by (relation "measure (length \<circ> fr_pending)") (auto dest: take_frame_shorter)

declare drain_frames.simps [simp del]

definition feed :: "frame_reader \<Rightarrow> string \<Rightarrow> frame_error + frame_reader" where
  "feed r chunk = drain_frames (r\<lparr>fr_pending := fr_pending r @ chunk\<rparr>)"

definition next_call :: "f64_reader \<Rightarrow> frame_reader \<Rightarrow> frame_error + json option \<times> frame_reader" where
  "next_call read r =
     rbind (case fr_terminal r of
         Some _ \<Rightarrow> Inr (None, r)
       | None \<Rightarrow>
           if CHR 0x0A \<notin> set (fr_stdout r) then Inr (None, r)
           else
             let line = takeWhile (\<lambda>c. c \<noteq> CHR 0x0A) (fr_stdout r); rest = drop (length line + 1) (fr_stdout r) in
             (case parse read line of
                Inl _ \<Rightarrow> Inl (invalid_frame Cond_line_not_json)
              | Inr v \<Rightarrow>
                  if is_object v \<and> get v ''type'' = Some (Str ''fetch'') then Inr (Some v, r\<lparr>fr_stdout := rest\<rparr>)
                  else Inr (None, r\<lparr>fr_terminal := Some (length line + 1)\<rparr>)))
       (\<lambda>(frame, r). case fr_terminal r of
            Some n \<Rightarrow> if length (fr_stdout r) > n then Inl (invalid_frame Cond_output_after_terminal) else Inr (frame, r)
          | None \<Rightarrow> Inr (frame, r))"

definition finish_frames :: "frame_reader \<Rightarrow> frame_error + string \<times> string" where
  "finish_frames r = (if fr_pending r = [] then Inr (fr_stdout r, fr_stderr r)
     else Inl (invalid_frame Cond_frame_truncated))"

section \<open>The loop\<close>

datatype io_event =
    Wrote "nat option" \<comment> \<open>the bytes one write sent, or its failure\<close>
  | Got "string option" \<comment> \<open>what one read returned, \<open>[]\<close> at the end of stream, or its failure\<close>

record exchange_state =
  es_pending :: string
  es_frames :: frame_reader
  es_closed :: bool
  es_calls :: "json list" \<comment> \<open>the provider calls answered so far\<close>

definition settle_write :: "nat option \<Rightarrow> string \<Rightarrow> bool \<Rightarrow> frame_error + string" where
  "settle_write written pending replies = (case written of
      Some n \<Rightarrow> Inr (drop n pending)
    | None \<Rightarrow> if replies then Inl (transport_error Cond_reply_write_failed) else Inr [])"

definition answer_call ::
    "f64_reader \<Rightarrow> (json \<Rightarrow> frame_error + string) \<Rightarrow> exchange_state \<Rightarrow> frame_error + exchange_state" where
  "answer_call read broker s = rbind (next_call read (es_frames s)) (\<lambda>(frame, frames).
     case frame of
       None \<Rightarrow> Inr (s\<lparr>es_frames := frames, es_pending := []\<rparr>)
     | Some call \<Rightarrow> rbind (broker call) (\<lambda>reply.
         Inr (s\<lparr>es_frames := frames, es_pending := reply @ [CHR 0x0A], es_calls := es_calls s @ [call]\<rparr>)))"

text \<open>One turn of the loop: \<open>Inr (Inr _)\<close> is the end of stream. Without a broker (\<open>None\<close>) stdin is half-closed once
  it is written.\<close>

definition exchange_turn ::
    "f64_reader \<Rightarrow> (json \<Rightarrow> frame_error + string) option \<Rightarrow> io_event \<Rightarrow> exchange_state
       \<Rightarrow> frame_error + (exchange_state + string \<times> string)" where
  "exchange_turn read broker event s =
     (let then_answer = (\<lambda>s. case broker of
            Some answer \<Rightarrow> if es_pending s = [] then rbind (answer_call read answer s) (\<lambda>s. Inr (Inl s)) else Inr (Inl s)
          | None \<Rightarrow> Inr (Inl s)) in
      case event of
        Wrote written \<Rightarrow>
          if es_pending s = [] then Inr (Inl s)
          else rbind (settle_write written (es_pending s) (broker \<noteq> None)) (\<lambda>pending.
            then_answer (s\<lparr>es_pending := pending,
              es_closed := es_closed s \<or> (pending = [] \<and> broker = None)\<rparr>))
      | Got None \<Rightarrow> Inl (transport_error Cond_stream_failed)
      | Got (Some chunk) \<Rightarrow>
          if chunk = [] then map_sum id Inr (finish_frames (es_frames s))
          else rbind (feed (es_frames s) chunk) (\<lambda>frames. then_answer (s\<lparr>es_frames := frames\<rparr>)))"

fun exchange_loop ::
    "f64_reader \<Rightarrow> (json \<Rightarrow> frame_error + string) option \<Rightarrow> io_event list \<Rightarrow> exchange_state
       \<Rightarrow> frame_error + string \<times> string" where
  \<comment> \<open>the events end where the deadline passes\<close>
  "exchange_loop read broker [] s = Inl Frame_timeout"
| "exchange_loop read broker (event # events) s = (case exchange_turn read broker event s of
      Inl e \<Rightarrow> Inl e
    | Inr (Inr out) \<Rightarrow> Inr out
    | Inr (Inl s') \<Rightarrow> exchange_loop read broker events s')"

definition exchange_frames ::
    "f64_reader \<Rightarrow> (json \<Rightarrow> frame_error + string) option \<Rightarrow> string \<Rightarrow> nat \<Rightarrow> io_event list \<Rightarrow> frame_error + string \<times> string" where
  "exchange_frames read broker bytes maximum events =
     exchange_loop read broker events \<lparr>es_pending = bytes @ (if broker = None then [] else [CHR 0x0A]),
       es_frames = new_reader maximum, es_closed = False, es_calls = []\<rparr>"

section \<open>Pieces do not matter\<close>

lemma take_frame_append:
  assumes "take_frame r = Some x"
  shows "take_frame (r\<lparr>fr_pending := fr_pending r @ tail\<rparr>) =
    Some (map_sum id (\<lambda>r'. r'\<lparr>fr_pending := fr_pending r' @ tail\<rparr>) x)"
proof -
  have long: "8 \<le> length (fr_pending r)"
    using assms by (auto simp: take_frame_def Let_def FRAME_HEADER_BYTES_def split: if_splits)
  then have eq: "(fr_pending r @ tail) ! 0 = fr_pending r ! 0"
    "take 4 (drop 4 (fr_pending r @ tail)) = take 4 (drop 4 (fr_pending r))"
    by (cases "fr_pending r"; simp)+
  show ?thesis
    using assms long by (auto simp: take_frame_def Let_def FRAME_HEADER_BYTES_def eq split: if_splits)
qed

lemma drain_frames_append:
  "drain_frames (r\<lparr>fr_pending := fr_pending r @ tail\<rparr>) =
     rbind (drain_frames r) (\<lambda>r'. drain_frames (r'\<lparr>fr_pending := fr_pending r' @ tail\<rparr>))"
proof (induction r rule: drain_frames.induct)
  case (1 r)
  show ?case
  proof (cases "take_frame r")
    case None
    then show ?thesis by (simp add: drain_frames.simps [of r])
  next
    case (Some x)
    then show ?thesis
    proof (cases x)
      case (Inl e)
      then show ?thesis using Some take_frame_append [OF Some, of tail]
        by (simp add: drain_frames.simps [of r] drain_frames.simps [of "r\<lparr>fr_pending := fr_pending r @ tail\<rparr>"])
    next
      case (Inr r')
      then show ?thesis using "1.IH" [OF Some Inr] Some take_frame_append [OF Some, of tail]
        by (simp add: drain_frames.simps [of r] drain_frames.simps [of "r\<lparr>fr_pending := fr_pending r @ tail\<rparr>"])
    qed
  qed
qed

lemma feed_append: "feed r (a @ b) = rbind (feed r a) (\<lambda>r'. feed r' b)"
  using drain_frames_append [of "r\<lparr>fr_pending := fr_pending r @ a\<rparr>" b] by (simp add: feed_def)

fun feed_all :: "frame_reader \<Rightarrow> string list \<Rightarrow> frame_error + frame_reader" where
  "feed_all r [] = Inr r"
| "feed_all r (c # cs) = rbind (feed r c) (\<lambda>r'. feed_all r' cs)"

lemma drained_again: "drain_frames r = Inr r' \<Longrightarrow> drain_frames r' = Inr r'"
proof (induction r rule: drain_frames.induct)
  case (1 r)
  then show ?case
    by (cases "take_frame r"; cases "the (take_frame r)") (auto simp: drain_frames.simps [of r] drain_frames.simps [of r'])
qed

lemma feed_all_concat: "drain_frames r = Inr r \<Longrightarrow> feed_all r chunks = feed r (concat chunks)"
proof (induction chunks arbitrary: r)
  case Nil
  have "r\<lparr>fr_pending := fr_pending r\<rparr> = r" by simp
  then show ?case using Nil by (simp add: feed_def)
next
  case (Cons c cs)
  show ?case
  proof (cases "feed r c")
    case (Inr r')
    then have "drain_frames r' = Inr r'" using drained_again by (auto simp: feed_def)
    with Cons.IH show ?thesis by (simp add: feed_append Inr)
  qed (simp add: feed_append)
qed

section \<open>Whole frames\<close>

definition be32_bytes :: "nat \<Rightarrow> string" where
  "be32_bytes n = map char_of [n div 16777216 mod 256, n div 65536 mod 256, n div 256 mod 256, n mod 256]"

definition frame_bytes :: "bool \<times> string \<Rightarrow> string" where
  \<comment> \<open>stdout (\<open>True\<close>) or stderr, then the payload\<close>
  "frame_bytes f = [char_of (if fst f then 1 else 2 :: nat), CHR 0x00, CHR 0x00, CHR 0x00] @ be32_bytes (length (snd f)) @ snd f"

definition stream_output :: "bool \<Rightarrow> (bool \<times> string) list \<Rightarrow> string" where
  "stream_output out fs = concat (map snd (filter (\<lambda>f. fst f = out) fs))"

lemma length_be32_bytes [simp]: "length (be32_bytes n) = 4"
  by (simp add: be32_bytes_def)

lemma be32_of_bytes [simp]:
  assumes "n < 2 ^ 32"
  shows "be32 (be32_bytes n) = n"
proof -
  have "n div 16777216 * 256 + n div 65536 mod 256 = n div 65536"
    using div_mult_mod_eq [of "n div 65536" 256] by (simp add: div_mult2_eq [symmetric])
  moreover have "n div 65536 * 256 + n div 256 mod 256 = n div 256"
    using div_mult_mod_eq [of "n div 256" 256] by (simp add: div_mult2_eq [symmetric])
  moreover have "n div 256 * 256 + n mod 256 = n" by (rule div_mult_mod_eq)
  moreover have "n div 16777216 < 256" using assms by (simp add: less_mult_imp_div_less)
  ultimately show ?thesis by (simp add: be32_def be32_bytes_def byte_of_def)
qed

lemma take_frame_bytes:
  assumes "length (snd f) < 2 ^ 32" "fr_pending r = frame_bytes f @ rest"
  shows "take_frame r = Some (let n = length (snd f); held = length (fr_stdout r) + length (fr_stderr r) + n in
    if n > fr_maximum r + 1 then Inl (too_large n)
    else if held > fr_maximum r then Inl (too_large held)
    else Inr (if fst f then r\<lparr>fr_stdout := fr_stdout r @ snd f, fr_pending := rest\<rparr>
              else r\<lparr>fr_stderr := fr_stderr r @ snd f, fr_pending := rest\<rparr>))"
proof -
  have head: "fr_pending r ! 0 = char_of (if fst f then 1 else 2 :: nat)" "take 4 (drop 4 (fr_pending r)) = be32_bytes (length (snd f))"
    "drop 8 (fr_pending r) = snd f @ rest" "length (fr_pending r) = 8 + length (snd f) + length rest"
    by (simp_all add: assms(2) frame_bytes_def be32_bytes_def)
  have rest: "drop (8 + length (snd f)) (fr_pending r) = rest"
    using head(3) by (metis append_eq_conv_conj drop_drop add.commute)
  show ?thesis
    using assms(1) by (auto simp: take_frame_def Let_def FRAME_HEADER_BYTES_def head rest rest [unfolded add.commute [of 8]] byte_of_def add_ac simp del: drop_drop)
qed

text \<open>What the reader makes of a stream of whole frames, from any state of its outputs.\<close>

definition payload_bytes :: "(bool \<times> string) list \<Rightarrow> nat" where
  "payload_bytes fs = sum_list (map (\<lambda>f. length (snd f)) fs)"

lemma stream_output_simps [simp]:
  "stream_output out [] = []"
  "stream_output out (f # fs) = (if fst f = out then snd f else []) @ stream_output out fs"
  by (simp_all add: stream_output_def)

lemma drain_whole:
  assumes "list_all (\<lambda>f. length (snd f) < 2 ^ 32) fs" "fr_pending r = concat (map frame_bytes fs)"
    "length (fr_stdout r) + length (fr_stderr r) + payload_bytes fs \<le> fr_maximum r"
  shows "drain_frames r = Inr (r\<lparr>fr_pending := [], fr_stdout := fr_stdout r @ stream_output True fs,
    fr_stderr := fr_stderr r @ stream_output False fs\<rparr>)"
  using assms
proof (induction fs arbitrary: r)
  case Nil
  then have "take_frame r = None" by (simp add: take_frame_def FRAME_HEADER_BYTES_def)
  then show ?case using Nil by (simp add: drain_frames.simps [of r])
next
  case (Cons f fs)
  let ?r = "if fst f then r\<lparr>fr_stdout := fr_stdout r @ snd f, fr_pending := concat (map frame_bytes fs)\<rparr>
              else r\<lparr>fr_stderr := fr_stderr r @ snd f, fr_pending := concat (map frame_bytes fs)\<rparr>"
  have "take_frame r = Some (Inr ?r)"
    using take_frame_bytes [of f r "concat (map frame_bytes fs)"] Cons.prems by (simp add: payload_bytes_def)
  then have "drain_frames r = drain_frames ?r" by (simp add: drain_frames.simps [of r])
  also have "\<dots> = Inr (?r\<lparr>fr_pending := [], fr_stdout := fr_stdout ?r @ stream_output True fs,
      fr_stderr := fr_stderr ?r @ stream_output False fs\<rparr>)"
    by (rule Cons.IH) (use Cons.prems in \<open>auto simp: payload_bytes_def\<close>)
  finally show ?case by simp
qed

lemma drain_too_large:
  assumes "list_all (\<lambda>f. length (snd f) < 2 ^ 32) fs" "fr_pending r = concat (map frame_bytes fs)"
    "length (fr_stdout r) + length (fr_stderr r) \<le> fr_maximum r"
    "length (fr_stdout r) + length (fr_stderr r) + payload_bytes fs > fr_maximum r"
  shows "\<exists>n > fr_maximum r. drain_frames r = Inl (too_large n)"
  using assms
proof (induction fs arbitrary: r)
  case (Cons f fs)
  let ?r = "if fst f then r\<lparr>fr_stdout := fr_stdout r @ snd f, fr_pending := concat (map frame_bytes fs)\<rparr>
              else r\<lparr>fr_stderr := fr_stderr r @ snd f, fr_pending := concat (map frame_bytes fs)\<rparr>"
  let ?held = "length (fr_stdout r) + length (fr_stderr r) + length (snd f)"
  note taken = take_frame_bytes [of f r "concat (map frame_bytes fs)"]
  consider (long) "length (snd f) > fr_maximum r + 1" | (held) "\<not> length (snd f) > fr_maximum r + 1" "?held > fr_maximum r"
    | (fits) "?held \<le> fr_maximum r" by linarith
  then show ?case
  proof cases
    case fits
    then have "take_frame r = Some (Inr ?r)" using taken Cons.prems by simp
    then have eq: "drain_frames r = drain_frames ?r" by (simp add: drain_frames.simps [of r])
    have "\<exists>n > fr_maximum ?r. drain_frames ?r = Inl (too_large n)"
      by (rule Cons.IH) (use Cons.prems fits in \<open>auto simp: payload_bytes_def\<close>)
    then show ?thesis by (auto simp: eq split: if_splits)
  next
    case long
    then show ?thesis using taken Cons.prems by (intro exI [of _ "length (snd f)"]) (simp add: drain_frames.simps [of r])
  next
    case held
    then show ?thesis using taken Cons.prems by (intro exI [of _ ?held]) (simp add: drain_frames.simps [of r])
  qed
qed (simp add: payload_bytes_def)

text \<open>Whatever arrives, a reader never holds more than its bound and one frame's header and overflow byte.\<close>

definition reader_ok :: "frame_reader \<Rightarrow> bool" where
  "reader_ok r \<longleftrightarrow> length (fr_stdout r) + length (fr_stderr r) \<le> fr_maximum r \<and> length (fr_pending r) \<le> fr_maximum r + 8"

lemma drain_frames_bound:
  assumes "drain_frames r = Inr r'" "length (fr_stdout r) + length (fr_stderr r) \<le> fr_maximum r"
  shows "reader_ok r' \<and> fr_maximum r' = fr_maximum r"
  using assms
proof (induction r rule: drain_frames.induct)
  case (1 r)
  show ?case
  proof (cases "take_frame r")
    case None
    then have "length (fr_pending r) \<le> fr_maximum r + 8"
      by (auto simp: take_frame_def Let_def FRAME_HEADER_BYTES_def split: if_splits)
    then show ?thesis using 1(2,3) None by (simp add: drain_frames.simps [of r] reader_ok_def)
  next
    case (Some x)
    with 1(2) obtain q where x: "x = Inr q" by (cases x) (auto simp: drain_frames.simps [of r])
    have "length (fr_stdout q) + length (fr_stderr q) \<le> fr_maximum q" "fr_maximum q = fr_maximum r"
      using Some x by (auto simp: take_frame_def Let_def split: if_splits)
    then show ?thesis using 1 Some x by (auto simp: drain_frames.simps [of r])
  qed
qed

text \<open>C36: The frame reader is independent of how the stream arrives. However the bytes of whole stdout and stderr frames are cut
  into reads, the reader returns exactly the concatenated payloads of each stream when together they fit its bound, and
  refuses them as too large (stating a count beyond the bound) when they do not; and after any reads it accepted, of any
  bytes at all, it holds at most its bound of output and at most one incomplete frame.\<close>
theorem frames_any_pieces:
  assumes "concat chunks = concat (map frame_bytes fs)" "list_all (\<lambda>f. length (snd f) < 2 ^ 32) fs"
  shows "(if payload_bytes fs \<le> maximum
     then rbind (feed_all (new_reader maximum) chunks) finish_frames = Inr (stream_output True fs, stream_output False fs)
     else \<exists>n > maximum. feed_all (new_reader maximum) chunks = Inl (too_large n)) \<and>
   (\<forall>pieces r. feed_all (new_reader maximum) pieces = Inr r \<longrightarrow>
      length (fr_stdout r) + length (fr_stderr r) \<le> maximum \<and> length (fr_pending r) \<le> maximum + 8)"
proof -
  have "take_frame (new_reader maximum) = None" by (simp add: take_frame_def new_reader_def FRAME_HEADER_BYTES_def)
  then have "drain_frames (new_reader maximum) = Inr (new_reader maximum)" by (simp add: drain_frames.simps)
  then have all: "feed_all (new_reader maximum) cs = drain_frames ((new_reader maximum)\<lparr>fr_pending := concat cs\<rparr>)" for cs
    by (simp add: feed_all_concat feed_def new_reader_def)
  let ?r = "(new_reader maximum)\<lparr>fr_pending := concat chunks\<rparr>"
  have r: "fr_pending ?r = concat (map frame_bytes fs)" "fr_stdout ?r = []" "fr_stderr ?r = []" "fr_maximum ?r = maximum"
    using assms(1) by (simp_all add: new_reader_def)
  have "if payload_bytes fs \<le> maximum
     then rbind (feed_all (new_reader maximum) chunks) finish_frames = Inr (stream_output True fs, stream_output False fs)
     else \<exists>n > maximum. feed_all (new_reader maximum) chunks = Inl (too_large n)"
    using drain_whole [OF assms(2) r(1)] drain_too_large [OF assms(2) r(1)] r by (simp add: all finish_frames_def)
  moreover have "length (fr_stdout r) + length (fr_stderr r) \<le> maximum \<and> length (fr_pending r) \<le> maximum + 8"
    if "feed_all (new_reader maximum) pieces = Inr r" for pieces r
    using drain_frames_bound [OF that [unfolded all]] by (simp add: reader_ok_def new_reader_def)
  ultimately show ?thesis by blast
qed

theorem frames_any_pieces_witness:
  "rbind (feed_all (new_reader 8) [take 5 (frame_bytes (True, ''ok'')), drop 5 (frame_bytes (True, ''ok'')) @ frame_bytes (False, ''e'')])
     finish_frames = Inr (''ok'', ''e'')"
  using frames_any_pieces [of "[take 5 (frame_bytes (True, ''ok'')), drop 5 (frame_bytes (True, ''ok'')) @ frame_bytes (False, ''e'')]"
      "[(True, ''ok''), (False, ''e'')]" 8]
  by (simp add: payload_bytes_def)

end
