(* ===== verification/Action_Files.thy ===== *)
theory Action_Files
  imports Action_Executor
begin

text \<open>
  The Team-brokered delivery of one selected file to an Action: \<^verbatim>\<open>action/src/files/mod.rs\<close>, with the reference
  validator of an invocation's files it defers to, \<^verbatim>\<open>vendor/assistant-protocol/src/input_file.rs\<close>.

  \<open>sha\<close> is the SHA-256 hexadecimal digest and \<open>b64\<close> the base64 encoder (crate \<open>base64\<close>); the validator's own
  decoder is modelled. The wait for the one file slot answers what it observed (\<open>slot_wait\<close>).
\<close>

section \<open>The reference validator\<close>

definition MAX_INPUT_FILES :: nat where "MAX_INPUT_FILES = 1"
definition MAX_PROPERTY_NAME :: nat where "MAX_PROPERTY_NAME = 128"
definition MAX_FILE_BYTES :: int where "MAX_FILE_BYTES = 8 * 1024 * 1024"
definition MAX_BASE64_CHARACTERS :: nat where "MAX_BASE64_CHARACTERS = 4 * ((8 * 1024 * 1024 + 2) div 3)"
definition MAX_NAME_BYTES :: nat where "MAX_NAME_BYTES = 255"
definition MAX_MEDIA_TYPE :: nat where "MAX_MEDIA_TYPE = 127"
definition MAX_RESPONSES :: nat where "MAX_RESPONSES = 8"
definition MAX_CHOICES :: nat where "MAX_CHOICES = 32"
definition MAX_CHOICE_CHARACTERS :: nat where "MAX_CHOICE_CHARACTERS = 128"

definition TEXT_RESPONSE_BOUNDS :: "(string \<times> nat) list" where
  "TEXT_RESPONSE_BOUNDS = [(''input:text'', 16000), (''input:textarea'', 16000), (''input:password'', 1024),
     (''input:phone'', 64), (''input:select'', 128), (''input:choice'', 128)]"

definition FILE_KEYS :: "string list" where
  "FILE_KEYS = [''name'', ''media_type'', ''size'', ''sha256'', ''content'']"

definition file_id_schema :: json where
  "file_id_schema = Object [(''type'', Str ''string''), (''minLength'', Number (Int64 32)),
     (''maxLength'', Number (Int64 32)), (''pattern'', Str ''^[0-9a-f]{32}$'')]"

definition withheld :: json where
  "withheld = Object [(''type'', Str ''withheld'')]"

definition lowercase_hex :: "string \<Rightarrow> nat \<Rightarrow> bool" where
  "lowercase_hex s n \<longleftrightarrow> length s = n \<and> list_all hex s"

definition authorizing :: "json \<Rightarrow> bool" where
  "authorizing kind = (case as_str kind of None \<Rightarrow> False | Some k \<Rightarrow> k \<in> set AUTHORIZATION_KINDS)"

definition contains_value :: "json list \<Rightarrow> json \<Rightarrow> bool" where
  "contains_value xs v = list_ex (\<lambda>x. py_eq x v) xs"

definition same_json :: "json \<Rightarrow> json \<Rightarrow> bool" where
  "same_json a b \<longleftrightarrow> canonical a = canonical b"

definition property_error :: "json option \<Rightarrow> json list \<Rightarrow> string option" where
  "property_error schema declared =
     (let schema = Option.bind schema as_object;
          properties = Option.bind (Option.bind schema (\<lambda>s. member_of s ''properties'')) as_object;
          required = Option.bind schema (\<lambda>s. case member_of s ''required'' of None \<Rightarrow> Some [] | Some v \<Rightarrow> as_array v) in
      case (properties, required) of
        (Some properties, Some required) \<Rightarrow>
          let names = List.map_filter as_str declared in
          if \<not> list_all (\<lambda>name. member_of properties name \<noteq> None \<and> contains_value required (Str name)) names
            then Some ''input_file_unknown''
          else if \<not> list_all (\<lambda>name. case member_of properties name of None \<Rightarrow> False
                 | Some s \<Rightarrow> same_json s file_id_schema) names then Some ''input_file_schema''
          else None
      | _ \<Rightarrow> Some ''input_file_unknown'')"

definition declaration_error :: "(string \<times> json) list \<Rightarrow> string option" where
  "declaration_error action =
     (case Option.bind (member_of action ''input_files'') as_array of
        None \<Rightarrow> Some ''input_files_invalid''
      | Some declared \<Rightarrow>
          if length declared > MAX_INPUT_FILES \<or> \<not> list_all (\<lambda>name. case as_str name of None \<Rightarrow> False
               | Some s \<Rightarrow> 1 \<le> char_count s \<and> char_count s \<le> MAX_PROPERTY_NAME) declared
            then Some ''input_files_invalid''
          else if declared = [] then None
          else (case property_error (member_of action ''input_schema'') declared of
              Some e \<Rightarrow> Some e
            | None \<Rightarrow> (case Option.bind (member_of action ''human_requests'') as_array of
                  None \<Rightarrow> Some ''input_file_unauthorized''
                | Some requests \<Rightarrow> if length (filter authorizing requests) = 1 then None
                    else Some ''input_file_unauthorized'')))"

definition sextet :: "char \<Rightarrow> nat option" where
  "sextet c = (let x = byte_of c in
     if upper c then Some (x - 65)
     else if lower c then Some (x - 97 + 26)
     else if digit c then Some (x - 48 + 52)
     else if c = CHR ''+'' then Some 62
     else if c = CHR ''/'' then Some 63
     else None)"

fun sextets :: "nat \<Rightarrow> string \<Rightarrow> nat option" where
  "sextets bits [] = Some bits"
| "sextets bits (c # cs) = (case sextet c of None \<Rightarrow> None | Some d \<Rightarrow> sextets (bits * 64 + d) cs)"

definition decode_chunk :: "string \<Rightarrow> bool \<Rightarrow> string option" where
  "decode_chunk chunk is_last =
     (let padding = length (takeWhile (\<lambda>c. c = CHR ''='') (rev chunk)) in
      if padding > 2 \<or> (padding > 0 \<and> \<not> is_last) then None
      else (case sextets 0 (take (4 - padding) chunk) of
          None \<Rightarrow> None
        | Some bits \<Rightarrow>
            let bits = bits * 64 ^ padding;
                decoded = [bits div 65536 mod 256, bits div 256 mod 256, bits mod 256];
                kept = 3 - padding in
            if list_ex (\<lambda>b. b \<noteq> 0) (drop kept decoded) then None
            else Some (map char_of (take kept decoded))))"

fun decode_chunks :: "string \<Rightarrow> string option" where
  "decode_chunks (a # b # c # d # rest) = (case decode_chunk [a, b, c, d] (rest = []) of
      None \<Rightarrow> None
    | Some bytes \<Rightarrow> map_option (append bytes) (decode_chunks rest))"
| "decode_chunks _ = Some []"

definition decode_content :: "string \<Rightarrow> string option" where
  "decode_content s = (if length s > MAX_BASE64_CHARACTERS \<or> length s mod 4 \<noteq> 0 then None else decode_chunks s)"

definition valid_name :: "string \<Rightarrow> bool" where
  "valid_name name \<longleftrightarrow> name \<noteq> [] \<and> is_stripped name \<and> length name \<le> MAX_NAME_BYTES \<and> name \<noteq> ''.'' \<and> name \<noteq> ''..'' \<and>
     \<not> list_ex (\<lambda>c. c < 32 \<or> c = 0x7F \<or> c = 47 \<or> c = 92) (text_chars name)"

definition media_part :: "string \<Rightarrow> bool" where
  "media_part s \<longleftrightarrow> s \<noteq> [] \<and> (lower (hd s) \<or> digit (hd s)) \<and>
     list_all (\<lambda>c. lower c \<or> digit c \<or> c \<in> set ''!#$&^_.+-'') s"

definition media_type :: "string \<Rightarrow> bool" where
  "media_type s = (case split_once (CHR ''/'') s of None \<Rightarrow> False
     | Some (kind, subtype) \<Rightarrow> media_part kind \<and> media_part subtype)"

definition content_error :: "(string \<Rightarrow> string) \<Rightarrow> (string \<times> json) list \<Rightarrow> bool \<Rightarrow> string option" where
  "content_error sha record is_authorized =
     (let content = (case member_of record ''content'' of None \<Rightarrow> Null | Some v \<Rightarrow> v) in
      if py_eq content withheld then (if is_authorized then Some ''file_withheld_after_authorization'' else None)
      else if \<not> is_authorized then Some ''file_delivered_without_authorization''
      else
        let data = Option.bind (Option.bind (get content ''base64'') as_str) decode_content;
            size = Option.bind (member_of record ''size'') small_int;
            digest = text_member record ''sha256'' in
        (case data of
           None \<Rightarrow> Some ''file_content_mismatch''
         | Some bytes \<Rightarrow> if size = Some (int (length bytes)) \<and> digest = Some (sha bytes) then None
             else Some ''file_content_mismatch''))"

definition valid_content_branch :: "json \<Rightarrow> bool" where
  "valid_content_branch content \<longleftrightarrow> py_eq content withheld \<or>
     (case as_object content of None \<Rightarrow> False
      | Some ms \<Rightarrow> has_exactly ms [''type'', ''base64''] \<and> text_member ms ''type'' = Some ''delivered'' \<and>
          (case text_member ms ''base64'' of None \<Rightarrow> False | Some s \<Rightarrow> char_count s \<le> MAX_BASE64_CHARACTERS))"

definition valid_record :: "json \<Rightarrow> bool" where
  "valid_record record = (case as_object record of None \<Rightarrow> False
     | Some ms \<Rightarrow> has_exactly ms FILE_KEYS \<and>
         (case member_of ms ''content'' of None \<Rightarrow> False | Some c \<Rightarrow> valid_content_branch c) \<and>
         (case text_member ms ''name'' of None \<Rightarrow> False | Some s \<Rightarrow> valid_name s) \<and>
         (case text_member ms ''media_type'' of None \<Rightarrow> False
          | Some s \<Rightarrow> char_count s \<le> MAX_MEDIA_TYPE \<and> media_type s) \<and>
         (case member_of ms ''size'' of None \<Rightarrow> False | Some v \<Rightarrow> int_within v 1 MAX_FILE_BYTES) \<and>
         (case text_member ms ''sha256'' of None \<Rightarrow> False | Some s \<Rightarrow> lowercase_hex s 64))"

definition files_shape_error :: "json option \<Rightarrow> string option" where
  "files_shape_error files = (case Option.bind files as_object of
      None \<Rightarrow> Some ''files_invalid''
    | Some ms \<Rightarrow>
        if length ms > MAX_INPUT_FILES then Some ''files_invalid''
        else if list_all (\<lambda>(i, record). lowercase_hex i 32 \<and> valid_record record) ms then None
        else Some ''file_invalid'')"

definition valid_response_value :: "string \<Rightarrow> json \<Rightarrow> bool" where
  "valid_response_value kind v =
     (if kind \<in> set AUTHORIZATION_KINDS then is_true v
      else if kind = ''input:choices'' then
        (case as_array v of None \<Rightarrow> False
         | Some xs \<Rightarrow> let texts = List.map_filter as_str xs in
             length xs \<le> MAX_CHOICES \<and> length texts = length xs \<and>
             list_all (\<lambda>s. char_count s \<le> MAX_CHOICE_CHARACTERS) texts \<and> distinct texts)
      else (case find_by fst kind TEXT_RESPONSE_BOUNDS of None \<Rightarrow> False
         | Some (_, bound) \<Rightarrow> (case as_str v of None \<Rightarrow> False | Some s \<Rightarrow> char_count s \<le> bound)))"

definition valid_response :: "json \<Rightarrow> nat \<Rightarrow> bool" where
  "valid_response response n = (case as_object response of None \<Rightarrow> False
     | Some ms \<Rightarrow> has_exactly ms [''ordinal'', ''fingerprint'', ''kind'', ''value''] \<and>
         (case Option.bind (member_of ms ''ordinal'') small_int of None \<Rightarrow> False
          | Some i \<Rightarrow> usize_of_int i = Some n) \<and>
         (case text_member ms ''fingerprint'' of None \<Rightarrow> False | Some s \<Rightarrow> lowercase_hex s 64) \<and>
         (case (text_member ms ''kind'', member_of ms ''value'') of
            (Some kind, Some v) \<Rightarrow> valid_response_value kind v | _ \<Rightarrow> False))"

fun responses_loop :: "json list \<Rightarrow> nat \<Rightarrow> json list \<Rightarrow> string option" where
  "responses_loop declared n [] = None"
| "responses_loop declared n (r # rs) =
     (if \<not> valid_response r n then Some ''responses_invalid''
      else if \<not> (case get r ''kind'' of None \<Rightarrow> False | Some kind \<Rightarrow> contains_value declared kind)
        then Some ''response_undeclared''
      else responses_loop declared (Suc n) rs)"

definition responses_error :: "(string \<times> json) list \<Rightarrow> json \<Rightarrow> string option" where
  "responses_error action responses =
     (case (as_array responses, Option.bind (member_of action ''human_requests'') as_array) of
        (Some rs, Some declared) \<Rightarrow>
          if length rs > MAX_RESPONSES then Some ''responses_invalid''
          else (case responses_loop declared 0 rs of
              Some e \<Rightarrow> Some e
            | None \<Rightarrow> if length (filter (\<lambda>r. case get r ''kind'' of None \<Rightarrow> False | Some k \<Rightarrow> authorizing k) rs) > 1
                then Some ''authorization_duplicate'' else None)
      | _ \<Rightarrow> Some ''responses_invalid'')"

definition action_authorized :: "(string \<times> json) list \<Rightarrow> json list \<Rightarrow> bool" where
  "action_authorized action responses =
     (case filter authorizing (case Option.bind (member_of action ''human_requests'') as_array of None \<Rightarrow> [] | Some xs \<Rightarrow> xs) of
        [kind] \<Rightarrow> list_ex (\<lambda>r. case get r ''kind'' of None \<Rightarrow> False | Some k \<Rightarrow> py_eq k kind) responses
      | _ \<Rightarrow> False)"

fun all_some :: "'a option list \<Rightarrow> 'a list option" where
  "all_some [] = Some []"
| "all_some (None # xs) = None"
| "all_some (Some x # xs) = map_option (Cons x) (all_some xs)"

definition invocation_files_error :: "(string \<Rightarrow> string) \<Rightarrow> json \<Rightarrow> json \<Rightarrow> string option" where
  "invocation_files_error sha action invocation = (case as_object action of
      None \<Rightarrow> Some ''invocation_invalid''
    | Some action \<Rightarrow>
        if declaration_error action \<noteq> None then Some ''invocation_invalid''
        else
          let responses = (case get invocation ''responses'' of None \<Rightarrow> Array [] | Some v \<Rightarrow> v);
              files = get invocation ''files'' in
          (case (case responses_error action responses of Some e \<Rightarrow> Some e | None \<Rightarrow> files_shape_error files) of
             Some e \<Rightarrow> Some e
           | None \<Rightarrow>
               let files = (case Option.bind files as_object of None \<Rightarrow> [] | Some ms \<Rightarrow> ms);
                   declared = (case Option.bind (member_of action ''input_files'') as_array of None \<Rightarrow> [] | Some xs \<Rightarrow> xs);
                   selected = Option.bind (Option.bind (get invocation ''input'') as_object) (\<lambda>inputs.
                     all_some (map (\<lambda>name. Option.bind (as_str name) (text_member inputs)) declared));
                   matched = (case selected of None \<Rightarrow> False
                     | Some chosen \<Rightarrow> list_all (\<lambda>(i, _). i \<in> set chosen) files \<and>
                         list_all (\<lambda>i. member_of files i \<noteq> None) chosen) in
               if \<not> matched then Some ''files_mismatch''
               else find_error (\<lambda>(_, record). content_error sha (case as_object record of None \<Rightarrow> [] | Some ms \<Rightarrow> ms)
                      (action_authorized action (case as_array responses of None \<Rightarrow> [] | Some rs \<Rightarrow> rs))) files))"

definition delivers_content :: "json \<Rightarrow> bool" where
  "delivers_content invocation = (case Option.bind (get invocation ''files'') as_object of None \<Rightarrow> False
     | Some files \<Rightarrow> list_ex (\<lambda>(_, record).
         Option.bind (Option.bind (get record ''content'') (\<lambda>c. get c ''type'')) as_str = Some ''delivered'') files)"

section \<open>Selected files and their delivery\<close>

record stored_file =
  sf_size :: int
  sf_sha256 :: string
  sf_data :: string

definition file_metadata :: "action_file \<Rightarrow> json" where
  "file_metadata f = Object [(''id'', Str (af_id f)), (''name'', Str (af_name f)), (''media_type'', Str (af_media_type f)),
     (''size'', Number (Int64 (af_size f))), (''sha256'', Str (af_sha256 f))]"

definition deliverable :: "action_file \<Rightarrow> bool" where
  "deliverable f \<longleftrightarrow> 1 \<le> af_size f \<and> af_size f \<le> MAX_FILE_BYTES \<and> valid_name (af_name f) \<and>
     length (af_media_type f) \<le> MAX_MEDIA_TYPE \<and> media_type (af_media_type f)"

definition selected_file :: "json \<Rightarrow> action_file option" where
  "selected_file x =
     (let str = (\<lambda>key. Option.bind (get x key) as_str);
          size = (case get x ''size'' of Some (Number (Int64 n)) \<Rightarrow> Some n | _ \<Rightarrow> None) in
      Option.bind (str ''id'') (\<lambda>i. Option.bind (str ''name'') (\<lambda>name. Option.bind (str ''media_type'') (\<lambda>media.
      Option.bind size (\<lambda>size. Option.bind (str ''sha256'') (\<lambda>digest.
        Some \<lparr>af_id = i, af_name = name, af_media_type = media, af_size = size, af_sha256 = digest\<rparr>))))))"

definition selected_files :: "json list \<Rightarrow> action_file list" where
  "selected_files attachments = List.map_filter selected_file attachments"

definition named_file :: "string list \<Rightarrow> json \<Rightarrow> action_file list \<Rightarrow> unit + action_file option" where
  \<comment> \<open>\<open>action_file\<close>; the one error is \<open>FileUnavailable\<close>\<close>
  "named_file input_files input chosen = (case input_files of
      [] \<Rightarrow> Inr None
    | name # _ \<Rightarrow> (case Option.bind (Option.bind (get input name) as_str) (\<lambda>i. find_by af_id i chosen) of
          None \<Rightarrow> Inl ()
        | Some f \<Rightarrow> if deliverable f then Inr (Some f) else Inl ()))"

definition disclosure :: "string list \<Rightarrow> json \<Rightarrow> action_file list \<Rightarrow> string \<Rightarrow> unit + json option" where
  "disclosure input_files input chosen kind =
     (if \<not> authorizes kind then Inr None
      else rbind (named_file input_files input chosen) (\<lambda>f. Inr (map_option file_metadata f)))"

definition file_commitments :: "action_file option \<Rightarrow> json" where
  "file_commitments f = Array (case f of None \<Rightarrow> [] | Some f \<Rightarrow> [file_metadata f])"

definition grants :: "action_file option \<Rightarrow> action_spec \<Rightarrow> transcript \<Rightarrow> bool" where
  "grants f action t \<longleftrightarrow> f \<noteq> None \<and> authorized t (sp_human_requests action)"

definition invocation_files ::
    "(string \<Rightarrow> string) \<Rightarrow> (string \<Rightarrow> string) \<Rightarrow> action_file option \<Rightarrow> stored_file option \<Rightarrow> unit + json" where
  "invocation_files sha b64 f granted = (case f of
      None \<Rightarrow> Inr (Object [])
    | Some f \<Rightarrow>
        rbind (case granted of
            None \<Rightarrow> Inr [(''type'', Str ''withheld'')]
          | Some st \<Rightarrow>
              if sf_sha256 st = af_sha256 f \<and> sf_size st = af_size f \<and> int (length (sf_data st)) = af_size f
                 \<and> sha (sf_data st) = af_sha256 f
              then Inr [(''type'', Str ''delivered''), (''base64'', Str (b64 (sf_data st)))]
              else Inl ())
          (\<lambda>content. Inr (Object [(af_id f, Object (filter (\<lambda>(key, _). key \<noteq> ''id'') (members (file_metadata f))
             @ [(''content'', Object content)]))])))"

definition names_value :: "string list \<Rightarrow> json" where
  "names_value ns = Array (map Str ns)"

definition file_declaration :: "action_spec \<Rightarrow> json" where
  "file_declaration action = Object [(''input_files'', names_value (sp_input_files action)),
     (''input_schema'', sp_input_schema action), (''human_requests'', names_value (sp_human_requests action))]"

definition file_invocation :: "json \<Rightarrow> json \<Rightarrow> transcript \<Rightarrow> json" where
  "file_invocation input files t = Object [(''input'', input), (''files'', files), (''responses'', Array (transcript_payloads t))]"

definition deliver ::
    "(string \<Rightarrow> string) \<Rightarrow> (string \<Rightarrow> string) \<Rightarrow> action_spec \<Rightarrow> action_file option \<Rightarrow> transcript \<Rightarrow> json
       \<Rightarrow> stored_file option \<Rightarrow> unit + json" where
  "deliver sha b64 action f t input granted =
     (if f = None \<and> sp_input_files action = [] then Inr (Object [])
      else rbind (invocation_files sha b64 f granted) (\<lambda>files.
        case invocation_files_error sha (file_declaration action) (file_invocation input files t) of
          None \<Rightarrow> Inr files
        | Some _ \<Rightarrow> Inl ()))"

definition delivered_file :: "json \<Rightarrow> (string \<times> int) option" where
  "delivered_file files = (case files of
      Object fs \<Rightarrow> (case List.map_filter (\<lambda>(i, record).
            (case (Option.bind (get record ''content'') (\<lambda>c. get c ''type''), get record ''size'') of
               (Some (Str kind), Some (Number (Int64 n))) \<Rightarrow> if kind = ''delivered'' then Some (i, n) else None
             | _ \<Rightarrow> None)) fs of
          [] \<Rightarrow> None | x # _ \<Rightarrow> Some x)
    | _ \<Rightarrow> None)"

section \<open>The one file slot\<close>

datatype slot_wait = Stop_won | Deadline_won | Permit_granted bool \<comment> \<open>whether Stop is set once the permit is held\<close>

definition admit_slot :: "bool \<Rightarrow> slot_wait \<Rightarrow> action_failure + bool" where
  \<comment> \<open>whether the invocation holds the slot\<close>
  "admit_slot delivers wait =
     (if \<not> delivers then Inr False
      else case wait of
          Stop_won \<Rightarrow> Inl Failure_stopped
        | Deadline_won \<Rightarrow> Inl Failure_file_busy
        | Permit_granted stopped \<Rightarrow> if stopped then Inl Failure_stopped else Inr True)"

section \<open>Bytes travel only behind the authorization\<close>

lemma filter_authorizing: "filter authorizing (map Str hrs) = map Str (filter authorizes hrs)"
  by (induction hrs) (auto simp: authorizing_def authorizes_def)

lemma declaration_members:
  "as_object (file_declaration action) = Some [(''input_files'', names_value (sp_input_files action)),
     (''input_schema'', sp_input_schema action), (''human_requests'', names_value (sp_human_requests action))]"
  by (simp add: file_declaration_def)

lemma action_authorized_iff:
  assumes "as_object (file_declaration action) = Some decl"
  shows "action_authorized decl (transcript_payloads t) \<longleftrightarrow> authorized t (sp_human_requests action)"
proof -
  have "Option.bind (member_of decl ''human_requests'') as_array = Some (map Str (sp_human_requests action))"
    using assms by (auto simp: declaration_members member_of_def names_value_def)
  moreover have "list_ex (\<lambda>r. case get r ''kind'' of None \<Rightarrow> False | Some k \<Rightarrow> py_eq k (Str kind)) (transcript_payloads t)
      \<longleftrightarrow> list_ex (\<lambda>s. hs_kind s = kind) (tr_responses t)" for kind
    by (auto simp: transcript_payloads_def response_payload_def list_ex_iff)
  ultimately show ?thesis
    by (auto simp: action_authorized_def authorized_def filter_authorizing split: list.split)
qed

lemma find_error_None: "find_error f xs = None \<longleftrightarrow> (\<forall>x \<in> set xs. f x = None)"
  by (induction xs) (auto split: option.split)

text \<open>What the validator's silence says of an invocation that carries one file record.\<close>

lemma invocation_admitted:
  assumes "invocation_files_error sha (file_declaration action) (file_invocation input (Object [(i, Object rec)]) t) = None"
  shows "content_error sha rec (authorized t (sp_human_requests action)) = None"
    "\<exists>name rest. sp_input_files action = name # rest \<and> get input name = Some (Str i)"
proof -
  obtain decl where decl: "as_object (file_declaration action) = Some decl" by (simp add: declaration_members)
  have inputs: "Option.bind (member_of decl ''input_files'') as_array = Some (map Str (sp_input_files action))"
    using decl by (auto simp: declaration_members member_of_def names_value_def)
  have inv: "get (file_invocation input fs t) ''responses'' = Some (Array (transcript_payloads t))"
    "get (file_invocation input fs t) ''files'' = Some fs" "get (file_invocation input fs t) ''input'' = Some input" for fs
    by (simp_all add: file_invocation_def)
  note ok = assms [unfolded invocation_files_error_def decl option.case Let_def inv inputs bind.bind_lunit as_object.simps as_array.simps]
  show "content_error sha rec (authorized t (sp_human_requests action)) = None"
    using ok by (auto simp: find_error_None action_authorized_iff [OF decl] split: if_splits option.splits)
  have "\<exists>chosen. Option.bind (as_object input) (\<lambda>inputs. all_some (map (\<lambda>name. Option.bind (as_str name) (text_member inputs))
      (map Str (sp_input_files action)))) = Some chosen \<and> i \<in> set chosen"
    using ok by (auto split: if_splits option.splits)
  moreover have "length (sp_input_files action) \<le> 1"
    using ok inputs by (auto simp: declaration_error_def MAX_INPUT_FILES_def split: if_splits)
  ultimately obtain chosen ms name where "as_object input = Some ms" "sp_input_files action = [name]"
    "all_some [text_member ms name] = Some chosen" "i \<in> set chosen"
    by (cases "sp_input_files action"; cases "as_object input") auto
  then show "\<exists>name rest. sp_input_files action = name # rest \<and> get input name = Some (Str i)"
    by (cases input; cases "text_member ms name") (auto simp: text_member_Some)
qed

lemma file_record_content:
  assumes "invocation_files sha b64 (Some f) granted = Inr files"
  obtains rec content where "files = Object [(af_id f, Object rec)]" "member_of rec ''content'' = Some (Object content)"
    "member_of rec ''size'' = Some (Number (Int64 (af_size f)))" "member_of rec ''sha256'' = Some (Str (af_sha256 f))"
    "granted = None \<and> content = [(''type'', Str ''withheld'')] \<or>
     (\<exists>st. granted = Some st \<and> sha (sf_data st) = af_sha256 f \<and> int (length (sf_data st)) = af_size f \<and>
        content = [(''type'', Str ''delivered''), (''base64'', Str (b64 (sf_data st)))])"
  using assms
  by (auto simp: invocation_files_def rbind_eq_Inr file_metadata_def member_of_def split: option.split_asm if_split_asm)

lemma withheld_branch [simp]:
  "py_eq (Object [(''type'', Str ''withheld'')]) withheld"
  "\<not> py_eq (Object [(''type'', Str ''delivered''), (''base64'', x)]) withheld"
  by (simp_all add: withheld_def)

text \<open>C17: A selected file's bytes travel only behind the person's authorization. When the delivery of an Action's files
  succeeds for a selected file, it carries bytes exactly when the transcript holds the Action's one declared
  authorization; the file is the one the Action's declared input names; and the bytes sent decode to content of the
  size and SHA-256 digest the turn bound, read from storage with that same digest.\<close>
theorem file_bytes_authorized:
  assumes "deliver sha b64 action (Some f) t input granted = Inr files"
  shows "(delivered_file files \<noteq> None \<longleftrightarrow> authorized t (sp_human_requests action)) \<and>
    (\<exists>name rest. sp_input_files action = name # rest \<and> get input name = Some (Str (af_id f))) \<and>
    (delivered_file files \<noteq> None \<longrightarrow> delivered_file files = Some (af_id f, af_size f) \<and>
       (\<exists>st data. granted = Some st \<and> sha (sf_data st) = af_sha256 f \<and> decode_content (b64 (sf_data st)) = Some data \<and>
          int (length data) = af_size f \<and> sha data = af_sha256 f))"
proof -
  from assms obtain files' where inv: "invocation_files sha b64 (Some f) granted = Inr files'"
    and ok: "invocation_files_error sha (file_declaration action) (file_invocation input files' t) = None" and eq: "files = files'"
    by (auto simp: deliver_def rbind_eq_Inr split: option.split_asm)
  from inv obtain rec content where rec: "files' = Object [(af_id f, Object rec)]"
    "member_of rec ''content'' = Some (Object content)" "member_of rec ''size'' = Some (Number (Int64 (af_size f)))"
    "member_of rec ''sha256'' = Some (Str (af_sha256 f))"
    and content: "granted = None \<and> content = [(''type'', Str ''withheld'')] \<or>
     (\<exists>st. granted = Some st \<and> sha (sf_data st) = af_sha256 f \<and> int (length (sf_data st)) = af_size f \<and>
        content = [(''type'', Str ''delivered''), (''base64'', Str (b64 (sf_data st)))])"
    by (rule file_record_content)
  note adm = invocation_admitted [OF ok [unfolded rec(1)]]
  have delivered: "delivered_file files = (if granted = None then None else Some (af_id f, af_size f))"
    using content rec by (auto simp: delivered_file_def eq member_of_get map_filter_simps)
  show ?thesis
  proof (cases granted)
    case None
    then have "\<not> authorized t (sp_human_requests action)"
      using adm(1) content rec by (auto simp: content_error_def split: if_splits)
    then show ?thesis using None delivered adm(2) by simp
  next
    case (Some st)
    have "authorized t (sp_human_requests action) \<and> (\<exists>data. decode_content (b64 (sf_data st)) = Some data \<and>
        int (length data) = af_size f \<and> sha data = af_sha256 f)"
      using adm(1) content rec Some
      by (auto simp: content_error_def text_member_def split: if_splits option.splits)
    then show ?thesis using Some delivered adm(2) content by auto
  qed
qed

definition example_file :: action_file where
  "example_file = \<lparr>af_id = replicate 32 (CHR ''0''), af_name = ''a.txt'', af_media_type = ''text/plain'', af_size = 3,
     af_sha256 = replicate 64 (CHR ''a'')\<rparr>"

definition example_action :: action_spec where
  "example_action = \<lparr>sp_id = ''send'', sp_summary = ''Send'',
     sp_input_schema = Object [(''properties'', Object [(''file'', file_id_schema)]), (''required'', Array [Str ''file''])],
     sp_output_schema = Null, sp_integrations = [], sp_stored_inputs = [], sp_human_requests = [''approval''],
     sp_input_files = [''file''], sp_effect = ''mutating'', sp_verifier = None, sp_idempotency = None\<rparr>"

definition example_stored :: stored_file where
  "example_stored = \<lparr>sf_size = 3, sf_sha256 = replicate 64 (CHR ''a''), sf_data = ''abc''\<rparr>"

definition example_digest :: "string \<Rightarrow> string" where
  "example_digest _ = replicate 64 (CHR ''a'')"

definition example_base64 :: "string \<Rightarrow> string" where
  "example_base64 _ = ''YWJj''"

definition example_input :: json where
  "example_input = Object [(''file'', Str (af_id example_file))]"

definition example_content :: "(string \<times> json) list" where
  "example_content = [(''name'', Str ''a.txt''), (''media_type'', Str ''text/plain''), (''size'', Number (Int64 3)),
     (''sha256'', Str (replicate 64 (CHR ''a''))),
     (''content'', Object [(''type'', Str ''delivered''), (''base64'', Str ''YWJj'')])]"

lemma char_count_plain: "plain s \<Longrightarrow> char_count s = length s"
  by (simp add: char_count_def text_chars_plain)

lemma example_names: "plain ''a.txt''" "plain ''file''" "plain ''YWJj''" "plain ''text/plain''"
  by (simp_all add: plain_def plain_char_def byte_of_def)

definition example_declaration :: "(string \<times> json) list" where
  "example_declaration = [(''input_files'', Array [Str ''file'']),
     (''input_schema'', Object [(''properties'', Object [(''file'', file_id_schema)]), (''required'', Array [Str ''file''])]),
     (''human_requests'', Array [Str ''approval''])]"

lemma example_declaration:
  "as_object (file_declaration example_action) = Some example_declaration"
  "member_of example_declaration ''input_files'' = Some (Array [Str ''file''])"
  "member_of example_declaration ''human_requests'' = Some (Array [Str ''approval''])"
  by (simp_all add: declaration_members example_action_def names_value_def example_declaration_def member_of_def)

lemma example_hex: "lowercase_hex (replicate 64 (CHR ''a'')) 64" "lowercase_hex (replicate 32 (CHR ''0'')) 32"
  by code_simp+

lemma example_declared:
  "declaration_error example_declaration = None"
  by (simp add: declaration_error_def example_declaration_def member_of_def MAX_INPUT_FILES_def MAX_PROPERTY_NAME_def
      char_count_plain example_names property_error_def contains_value_def map_filter_simps same_json_def authorizing_def
      AUTHORIZATION_KINDS_def)

lemma example_responses:
  "responses_error example_declaration
     (Array (transcript_payloads example_transcript)) = None"
  by (simp add: responses_error_def example_declaration_def member_of_def example_transcript_def transcript_payloads_def response_payload_def MAX_RESPONSES_def valid_response_def has_exactly_def text_member_def
      valid_response_value_def is_true_def AUTHORIZATION_KINDS_def contains_value_def usize_of_int_def i64_of_nat_def i64_max_def
      example_hex)

lemma example_decoded: "decode_content ''YWJj'' = Some ''abc''"
proof -
  have "map sextet ''YWJj'' = [Some 24, Some 22, Some 9, Some 35]"
    by (simp add: sextet_def byte_of_def upper_def lower_def between_def)
  then show ?thesis
    by (simp add: decode_content_def MAX_BASE64_CHARACTERS_def decode_chunk_def Let_def char_of_def bit_iff_odd)
qed

lemma example_record: "valid_record (Object example_content)"
proof -
  have "valid_name ''a.txt''"
    by (simp add: valid_name_def is_stripped_def text_chars_plain example_names byte_of_def is_space_def MAX_NAME_BYTES_def)
  moreover have "media_type ''text/plain''" by code_simp
  ultimately show ?thesis
    by (simp add: valid_record_def example_content_def has_exactly_def FILE_KEYS_def member_of_def text_member_def
        valid_content_branch_def MAX_BASE64_CHARACTERS_def MAX_MEDIA_TYPE_def char_count_plain example_names int_within_def
        MAX_FILE_BYTES_def example_hex)
qed

lemma example_shape: "files_shape_error (Some (Object [(af_id example_file, Object example_content)])) = None"
  by (simp add: files_shape_error_def example_record MAX_INPUT_FILES_def example_file_def example_hex)

lemma example_delivery:
  "deliver example_digest example_base64 example_action (Some example_file) example_transcript example_input (Some example_stored)
     = Inr (Object [(af_id example_file, Object example_content)])"
proof -
  let ?files = "Object [(af_id example_file, Object example_content)]"
  have inv: "invocation_files example_digest example_base64 (Some example_file) (Some example_stored) = Inr ?files"
    by (simp add: invocation_files_def example_file_def example_stored_def example_digest_def example_base64_def
        file_metadata_def example_content_def)
  have auth: "authorized example_transcript (sp_human_requests example_action)"
    by (simp add: authorized_def example_transcript_def example_action_def authorizes_def AUTHORIZATION_KINDS_def)
  have content: "content_error example_digest example_content True = None"
    by (simp add: content_error_def example_content_def member_of_def example_decoded text_member_def example_digest_def)
  have inputs: "get (file_invocation i fs t) ''responses'' = Some (Array (transcript_payloads t))"
    "get (file_invocation i fs t) ''files'' = Some fs" "get (file_invocation i fs t) ''input'' = Some i" for i fs t
    by (simp_all add: file_invocation_def)
  have named: "Option.bind (as_object example_input) (\<lambda>inputs. all_some (map (\<lambda>name. Option.bind (as_str name) (text_member inputs))
      [Str ''file''])) = Some [af_id example_file]"
    by (simp add: example_input_def text_member_def member_of_def)
  have "invocation_files_error example_digest (file_declaration example_action) (file_invocation example_input ?files example_transcript) = None"
    unfolding invocation_files_error_def example_declaration option.case Let_def inputs bind.bind_lunit as_array.simps as_object.simps
      example_declared example_responses example_shape named action_authorized_iff [OF example_declaration(1)]
    using content auth by (simp add: member_of_def)
  then show ?thesis by (simp add: deliver_def inv)
qed

theorem file_bytes_authorized_witness:
  "delivered_file (Object [(af_id example_file, Object example_content)]) = Some (af_id example_file, 3) \<and>
   authorized example_transcript [''approval'']"
proof -
  have d: "delivered_file (Object [(af_id example_file, Object example_content)]) \<noteq> None"
    by (simp add: delivered_file_def example_content_def map_filter_simps)
  from file_bytes_authorized [OF example_delivery] d show ?thesis
    by (auto simp: example_file_def example_action_def)
qed

end
