(* ===== verification/Action_Rpc.thy ===== *)
theory Action_Rpc
  imports Exec_Frames Action_Files
begin

text \<open>
  One bounded RPC to an Assistant's workload: \<^verbatim>\<open>action/src/rpc/mod.rs\<close>.

  What the call slots, the turn's Stop, Docker and the workload answer is the record \<open>rpc_world\<close>, one field per
  question in the order the code asks; \<open>exchange\<close> is the whole call. The process may have started exactly when
  \<open>may_start\<close> holds, and the lemmas at the end tie each error to it.
\<close>

definition MAX_RPC_RESPONSE_BYTES :: nat where "MAX_RPC_RESPONSE_BYTES = 512 * 1024"
definition MAX_INVOCATION_BYTES :: nat where "MAX_INVOCATION_BYTES = 512 * 1024"
definition MAX_FILE_INVOCATION_BYTES :: nat where "MAX_FILE_INVOCATION_BYTES = 12 * 1024 * 1024"
definition OPERATION_ID_PLACEHOLDER :: string where
  "OPERATION_ID_PLACEHOLDER = ''00000000-0000-4000-8000-000000000000''"

definition INVOCATION_JSON :: options where
  "INVOCATION_JSON = \<lparr>sort_keys = False, compact = True\<rparr>"

definition invocation_value :: "json \<Rightarrow> string list \<Rightarrow> json \<Rightarrow> string \<Rightarrow> json list \<Rightarrow> json" where
  "invocation_value input stored_inputs files operation_id responses = Object (
     [(''input'', input), (''stored_inputs'', Array (map Str (sort stored_inputs))), (''files'', files),
      (''operation_id'', Str operation_id)]
     @ (if responses = [] then [] else [(''responses'', Array responses)]))"

definition encode_invocation :: "json \<Rightarrow> string list \<Rightarrow> json \<Rightarrow> string \<Rightarrow> json list \<Rightarrow> unit + string" where
  \<comment> \<open>the one error is \<open>InvocationTooLarge\<close>\<close>
  "encode_invocation input stored_inputs files operation_id responses =
     (if operation_id \<noteq> OPERATION_ID_PLACEHOLDER \<and> \<not> valid_operation_id operation_id then Inl ()
      else
        let invocation = invocation_value input stored_inputs files operation_id responses;
            encoded = dumps_ascii invocation INVOCATION_JSON;
            bound = (if delivers_content invocation then MAX_FILE_INVOCATION_BYTES else MAX_INVOCATION_BYTES) in
        if length encoded > bound then Inl () else Inr encoded)"

datatype rpc_failure = Rpc_timeout | Rpc_ambiguous | Rpc_invalid_result | Rpc_failed

definition rpc_status :: "rpc_failure \<Rightarrow> nat" where
  "rpc_status f = (if f = Rpc_timeout then 504 else 502)"

fun rpc_message :: "rpc_failure \<Rightarrow> string \<times> string" where
  "rpc_message Rpc_timeout = (''Assistant Action timed out'', ''assistant-timeout'')"
| "rpc_message Rpc_ambiguous = (''Assistant Action status is ambiguous'', ''assistant-rpc-failed'')"
| "rpc_message Rpc_invalid_result = (''Assistant Action returned an invalid result'', ''assistant-rpc-failed'')"
| "rpc_message Rpc_failed = (''Assistant Action failed'', ''assistant-rpc-failed'')"

datatype rpc_error = Rpc_not_dispatched cause | Rpc_blocked cause | Rpc_error rpc_failure cause

definition routine_condition :: "cause \<Rightarrow> string" where
  "routine_condition c =
     (let condition = ca_condition c in
      if condition = Cond_deadline_passed \<and> ca_phase c = Phase_exit_inspection then ''exit-unavailable''
      else if condition = Cond_deadline_passed then ''timeout''
      else if condition = Cond_exit_status
        then ''exit-status:'' @ show_int (case ca_exit_code c of None \<Rightarrow> 0 | Some code \<Rightarrow> code)
      else if condition = Cond_stderr_output then ''stderr-output''
      else if condition \<in> {Cond_exit_unavailable, Cond_still_running} then ''exit-unavailable''
      else if condition \<in> {Cond_stopped, Cond_request_after_provider_call} then condition_str condition
      else if kind_of_cause c = Kind_assistant_output_invalid then ''frame-invalid''
      else ''transport-failed'')"

section \<open>What the world answers\<close>

datatype start_answer = Start_timeout | Start_failed | Started
datatype inspect_answer = Inspect_timeout | Inspect_failed | Inspected bool "int option"
datatype fail_stop_answer = Workload_stopped | Workload_blocked | Fail_stop_failed

record rpc_world =
  w_slot :: bool \<comment> \<open>a call slot was admitted within the deadline\<close>
  w_stopped_before :: bool \<comment> \<open>Stop is set while the slot is refused or just admitted\<close>
  w_stopped_during :: bool \<comment> \<open>Stop interrupts the started call\<close>
  w_start :: start_answer
  w_events :: "io_event list"
  w_broker :: "json \<Rightarrow> frame_error + string" \<comment> \<open>the provider broker's replies\<close>
  w_calls :: nat \<comment> \<open>the provider calls it counted\<close>
  w_inspect_slot :: bool
  w_inspect :: inspect_answer
  w_fail_stop :: fail_stop_answer

section \<open>The call\<close>

definition dispatch_refused :: "bool \<Rightarrow> rpc_error" where
  \<comment> \<open>\<open>not_dispatched\<close>\<close>
  "dispatch_refused stopped = Rpc_not_dispatched
     (new_cause (if stopped then Cond_stopped else Cond_slot_timeout) Phase_slot_admission)"

definition inspect_exit :: "rpc_world \<Rightarrow> rpc_failure \<times> cause + int" where
  "inspect_exit w =
     (let because = (\<lambda>kind condition. (kind, new_cause condition Phase_exit_inspection));
          late = because Rpc_timeout Cond_deadline_passed;
          unavailable = because Rpc_ambiguous Cond_exit_unavailable in
      if \<not> w_inspect_slot w then Inl late
      else case w_inspect w of
          Inspect_timeout \<Rightarrow> Inl late
        | Inspect_failed \<Rightarrow> Inl unavailable
        | Inspected running code \<Rightarrow> if running then Inl (because Rpc_ambiguous Cond_still_running)
            else ok_or code unavailable)"

definition frame_failure :: "frame_error \<Rightarrow> rpc_failure \<times> cause" where
  "frame_failure e = (case e of
      Frame_timeout \<Rightarrow> (Rpc_timeout, new_cause Cond_deadline_passed Phase_exchange)
    | Frame_invalid c \<Rightarrow> (Rpc_failed, c)
    | Frame_transport c \<Rightarrow> (Rpc_failed, c))"

definition rpc_run :: "f64_reader \<Rightarrow> string \<Rightarrow> rpc_world \<Rightarrow> rpc_failure \<times> cause + string \<times> nat" where
  "rpc_run read encoded w =
     (case exchange_frames read (Some (w_broker w)) encoded MAX_RPC_RESPONSE_BYTES (w_events w) of
        Inl e \<Rightarrow> Inl (frame_failure e)
      | Inr (stdout, stderr) \<Rightarrow>
          (case inspect_exit w of
             Inl (kind, c) \<Rightarrow> Inl (kind, with_stderr c (length stderr))
           | Inr code \<Rightarrow>
               if code \<noteq> 0 then Inl (Rpc_failed, with_stderr (exit_status code) (length stderr))
               else if stderr \<noteq> [] then Inl (Rpc_failed, stderr_output (length stderr))
               else Inr (stdout, w_calls w)))"

definition fail_stop :: "rpc_world \<Rightarrow> rpc_failure \<Rightarrow> cause \<Rightarrow> rpc_error" where
  "fail_stop w kind c = (case w_fail_stop w of
      Workload_stopped \<Rightarrow> Rpc_error kind (with_cleanup c Cleanup_workload_stopped)
    | _ \<Rightarrow> Rpc_blocked (with_cleanup c Cleanup_workload_stop_unconfirmed))"

definition terminal :: "f64_reader \<Rightarrow> string \<Rightarrow> nat \<Rightarrow> rpc_error + json" where
  "terminal read stdout calls =
     (let invalid = (\<lambda>condition. Rpc_error Rpc_invalid_result (new_cause condition Phase_result_validation)) in
      case parse read stdout of
        Inl _ \<Rightarrow> Inl (invalid Cond_line_not_json)
      | Inr response \<Rightarrow>
          if \<not> is_object response then Inl (invalid Cond_terminal_not_object)
          else if calls > 0 \<and> get response ''type'' = Some (Str ''request'')
            then Inl (invalid Cond_request_after_provider_call)
          else Inr response)"

definition started_call :: "f64_reader \<Rightarrow> string \<Rightarrow> rpc_world \<Rightarrow> rpc_failure \<times> cause + string \<times> nat" where
  "started_call read encoded w =
     (if w_stopped_during w then Inl (Rpc_ambiguous, new_cause Cond_stopped Phase_exchange)
      else case w_start w of
          Start_timeout \<Rightarrow> Inl (Rpc_timeout, new_cause Cond_deadline_passed Phase_exec_start)
        | Start_failed \<Rightarrow> Inl (Rpc_failed, new_cause Cond_exec_start_failed Phase_exec_start)
        | Started \<Rightarrow> rpc_run read encoded w)"

definition exchange :: "f64_reader \<Rightarrow> string \<Rightarrow> rpc_world \<Rightarrow> rpc_error + json" where
  "exchange read encoded w =
     (if \<not> w_slot w then Inl (dispatch_refused (w_stopped_before w))
      else if w_stopped_before w then Inl (dispatch_refused True)
      else (case started_call read encoded w of
          Inl (kind, c) \<Rightarrow> Inl (fail_stop w kind c)
        | Inr (stdout, calls) \<Rightarrow> terminal read stdout calls))"

section \<open>What an error says of the process\<close>

definition may_start :: "rpc_world \<Rightarrow> bool" where
  "may_start w \<longleftrightarrow> w_slot w \<and> \<not> w_stopped_before w"

lemma not_dispatched_iff: "(\<exists>c. exchange read encoded w = Inl (Rpc_not_dispatched c)) \<longleftrightarrow> \<not> may_start w"
proof -
  have "terminal read stdout calls \<noteq> Inl (Rpc_not_dispatched c)" for stdout calls c
    by (auto simp: terminal_def Let_def split: sum.splits)
  moreover have "fail_stop w kind c \<noteq> Rpc_not_dispatched c'" for kind c c'
    by (simp add: fail_stop_def split: fail_stop_answer.split)
  ultimately show ?thesis
    by (cases "started_call read encoded w") (auto simp: exchange_def may_start_def dispatch_refused_def split: prod.splits)
qed

lemma blocked_unconfirmed:
  "exchange read encoded w = Inl (Rpc_blocked c) \<Longrightarrow>
   may_start w \<and> w_fail_stop w \<noteq> Workload_stopped \<and> ca_cleanup c = Some Cleanup_workload_stop_unconfirmed"
  by (cases "started_call read encoded w"; cases "w_fail_stop w")
     (auto simp: exchange_def may_start_def dispatch_refused_def fail_stop_def terminal_def with_cleanup_def Let_def
       split: if_split_asm prod.split_asm sum.split_asm)

lemma returned_frame:
  assumes "exchange read encoded w = Inr v"
  shows "is_object v" "may_start w" "0 < w_calls w \<Longrightarrow> get v ''type'' \<noteq> Some (Str ''request'')"
proof -
  from assms obtain stdout calls where s: "started_call read encoded w = Inr (stdout, calls)" "terminal read stdout calls = Inr v"
    by (auto simp: exchange_def split: if_split_asm sum.split_asm prod.split_asm)
  then have "calls = w_calls w"
    by (auto simp: started_call_def rpc_run_def split: if_split_asm start_answer.split_asm sum.split_asm prod.split_asm)
  with s(2) show "is_object v" "0 < w_calls w \<Longrightarrow> get v ''type'' \<noteq> Some (Str ''request'')"
    by (auto simp: terminal_def Let_def split: sum.split_asm if_split_asm)
  show "may_start w" using assms by (auto simp: exchange_def may_start_def split: if_split_asm)
qed

lemma encoded_bound:
  "encode_invocation input stored_inputs files i responses = Inr encoded \<Longrightarrow>
   length encoded \<le> (if delivers_content (invocation_value input stored_inputs files i responses)
      then MAX_FILE_INVOCATION_BYTES else MAX_INVOCATION_BYTES)"
  by (auto simp: encode_invocation_def Let_def split: if_split_asm)

end
