(* ===== verification/Action_Projection.thy ===== *)
theory Action_Projection
  imports Action_Files
begin

text \<open>
  The projection of one terminal frame of an Action: \<^verbatim>\<open>action/src/projection.rs\<close>, with the handled failure of
  \<^verbatim>\<open>action/src/failure/mod.rs\<close>.

  Arguments stand for code outside the model: \<open>admit\<close> is the admission and redaction of a failure frame (regular
  expressions over its texts), \<open>validate\<close> the Action's reviewed output schema, \<open>sha\<close> and \<open>pr\<close> as elsewhere.
  A \<open>Secret\<close> is the text it exposes.
\<close>

record handled_failure =
  hf_error_type :: string
  hf_message :: string
  hf_provider :: "string option"
  hf_http_status :: "int option"
  hf_response_excerpt :: "string option"
  hf_redacted :: bool
  hf_truncated :: bool

definition optional_text :: "string option \<Rightarrow> json" where
  "optional_text s = (case s of None \<Rightarrow> Null | Some s \<Rightarrow> Str s)"

definition failure_document :: "handled_failure \<Rightarrow> json" where
  "failure_document f = Object [(''error_type'', Str (hf_error_type f)), (''message'', Str (hf_message f)),
     (''provider'', optional_text (hf_provider f)),
     (''http_status'', (case hf_http_status f of None \<Rightarrow> Null | Some n \<Rightarrow> Number (Int64 n))),
     (''response_excerpt'', optional_text (hf_response_excerpt f)), (''redacted'', Bool (hf_redacted f)),
     (''truncated'', Bool (hf_truncated f))]"

definition failure_withheld :: "handled_failure \<Rightarrow> handled_failure" where
  "failure_withheld f = \<lparr>hf_error_type = ''withheld'', hf_message = [], hf_provider = None,
     hf_http_status = hf_http_status f, hf_response_excerpt = None, hf_redacted = True, hf_truncated = False\<rparr>"

definition is_failure :: "json \<Rightarrow> bool" where
  "is_failure raw \<longleftrightarrow> is_object raw \<and> get raw ''type'' = Some (Str ''failure'')"

type_synonym failure_reader = "json \<Rightarrow> string list \<Rightarrow> string + handled_failure"

record result_policy =
  rp_human_requests :: "string list"
  rp_authorization_requested :: bool
  rp_injected :: "(string \<times> string) list"
  rp_held_stored_inputs :: "string list"
  rp_declared_stored_inputs :: "string list"
  rp_messages :: json
  rp_file_withheld :: bool

datatype projected = Projected_result json | Projected_request human_request

datatype refused =
    Refused_failure handled_failure
  | Refused_secret_exposure
  | Refused_invalid cause_condition
  | Refused_stored_input string

definition contains_text :: "string \<Rightarrow> string \<Rightarrow> bool" where
  \<comment> \<open>\<open>text.contains(needle)\<close>\<close>
  "contains_text s needle = list_ex (\<lambda>i. take (length needle) (drop i s) = needle) [0..<Suc (length s)]"

definition visit_text :: "string list \<Rightarrow> nat \<Rightarrow> string \<Rightarrow> bool" where
  "visit_text secrets depth s \<longleftrightarrow> depth > 32 \<or> list_ex (contains_text s) secrets"

fun visit :: "string list \<Rightarrow> nat \<Rightarrow> json \<Rightarrow> bool" where
  "visit secrets depth (Str s) = visit_text secrets depth s"
| "visit secrets depth (Array xs) \<longleftrightarrow> depth > 32 \<or> list_ex (visit secrets (depth + 1)) xs"
| "visit secrets depth (Object ms) \<longleftrightarrow> depth > 32 \<or>
     list_ex (\<lambda>(key, x). visit_text secrets (depth + 1) key \<or> visit secrets (depth + 1) x) ms"
| "visit secrets depth _ \<longleftrightarrow> depth > 32"

definition contains_secret :: "json \<Rightarrow> string list \<Rightarrow> bool" where
  "contains_secret v secrets = (let secrets = filter (\<lambda>s. s \<noteq> []) secrets in secrets \<noteq> [] \<and> visit secrets 0 v)"

definition project_rejected :: "json \<Rightarrow> result_policy \<Rightarrow> refused + projected" where
  "project_rejected raw policy = (case get raw ''stored_input'' of
      Some (Str i) \<Rightarrow> if i \<in> set (rp_declared_stored_inputs policy) \<and> i \<in> set (rp_held_stored_inputs policy)
        then Inl (Refused_stored_input i) else Inl (Refused_invalid Cond_stored_input_not_held)
    | _ \<Rightarrow> Inl (Refused_invalid Cond_stored_input_not_held))"

definition project_request ::
    "(string \<Rightarrow> string) \<Rightarrow> (string \<Rightarrow> bool) \<Rightarrow> json \<Rightarrow> result_policy \<Rightarrow> refused + projected" where
  "project_request sha pr raw policy =
     (let invalid = Refused_invalid Cond_request_invalid in
      rbind (ok_or (get raw ''request'') invalid) (\<lambda>v.
        case validate_request sha pr v (rp_human_requests policy) (rp_declared_stored_inputs policy) (rp_messages policy) of
          Inl _ \<Rightarrow> Inl invalid
        | Inr request \<Rightarrow>
            if rp_authorization_requested policy \<and> authorizes (hr_kind request)
              then Inl (Refused_invalid Cond_authorization_repeated)
            else if (case hr_stored_input request of None \<Rightarrow> False | Some i \<Rightarrow> i \<in> set (rp_held_stored_inputs policy))
              then Inl (Refused_invalid Cond_held_input_requested)
            else Inr (Projected_request request)))"

definition project_result ::
    "(json \<Rightarrow> cause_condition + unit) \<Rightarrow> json \<Rightarrow> result_policy \<Rightarrow> refused + projected" where
  "project_result validate raw policy =
     (if rp_file_withheld policy then Inl (Refused_invalid Cond_result_with_withheld_file)
      else rbind (ok_or (get raw ''result'') (Refused_invalid Cond_frame_members_invalid)) (\<lambda>result.
        case validate result of
          Inl condition \<Rightarrow> Inl (Refused_invalid condition)
        | Inr _ \<Rightarrow> (case require_durable result of
              Inl _ \<Rightarrow> Inl (Refused_invalid Cond_result_not_durable)
            | Inr _ \<Rightarrow> Inr (Projected_result result))))"

definition project ::
    "(string \<Rightarrow> string) \<Rightarrow> (string \<Rightarrow> bool) \<Rightarrow> failure_reader \<Rightarrow> (json \<Rightarrow> cause_condition + unit) \<Rightarrow> json \<Rightarrow> result_policy
       \<Rightarrow> refused + projected" where
  "project sha pr admit validate raw policy =
     (let secrets = map snd (rp_injected policy) in
      if is_failure raw then Inl (case admit raw secrets of
          Inl _ \<Rightarrow> Refused_invalid Cond_failure_invalid | Inr f \<Rightarrow> Refused_failure f)
      else if contains_secret raw secrets then Inl Refused_secret_exposure
      else (case raw of
          Object ms \<Rightarrow>
            let names = sort (map fst ms); members_invalid = Refused_invalid Cond_frame_members_invalid in
            (case get raw ''type'' of
               Some (Str kind) \<Rightarrow>
                 if kind = ''stored_input_rejected'' \<and> names = [''stored_input'', ''type''] then project_rejected raw policy
                 else if kind = ''request'' \<and> names = [''request'', ''type''] then project_request sha pr raw policy
                 else if kind = ''result'' \<and> names = [''result'', ''type''] then
                   project_result validate raw policy
                 else if kind \<in> {''stored_input_rejected'', ''request'', ''result''} then Inl members_invalid
                 else Inl (Refused_invalid Cond_frame_type_invalid)
             | _ \<Rightarrow> Inl (Refused_invalid Cond_frame_type_invalid))
        | _ \<Rightarrow> Inl (Refused_invalid Cond_terminal_not_object)))"

section \<open>Nothing projected holds an injected value\<close>

text \<open>\<open>holds_text needle v\<close>: some string or member name of \<open>v\<close>, at any depth, contains \<open>needle\<close>.\<close>

fun holds_text :: "string \<Rightarrow> json \<Rightarrow> bool" where
  "holds_text needle (Str s) = contains_text s needle"
| "holds_text needle (Array xs) = list_ex (holds_text needle) xs"
| "holds_text needle (Object ms) = list_ex (\<lambda>(key, x). contains_text key needle \<or> holds_text needle x) ms"
| "holds_text needle _ = False"

lemma visit_finds: "holds_text needle v \<Longrightarrow> needle \<in> set secrets \<Longrightarrow> visit secrets depth v"
proof (induction secrets depth v rule: visit.induct)
  case (3 secrets depth ms)
  from "3.prems"(1) obtain key x where m: "(key, x) \<in> set ms" "contains_text key needle \<or> holds_text needle x"
    by (auto simp: list_ex_iff)
  show ?case
  proof (cases "contains_text key needle")
    case True
    then have "visit_text secrets (depth + 1) key" using "3.prems"(2) by (auto simp: visit_text_def list_ex_iff)
    then show ?thesis using m(1) by (auto simp: list_ex_iff)
  next
    case False
    then have "visit secrets (depth + 1) x" using "3.IH" [OF m(1) refl] m(2) "3.prems"(2) by auto
    then show ?thesis using m(1) by (auto simp: list_ex_iff)
  qed
qed (auto simp: visit_text_def list_ex_iff)

lemma not_contains_secret:
  assumes "\<not> contains_secret v secrets" "s \<in> set secrets" "s \<noteq> []"
  shows "\<not> holds_text s v"
proof -
  have "filter (\<lambda>s. s \<noteq> []) secrets \<noteq> []" using assms(2,3) by (auto simp: filter_empty_conv)
  then show ?thesis using assms visit_finds [of s v "filter (\<lambda>s. s \<noteq> []) secrets" 0] by (auto simp: contains_secret_def)
qed

lemma get_holds: "get raw key = Some v \<Longrightarrow> holds_text needle v \<Longrightarrow> holds_text needle raw"
  by (cases raw) (auto simp: list_ex_iff dest: find_by_Some_mem)

section \<open>What an admitted request is bound to\<close>

lemma validate_request_Inr:
  assumes "validate_request sha pr v capabilities stored_inputs messages = Inr r"
  obtains ms request where "v = Object ms" "request = Object (filter (\<lambda>(name, _). name \<noteq> ''fingerprint'') ms)"
    "get request ''kind'' = Some (Str (hr_kind r))" "hr_kind r \<in> set capabilities"
    "request_error pr request (catalog_by_id messages) = None"
    "get v ''fingerprint'' = Some (Str (hr_fingerprint r))" "hr_fingerprint r = sha (canonical request)"
    "hr_canonical r = framed request (hr_fingerprint r)"
    "declared_stored_input request stored_inputs = Inr (hr_stored_input r)"
    "get request ''ordinal'' = Some (Number (Int64 (int (hr_ordinal r))))"
proof (cases v)
  case (Object ms)
  define request where "request = Object (filter (\<lambda>(name, _). name \<noteq> ''fingerprint'') ms)"
  obtain fingerprint where f: "get v ''fingerprint'' = Some (Str fingerprint)" "sha256_re fingerprint"
    using assms
    by (cases "get v ''fingerprint''"; cases "the (get v ''fingerprint'')")
       (auto simp: validate_request_def Object simp del: get.simps split: if_split_asm)
  note eq = assms [unfolded validate_request_def Object json.case Let_def request_def [symmetric],
      folded Object, unfolded f(1) option.case json.case]
  obtain kind where k: "get request ''kind'' = Some (Str kind)"
    using eq f(2) by (cases "get request ''kind''"; cases "the (get request ''kind'')") (auto simp del: get.simps)
  note eq = eq [unfolded k option.case json.case]
  have checked: "kind \<in> set capabilities" "request_error pr request (catalog_by_id messages) = None"
    "fingerprint = sha (canonical request)"
    using eq f(2) by (auto split: if_split_asm)
  from eq f(2) checked have rest: "rbind (declared_stored_input request stored_inputs) (\<lambda>stored_input. case get request ''ordinal'' of
         Some (Number (Int64 i)) \<Rightarrow> rbind (ok_or (usize_of_int i) request_invalid) (\<lambda>ordinal.
           Inr \<lparr>hr_kind = kind, hr_ordinal = ordinal, hr_fingerprint = fingerprint,
                hr_canonical = framed request fingerprint, hr_stored_input = stored_input,
                hr_catalog = referenced_catalog request (catalog_by_id messages)\<rparr>)
       | _ \<Rightarrow> Inl request_invalid) = Inr r"
    by (simp del: get.simps)
  from base_error_Inr(4) request_admitted [OF checked(2)] obtain i where i: "get request ''ordinal'' = Some (Number (Int64 i))"
    by metis
  from rest obtain stored n where "declared_stored_input request stored_inputs = Inr stored" "usize_of_int i = Some n"
    "r = \<lparr>hr_kind = kind, hr_ordinal = n, hr_fingerprint = fingerprint, hr_canonical = framed request fingerprint,
       hr_stored_input = stored, hr_catalog = referenced_catalog request (catalog_by_id messages)\<rparr>"
    by (auto simp: rbind_eq_Inr i simp del: get.simps)
  then show ?thesis
    using that [OF Object request_def] k f i checked by (auto simp: usize_of_int_def simp del: get.simps split: if_splits)
qed (use assms in \<open>auto simp: validate_request_def\<close>)

lemma validated_stored_input:
  assumes "validate_request sha pr v capabilities stored_inputs messages = Inr r" "hr_stored_input r = Some i"
  shows "i \<in> set stored_inputs" "hr_kind r = ''input:password''"
proof -
  from assms(1) obtain request where r: "get request ''kind'' = Some (Str (hr_kind r))"
    "request_error pr request (catalog_by_id messages) = None" "declared_stored_input request stored_inputs = Inr (hr_stored_input r)"
    by (rule validate_request_Inr)
  from r(3) assms(2) have s: "get request ''stored_input'' = Some (Str i)" "i \<in> set stored_inputs"
    by (auto simp: declared_stored_input_def split: option.split_asm json.split_asm if_split_asm)
  then show "i \<in> set stored_inputs" by simp
  show "hr_kind r = ''input:password''" using stored_input_password [OF r(2)] s(1) r(1) by simp
qed

lemma project_Inr:
  assumes "project sha pr admit validate raw policy = Inr p"
  shows "\<not> contains_secret raw (map snd (rp_injected policy))"
    "(\<exists>v. p = Projected_result v \<and> get raw ''type'' = Some (Str ''result'') \<and> get raw ''result'' = Some v \<and>
        \<not> rp_file_withheld policy \<and> is_ok (validate v) \<and> require_durable v = Inr ()) \<or>
     (\<exists>r v. p = Projected_request r \<and> get raw ''type'' = Some (Str ''request'') \<and> get raw ''request'' = Some v \<and>
        validate_request sha pr v (rp_human_requests policy) (rp_declared_stored_inputs policy) (rp_messages policy) = Inr r \<and>
        \<not> (rp_authorization_requested policy \<and> authorizes (hr_kind r)) \<and>
        (\<forall>i. hr_stored_input r = Some i \<longrightarrow> i \<notin> set (rp_held_stored_inputs policy)))"
proof -
  show free: "\<not> contains_secret raw (map snd (rp_injected policy))"
    using assms by (auto simp: project_def Let_def split: if_splits)
  obtain ms where raw: "raw = Object ms"
    using assms by (cases raw) (auto simp: project_def Let_def split: if_splits)
  have nf: "\<not> is_failure raw" using assms by (auto simp: project_def Let_def split: if_splits)
  obtain kind where kind: "get raw ''type'' = Some (Str kind)"
    using assms nf free
    by (auto simp: project_def Let_def raw simp del: get.simps split: option.split_asm json.split_asm)
  note eq = assms [unfolded project_def Let_def if_not_P [OF nf] if_not_P [OF free] kind option.case json.case]
  have "project_rejected raw policy \<noteq> Inr p"
    by (auto simp: project_rejected_def split: option.splits json.splits)
  then consider (request) "kind = ''request''" "project_request sha pr raw policy = Inr p"
    | (result) "kind = ''result''" "project_result validate raw policy = Inr p"
    using eq by (auto simp: raw simp del: get.simps split: if_split_asm)
  then show "(\<exists>v. p = Projected_result v \<and> get raw ''type'' = Some (Str ''result'') \<and> get raw ''result'' = Some v \<and>
        \<not> rp_file_withheld policy \<and> is_ok (validate v) \<and> require_durable v = Inr ()) \<or>
     (\<exists>r v. p = Projected_request r \<and> get raw ''type'' = Some (Str ''request'') \<and> get raw ''request'' = Some v \<and>
        validate_request sha pr v (rp_human_requests policy) (rp_declared_stored_inputs policy) (rp_messages policy) = Inr r \<and>
        \<not> (rp_authorization_requested policy \<and> authorizes (hr_kind r)) \<and>
        (\<forall>i. hr_stored_input r = Some i \<longrightarrow> i \<notin> set (rp_held_stored_inputs policy)))"
  proof cases
    case request
    let ?v = "\<lambda>v. validate_request sha pr v (rp_human_requests policy) (rp_declared_stored_inputs policy) (rp_messages policy)"
    from request(2) obtain v where v: "get raw ''request'' = Some v"
      by (auto simp: project_request_def Let_def rbind_eq_Inr simp del: get.simps)
    with request(2) obtain r where r: "?v v = Inr r"
      by (cases "?v v") (auto simp: project_request_def Let_def simp del: get.simps)
    from request(2) have "p = Projected_request r" "\<not> (rp_authorization_requested policy \<and> authorizes (hr_kind r))"
      "\<forall>i. hr_stored_input r = Some i \<longrightarrow> i \<notin> set (rp_held_stored_inputs policy)"
      by (auto simp: project_request_def Let_def v r simp del: get.simps split: if_split_asm)
    then show ?thesis using kind request(1) v r by blast
  next
    case result
    then obtain v where "get raw ''result'' = Some v" "\<not> rp_file_withheld policy" "p = Projected_result v"
      "is_ok (validate v)" "require_durable v = Inr ()"
      by (auto simp: project_result_def rbind_eq_Inr simp del: get.simps split: if_split_asm)
         (auto simp: is_ok_def split: sum.split_asm)
    then show ?thesis using kind result(1) by blast
  qed
qed

text \<open>C18: What an Action returns carries nothing the Team injected. A frame that projects to a result or a human request holds no
  injected value in any string or member name at any depth; a result is exactly the frame's \<open>result\<close> member, satisfies the
  reviewed output schema and the durable bounds, and never comes from an Action whose file was withheld; a request is of a
  declared kind, does not ask again for an authorization the transcript holds, is fingerprinted by its own canonical form,
  and names a Stored Input only as a password request for one the Action declares and the Team does not hold.\<close>
theorem projection_holds_no_secret:
  assumes "project sha pr admit validate raw policy = Inr p"
  shows "(\<forall>(i, s) \<in> set (rp_injected policy). s \<noteq> [] \<longrightarrow> \<not> holds_text s raw) \<and>
    (case p of
       Projected_result v \<Rightarrow> get raw ''result'' = Some v \<and> is_ok (validate v) \<and> nodes v \<le> MAX_JSON_NODES \<and>
         nesting v \<le> MAX_JSON_DEPTH \<and> length (canonical v) \<le> MAX_RESULT_BYTES \<and> \<not> rp_file_withheld policy \<and>
         (\<forall>(i, s) \<in> set (rp_injected policy). s \<noteq> [] \<longrightarrow> \<not> holds_text s v)
     | Projected_request r \<Rightarrow> hr_kind r \<in> set (rp_human_requests policy) \<and> hr_ordinal r \<le> 7 \<and>
         (rp_authorization_requested policy \<longrightarrow> \<not> authorizes (hr_kind r)) \<and>
         (\<exists>ms. get raw ''request'' = Some (Object ms) \<and>
            hr_fingerprint r = sha (canonical (Object (filter (\<lambda>(name, _). name \<noteq> ''fingerprint'') ms)))) \<and>
         (\<forall>i. hr_stored_input r = Some i \<longrightarrow> hr_kind r = ''input:password'' \<and>
            i \<in> set (rp_declared_stored_inputs policy) \<and> i \<notin> set (rp_held_stored_inputs policy)))"
proof -
  note p = project_Inr [OF assms]
  have free: "\<not> holds_text s raw" if "(i, s) \<in> set (rp_injected policy)" "s \<noteq> []" for i s
    using not_contains_secret [OF p(1)] that by force
  from p(2) show ?thesis
  proof (elim disjE exE conjE)
    fix v assume v: "p = Projected_result v" "get raw ''result'' = Some v" "\<not> rp_file_withheld policy" "is_ok (validate v)"
      "require_durable v = Inr ()"
    then obtain enc where "canonical_result v MAX_RESULT_BYTES = Inr enc" by (auto simp: require_durable_def rbind_eq_Inr)
    then have "nodes v \<le> MAX_JSON_NODES" "nesting v \<le> MAX_JSON_DEPTH" "length (canonical v) \<le> MAX_RESULT_BYTES"
      by (auto simp: canonical_result_Inr)
    moreover have "\<not> holds_text s v" if "(i, s) \<in> set (rp_injected policy)" "s \<noteq> []" for i s
      using free [OF that] get_holds [OF v(2)] by blast
    ultimately show ?thesis using v free by auto
  next
    fix r v assume r: "p = Projected_request r" "get raw ''request'' = Some v"
      "validate_request sha pr v (rp_human_requests policy) (rp_declared_stored_inputs policy) (rp_messages policy) = Inr r"
      "\<not> (rp_authorization_requested policy \<and> authorizes (hr_kind r))"
      "\<forall>i. hr_stored_input r = Some i \<longrightarrow> i \<notin> set (rp_held_stored_inputs policy)"
    from r(3) obtain ms request where q: "v = Object ms" "request = Object (filter (\<lambda>(name, _). name \<noteq> ''fingerprint'') ms)"
      "hr_kind r \<in> set (rp_human_requests policy)" "request_error pr request (catalog_by_id (rp_messages policy)) = None"
      "hr_fingerprint r = sha (canonical request)" "get request ''ordinal'' = Some (Number (Int64 (int (hr_ordinal r))))"
      by (rule validate_request_Inr)
    from request_admitted [OF q(4)] obtain ms' where "base_error request (catalog_by_id (rp_messages policy)) = Inr ms'" by metis
    from base_error_Inr(4) [OF this] q(6) have "hr_ordinal r \<le> 7" by (auto simp del: get.simps)
    moreover have "\<exists>ms. get raw ''request'' = Some (Object ms) \<and>
        hr_fingerprint r = sha (canonical (Object (filter (\<lambda>(name, _). name \<noteq> ''fingerprint'') ms)))"
      using r(2) q(1,2,5) by blast
    moreover have "\<forall>i. hr_stored_input r = Some i \<longrightarrow> hr_kind r = ''input:password'' \<and>
        i \<in> set (rp_declared_stored_inputs policy) \<and> i \<notin> set (rp_held_stored_inputs policy)"
      using r(5) validated_stored_input [OF r(3)] by blast
    ultimately show ?thesis using r(1,4) q(3) free by (auto simp del: get.simps)
  qed
qed

definition example_policy :: result_policy where
  "example_policy = \<lparr>rp_human_requests = [], rp_authorization_requested = False,
     rp_injected = [(''integration:cloudflare'', ''oauth-token'')], rp_held_stored_inputs = [], rp_declared_stored_inputs = [],
     rp_messages = Array [], rp_file_withheld = False\<rparr>"

definition example_frame :: json where
  "example_frame = Object [(''type'', Str ''result''), (''result'', Object [(''zone'', Str ''example'')])]"

theorem projection_holds_no_secret_witness:
  "project example_digest (\<lambda>_. True) (\<lambda>_ _. Inl []) (\<lambda>_. Inr ()) example_frame example_policy =
      Inr (Projected_result (Object [(''zone'', Str ''example'')])) \<and>
   \<not> holds_text ''oauth-token'' example_frame"
proof -
  let ?result = "Object [(''zone'', Str ''example'')]"
  have "length (canonical ?result) \<le> MAX_RESULT_BYTES"
    by (simp add: canonical_def dumps_def CANONICAL_def item_separator_def write_string_def escape_char_def MAX_RESULT_BYTES_def)
  then have durable: "require_durable ?result = Inr ()"
    by (simp add: require_durable_def rbind_eq_Inr canonical_result_Inr MAX_JSON_NODES_def MAX_JSON_DEPTH_def)
  have "\<not> contains_secret example_frame [''oauth-token'']" by code_simp
  then have ok: "project example_digest (\<lambda>_. True) (\<lambda>_ _. Inl []) (\<lambda>_. Inr ()) example_frame example_policy =
      Inr (Projected_result (Object [(''zone'', Str ''example'')]))"
    by (simp add: project_def example_policy_def) (simp add: example_frame_def is_failure_def project_result_def durable)
  from projection_holds_no_secret [OF ok] ok show ?thesis by (auto simp: example_policy_def)
qed

end
