(* ===== verification/Action_Runner.thy ===== *)
theory Action_Runner
  imports Action_Rpc Action_Projection Action_Journal
begin

text \<open>
  One Action attempt, from its reviewed binding to its projected outcome: \<^verbatim>\<open>action/src/runner/mod.rs\<close>.

  The collaborators' answers are the record \<open>attempt_world\<close>: the lock of the blocked workloads, the resolved
  Integration tokens, the Stored Inputs, the selected file's bytes, the observer's seal, the audit log and the
  exec call. What an attempt does to the world is a list of \<open>effect\<close>s in order; \<open>Sent\<close> is the exec call once
  the process may have started. The blocked workloads are the runner's own state. The Action's input and output
  schemas are the arguments \<open>valid_input\<close> and \<open>validate\<close>, the redaction of handled failures is \<open>admit\<close>.
\<close>

record runtime_contract =
  rc_actions :: "action_spec list"
  rc_integrations :: "string list" \<comment> \<open>the declared Integration ids\<close>
  rc_machine_contract :: json

record binding =
  bi_contract :: runtime_contract
  bi_assistant :: string
  bi_container :: string
  bi_image :: string

datatype outcome_of_attempt = Outcome_completed json | Outcome_request human_request

datatype failed_attempt = Failed_not_dispatched action_error | Failed_handled cause | Failed_uncertain action_error

fun failed_error :: "failed_attempt \<Rightarrow> action_error" where
  "failed_error (Failed_not_dispatched e) = e"
| "failed_error (Failed_uncertain e) = e"
| "failed_error (Failed_handled c) = new_error Failure_failed c"

datatype fault =
    Fault_handled handled_failure | Fault_transport string | Fault_unquiesced | Fault_policy "string option" | Fault_other

datatype effect =
    Recorded string string "cause option"
  | Sealing
  | Sent string string
  | Returned
  | Told fault
  | Cleared string

record private_values =
  pv_integrations :: "(string \<times> string) list"
  pv_stored_inputs :: "(string \<times> string) list"

datatype stored_answer = Stored_value string nat string | Stored_missing | Stored_failed

record attempt_world =
  a_poisoned :: bool \<comment> \<open>the lock of the blocked workloads is poisoned\<close>
  a_integrations :: "unit + (string \<times> string) list"
  a_stored :: "string \<Rightarrow> stored_answer"
  a_file :: "unit + stored_file"
  a_sealed :: bool \<comment> \<open>the observer seals the dispatch\<close>
  a_audit :: "audit_unavailable option" \<comment> \<open>the dispatch record's failure\<close>
  a_rpc :: rpc_world
  a_stopped :: bool \<comment> \<open>Stop is set when a failed call is classified\<close>

record target =
  tg_binding :: binding
  tg_action :: action_spec
  tg_operation_id :: string

datatype payload_error =
    Payload_not_an_object | Payload_too_deep | Payload_invalid | Payload_pattern | Payload_arithmetic | Payload_unsupported

fun schema_condition :: "payload_error \<Rightarrow> cause_condition" where
  "schema_condition Payload_not_an_object = Cond_result_not_object"
| "schema_condition Payload_too_deep = Cond_result_too_deep"
| "schema_condition Payload_invalid = Cond_result_schema_mismatch"
| "schema_condition Payload_pattern = Cond_schema_pattern_unevaluable"
| "schema_condition Payload_arithmetic = Cond_result_number_unevaluable"
| "schema_condition Payload_unsupported = Cond_schema_unsupported"

section \<open>Private values\<close>

definition held_inputs :: "private_values \<Rightarrow> string list" where
  "held_inputs p = map fst (pv_stored_inputs p)"

definition injected_values :: "private_values \<Rightarrow> (string \<times> string) list" where
  "injected_values p = map (\<lambda>(i, v). (''integration:'' @ i, v)) (pv_integrations p)
     @ map (\<lambda>(i, v). (''stored-input:'' @ i, v)) (pv_stored_inputs p)"

definition stored_unavailable :: action_error where
  "stored_unavailable = new_error Failure_state_unavailable (new_cause Cond_stored_input_unavailable Phase_preparation)"

fun resolve_stored :: "(string \<Rightarrow> stored_answer) \<Rightarrow> string list \<Rightarrow> action_error + (string \<times> string) list" where
  "resolve_stored answers [] = Inr []"
| "resolve_stored answers (i # is) = (case answers i of
      Stored_value v _ _ \<Rightarrow> rbind (resolve_stored answers is) (\<lambda>vs. Inr ((i, v) # vs))
    | Stored_missing \<Rightarrow> resolve_stored answers is
    | Stored_failed \<Rightarrow> Inl stored_unavailable)"

definition private_of :: "action_spec \<Rightarrow> attempt_world \<Rightarrow> action_error + private_values" where
  "private_of action w =
     rbind (if sp_integrations action = [] then Inr []
            else (case a_integrations w of
                Inl _ \<Rightarrow> Inl (error_at Failure_integration_unavailable Phase_preparation)
              | Inr tokens \<Rightarrow> Inr tokens))
       (\<lambda>integrations. rbind (resolve_stored (a_stored w) (sp_stored_inputs action))
         (\<lambda>stored. Inr \<lparr>pv_integrations = integrations, pv_stored_inputs = stored\<rparr>))"

section \<open>Records\<close>

definition record_entry :: "target \<Rightarrow> string \<Rightarrow> string \<Rightarrow> cause option \<Rightarrow> effect" where
  "record_entry tg result detail cause = Recorded result (detail @ '':'' @ sp_id (tg_action tg)) cause"

definition record_file :: "target \<Rightarrow> string \<Rightarrow> string \<Rightarrow> string \<times> int \<Rightarrow> effect" where
  "record_file tg result kind sent =
     Recorded result (kind @ '':'' @ sp_id (tg_action tg) @ '':'' @ fst sent @ '':'' @ show_int (snd sent)) None"

fun is_not_dispatched :: "failed_attempt \<Rightarrow> bool" where
  "is_not_dispatched (Failed_not_dispatched _) = True"
| "is_not_dispatched _ = False"

fun is_handled :: "failed_attempt \<Rightarrow> bool" where
  "is_handled (Failed_handled _) = True"
| "is_handled _ = False"

definition record_failure :: "target \<Rightarrow> string \<Rightarrow> failed_attempt \<Rightarrow> effect list" where
  "record_failure tg detail failed =
     (let cause = ae_cause (failed_error failed);
          unaudited = (case cause of None \<Rightarrow> False | Some c \<Rightarrow> kind_of_cause c = Kind_team_audit) in
      if unaudited \<and> is_not_dispatched failed then []
      else [record_entry tg (if is_not_dispatched failed then ''denied'' else ''error'') detail cause])"

section \<open>Before the dispatch\<close>

definition is_blocked :: "string list \<Rightarrow> attempt_world \<Rightarrow> string \<Rightarrow> bool" where
  "is_blocked blocked w container \<longleftrightarrow> a_poisoned w \<or> container \<in> set blocked"

definition runner_files ::
    "(string \<Rightarrow> string) \<Rightarrow> (string \<Rightarrow> string) \<Rightarrow> action_spec \<Rightarrow> json \<Rightarrow> transcript \<Rightarrow> action_file option \<Rightarrow> bool
       \<Rightarrow> attempt_world \<Rightarrow> action_error + json" where
  \<comment> \<open>\<open>invocation_files\<close>; the flag: the delivery holds the file slot\<close>
  "runner_files sha b64 action input t file admitted w =
     (let unavailable = error_at Failure_file_unavailable Phase_preparation in
      rbind (if file \<noteq> None \<and> admitted
             then (case a_file w of Inl _ \<Rightarrow> Inl unavailable | Inr st \<Rightarrow> Inr (Some st)) else Inr None)
        (\<lambda>granted. case deliver sha b64 action file t input granted of
            Inl _ \<Rightarrow> Inl unavailable | Inr files \<Rightarrow> Inr files))"

definition prepare_attempt ::
    "(string \<Rightarrow> string) \<Rightarrow> (string \<Rightarrow> string) \<Rightarrow> bool \<Rightarrow> string list \<Rightarrow> target \<Rightarrow> json \<Rightarrow> transcript \<Rightarrow> action_file option \<Rightarrow> bool
       \<Rightarrow> attempt_world \<Rightarrow> (failed_attempt + private_values \<times> string \<times> json) \<times> string list \<times> effect list" where
  \<comment> \<open>\<open>prepared\<close>, with what it injects and does\<close>
  "prepare_attempt sha b64 observed blocked tg input t file admitted w =
     (if is_blocked blocked w (bi_container (tg_binding tg))
      then (Inl (Failed_not_dispatched (error_at Failure_blocked Phase_admission)), [], [])
      else case private_of (tg_action tg) w of
          Inl e \<Rightarrow> (Inl (Failed_not_dispatched e), [], [])
        | Inr private \<Rightarrow>
            let injected = map snd (injected_values private) in
            (case runner_files sha b64 (tg_action tg) input t file admitted w of
               Inl e \<Rightarrow> (Inl (Failed_not_dispatched e), injected, [])
             | Inr files \<Rightarrow>
                 (case encode_invocation input (held_inputs private) files (tg_operation_id tg) (transcript_payloads t) of
                    Inl _ \<Rightarrow> (Inl (Failed_not_dispatched (new_error Failure_invalid_input
                        (new_cause Cond_invocation_too_large Phase_preparation))), injected, [])
                  | Inr encoded \<Rightarrow>
                      let sealing = (if observed then [Sealing] else []) in
                      if observed \<and> \<not> a_sealed w
                      then (Inl (Failed_not_dispatched (new_error Failure_state_unavailable
                              (new_cause Cond_dispatch_seal_refused Phase_dispatch_record))), injected, sealing)
                      else (case a_audit w of
                          Some reason \<Rightarrow> (Inl (Failed_not_dispatched (new_error Failure_state_unavailable
                              (new_cause (audit_condition reason) Phase_dispatch_record))), injected,
                              sealing @ [record_entry tg ''ok'' ''started'' None])
                        | None \<Rightarrow> (Inr (private, encoded, files), injected,
                              sealing @ [record_entry tg ''ok'' ''started'' None])))))"

section \<open>After the dispatch\<close>

definition rpc_failure_of :: "rpc_error \<Rightarrow> bool \<Rightarrow> failed_attempt \<times> fault" where
  \<comment> \<open>the match of \<open>rpc_failed\<close>; the flag: Stop is set\<close>
  "rpc_failure_of e stopped = (case e of
      Rpc_not_dispatched c \<Rightarrow>
        (Failed_not_dispatched (new_error (if stopped then Failure_stopped else Failure_docker_unavailable) c), Fault_other)
    | Rpc_blocked c \<Rightarrow> (Failed_uncertain (new_error Failure_blocked c), Fault_unquiesced)
    | Rpc_error kind c \<Rightarrow>
        let condition = routine_condition c in
        (Failed_uncertain (new_error Failure_uncertain c),
         if kind = Rpc_invalid_result \<or> condition = ''frame-invalid'' then Fault_policy (Some condition)
         else Fault_transport condition))"

definition block_workload :: "string list \<Rightarrow> attempt_world \<Rightarrow> rpc_error \<Rightarrow> string \<Rightarrow> string list" where
  "block_workload blocked w e container = (case e of
      Rpc_blocked _ \<Rightarrow> if a_poisoned w then blocked else List.insert container blocked
    | _ \<Rightarrow> blocked)"

definition settle_projection ::
    "target \<Rightarrow> refused + projected \<Rightarrow> (failed_attempt \<times> fault + outcome_of_attempt) \<times> effect list" where
  "settle_projection tg projected =
     (let validation = (\<lambda>condition. new_cause condition Phase_result_validation);
          refuse = (\<lambda>failed fault detail effects. (Inl (failed, fault), effects @ record_failure tg detail failed)) in
      case projected of
        Inr (Projected_result result) \<Rightarrow> (Inr (Outcome_completed result), [record_entry tg ''ok'' ''completed'' None])
      | Inr (Projected_request request) \<Rightarrow> (Inr (Outcome_request request), [])
      | Inl (Refused_stored_input i) \<Rightarrow>
          refuse (Failed_uncertain (new_error Failure_failed (validation Cond_stored_input_rejected))) Fault_other
            ''stored-input-rejected'' [Cleared i]
      | Inl (Refused_failure f) \<Rightarrow> refuse (Failed_handled (handled_cause (hf_http_status f))) (Fault_handled f) ''action-failed'' []
      | Inl Refused_secret_exposure \<Rightarrow>
          refuse (Failed_uncertain (new_error Failure_uncertain (validation Cond_injected_value_echoed))) (Fault_policy None)
            ''invalid-output'' []
      | Inl (Refused_invalid condition) \<Rightarrow>
          refuse (Failed_uncertain (new_error Failure_uncertain (validation condition))) (Fault_policy None)
            ''invalid-output'' [])"

definition policy_of :: "target \<Rightarrow> private_values \<Rightarrow> transcript \<Rightarrow> bool \<Rightarrow> result_policy" where
  "policy_of tg private t file_withheld = \<lparr>
     rp_human_requests = sp_human_requests (tg_action tg),
     rp_authorization_requested = list_ex (\<lambda>s. authorizes (hs_kind s)) (tr_responses t),
     rp_injected = injected_values private,
     rp_held_stored_inputs = held_inputs private,
     rp_declared_stored_inputs = sp_stored_inputs (tg_action tg),
     rp_messages = (case get (rc_machine_contract (bi_contract (tg_binding tg))) ''messages'' of None \<Rightarrow> Array [] | Some v \<Rightarrow> v),
     rp_file_withheld = file_withheld\<rparr>"

record tools =
  \<comment> \<open>code outside the model: digest, base64, printability, float reader, failure redaction and the Action schemas\<close>
  t_sha :: "string \<Rightarrow> string"
  t_b64 :: "string \<Rightarrow> string"
  t_printable :: "string \<Rightarrow> bool"
  t_read :: f64_reader
  t_admit :: failure_reader
  t_valid_input :: "action_spec \<Rightarrow> json \<Rightarrow> bool"
  t_validate :: "action_spec \<Rightarrow> json \<Rightarrow> payload_error + unit"

definition output_check :: "tools \<Rightarrow> action_spec \<Rightarrow> json \<Rightarrow> cause_condition + unit" where
  \<comment> \<open>the closure \<open>projected\<close> hands to the projection\<close>
  "output_check env action result = (case t_validate env action result of
      Inl e \<Rightarrow> Inl (schema_condition e) | Inr _ \<Rightarrow> Inr ())"

definition dispatch_attempt ::
    "tools \<Rightarrow> bool \<Rightarrow> string list \<Rightarrow> target \<Rightarrow> private_values \<Rightarrow> transcript \<Rightarrow> string \<Rightarrow> (string \<times> int) option \<Rightarrow> bool
       \<Rightarrow> attempt_world \<Rightarrow> (failed_attempt + outcome_of_attempt) \<times> string list \<times> effect list" where
  \<comment> \<open>\<open>dispatch\<close>, \<open>exchanged\<close>, \<open>rpc_failed\<close> and \<open>projected\<close>: the outcome, the blocked workloads and the effects\<close>
  "dispatch_attempt env observed blocked tg private t encoded sent_file file_withheld w =
     (let container = bi_container (tg_binding tg);
          sent = (if may_start (a_rpc w) then [Sent container encoded] else []);
          told = (\<lambda>fault. if observed then [Told fault] else []) in
      case exchange (t_read env) encoded (a_rpc w) of
        Inr raw \<Rightarrow>
          let returned = (if observed then [Returned] else []);
              recorded = (case sent_file of None \<Rightarrow> [] | Some d \<Rightarrow> [record_file tg ''ok'' ''file-delivered'' d]) in
          (case settle_projection tg (project (t_sha env) (t_printable env) (t_admit env) (output_check env (tg_action tg)) raw
                  (policy_of tg private t file_withheld)) of
             (Inr outcome, effects) \<Rightarrow> (Inr outcome, blocked, sent @ returned @ recorded @ effects)
           | (Inl (failed, fault), effects) \<Rightarrow>
               (Inl failed, blocked, sent @ returned @ recorded @ effects @ told fault))
      | Inl e \<Rightarrow>
          let (failed, fault) = rpc_failure_of e (a_stopped w);
              recorded = (case sent_file of None \<Rightarrow> [] | Some d \<Rightarrow> [record_file tg ''error'' ''file-delivery-unconfirmed'' d]) in
          (Inl failed, block_workload blocked w e container,
           sent @ [record_entry tg ''error'' ''failed'' (ae_cause (failed_error failed))] @ recorded @ told fault))"

record attempt_result =
  ar_outcome :: "failed_attempt + outcome_of_attempt"
  ar_injected :: "string list"
  ar_blocked :: "string list"
  ar_effects :: "effect list"

definition attempt ::
    "tools \<Rightarrow> bool \<Rightarrow> string list \<Rightarrow> target \<Rightarrow> json \<Rightarrow> transcript \<Rightarrow> action_file option \<Rightarrow> bool \<Rightarrow> attempt_world \<Rightarrow> attempt_result" where
  "attempt env observed blocked tg input t file admitted w =
     (case prepare_attempt (t_sha env) (t_b64 env) observed blocked tg input t file admitted w of
        (Inl failed, injected, effects) \<Rightarrow> \<lparr>ar_outcome = Inl failed, ar_injected = injected, ar_blocked = blocked,
           ar_effects = effects @ record_failure tg ''not-dispatched'' failed\<rparr>
      | (Inr (private, encoded, files), injected, effects) \<Rightarrow>
          let file_withheld = (file \<noteq> None \<and> \<not> authorized t (sp_human_requests (tg_action tg)));
              (outcome, blocked', effects') =
                dispatch_attempt env observed blocked tg private t encoded (delivered_file files) file_withheld w in
          \<lparr>ar_outcome = outcome, ar_injected = injected, ar_blocked = blocked', ar_effects = effects @ effects'\<rparr>)"

section \<open>Admission and the direct route\<close>

definition admitted :: "tools \<Rightarrow> action_failure + binding \<Rightarrow> action_request \<Rightarrow> action_error + binding \<times> action_spec" where
  "admitted env bound request =
     (let admission = (\<lambda>failure. error_at failure Phase_admission) in
      case bound of
        Inl failure \<Rightarrow> Inl (admission failure)
      | Inr binding \<Rightarrow>
          rbind (ok_or (find_by sp_id (rq_action request) (rc_actions (bi_contract binding)))
                       (admission Failure_not_declared))
            (\<lambda>action. if t_valid_input env action (rq_input request) then Inr (binding, action)
               else Inl (admission Failure_invalid_input)))"

definition file_at_admission :: "action_spec \<Rightarrow> action_request \<Rightarrow> action_error + action_file option" where
  "file_at_admission action request = (case named_file (sp_input_files action) (rq_input request) (rq_files request) of
      Inl _ \<Rightarrow> Inl (error_at Failure_file_unavailable Phase_admission)
    | Inr file \<Rightarrow> Inr file)"

definition invoke_direct ::
    "tools \<Rightarrow> string list \<Rightarrow> action_failure + binding \<Rightarrow> action_request \<Rightarrow> entropy \<Rightarrow> attempt_world
       \<Rightarrow> (action_error + json) \<times> string list \<times> effect list" where
  \<comment> \<open>\<open>ActionExecutor::invoke\<close>: one fresh logical operation outside any batch\<close>
  "invoke_direct env blocked bound request ent w =
     (case admitted env bound request of
        Inl e \<Rightarrow> (Inl e, blocked, [])
      | Inr (binding, action) \<Rightarrow>
          (case new_operation_id ent of
             None \<Rightarrow> (Inl (new_error Failure_state_unavailable
                 (new_cause Cond_operation_id_unavailable Phase_preparation)), blocked, [])
           | Some (i, _) \<Rightarrow>
               (case file_at_admission action request of
                  Inl e \<Rightarrow> (Inl e, blocked, [])
                | Inr file \<Rightarrow>
                    let tg = \<lparr>tg_binding = binding, tg_action = action, tg_operation_id = i\<rparr>;
                        a = attempt env False blocked tg (rq_input request) (new_transcript (rq_interrupt request)) file False w in
                    (case ar_outcome a of
                       Inr (Outcome_completed result) \<Rightarrow> (Inr result, ar_blocked a, ar_effects a)
                     | Inr (Outcome_request _) \<Rightarrow>
                         let e = error_at Failure_human_request_required Phase_result_validation in
                         (Inl e, ar_blocked a,
                          ar_effects a @ [record_entry tg ''denied'' ''human-request-required'' (ae_cause e)])
                     | Inl failed \<Rightarrow> (Inl (failed_error failed), ar_blocked a, ar_effects a)))))"


section \<open>What an attempt sends\<close>

fun is_sent :: "effect \<Rightarrow> bool" where
  "is_sent (Sent _ _) = True"
| "is_sent _ = False"

definition silent :: "effect list \<Rightarrow> bool" where
  "silent es \<longleftrightarrow> list_all (\<lambda>e. \<not> is_sent e) es"

lemma silent_simps [simp]:
  "silent []" "silent (e # es) \<longleftrightarrow> \<not> is_sent e \<and> silent es" "silent (es @ es') \<longleftrightarrow> silent es \<and> silent es'"
  by (auto simp: silent_def)

lemma records_silent [simp]: "\<not> is_sent (record_entry tg r d c)" "\<not> is_sent (record_file tg r d f)" "silent (record_failure tg d failed)"
  by (auto simp: record_entry_def record_file_def record_failure_def Let_def)

lemma prepare_refused:
  "prepare_attempt sha b64 observed blocked tg input t file held w = (Inl failed, injected, es) \<Longrightarrow>
   is_not_dispatched failed \<and> silent es"
  by (auto simp: prepare_attempt_def Let_def split: if_split_asm sum.split_asm option.split_asm prod.split_asm)

lemma prepare_admitted:
  assumes "prepare_attempt sha b64 observed blocked tg input t file held w = (Inr (private, encoded, files), injected, es)"
  shows "\<not> is_blocked blocked w (bi_container (tg_binding tg))" "a_audit w = None" "observed \<Longrightarrow> a_sealed w"
    "es = (if observed then [Sealing] else []) @ [record_entry tg ''ok'' ''started'' None]"
    "encode_invocation input (held_inputs private) files (tg_operation_id tg) (transcript_payloads t) = Inr encoded"
  using assms
  by (auto simp: prepare_attempt_def Let_def split: if_split_asm sum.split_asm option.split_asm prod.split_asm)

lemma settle_projection_dispatched:
  assumes "settle_projection tg p = (r, es)"
  shows "silent es" "r = Inl (failed, fault) \<Longrightarrow> \<not> is_not_dispatched failed"
  using assms by (auto simp: settle_projection_def Let_def split: sum.split_asm projected.split_asm refused.split_asm)

lemma rpc_failure_dispatched:
  "is_not_dispatched (fst (rpc_failure_of e stopped)) \<longleftrightarrow> (\<exists>c. e = Rpc_not_dispatched c)"
  by (cases e) (auto simp: rpc_failure_of_def Let_def)

lemma blocked_grows: "set blocked \<subseteq> set (block_workload blocked w e container)"
  by (auto simp: block_workload_def split: rpc_error.split)

lemma dispatch_effects:
  assumes "dispatch_attempt env observed blocked tg private t encoded sent_file hidden w = (out, blocked', es)"
  shows "\<exists>post. silent post \<and>
      es = (if may_start (a_rpc w) then [Sent (bi_container (tg_binding tg)) encoded] else []) @ post"
    "(\<exists>failed. out = Inl failed \<and> is_not_dispatched failed) \<longleftrightarrow> \<not> may_start (a_rpc w)"
    "set blocked \<subseteq> set blocked'"
proof (atomize (full), cases "exchange (t_read env) encoded (a_rpc w)")
  case (Inl e)
  obtain failed fault where f: "rpc_failure_of e (a_stopped w) = (failed, fault)" by (cases "rpc_failure_of e (a_stopped w)")
  have "is_not_dispatched failed \<longleftrightarrow> \<not> may_start (a_rpc w)"
    using rpc_failure_dispatched [of e "a_stopped w"] not_dispatched_iff [of "t_read env" encoded "a_rpc w"]
    unfolding Inl f by auto
  with assms Inl f blocked_grows [of blocked w e "bi_container (tg_binding tg)"]
  show "(\<exists>post. silent post \<and>
      es = (if may_start (a_rpc w) then [Sent (bi_container (tg_binding tg)) encoded] else []) @ post) \<and>
    ((\<exists>failed. out = Inl failed \<and> is_not_dispatched failed) = (\<not> may_start (a_rpc w))) \<and> set blocked \<subseteq> set blocked'"
    by (auto simp: dispatch_attempt_def Let_def split: option.split_asm)
next
  case (Inr raw)
  let ?p = "settle_projection tg (project (t_sha env) (t_printable env) (t_admit env) (output_check env (tg_action tg)) raw
      (policy_of tg private t hidden))"
  obtain r fx where p: "?p = (r, fx)" by (cases ?p)
  with settle_projection_dispatched [OF p] returned_frame(2) [OF Inr] assms Inr
  show "(\<exists>post. silent post \<and>
      es = (if may_start (a_rpc w) then [Sent (bi_container (tg_binding tg)) encoded] else []) @ post) \<and>
    ((\<exists>failed. out = Inl failed \<and> is_not_dispatched failed) = (\<not> may_start (a_rpc w))) \<and> set blocked \<subseteq> set blocked'"
    by (cases r) (auto simp: dispatch_attempt_def Let_def split: option.split_asm prod.split_asm)
qed


lemma attempt_refused:
  assumes "prepare_attempt (t_sha env) (t_b64 env) observed blocked tg input t file held w = (Inl failed, injected, es)"
    "a = attempt env observed blocked tg input t file held w"
  shows "silent (ar_effects a)" "ar_outcome a = Inl failed" "is_not_dispatched failed" "ar_blocked a = blocked"
  using prepare_refused [OF assms(1)] assms by (simp_all add: attempt_def)

lemma attempt_dispatched:
  assumes "prepare_attempt (t_sha env) (t_b64 env) observed blocked tg input t file held w
      = (Inr (private, encoded, files), injected, es)"
    "a = attempt env observed blocked tg input t file held w"
  obtains out blocked' fx hidden where
    "dispatch_attempt env observed blocked tg private t encoded (delivered_file files) hidden w = (out, blocked', fx)"
    "ar_effects a = es @ fx" "ar_outcome a = out" "ar_blocked a = blocked'"
proof -
  let ?hidden = "file \<noteq> None \<and> \<not> authorized t (sp_human_requests (tg_action tg))"
  obtain out blocked' fx where
    d: "dispatch_attempt env observed blocked tg private t encoded (delivered_file files) ?hidden w = (out, blocked', fx)"
    by (cases "dispatch_attempt env observed blocked tg private t encoded (delivered_file files) ?hidden w")
  with assms have "ar_effects a = es @ fx" "ar_outcome a = out" "ar_blocked a = blocked'"
    by (simp_all add: attempt_def)
  with d show thesis by (rule that)
qed

lemma encoded_bound':
  assumes "encode_invocation input stored_inputs files i responses = Inr encoded"
  shows "length encoded \<le> MAX_FILE_INVOCATION_BYTES"
proof -
  have "MAX_INVOCATION_BYTES \<le> MAX_FILE_INVOCATION_BYTES"
    by (simp add: MAX_FILE_INVOCATION_BYTES_def MAX_INVOCATION_BYTES_def)
  then have "(if q then MAX_FILE_INVOCATION_BYTES else MAX_INVOCATION_BYTES) \<le> MAX_FILE_INVOCATION_BYTES" for q
    by simp
  with encoded_bound [OF assms] show ?thesis by (rule order_trans)
qed

text \<open>The two ways an attempt ends: refused before the dispatch, or sent once, after its record.\<close>

definition unsent :: "attempt_result \<Rightarrow> bool" where
  "unsent a \<longleftrightarrow> silent (ar_effects a) \<and> (case ar_outcome a of Inl failed \<Rightarrow> is_not_dispatched failed | Inr _ \<Rightarrow> False)"

definition sent_once :: "bool \<Rightarrow> target \<Rightarrow> attempt_world \<Rightarrow> attempt_result \<Rightarrow> bool" where
  "sent_once observed tg w a \<longleftrightarrow> a_audit w = None \<and> (if observed then a_sealed w else True)
     \<and> (case ar_outcome a of Inl failed \<Rightarrow> \<not> is_not_dispatched failed | Inr _ \<Rightarrow> True)
     \<and> (\<exists>encoded post. length encoded \<le> MAX_FILE_INVOCATION_BYTES \<and> silent post
         \<and> ar_effects a = (if observed then [Sealing] else [])
             @ [Recorded ''ok'' (''started:'' @ sp_id (tg_action tg)) None, Sent (bi_container (tg_binding tg)) encoded] @ post)"

lemma sent_not_silent: "sent_once observed tg w a \<Longrightarrow> \<not> silent (ar_effects a)"
  by (auto simp: sent_once_def)

lemma attempt_outcomes:
  assumes "a = attempt env observed blocked tg input t file held w"
  obtains (refused) "unsent a" "set blocked \<subseteq> set (ar_blocked a)"
    | (dispatched) "sent_once observed tg w a" "\<not> is_blocked blocked w (bi_container (tg_binding tg))"
        "set blocked \<subseteq> set (ar_blocked a)"
proof -
  obtain r injected es where p: "prepare_attempt (t_sha env) (t_b64 env) observed blocked tg input t file held w = (r, injected, es)"
    by (cases "prepare_attempt (t_sha env) (t_b64 env) observed blocked tg input t file held w")
  consider failed where "r = Inl failed" | pv encoded files where "r = Inr (pv, encoded, files)"
    by (cases r) auto
  then show thesis
  proof cases
    case 1
    from attempt_refused [OF p [unfolded 1] assms] show thesis by (intro refused) (auto simp: unsent_def)
  next
    case 2
    note ok = prepare_admitted [OF p [unfolded 2]]
    have len: "length encoded \<le> MAX_FILE_INVOCATION_BYTES"
      by (rule encoded_bound' [OF ok(5)])
    from p [unfolded 2] assms obtain out blocked' fx hidden where
      d: "dispatch_attempt env observed blocked tg pv t encoded (delivered_file files) hidden w = (out, blocked', fx)"
      and a: "ar_effects a = es @ fx" "ar_outcome a = out" "ar_blocked a = blocked'"
      by (rule attempt_dispatched)
    note e = dispatch_effects [OF d]
    show thesis
    proof (cases "may_start (a_rpc w)")
      case True
      with e(2) have out: "case out of Inl failed \<Rightarrow> \<not> is_not_dispatched failed | Inr _ \<Rightarrow> True" by (cases out) auto
      from e(1) True obtain post where "silent post" "fx = Sent (bi_container (tg_binding tg)) encoded # post" by auto
      with len ok(1-4) a out e(3) show thesis
        by (intro dispatched) (auto simp: sent_once_def record_entry_def)
    next
      case False
      with e(2) obtain failed where out: "out = Inl failed" "is_not_dispatched failed" by auto
      from e(1) False have "silent fx" by auto
      with ok(4) a out e(3) show thesis by (intro refused) (auto simp: unsent_def)
    qed
  qed
qed

text \<open>C3: An attempt either sends nothing, and then its failure is exactly \<open>not dispatched\<close>; or it sends its
  workload exactly one invocation, of bounded size, into a container that is not blocked, after the observer sealed
  the dispatch (when there is one) and after the dispatch record was written, and then it never answers that nothing
  was dispatched. No attempt ever unblocks a workload.\<close>

theorem attempt_sends_recorded:
  fixes env :: tools and blocked :: "string list"
  shows "let a = attempt env observed blocked tg input t file held w in
     set blocked \<subseteq> set (ar_blocked a)
     \<and> (unsent a \<or> sent_once observed tg w a \<and> \<not> is_blocked blocked w (bi_container (tg_binding tg)))"
  unfolding Let_def by (rule attempt_outcomes [OF refl]) blast+


section \<open>Attempts in sequence\<close>

record attempt_call =
  at_observed :: bool
  at_target :: target
  at_input :: json
  at_transcript :: transcript
  at_file :: "action_file option"
  at_held :: bool
  at_world :: attempt_world

definition attempt_at :: "tools \<Rightarrow> string list \<Rightarrow> attempt_call \<Rightarrow> attempt_result" where
  "attempt_at env blocked c =
     attempt env (at_observed c) blocked (at_target c) (at_input c) (at_transcript c) (at_file c) (at_held c) (at_world c)"

fun attempts :: "tools \<Rightarrow> string list \<Rightarrow> attempt_call list \<Rightarrow> attempt_result list" where
  "attempts env blocked [] = []"
| "attempts env blocked (c # cs) = (let a = attempt_at env blocked c in a # attempts env (ar_blocked a) cs)"

definition container_of :: "attempt_call \<Rightarrow> string" where
  "container_of c = bi_container (tg_binding (at_target c))"

lemma attempts_length [simp]: "length (attempts env blocked cs) = length cs"
  by (induction cs arbitrary: blocked) (simp_all add: Let_def)

lemma blocked_mono: "set blocked \<subseteq> set (ar_blocked (attempt_at env blocked c))"
  by (rule attempt_outcomes [OF attempt_at_def]) simp_all

lemma blocked_refused:
  assumes "container_of c \<in> set blocked"
  shows "silent (ar_effects (attempt_at env blocked c))"
    "ar_outcome (attempt_at env blocked c) = Inl (Failed_not_dispatched (error_at Failure_blocked Phase_admission))"
  using assms by (simp_all add: attempt_at_def attempt_def prepare_attempt_def is_blocked_def container_of_def)

lemma attempts_refused:
  assumes "container_of (cs ! j) \<in> set blocked" "j < length cs"
  shows "silent (ar_effects (attempts env blocked cs ! j))
    \<and> ar_outcome (attempts env blocked cs ! j) = Inl (Failed_not_dispatched (error_at Failure_blocked Phase_admission))"
  using assms
proof (induction cs arbitrary: blocked j)
  case (Cons c cs)
  then show ?case using blocked_mono [of blocked env c] by (cases j) (auto simp: Let_def blocked_refused)
qed simp

lemma blocked_outcome:
  assumes "ar_outcome (attempt_at env blocked c) = Inl (Failed_uncertain e)" "ae_failure e = Failure_blocked"
  shows "container_of c \<in> set (ar_blocked (attempt_at env blocked c))"
proof -
  define a where "a = attempt_at env blocked c"
  note a_eq = a_def [unfolded attempt_at_def]
  obtain r injected es where p: "prepare_attempt (t_sha env) (t_b64 env) (at_observed c) blocked (at_target c) (at_input c)
      (at_transcript c) (at_file c) (at_held c) (at_world c) = (r, injected, es)"
    by (metis prod_cases3)
  have "\<exists>x. r = Inr x"
  proof (cases r)
    case (Inl failed)
    from attempt_refused [OF p [unfolded Inl] a_eq] assms(1) show ?thesis by (simp flip: a_def)
  qed auto
  then obtain pv encoded files where r: "r = Inr (pv, encoded, files)" by (metis prod_cases3)
  from p [unfolded r] a_eq obtain out blocked' fx hidden where
    d: "dispatch_attempt env (at_observed c) blocked (at_target c) pv (at_transcript c) encoded (delivered_file files) hidden
      (at_world c) = (out, blocked', fx)"
    and a: "ar_outcome a = out" "ar_blocked a = blocked'"
    by (rule attempt_dispatched)
  have np: "\<not> a_poisoned (at_world c)" using prepare_admitted(1) [OF p [unfolded r]] by (simp add: is_blocked_def)
  have out: "out = Inl (Failed_uncertain e)" using assms(1) a(1) by (simp add: a_def)
  have "container_of c \<in> set blocked'"
  proof (cases "exchange (t_read env) encoded (a_rpc (at_world c))")
    case (Inl x)
    with d out assms(2) np show ?thesis
      by (cases x) (auto simp: dispatch_attempt_def Let_def rpc_failure_of_def block_workload_def container_of_def new_error_def)
  next
    case (Inr raw)
    with d out assms(2) show ?thesis
      by (auto simp: dispatch_attempt_def Let_def settle_projection_def new_error_def
        split: sum.split_asm prod.split_asm projected.split_asm refused.split_asm)
  qed
  then show ?thesis using a(2) by (simp add: a_def)
qed

text \<open>C19: A workload that could not be proven stopped is never spoken to again: once an attempt ends as \<open>blocked\<close>,
  every later attempt in that container, whatever it asks and whatever the world answers, sends nothing and is refused
  at admission.\<close>

theorem blocked_container_silent:
  assumes "i < j" "j < length cs" "container_of (cs ! j) = container_of (cs ! i)"
    and "ar_outcome (attempts env blocked cs ! i) = Inl (Failed_uncertain e)" "ae_failure e = Failure_blocked"
  shows "silent (ar_effects (attempts env blocked cs ! j))
    \<and> ar_outcome (attempts env blocked cs ! j) = Inl (Failed_not_dispatched (error_at Failure_blocked Phase_admission))"
  using assms
proof (induction cs arbitrary: blocked i j)
  case (Cons c cs)
  from Cons.prems(1) obtain k where j: "j = Suc k" by (cases j) auto
  show ?case
  proof (cases i)
    case 0
    with Cons.prems j have "container_of (cs ! k) \<in> set (ar_blocked (attempt_at env blocked c))" "k < length cs"
      using blocked_outcome [of env blocked c e] by (auto simp: Let_def)
    then show ?thesis using attempts_refused by (simp add: j Let_def)
  next
    case (Suc i')
    with Cons.prems j show ?thesis using Cons.IH [of i' k "ar_blocked (attempt_at env blocked c)"] by (simp add: Let_def)
  qed
qed simp


definition plain_action :: action_spec where
  "plain_action = \<lparr>sp_id = ''post'', sp_summary = '''', sp_input_schema = Object [], sp_output_schema = Object [],
     sp_integrations = [], sp_stored_inputs = [], sp_human_requests = [], sp_input_files = [], sp_effect = ''mutating'',
     sp_verifier = None, sp_idempotency = None\<rparr>"

definition lost_call :: attempt_call where
  "lost_call = \<lparr>at_observed = True,
     at_target = \<lparr>tg_binding = \<lparr>bi_contract = \<lparr>rc_actions = [plain_action], rc_integrations = [], rc_machine_contract = Object []\<rparr>,
         bi_assistant = ''a'', bi_container = ''c'', bi_image = ''i''\<rparr>,
       tg_action = plain_action, tg_operation_id = OPERATION_ID_PLACEHOLDER\<rparr>,
     at_input = Object [], at_transcript = new_transcript ''i'', at_file = None, at_held = False,
     at_world = \<lparr>a_poisoned = False, a_integrations = Inr [], a_stored = \<lambda>_. Stored_missing, a_file = Inl (), a_sealed = True,
       a_audit = None,
       a_rpc = \<lparr>w_slot = True, w_stopped_before = False, w_stopped_during = False, w_start = Start_timeout, w_events = [],
         w_broker = \<lambda>_. Inr [], w_calls = 0, w_inspect_slot = True, w_inspect = Inspect_failed, w_fail_stop = Fail_stop_failed\<rparr>,
       a_stopped = False\<rparr>\<rparr>"

lemma plain_invocation:
  assumes "plain i" "length i = 36" "i = OPERATION_ID_PLACEHOLDER \<or> valid_operation_id i"
  shows "encode_invocation (Object []) [] (Object []) i [] =
     Inr (dumps_ascii (invocation_value (Object []) [] (Object []) i []) INVOCATION_JSON)"
proof -
  have "plain ''input''" "plain ''stored_inputs''" "plain ''files''" "plain ''operation_id''"
    by (simp_all add: plain_def plain_char_def byte_of_def)
  note strings = this [THEN ascii_string_plain] ascii_string_plain [OF assms(1)]
  have "length (dumps_ascii (invocation_value (Object []) [] (Object []) i []) INVOCATION_JSON) \<le> 512 * 1024"
    by (simp add: dumps_ascii_def invocation_value_def INVOCATION_JSON_def strings Let_def item_separator_def assms(2))
  then show ?thesis
    using assms(3) by (auto simp: encode_invocation_def Let_def MAX_INVOCATION_BYTES_def MAX_FILE_INVOCATION_BYTES_def)
qed

lemma placeholder_plain: "plain OPERATION_ID_PLACEHOLDER" "length OPERATION_ID_PLACEHOLDER = 36"
  by (simp_all add: plain_def plain_char_def byte_of_def OPERATION_ID_PLACEHOLDER_def)

lemma lost_outcome:
  "ar_outcome (attempt_at env [] lost_call) = Inl (Failed_uncertain (new_error Failure_blocked
     (with_cleanup (new_cause Cond_deadline_passed Phase_exec_start) Cleanup_workload_stop_unconfirmed)))"
  by (simp add: attempt_at_def attempt_def prepare_attempt_def is_blocked_def lost_call_def plain_action_def private_of_def
    injected_values_def held_inputs_def runner_files_def deliver_def new_transcript_def transcript_payloads_def
    plain_invocation placeholder_plain
    Let_def dispatch_attempt_def exchange_def started_call_def fail_stop_def rpc_failure_of_def)

theorem blocked_container_silent_witness:
  "silent (ar_effects (attempts \<lparr>t_sha = id, t_b64 = id, t_printable = \<lambda>_. True, t_read = \<lambda>_. None, t_admit = \<lambda>_ _. Inl [],
      t_valid_input = \<lambda>_ _. True, t_validate = \<lambda>_ _. Inr ()\<rparr> [] [lost_call, lost_call] ! 1))"
proof -
  let ?env = "\<lparr>t_sha = id, t_b64 = id, t_printable = \<lambda>_. True, t_read = \<lambda>_. None, t_admit = \<lambda>_ _. Inl [],
      t_valid_input = \<lambda>_ _. True, t_validate = \<lambda>_ _. Inr ()\<rparr>"
  have "ar_outcome (attempts ?env [] [lost_call, lost_call] ! 0) = Inl (Failed_uncertain (new_error Failure_blocked
     (with_cleanup (new_cause Cond_deadline_passed Phase_exec_start) Cleanup_workload_stop_unconfirmed)))"
    by (simp add: Let_def lost_outcome)
  from blocked_container_silent [OF _ _ _ this, of 1] show ?thesis by simp
qed

end
