(* ===== verification/Action_Batch.thy ===== *)
theory Action_Batch
  imports Action_Runner Journal_Properties
begin

text \<open>
  One durable batch of a Brain suspension: \<^verbatim>\<open>action/src/runner/batch.rs\<close>, the client of the Action journal.

  A batch keeps the handle the journal gave it, the operations it prepared and the interrupts it left
  executing. Every journal call runs on a blocking thread whose answer may be lost before or after the
  transaction (\<open>joined\<close>). What the controller, the private stores, the file slot and the attempt answer is the
  record \<open>batch_world\<close>; the two readings of the private stores in \<open>operation\<close> are two fields.

  \<open>held_operation\<close> is the contract of an operation that stays executing: no step loosens the hold and no step
  sends for it. Its interpretation rests on the journal's slots, and the batch's invoke is one of the steps.
\<close>

type_synonym generations = "(string \<times> nat) list \<times> (string \<times> nat) list"

record prepared =
  pr_operation :: operation
  pr_present :: "(string \<times> nat) list"

record action_batch =
  ba_scope :: batch_scope
  ba_handle :: "batch option"
  ba_prepared :: "(string \<times> prepared) list"
  ba_origins :: "string list"
  ba_executing :: "string list"
  ba_observed :: bool
  ba_injected :: "string list"

definition new_batch :: "batch_scope \<Rightarrow> bool \<Rightarrow> action_batch" where
  "new_batch scope observed = \<lparr>ba_scope = scope, ba_handle = None, ba_prepared = [], ba_origins = [], ba_executing = [],
     ba_observed = observed, ba_injected = []\<rparr>"

definition origin_of :: "(string \<Rightarrow> string) \<Rightarrow> action_request \<Rightarrow> string" where
  "origin_of sha request = sha (canonical (Object [
     (''action'', Str (rq_action request)), (''assistant_id'', Str (rq_assistant request)),
     (''input'', rq_input request), (''interrupt_id'', Str (rq_interrupt request))]))"

definition pairs :: "(string \<times> nat) list \<Rightarrow> json" where
  "pairs values = Array (map (\<lambda>(i, generation). Array [Str i, Number (Int64 (min (int generation) (2 ^ 63 - 1)))]) values)"

section \<open>Failures\<close>

definition journal_unavailable :: "cause_phase \<Rightarrow> action_error" where
  "journal_unavailable phase = error_at Failure_state_unavailable phase"

fun journal_failure :: "journal_error \<Rightarrow> action_error" where
  "journal_failure (Conflict _) = error_at Failure_context_changed Phase_journal"
| "journal_failure Archived_generation = error_at Failure_context_changed Phase_journal"
| "journal_failure Uncertain = new_error Failure_uncertain (new_cause Cond_attempt_uncertain Phase_journal)"
| "journal_failure (Failure _) = journal_unavailable Phase_journal"
| "journal_failure (Corrupt _) = journal_unavailable Phase_journal"

definition settlement_error :: "action_error \<Rightarrow> action_error" where
  "settlement_error e = (case ae_cause e of
      Some c \<Rightarrow> new_error (ae_failure e) (new_cause (ca_condition c) Phase_settlement)
    | None \<Rightarrow> e)"

definition unsettled :: "action_error + invoke_outcome \<Rightarrow> action_error \<Rightarrow> action_error" where
  "unsettled given e =
     (let initiating = (case given of Inl failed \<Rightarrow> ae_cause failed | Inr _ \<Rightarrow> None) in
      \<lparr>ae_failure = ae_failure e,
       ae_cause = (case initiating of None \<Rightarrow> ae_cause e | Some c \<Rightarrow> Some (journal_cleanup c))\<rparr>)"

section \<open>Journal calls on a blocking thread\<close>

datatype joined = Joined | Lost_before | Lost_after

definition journal_call ::
    "joined \<Rightarrow> (journal \<Rightarrow> (journal_error + 'a) \<times> journal) \<Rightarrow> journal \<Rightarrow> (unit + (journal_error + 'a)) \<times> journal" where
  "journal_call jn call j = (case jn of
      Joined \<Rightarrow> (Inr (fst (call j)), snd (call j))
    | Lost_before \<Rightarrow> (Inl (), j)
    | Lost_after \<Rightarrow> (Inl (), snd (call j)))"

definition journaled :: "unit + (journal_error + 'a) \<Rightarrow> action_error + 'a" where
  \<comment> \<open>the two \<open>map_err\<close>s after a call in phase \<open>Journal\<close>\<close>
  "journaled r = (case r of
      Inl _ \<Rightarrow> Inl (journal_unavailable Phase_journal)
    | Inr (Inl e) \<Rightarrow> Inl (journal_failure e)
    | Inr (Inr a) \<Rightarrow> Inr a)"

section \<open>The operation of one request\<close>

record private_reading =
  ps_rows :: "string list \<Rightarrow> unit + (string \<times> nat) list" \<comment> \<open>the Integration metadata of the declared ids\<close>
  ps_stored :: "string \<Rightarrow> stored_answer"

record batch_world =
  bw_binding :: "action_request \<Rightarrow> action_failure + binding"
  bw_binding_again :: "action_request \<Rightarrow> action_failure + binding" \<comment> \<open>the second admission of an invoke\<close>
  bw_private :: "action_request \<Rightarrow> private_reading"
  bw_present :: "action_request \<Rightarrow> private_reading"
  bw_logical :: "action_request \<Rightarrow> string option" \<comment> \<open>the observer's logical operation\<close>
  bw_wait :: slot_wait
  bw_io :: io
  bw_join :: joined
  bw_entropy :: entropy
  bw_attempt :: attempt_world
  bw_settle_io :: io
  bw_settle_join :: joined

fun stored_generations ::
    "(string \<Rightarrow> stored_answer) \<Rightarrow> string list \<Rightarrow> string list \<Rightarrow> action_error + (string \<times> nat) list" where
  "stored_generations answers excluded [] = Inr []"
| "stored_generations answers excluded (i # is) = (case answers i of
      Stored_value _ generation origin \<Rightarrow> rbind (stored_generations answers excluded is)
        (\<lambda>rest. Inr (if origin \<notin> set excluded then (i, generation) # rest else rest))
    | Stored_missing \<Rightarrow> stored_generations answers excluded is
    | Stored_failed \<Rightarrow> Inl stored_unavailable)"

definition generations_of ::
    "private_reading \<Rightarrow> binding \<Rightarrow> action_spec \<Rightarrow> string list \<Rightarrow> action_error + generations" where
  "generations_of ps binding action excluded =
     (let declared = filter (\<lambda>i. i \<in> set (sp_integrations action)) (rc_integrations (bi_contract binding)) in
      case ps_rows ps declared of
        Inl _ \<Rightarrow> Inl stored_unavailable
      | Inr rows \<Rightarrow>
          if length rows \<noteq> length (sp_integrations action) \<or> list_ex (\<lambda>r. snd r < 1) rows
          then Inl (error_at Failure_integration_unavailable Phase_preparation)
          else rbind (stored_generations (ps_stored ps) excluded (sp_stored_inputs action))
            (\<lambda>stored. Inr (rows, stored)))"

definition operation_identity ::
    "binding \<Rightarrow> action_request \<Rightarrow> generations \<Rightarrow> action_file option \<Rightarrow> json" where
  "operation_identity binding request gens file = Object [
     (''assistant_container_id'', Str (bi_container binding)), (''assistant_id'', Str (rq_assistant request)),
     (''assistant_image'', Str (bi_image binding)), (''integration_generations'', pairs (fst gens)),
     (''stored_input_generations'', pairs (snd gens)), (''files'', file_commitments file), (''input'', rq_input request),
     (''action'', Str (rq_action request))]"

definition operation_of ::
    "tools \<Rightarrow> bool \<Rightarrow> batch_world \<Rightarrow> action_request \<Rightarrow> string list \<Rightarrow> action_error + operation \<times> (string \<times> nat) list" where
  "operation_of env observed w request excluded =
     rbind (admitted env (bw_binding w request) request) (\<lambda>(binding, action).
     rbind (generations_of (bw_private w request) binding action excluded) (\<lambda>gens.
     rbind (generations_of (bw_present w request) binding action []) (\<lambda>(_, present).
     rbind (file_at_admission action request) (\<lambda>file.
       Inr (\<lparr>op_interrupt = rq_interrupt request,
             op_fingerprint = t_sha env (canonical (operation_identity binding request gens file)),
             op_id = (if observed then bw_logical w request else None)\<rparr>, present)))))"

definition batch_transcript :: "action_batch \<Rightarrow> string \<Rightarrow> transcript" where
  "batch_transcript b interrupt = (case find_by tr_interrupt interrupt (sc_transcripts (ba_scope b)) of
      Some t \<Rightarrow> t | None \<Rightarrow> new_transcript interrupt)"

definition unchanged :: "tools \<Rightarrow> batch_world \<Rightarrow> action_batch \<Rightarrow> action_request \<Rightarrow> action_error + operation" where
  "unchanged env w b request =
     (let changed = error_at Failure_context_changed Phase_admission in
      case find_by fst (rq_interrupt request) (ba_prepared b) of
        None \<Rightarrow> Inl changed
      | Some (_, p) \<Rightarrow>
          rbind (operation_of env (ba_observed b) w request (ba_origins b)) (\<lambda>(now, now_present).
            if op_fingerprint now \<noteq> op_fingerprint (pr_operation p)
              \<or> \<not> list_all (\<lambda>entry. entry \<in> set now_present) (pr_present p)
            then Inl changed else Inr (pr_operation p)))"

section \<open>Invoke\<close>

record admitted_run =
  rn_handle :: batch
  rn_operation :: operation
  rn_binding :: binding
  rn_action :: action_spec
  rn_file :: "action_file option"
  rn_transcript :: transcript
  rn_held :: bool

definition batch_admit :: "tools \<Rightarrow> batch_world \<Rightarrow> action_batch \<Rightarrow> action_request \<Rightarrow> action_error + admitted_run" where
  \<comment> \<open>\<open>run\<close> up to the journal's \<open>begin\<close>\<close>
  "batch_admit env w b request =
     rbind (ok_or (ba_handle b) (error_at Failure_context_changed Phase_admission)) (\<lambda>handle.
     rbind (unchanged env w b request) (\<lambda>operation.
     rbind (admitted env (bw_binding_again w request) request) (\<lambda>(binding, action).
     rbind (file_at_admission action request) (\<lambda>file.
       let t = batch_transcript b (rq_interrupt request) in
       rbind (map_sum (\<lambda>failure. error_at failure Phase_file_slot) id (admit_slot (grants file action t) (bw_wait w))) (\<lambda>held.
         Inr \<lparr>rn_handle = handle, rn_operation = operation, rn_binding = binding, rn_action = action,
           rn_file = file, rn_transcript = t, rn_held = held\<rparr>)))))"

definition settle_finish ::
    "action_batch \<Rightarrow> operation \<Rightarrow> (unit + (journal_error + unit)) \<times> journal \<Rightarrow> action_error + invoke_outcome
       \<Rightarrow> (action_error + invoke_outcome) \<times> action_batch \<times> journal" where
  \<comment> \<open>the end of \<open>settle\<close>, once the journal answered\<close>
  "settle_finish b operation settled given =
     (let recorded = (case fst settled of
            Inl _ \<Rightarrow> Inl (journal_unavailable Phase_settlement)
          | Inr (Inl e) \<Rightarrow> Inl (settlement_error (journal_failure e))
          | Inr (Inr _) \<Rightarrow> Inr ()) in
      case recorded of
        Inl e \<Rightarrow> (Inl (unsettled given e), b, snd settled)
      | Inr _ \<Rightarrow>
          (given, b\<lparr>ba_executing := filter (\<lambda>i. i \<noteq> op_interrupt operation) (ba_executing b)\<rparr>, snd settled))"

definition batch_settle ::
    "tools \<Rightarrow> batch_world \<Rightarrow> action_batch \<Rightarrow> batch \<Rightarrow> operation \<Rightarrow> action_spec \<Rightarrow> failed_attempt + outcome_of_attempt \<Rightarrow> journal
       \<Rightarrow> (action_error + invoke_outcome) \<times> action_batch \<times> journal" where
  "batch_settle env w b handle operation action tried j =
     (let io = bw_settle_io w;
          finish = (\<lambda>f given. settle_finish b operation (journal_call (bw_settle_join w) f j) given) in
      case tried of
        Inr (Outcome_completed result) \<Rightarrow> finish (complete io handle operation result) (Inr (Invoked result))
      | Inr (Outcome_request request) \<Rightarrow>
          finish (suspend io handle operation) (Inr (Asked (request_payload (t_read env) request)))
      | Inl failed \<Rightarrow>
          if is_not_dispatched failed then finish (not_dispatched io handle operation) (Inl (failed_error failed))
          else if is_handled failed \<and> sp_effect action = ''read_only''
            then finish (fail_without_effect io handle operation) (Inl (failed_error failed))
          else (Inl (failed_error failed), b, j))"

record run_result =
  rr_answer :: "action_error + invoke_outcome"
  rr_batch :: action_batch
  rr_journal :: journal
  rr_blocked :: "string list"
  rr_effects :: "effect list"

definition batch_attempt ::
    "tools \<Rightarrow> batch_world \<Rightarrow> action_batch \<Rightarrow> action_request \<Rightarrow> admitted_run \<Rightarrow> string \<Rightarrow> string list \<Rightarrow> attempt_result" where
  "batch_attempt env w b request r i blocked =
     attempt env (ba_observed b) blocked
       \<lparr>tg_binding = rn_binding r, tg_action = rn_action r, tg_operation_id = i\<rparr>
       (rq_input request) (rn_transcript r) (rn_file r) (rn_held r) (bw_attempt w)"

definition batch_run ::
    "tools \<Rightarrow> batch_world \<Rightarrow> action_batch \<Rightarrow> action_request \<Rightarrow> journal \<Rightarrow> string list \<Rightarrow> run_result" where
  "batch_run env w b0 request j blocked =
     (let b = b0\<lparr>ba_injected := []\<rparr>;
          refuse = (\<lambda>e j. \<lparr>rr_answer = Inl e, rr_batch = b, rr_journal = j, rr_blocked = blocked, rr_effects = []\<rparr>) in
      case batch_admit env w b request of
        Inl e \<Rightarrow> refuse e j
      | Inr r \<Rightarrow>
          let (begun, j1) = journal_call (bw_join w) (begin_operation (t_read env) (bw_io w) (rn_handle r) (rn_operation r)) j in
          (case journaled begun of
             Inl e \<Rightarrow> refuse e j1
           | Inr decision \<Rightarrow>
               if \<not> ex_execute decision
               then (case ex_result decision of
                   None \<Rightarrow> refuse (journal_unavailable Phase_journal) j1
                 | Some v \<Rightarrow> \<lparr>rr_answer = Inr (Invoked v), rr_batch = b, rr_journal = j1, rr_blocked = blocked, rr_effects = []\<rparr>)
               else
                 let b1 = b\<lparr>ba_executing := ba_executing b @ [op_interrupt (rn_operation r)]\<rparr>;
                     a = batch_attempt env w b1 request r (ex_operation_id decision) blocked;
                     b2 = b1\<lparr>ba_injected := ar_injected a\<rparr>;
                     (given, b3, j2) = batch_settle env w b2 (rn_handle r) (rn_operation r) (rn_action r) (ar_outcome a) j1 in
                 \<lparr>rr_answer = given, rr_batch = b3, rr_journal = j2, rr_blocked = ar_blocked a, rr_effects = ar_effects a\<rparr>))"

section \<open>Preparing, delivering and ending\<close>

definition release_batch :: "action_batch \<Rightarrow> action_batch" where
  "release_batch b = b\<lparr>ba_handle := None, ba_prepared := [], ba_origins := [], ba_executing := []\<rparr>"

fun prepare_all ::
    "tools \<Rightarrow> bool \<Rightarrow> batch_world \<Rightarrow> string list \<Rightarrow> action_request list \<Rightarrow> action_error + (string \<times> prepared) list" where
  "prepare_all env observed w origins [] = Inr []"
| "prepare_all env observed w origins (request # requests) =
     rbind (operation_of env observed w request origins) (\<lambda>(operation, present).
     rbind (prepare_all env observed w origins requests) (\<lambda>rest.
       Inr ((rq_interrupt request, \<lparr>pr_operation = operation, pr_present = present\<rparr>) # rest)))"

definition batch_prepare ::
    "tools \<Rightarrow> batch_world \<Rightarrow> action_batch \<Rightarrow> action_request list \<Rightarrow> journal \<Rightarrow> (action_error + unit) \<times> action_batch \<times> journal" where
  "batch_prepare env w b requests j =
     (if ba_handle b \<noteq> None then (Inl (error_at Failure_context_changed Phase_journal), b, j)
      else let origins = map (origin_of (t_sha env)) requests; scope = ba_scope b in
        case prepare_all env (ba_observed b) w origins requests of
          Inl e \<Rightarrow> (Inl e, b, j)
        | Inr ps \<Rightarrow>
            let (given, j') = journal_call (bw_join w) (prepare_batch (t_sha env) (bw_io w) (bw_entropy w)
                  (sc_generation scope) (sc_thread scope) (map (pr_operation \<circ> snd) ps) (sc_routine scope)) j in
            (case journaled given of
               Inl e \<Rightarrow> (Inl e, b, j')
             | Inr handle \<Rightarrow> (Inr (), b\<lparr>ba_handle := Some handle, ba_prepared := ps, ba_origins := origins\<rparr>, j')))"

definition batch_delivered ::
    "tools \<Rightarrow> batch_world \<Rightarrow> action_batch \<Rightarrow> action_request list \<Rightarrow> journal
       \<Rightarrow> (action_error + unit) \<times> action_batch \<times> journal" where
  "batch_delivered env w b requests j =
     (let changed = error_at Failure_context_changed Phase_journal in
      case ba_handle b of
        None \<Rightarrow> (Inl changed, b, j)
      | Some handle \<Rightarrow>
          if map op_interrupt (bt_operations handle) \<noteq> map rq_interrupt requests then (Inl changed, b, j)
          else let (given, j') = journal_call (bw_join w) (delivered (t_read env) (bw_io w) handle) j in
            (case journaled given of
               Inl e \<Rightarrow> (Inl e, b, j')
             | Inr _ \<Rightarrow> (Inr (), release_batch b, j')))"

definition settle_undelivered ::
    "batch_world \<Rightarrow> action_batch \<Rightarrow> journal \<Rightarrow> (action_error + unit) \<times> journal" where
  "settle_undelivered w b j =
     (let (given, j') = journal_call (bw_join w) (end_settled (bw_io w) (sc_generation (ba_scope b))) j in
      (journaled given, j'))"

definition batch_terminate ::
    "batch_world \<Rightarrow> action_batch \<Rightarrow> journal \<Rightarrow> (action_error + bool) \<times> action_batch \<times> journal" where
  "batch_terminate w b j = (case ba_handle b of
      None \<Rightarrow> (Inr False, b, j)
    | Some handle \<Rightarrow>
        let uncertain = (ba_executing b \<noteq> []) in
        if uncertain \<and> sc_routine (ba_scope b) then (Inr False, b, j)
        else let (given, j') = journal_call (bw_join w)
               (if uncertain then abandon_uncertain (bw_io w) handle else end_batch (bw_io w) handle) j in
          (case journaled given of
             Inl e \<Rightarrow> (Inl e, b, j')
           | Inr ended \<Rightarrow> (Inr ended, if ended then release_batch b else b, j')))"


section \<open>An operation that stays executing\<close>

locale held_operation =
  fixes step :: "'e \<Rightarrow> 's \<Rightarrow> 's" and hold :: "'s \<Rightarrow> bool" and allowed :: "'e \<Rightarrow> bool" and sends :: "'e \<Rightarrow> 's \<Rightarrow> bool"
  assumes hold_step: "hold s \<Longrightarrow> allowed e \<Longrightarrow> hold (step e s)"
    and hold_silent: "hold s \<Longrightarrow> allowed e \<Longrightarrow> \<not> sends e s"
begin

lemma hold_history: "hold s \<Longrightarrow> list_all allowed es \<Longrightarrow> hold (fold step es s)"
  by (induction es arbitrary: s) (simp_all add: hold_step)

lemma never_sends: "hold s \<Longrightarrow> list_all allowed es \<Longrightarrow> allowed e \<Longrightarrow> \<not> sends e (fold step es s)"
  using hold_history hold_silent by blast

end

definition holds :: "string \<Rightarrow> string \<Rightarrow> journal \<Rightarrow> bool" where
  "holds g i j \<longleftrightarrow> journal_ok j \<and> (\<exists>d. j_connection j = Some d \<and> executing_in i (slot d g))"

lemma holds_perform:
  assumes "holds g i j" "\<not> settles g i c"
  shows "holds g i (snd (perform sha p io ent c j))"
proof -
  from assms(1) obtain d where "journal_ok j" "j_connection j = Some d" "executing_in i (slot d g)"
    by (auto simp: holds_def)
  from run_executing [OF this, of "[(io, ent, c)]" sha p] assms(2) show ?thesis by (auto simp: holds_def)
qed

text \<open>The journal calls of a batch are the journal's commands.\<close>

lemma journal_commands:
  fixes sha :: "string \<Rightarrow> string" and p :: f64_reader
  shows "snd (begin_operation p io h x j) = snd (perform sha p io ent (Begin h x) j)"
    "snd (complete io h x v j) = snd (perform sha p io ent (Complete h x v) j)"
    "snd (suspend io h x j) = snd (perform sha p io ent (Suspend h x) j)"
    "snd (not_dispatched io h x j) = snd (perform sha p io ent (Not_dispatched h x) j)"
    "snd (fail_without_effect io h x j) = snd (perform sha p io ent (Fail_without_effect h x) j)"
    "snd (prepare_batch sha io ent g t xs a j) = snd (perform sha p io ent (Prepare g t xs a) j)"
    "snd (delivered p io h j) = snd (perform sha p io ent (Delivered h) j)"
    "snd (end_settled io g j) = snd (perform sha p io ent (End_settled g) j)"
    "snd (end_batch io h j) = snd (perform sha p io ent (End_batch h) j)"
    "snd (abandon_uncertain io h j) = snd (perform sha p io ent (Abandon h) j)"
  by (simp_all add: answer_def)

lemma perform_Inl: "fst (perform sha p io ent c j) = Inl e \<Longrightarrow> snd (perform sha p io ent c j) = j"
  by (rule perform_outcomes [OF surjective_pairing]) auto

lemma refused_unchanged:
  "fst (complete io h x v j) = Inl e \<Longrightarrow> snd (complete io h x v j) = j"
  "fst (suspend io h x j) = Inl e \<Longrightarrow> snd (suspend io h x j) = j"
  "fst (not_dispatched io h x j) = Inl e \<Longrightarrow> snd (not_dispatched io h x j) = j"
  "fst (fail_without_effect io h x j) = Inl e \<Longrightarrow> snd (fail_without_effect io h x j) = j"
  using perform_Inl [of id "\<lambda>_. None" io "[]" "Complete h x v" j e] perform_Inl [of id "\<lambda>_. None" io "[]" "Suspend h x" j e]
    perform_Inl [of id "\<lambda>_. None" io "[]" "Not_dispatched h x" j e]
    perform_Inl [of id "\<lambda>_. None" io "[]" "Fail_without_effect h x" j e]
  by (simp_all add: answer_def)

lemma holds_call: "holds g i j \<Longrightarrow> holds g i (snd (f j)) \<Longrightarrow> holds g i (snd (journal_call jn f j))"
  by (cases jn) (simp_all add: journal_call_def)

lemma holds_begin:
  assumes "holds g i j" "bt_generation h = g" "op_interrupt x = i"
  obtains e where "begin_operation p io h x j = (Inl e, j)"
proof -
  from assms obtain d where d: "journal_ok j" "j_connection j = Some d" "executing_in (op_interrupt x) (slot d (bt_generation h))"
    by (auto simp: holds_def)
  then have "db_inv (j_limits j) d" by (auto simp: journal_ok_def)
  from begin_executing_refused [OF this d(3)] obtain e where "begin_work p (j_limits j) h x d = Inl e" ..
  from writing_Inl [where work = "begin_work p (j_limits j) h x", OF d(2) this] that show thesis
    by (fastforce simp: begin_operation_def split: sum.splits)
qed

lemma finish_journal [simp]: "snd (snd (settle_finish b x settled given)) = snd settled"
  by (simp add: settle_finish_def Let_def split: sum.split)

lemma holds_settle:
  assumes "holds g i j" "bt_generation h \<noteq> g \<or> op_interrupt x \<noteq> i"
  shows "holds g i (snd (snd (batch_settle env w b h x action tried j)))"
proof -
  have s: "\<not> settles g i (Complete h x v)" "\<not> settles g i (Suspend h x)" "\<not> settles g i (Not_dispatched h x)"
    "\<not> settles g i (Fail_without_effect h x)" for v
    using assms(2) by auto
  have after: "holds g i (snd (complete io h x v j))" "holds g i (snd (suspend io h x j))"
    "holds g i (snd (not_dispatched io h x j))" "holds g i (snd (fail_without_effect io h x j))" for io v
    unfolding journal_commands(2-5) [where sha = id and p = "\<lambda>_. None" and ent = "[]"]
    by (intro holds_perform [OF assms(1)] s)+
  have "holds g i (snd (journal_call jn (complete io h x v) j))" "holds g i (snd (journal_call jn (suspend io h x) j))"
    "holds g i (snd (journal_call jn (not_dispatched io h x) j))"
    "holds g i (snd (journal_call jn (fail_without_effect io h x) j))" for jn io v
    using after assms(1) by (cases jn; simp add: journal_call_def)+
  then show ?thesis using assms(1) by (simp add: batch_settle_def Let_def split: sum.split outcome_of_attempt.split)
qed


section \<open>Invoke and the hold\<close>

definition batch_wf :: "action_batch \<Rightarrow> bool" where
  "batch_wf b \<longleftrightarrow> list_all (\<lambda>(i, p). op_interrupt (pr_operation p) = i) (ba_prepared b)"

lemma new_batch_wf: "batch_wf (new_batch scope observed)"
  by (simp add: batch_wf_def new_batch_def)

lemma operation_interrupt:
  "operation_of env observed w request excluded = Inr (x, ps) \<Longrightarrow> op_interrupt x = rq_interrupt request"
  by (auto simp: operation_of_def rbind_eq_Inr)

lemma prepare_all_wf:
  "prepare_all env observed w origins requests = Inr ps \<Longrightarrow> list_all (\<lambda>(i, p). op_interrupt (pr_operation p) = i) ps"
proof (induction requests arbitrary: ps)
  case (Cons request requests)
  then show ?case by (auto simp: rbind_eq_Inr operation_interrupt)
qed simp

lemma prepare_wf: "batch_wf b \<Longrightarrow> batch_wf (fst (snd (batch_prepare env w b requests j)))"
  by (auto simp: batch_prepare_def batch_wf_def Let_def prepare_all_wf split: sum.split prod.split)

lemma admitted_operation:
  assumes "batch_wf b" "batch_admit env w (b\<lparr>ba_injected := []\<rparr>) request = Inr r"
  shows "ba_handle b = Some (rn_handle r)" "op_interrupt (rn_operation r) = rq_interrupt request"
proof -
  let ?b = "b\<lparr>ba_injected := []\<rparr>"
  from assms(2) have h: "ba_handle b = Some (rn_handle r)" and u: "unchanged env w ?b request = Inr (rn_operation r)"
    by (auto simp: batch_admit_def rbind_eq_Inr Let_def ok_or_def split: option.split_asm)
  from u obtain p where "find_by fst (rq_interrupt request) (ba_prepared b) = Some p" "rn_operation r = pr_operation (snd p)"
    by (auto simp: unchanged_def Let_def rbind_eq_Inr split: option.split_asm if_split_asm)
  moreover from this have "p \<in> set (ba_prepared b)" "fst p = rq_interrupt request"
    using find_by_Some_mem find_by_Some_key by metis+
  ultimately show "op_interrupt (rn_operation r) = rq_interrupt request"
    using assms(1) by (auto simp: batch_wf_def list_all_iff)
  show "ba_handle b = Some (rn_handle r)" by (rule h)
qed

lemma begin_refused:
  assumes "journal_call jn f j = (begun, j1)" "f j = (Inl e, j)"
  shows "j1 = j" "\<exists>e. journaled begun = Inl e"
  using assms by (cases jn; auto simp: journal_call_def journaled_def)+

lemma run_holds:
  assumes "holds g i j"
  shows "holds g i (rr_journal (batch_run env w b request j blocked))"
proof (cases "batch_admit env w (b\<lparr>ba_injected := []\<rparr>) request")
  case (Inr r)
  let ?f = "begin_operation (t_read env) (bw_io w) (rn_handle r) (rn_operation r)"
  obtain begun j1 where c: "journal_call (bw_join w) ?f j = (begun, j1)" by fastforce
  show ?thesis
  proof (cases "bt_generation (rn_handle r) = g \<and> op_interrupt (rn_operation r) = i")
    case True
    then obtain e where "?f j = (Inl e, j)" using holds_begin [OF assms] by metis
    from begin_refused [OF c this] assms Inr c show ?thesis by (auto simp: batch_run_def Let_def)
  next
    case False
    have "holds g i (snd (?f j))"
      by (subst journal_commands(1) [where sha = id and ent = "[]"]) (rule holds_perform [OF assms], simp)
    from holds_call [OF assms, where f = ?f and jn = "bw_join w", OF this] have j1: "holds g i j1" by (simp add: c)
    have "holds g i j2" if "batch_settle env w b' (rn_handle r) (rn_operation r) action tried j1 = (given, b'', j2)"
      for b' action tried given b'' j2
      using holds_settle [OF j1, of "rn_handle r" "rn_operation r" env w b' action tried] False that by auto
    with j1 Inr c show ?thesis
      by (auto simp: batch_run_def Let_def split: sum.split option.split prod.split)
  qed
qed (use assms in \<open>simp add: batch_run_def Let_def\<close>)

lemma run_silent:
  assumes "holds g i j" "batch_wf b" "ba_handle b = Some h" "bt_generation h = g" "rq_interrupt request = i"
  shows "rr_effects (batch_run env w b request j blocked) = []"
    "\<exists>e. rr_answer (batch_run env w b request j blocked) = Inl e"
proof (atomize (full), cases "batch_admit env w (b\<lparr>ba_injected := []\<rparr>) request")
  case (Inr r)
  let ?f = "begin_operation (t_read env) (bw_io w) (rn_handle r) (rn_operation r)"
  obtain begun j1 where c: "journal_call (bw_join w) ?f j = (begun, j1)" by fastforce
  from admitted_operation [OF assms(2) Inr] assms(3-5) obtain e where "?f j = (Inl e, j)"
    using holds_begin [OF assms(1)] by (metis option.inject)
  from begin_refused [OF c this] Inr c
  show "rr_effects (batch_run env w b request j blocked) = [] \<and> (\<exists>e. rr_answer (batch_run env w b request j blocked) = Inl e)"
    by (auto simp: batch_run_def Let_def)
qed (simp add: batch_run_def Let_def)

lemma finish_executing:
  assumes "op_interrupt x \<in> set (ba_executing (fst (snd (settle_finish b x settled given))))"
  shows "\<not> (\<exists>u. fst settled = Inr (Inr u))"
  using assms by (auto simp: settle_finish_def Let_def)

lemma call_unsettled:
  assumes "\<not> (\<exists>u. fst (journal_call jn f j) = Inr (Inr u))" "jn \<noteq> Lost_after" "\<And>e. fst (f j) = Inl e \<Longrightarrow> snd (f j) = j"
  shows "snd (journal_call jn f j) = j"
  using assms by (cases jn; cases "fst (f j)") (auto simp: journal_call_def)

lemma settle_executing:
  assumes "op_interrupt x \<in> set (ba_executing (fst (snd (batch_settle env w b h x action tried j))))"
    "bw_settle_join w \<noteq> Lost_after"
  shows "snd (snd (batch_settle env w b h x action tried j)) = j"
proof -
  have "snd (journal_call (bw_settle_join w) f j) = j"
    if "op_interrupt x \<in> set (ba_executing (fst (snd (settle_finish b x (journal_call (bw_settle_join w) f j) given))))"
      "\<And>e. fst (f j) = Inl e \<Longrightarrow> snd (f j) = j" for f given
    using call_unsettled [OF finish_executing [OF that(1)] assms(2) that(2)] .
  with assms(1) refused_unchanged show ?thesis
    by (auto simp: batch_settle_def Let_def split: sum.split_asm outcome_of_attempt.split_asm if_split_asm)
qed

lemma run_uncertain:
  assumes ok: "journal_ok j" and wf: "batch_wf b" and h: "ba_handle b = Some h"
    and sent: "\<not> silent (rr_effects (batch_run env w b request j blocked))"
    and ex: "rq_interrupt request \<in> set (ba_executing (rr_batch (batch_run env w b request j blocked)))"
    and join: "bw_settle_join w \<noteq> Lost_after"
  shows "holds (bt_generation h) (rq_interrupt request) (rr_journal (batch_run env w b request j blocked))"
proof -
  obtain r where r: "batch_admit env w (b\<lparr>ba_injected := []\<rparr>) request = Inr r"
    using sent by (cases "batch_admit env w (b\<lparr>ba_injected := []\<rparr>) request") (auto simp: batch_run_def Let_def)
  note x = admitted_operation [OF wf r]
  let ?f = "begin_operation (t_read env) (bw_io w) (rn_handle r) (rn_operation r)"
  obtain begun j1 where c: "journal_call (bw_join w) ?f j = (begun, j1)" by fastforce
  from sent r c obtain decision where d: "journaled begun = Inr decision" "ex_execute decision"
    by (auto simp: batch_run_def Let_def split: sum.split_asm if_split_asm option.split_asm)
  then have "?f j = (Inr decision, j1)"
    using c by (cases "bw_join w"; cases "?f j") (auto simp: journal_call_def journaled_def split: sum.split_asm)
  then have "perform id (t_read env) (bw_io w) [] (Begin (rn_handle r) (rn_operation r)) j = (Inr (Granted decision), j1)"
    by (simp add: answer_def)
  note p = this
  from perform_begin_Inr [OF p] obtain d0 d1 where b: "j_connection j = Some d0"
    "begin_work (t_read env) (j_limits j) (rn_handle r) (rn_operation r) d0 = Inr (decision, d1)"
    "j1 = j\<lparr>j_connection := Some d1\<rparr>" .
  with ok have inv: "db_inv (j_limits j) d0" by (auto simp: journal_ok_def)
  from begin_granted [OF inv b(2) d(2)] have "executing_in (rq_interrupt request) (slot d1 (bt_generation h))"
    using x h by simp
  with perform_ok(1) [OF ok p] b(3) have "holds (bt_generation h) (rq_interrupt request) j1" by (simp add: holds_def)
  moreover from ex r c d x(2) have "rr_journal (batch_run env w b request j blocked) = j1"
    using settle_executing [OF _ join, of "rn_operation r"]
    by (auto simp: batch_run_def Let_def split: prod.split_asm prod.split) (metis fst_conv snd_conv)
  ultimately show ?thesis by simp
qed


section \<open>Histories\<close>

datatype batch_event =
    Preparing batch_world action_batch "action_request list"
  | Invoking batch_world action_batch action_request
  | Delivering batch_world action_batch "action_request list"
  | Settling batch_world action_batch
  | Terminating batch_world action_batch
  | Recovering io entropy command \<comment> \<open>any command the journal takes from elsewhere\<close>
  | Restarting

definition reopened :: "journal \<Rightarrow> journal" where
  "reopened j = (case j_connection j of
      None \<Rightarrow> j
    | Some d \<Rightarrow> (case open_journal (j_limits j) d of Inl _ \<Rightarrow> j | Inr j' \<Rightarrow> j'))"

fun batch_step :: "tools \<Rightarrow> batch_event \<Rightarrow> journal \<times> string list \<Rightarrow> journal \<times> string list" where
  "batch_step env (Preparing w b requests) (j, blocked) = (snd (snd (batch_prepare env w b requests j)), blocked)"
| "batch_step env (Invoking w b request) (j, blocked) =
     (rr_journal (batch_run env w b request j blocked), rr_blocked (batch_run env w b request j blocked))"
| "batch_step env (Delivering w b requests) (j, blocked) = (snd (snd (batch_delivered env w b requests j)), blocked)"
| "batch_step env (Settling w b) (j, blocked) = (snd (settle_undelivered w b j), blocked)"
| "batch_step env (Terminating w b) (j, blocked) = (snd (snd (batch_terminate w b j)), blocked)"
| "batch_step env (Recovering io ent c) (j, blocked) = (snd (perform (t_sha env) (t_read env) io ent c j), blocked)"
| "batch_step env Restarting (j, blocked) = (reopened j, [])"

text \<open>Every event but the ones that settle the interrupt on purpose: a chat batch may abandon what it left executing,
  a Routine's may not.\<close>

fun keeps :: "string \<Rightarrow> string \<Rightarrow> batch_event \<Rightarrow> bool" where
  "keeps g i (Invoking w b request) \<longleftrightarrow> batch_wf b"
| "keeps g i (Terminating w b) \<longleftrightarrow> sc_routine (ba_scope b) \<or> ba_executing b = []
     \<or> (case ba_handle b of None \<Rightarrow> True | Some h \<Rightarrow> bt_generation h \<noteq> g)"
| "keeps g i (Recovering io ent c) \<longleftrightarrow> \<not> settles g i c"
| "keeps g i _ \<longleftrightarrow> True"

definition invocation_of :: "string \<Rightarrow> string \<Rightarrow> action_batch \<Rightarrow> action_request \<Rightarrow> bool" where
  "invocation_of g i b request \<longleftrightarrow>
     (case ba_handle b of None \<Rightarrow> False | Some h \<Rightarrow> bt_generation h = g) \<and> rq_interrupt request = i"

fun sends_again :: "tools \<Rightarrow> string \<Rightarrow> string \<Rightarrow> batch_event \<Rightarrow> journal \<times> string list \<Rightarrow> bool" where
  "sends_again env g i (Invoking w b request) (j, blocked) \<longleftrightarrow> invocation_of g i b request
     \<and> (rr_effects (batch_run env w b request j blocked) \<noteq> [] \<or> (\<exists>v. rr_answer (batch_run env w b request j blocked) = Inr v))"
| "sends_again env g i _ _ \<longleftrightarrow> False"

lemma holds_journal_call:
  assumes "holds g i j" "\<not> settles g i c" "\<And>j. snd (f j) = snd (perform sha p io ent c j)"
  shows "holds g i (snd (journal_call jn f j))"
  by (rule holds_call [where f = f, OF assms(1)]) (simp add: assms(3) holds_perform [OF assms(1,2)])

lemma holds_calls:
  assumes "holds g i j"
  shows "holds g i (snd (journal_call jn (prepare_batch sha io ent g' t xs a) j))"
    "holds g i (snd (journal_call jn (delivered p io h) j))" "holds g i (snd (journal_call jn (end_settled io g') j))"
    "holds g i (snd (journal_call jn (end_batch io h) j))"
    "bt_generation h \<noteq> g \<Longrightarrow> holds g i (snd (journal_call jn (abandon_uncertain io h) j))"
  by (rule holds_journal_call [OF assms _ journal_commands(6)] holds_journal_call [OF assms _ journal_commands(7)]
    holds_journal_call [OF assms _ journal_commands(8)] holds_journal_call [OF assms _ journal_commands(9)]
    holds_journal_call [OF assms _ journal_commands(10)], simp)+

lemma holds_batch:
  assumes "holds g i j"
  shows "holds g i (snd (snd (batch_prepare env w b requests j)))" "holds g i (snd (snd (batch_delivered env w b requests j)))"
    "holds g i (snd (settle_undelivered w b j))" "keeps g i (Terminating w b) \<Longrightarrow> holds g i (snd (snd (batch_terminate w b j)))"
  using assms holds_calls [OF assms]
  by (auto simp: batch_prepare_def batch_delivered_def settle_undelivered_def batch_terminate_def Let_def
    split: sum.split prod.split option.split) (metis snd_conv)+

lemma holds_reopened: "holds g i j \<Longrightarrow> holds g i (reopened j)"
  by (auto simp: holds_def reopened_def open_journal_def journal_ok_def)

interpretation uncertain: held_operation "batch_step env" "\<lambda>s. holds g i (fst s)" "keeps g i" "sends_again env g i"
  for env g i
proof
  fix s :: "journal \<times> string list" and e
  assume "holds g i (fst s)" "keeps g i e"
  moreover obtain j blocked where "s = (j, blocked)" by (cases s)
  ultimately show "holds g i (fst (batch_step env e s))"
    using holds_batch [of g i j] holds_reopened [of g i j] run_holds [of g i j] holds_perform [of g i j]
    by (cases e) simp_all
next
  fix s :: "journal \<times> string list" and e
  assume "holds g i (fst s)" "keeps g i e"
  moreover obtain j blocked where "s = (j, blocked)" by (cases s)
  ultimately show "\<not> sends_again env g i e s"
    using run_silent [of g i j]
    by (cases e) (auto simp: invocation_of_def split: option.split_asm, metis Inr_not_Inl)
qed


text \<open>C2: An Action whose outcome is uncertain is never run twice. When an invoke sent its invocation and left the
  operation among those it is executing (any failure but a refusal before the dispatch and a read-only Action's handled
  one, or an outcome the journal could not record), then after any history of prepares, invokes, deliveries,
  settlements, terminations, recoveries and restarts, by whatever batches and with whatever failures, that does not
  settle that interrupt on purpose, every invoke of the same interrupt and generation sends nothing, records nothing
  and answers an error.\<close>

theorem uncertain_never_resent:
  assumes "journal_ok j" "batch_wf b" "ba_handle b = Some h"
    and "r = batch_run env w b request j blocked" "\<not> silent (rr_effects r)"
    and "rq_interrupt request \<in> set (ba_executing (rr_batch r))" "bw_settle_join w \<noteq> Lost_after"
    and "list_all (keeps (bt_generation h) (rq_interrupt request)) es"
    and "fold (batch_step env) es (rr_journal r, rr_blocked r) = (j', blocked')"
    and "batch_wf b'" "ba_handle b' = Some h'" "bt_generation h' = bt_generation h" "rq_interrupt request' = rq_interrupt request"
  shows "rr_effects (batch_run env w' b' request' j' blocked') = []
    \<and> (\<exists>e. rr_answer (batch_run env w' b' request' j' blocked') = Inl e)"
proof -
  have "holds (bt_generation h) (rq_interrupt request) (rr_journal r)"
    using run_uncertain [OF assms(1-3)] assms(4-7) by simp
  with uncertain.never_sends [of "bt_generation h" "rq_interrupt request" "(rr_journal r, rr_blocked r)" es
      "Invoking w' b' request'" env] assms(8-13)
  have "\<not> sends_again env (bt_generation h) (rq_interrupt request) (Invoking w' b' request') (j', blocked')" by simp
  then show ?thesis
    using assms(11-13) by (cases "rr_answer (batch_run env w' b' request' j' blocked')") (auto simp: invocation_of_def)
qed

definition lost_tools :: tools where
  "lost_tools = \<lparr>t_sha = \<lambda>_. replicate 64 (CHR ''a''), t_b64 = id, t_printable = \<lambda>_. True, t_read = \<lambda>_. None,
     t_admit = \<lambda>_ _. Inl [], t_valid_input = \<lambda>_ _. True, t_validate = \<lambda>_ _. Inr ()\<rparr>"

definition lost_world :: batch_world where
  "lost_world = \<lparr>bw_binding = \<lambda>_. Inr (tg_binding (at_target lost_call)), bw_binding_again = \<lambda>_. Inr (tg_binding (at_target lost_call)),
     bw_private = \<lambda>_. \<lparr>ps_rows = \<lambda>_. Inr [], ps_stored = \<lambda>_. Stored_missing\<rparr>,
     bw_present = \<lambda>_. \<lparr>ps_rows = \<lambda>_. Inr [], ps_stored = \<lambda>_. Stored_missing\<rparr>,
     bw_logical = \<lambda>_. None, bw_wait = Deadline_won, bw_io = Io_ok, bw_join = Joined, bw_entropy = [],
     bw_attempt = at_world lost_call, bw_settle_io = Io_ok, bw_settle_join = Joined\<rparr>"

definition lost_request :: action_request where
  "lost_request = \<lparr>rq_interrupt = ''i1'', rq_assistant = ''a'', rq_action = ''post'', rq_input = Object [], rq_files = []\<rparr>"

definition lost_batch :: action_batch where
  "lost_batch = \<lparr>ba_scope = \<lparr>sc_team = ''t'', sc_generation = ''g1'', sc_thread = ''t1'', sc_routine = True, sc_transcripts = []\<rparr>,
     ba_handle = Some example_batch, ba_prepared = [(''i1'', \<lparr>pr_operation = example_operation, pr_present = []\<rparr>)],
     ba_origins = [], ba_executing = [], ba_observed = True, ba_injected = []\<rparr>"


lemma lost_admit:
  "batch_admit lost_tools lost_world (lost_batch\<lparr>ba_injected := []\<rparr>) lost_request = Inr \<lparr>rn_handle = example_batch,
     rn_operation = example_operation, rn_binding = tg_binding (at_target lost_call), rn_action = plain_action,
     rn_file = None, rn_transcript = new_transcript ''i1'', rn_held = False\<rparr>"
  by (simp add: batch_admit_def lost_tools_def lost_world_def lost_batch_def lost_request_def lost_call_def plain_action_def
    unchanged_def operation_of_def admitted_def generations_of_def file_at_admission_def named_file_def ok_or_def
    batch_transcript_def grants_def admit_slot_def example_operation_def Let_def find_by_def)

lemma lost_begin:
  "begin_operation p Io_ok example_batch example_operation (example_journal (example_db Prepared 0))
     = (Inr \<lparr>ex_execute = True, ex_result = None, ex_operation_id = ''00000000-0000-4000-8000-000000000001''\<rparr>,
        example_journal (example_db Executing 1))"
  by (simp add: begin_operation_def batch_require_def example_journal_def writing_def begin_work_def example_find)
     (simp add: example_db_def example_batch_def example_operation_def update_one_def update_operations_def selects_def
       check_operation_def require_changed_def)


lemma lost_id: "plain ''00000000-0000-4000-8000-000000000001''" "valid_operation_id ''00000000-0000-4000-8000-000000000001''"
  by (simp_all add: plain_def plain_char_def byte_of_def example_ids)

definition lost_attempt :: attempt_result where
  "lost_attempt = batch_attempt lost_tools lost_world
     (lost_batch\<lparr>ba_injected := [], ba_executing := [''i1'']\<rparr>) lost_request
     \<lparr>rn_handle = example_batch, rn_operation = example_operation, rn_binding = tg_binding (at_target lost_call),
       rn_action = plain_action, rn_file = None, rn_transcript = new_transcript ''i1'', rn_held = False\<rparr>
     ''00000000-0000-4000-8000-000000000001'' []"

lemma lost_attempt_facts:
  "\<not> silent (ar_effects lost_attempt)"
  "ar_outcome lost_attempt = Inl (Failed_uncertain (new_error Failure_blocked
     (with_cleanup (new_cause Cond_deadline_passed Phase_exec_start) Cleanup_workload_stop_unconfirmed)))"
  by (simp_all add: lost_attempt_def batch_attempt_def attempt_def prepare_attempt_def is_blocked_def lost_tools_def lost_world_def
    lost_batch_def lost_request_def lost_call_def plain_action_def private_of_def injected_values_def held_inputs_def
    runner_files_def deliver_def new_transcript_def transcript_payloads_def plain_invocation lost_id Let_def
    dispatch_attempt_def exchange_def started_call_def fail_stop_def rpc_failure_of_def may_start_def)

lemma lost_run:
  "batch_run lost_tools lost_world lost_batch lost_request (example_journal (example_db Prepared 0)) [] =
     \<lparr>rr_answer = Inl (new_error Failure_blocked
        (with_cleanup (new_cause Cond_deadline_passed Phase_exec_start) Cleanup_workload_stop_unconfirmed)),
      rr_batch = lost_batch\<lparr>ba_injected := ar_injected lost_attempt, ba_executing := [''i1'']\<rparr>,
      rr_journal = example_journal (example_db Executing 1),
      rr_blocked = ar_blocked lost_attempt, rr_effects = ar_effects lost_attempt\<rparr>"
proof -
  have w: "bw_join lost_world = Joined" "bw_io lost_world = Io_ok" "ba_executing lost_batch = []"
    by (simp_all add: lost_world_def lost_batch_def)
  have a: "batch_attempt lost_tools lost_world (lost_batch\<lparr>ba_injected := [], ba_executing := [op_interrupt example_operation]\<rparr>)
     lost_request \<lparr>rn_handle = example_batch, rn_operation = example_operation, rn_binding = tg_binding (at_target lost_call),
       rn_action = plain_action, rn_file = None, rn_transcript = new_transcript ''i1'', rn_held = False\<rparr>
     ''00000000-0000-4000-8000-000000000001'' [] = lost_attempt"
    by (simp add: lost_attempt_def example_operation_def)
  show ?thesis
    by (simp add: batch_run_def Let_def lost_admit w journal_call_def lost_begin journaled_def a batch_settle_def
      lost_attempt_facts) (simp add: example_operation_def lost_batch_def)
qed

theorem uncertain_never_resent_witness:
  "\<exists>e. rr_answer (batch_run lost_tools lost_world lost_batch lost_request (example_journal (example_db Executing 1)) []) = Inl e"
proof -
  let ?j = "example_journal (example_db Prepared 0)"
  have ok: "journal_ok ?j" using reachable_ok [OF example_reachable(1)] by simp
  have wf: "batch_wf lost_batch" "ba_handle lost_batch = Some example_batch"
    by (simp_all add: batch_wf_def lost_batch_def example_operation_def)
  have step: "fold (batch_step lost_tools) [Restarting, Terminating lost_world (lost_batch\<lparr>ba_executing := [''i1'']\<rparr>)]
      (rr_journal (batch_run lost_tools lost_world lost_batch lost_request ?j []),
       rr_blocked (batch_run lost_tools lost_world lost_batch lost_request ?j []))
    = (example_journal (example_db Executing 1), [])"
    by (simp add: lost_run)
       (simp add: lost_batch_def reopened_def example_journal_def open_journal_def example_limits_def batch_terminate_def)
  have "rq_interrupt lost_request = ''i1''" "bw_settle_join lost_world = Joined" "sc_routine (ba_scope lost_batch)"
    by (simp_all add: lost_request_def lost_world_def lost_batch_def)
  then show ?thesis
    by (intro uncertain_never_resent [OF ok wf refl _ _ _ _ step wf refl refl, THEN conjunct2])
       (simp_all add: lost_run lost_attempt_facts)
qed

end
