(* ===== verification/Challenge_Store.thy ===== *)
theory Challenge_Store
  imports Text_Patterns
begin

text \<open>
  Bounded, Team-bound, one-use challenges with a time to live: \<^verbatim>\<open>integrations/src/challenge.rs\<close>. The store is generic in its
  public metadata and private payload, as the code is.

  The two hash maps are the list \<open>cs_pending\<close>, unique by id and in no particular order, and the map \<open>cs_by_team\<close>. A
  \<open>Duration\<close> is its nanoseconds, an \<open>Instant\<close> the nanoseconds of the monotonic clock. One call asks the lock, the
  clock once or twice and the random source: the record \<open>call_world\<close>. A clock so far ahead that adding a lifetime overflows an
  \<open>Instant\<close>, where the code panics, is left out. \<open>store_ok\<close> is the invariant, and the last
  section runs calls in sequence.
\<close>

definition MAX_PENDING_CHALLENGES :: nat where "MAX_PENDING_CHALLENGES = 32"

record ('m, 'p) pending_challenge =
  pd_id :: string
  pd_team :: string
  pd_expires :: nat
  pd_metadata :: 'm
  pd_payload :: 'p

datatype challenge_error =
    Challenge_invalid | Challenge_already_pending | Challenge_capacity | Challenge_not_found | Challenge_not_retained
  | Challenge_unavailable

record challenge_limits =
  cl_capacity :: nat
  cl_ttl :: nat
  cl_retain_expired :: bool

definition NANOS :: nat where "NANOS = 1000000000"

definition limits_valid :: "challenge_limits \<Rightarrow> bool" where
  "limits_valid l \<longleftrightarrow> 1 \<le> cl_capacity l \<and> cl_capacity l \<le> 1024 \<and> 30 \<le> cl_ttl l div NANOS \<and> cl_ttl l div NANOS \<le> 900
     \<and> cl_ttl l mod NANOS = 0"

record ('m, 'p) challenge_store =
  cs_limits :: challenge_limits
  cs_admit :: "'m \<Rightarrow> bool"
  cs_pending :: "('m, 'p) pending_challenge list"
  cs_by_team :: "string \<rightharpoonup> string"
  cs_expired :: "('m, 'p) pending_challenge list"

record call_world =
  cw_poisoned :: bool
  cw_now :: nat \<comment> \<open>the clock under the lock\<close>
  cw_later :: nat \<comment> \<open>the clock when a lifetime starts\<close>
  cw_entropy :: entropy

type_synonym ('m, 'p, 'a) answered_call = "(challenge_error + 'a) \<times> ('m, 'p) challenge_store"

definition team_id_text :: "string \<Rightarrow> bool" where
  "team_id_text s \<longleftrightarrow> 1 \<le> length s \<and> length s \<le> 40 \<and> list_all (\<lambda>c. lower c \<or> digit c \<or> c = CHR ''_'') s"

definition challenge_id :: "string \<Rightarrow> bool" where
  "challenge_id s \<longleftrightarrow> length s = 32 \<and> list_all hex s"

definition new_store :: "challenge_limits \<Rightarrow> ('m \<Rightarrow> bool) \<Rightarrow> challenge_error + ('m, 'p) challenge_store" where
  "new_store l admit = (if \<not> limits_valid l then Inl Challenge_invalid
     else Inr \<lparr>cs_limits = l, cs_admit = admit, cs_pending = [], cs_by_team = Map.empty, cs_expired = []\<rparr>)"

section \<open>Under the lock\<close>

definition expire_one :: "('m, 'p) pending_challenge \<Rightarrow> ('m, 'p) challenge_store \<Rightarrow> ('m, 'p) challenge_store" where
  "expire_one c s = s\<lparr>
     cs_pending := filter (\<lambda>q. pd_id q \<noteq> pd_id c) (cs_pending s),
     cs_by_team := (if cs_by_team s (pd_team c) = Some (pd_id c) then (cs_by_team s)(pd_team c := None) else cs_by_team s),
     cs_expired := (if cl_retain_expired (cs_limits s) then cs_expired s @ [c] else cs_expired s)\<rparr>"

definition expire :: "nat \<Rightarrow> ('m, 'p) challenge_store \<Rightarrow> ('m, 'p) challenge_store" where
  "expire now s = fold expire_one (filter (\<lambda>c. pd_expires c \<le> now) (cs_pending s)) s"

definition lock_store :: "call_world \<Rightarrow> ('m, 'p) challenge_store \<Rightarrow> challenge_error + ('m, 'p) challenge_store" where
  "lock_store w s = (if cw_poisoned w then Inl Challenge_unavailable else Inr (expire (cw_now w) s))"

function fresh_id :: "entropy \<Rightarrow> ('m, 'p) challenge_store \<Rightarrow> challenge_error + string" where
  "fresh_id ent s = (case token_hex ent 16 of
      None \<Rightarrow> Inl Challenge_unavailable
    | Some (i, rest) \<Rightarrow> if find_by pd_id i (cs_pending s) = None then Inr i else fresh_id rest s)"
  by pat_completeness auto
termination
  by (relation "measure (\<lambda>(ent, _). length ent)")
     (auto simp: token_hex_def fill_def split: list.split_asm option.split_asm)

definition insert_challenge :: "('m, 'p) pending_challenge \<Rightarrow> ('m, 'p) challenge_store \<Rightarrow> ('m, 'p) challenge_store" where
  "insert_challenge c s = s\<lparr>cs_by_team := (cs_by_team s)(pd_team c \<mapsto> pd_id c),
     cs_pending := filter (\<lambda>q. pd_id q \<noteq> pd_id c) (cs_pending s) @ [c]\<rparr>"

definition room :: "string \<Rightarrow> ('m, 'p) challenge_store \<Rightarrow> challenge_error + unit" where
  "room team s = (if cs_by_team s team \<noteq> None then Inl Challenge_already_pending
     else if length (cs_pending s) \<ge> cl_capacity (cs_limits s) then Inl Challenge_capacity else Inr ())"

definition checked_lock :: "call_world \<Rightarrow> string \<Rightarrow> string \<Rightarrow> ('m, 'p) challenge_store \<Rightarrow> challenge_error + ('m, 'p) challenge_store" where
  "checked_lock w team i s = (if \<not> team_id_text team then Inl Challenge_invalid
     else if \<not> challenge_id i then Inl Challenge_not_found else lock_store w s)"

definition available :: "string \<Rightarrow> string \<Rightarrow> ('m, 'p) challenge_store \<Rightarrow> challenge_error + ('m, 'p) pending_challenge" where
  "available team i s = (case find_by pd_id i (cs_pending s) of
      Some c \<Rightarrow> if pd_team c = team then Inr c else Inl Challenge_not_found
    | None \<Rightarrow> Inl Challenge_not_found)"

section \<open>Calls\<close>

definition create_challenge ::
    "call_world \<Rightarrow> string \<Rightarrow> 'm \<Rightarrow> 'p \<Rightarrow> ('m, 'p) challenge_store \<Rightarrow> ('m, 'p, ('m, 'p) pending_challenge) answered_call" where
  "create_challenge w team metadata payload s =
     (if \<not> team_id_text team \<or> \<not> cs_admit s metadata then (Inl Challenge_invalid, s)
      else case lock_store w s of
          Inl e \<Rightarrow> (Inl e, s)
        | Inr s1 \<Rightarrow> (case rbind (room team s1) (\<lambda>_. fresh_id (cw_entropy w) s1) of
              Inl e \<Rightarrow> (Inl e, s1)
            | Inr i \<Rightarrow>
                let c = \<lparr>pd_id = i, pd_team = team, pd_expires = cw_later w + cl_ttl (cs_limits s1), pd_metadata = metadata,
                         pd_payload = payload\<rparr> in
                (Inr c, insert_challenge c s1)))"

definition get_challenge ::
    "call_world \<Rightarrow> string \<Rightarrow> string \<Rightarrow> ('m, 'p) challenge_store \<Rightarrow> ('m, 'p, ('m, 'p) pending_challenge) answered_call" where
  "get_challenge w team i s = (case checked_lock w team i s of
      Inl e \<Rightarrow> (Inl e, s)
    | Inr s1 \<Rightarrow> (available team i s1, s1))"

definition restore_challenge ::
    "call_world \<Rightarrow> string \<Rightarrow> string \<Rightarrow> nat \<Rightarrow> 'm \<Rightarrow> 'p \<Rightarrow> ('m, 'p) challenge_store \<Rightarrow> ('m, 'p, ('m, 'p) pending_challenge) answered_call" where
  "restore_challenge w team i remaining metadata payload s =
     (if \<not> team_id_text team then (Inl Challenge_invalid, s)
      else if \<not> challenge_id i then (Inl Challenge_not_found, s)
      else if \<not> (NANOS \<le> remaining \<and> remaining \<le> cl_ttl (cs_limits s)) \<or> \<not> cs_admit s metadata then (Inl Challenge_invalid, s)
      else case lock_store w s of
          Inl e \<Rightarrow> (Inl e, s)
        | Inr s1 \<Rightarrow>
            if find_by pd_id i (cs_pending s1) \<noteq> None then (Inl Challenge_already_pending, s1)
            else (case room team s1 of
                Inl e \<Rightarrow> (Inl e, s1)
              | Inr _ \<Rightarrow>
                  let c = \<lparr>pd_id = i, pd_team = team, pd_expires = cw_later w + remaining, pd_metadata = metadata,
                           pd_payload = payload\<rparr> in
                  (Inr c, insert_challenge c s1)))"

definition reissue_challenge ::
    "call_world \<Rightarrow> string \<Rightarrow> string \<Rightarrow> 'm \<Rightarrow> ('m, 'p) challenge_store \<Rightarrow> ('m, 'p, ('m, 'p) pending_challenge) answered_call" where
  "reissue_challenge w team i metadata s =
     (if \<not> cs_admit s metadata then (Inl Challenge_invalid, s)
      else case checked_lock w team i s of
          Inl e \<Rightarrow> (Inl e, s)
        | Inr s1 \<Rightarrow> (case rbind (available team i s1) (\<lambda>previous. rbind (fresh_id (cw_entropy w) s1) (\<lambda>j. Inr (previous, j))) of
              Inl e \<Rightarrow> (Inl e, s1)
            | Inr (previous, j) \<Rightarrow>
                let s2 = s1\<lparr>cs_pending := filter (\<lambda>q. pd_id q \<noteq> i) (cs_pending s1)\<rparr>;
                    c = previous\<lparr>pd_id := j, pd_team := team, pd_metadata := metadata\<rparr> in
                (Inr c, insert_challenge c s2)))"

definition current_challenge ::
    "call_world \<Rightarrow> string \<Rightarrow> ('m, 'p) challenge_store \<Rightarrow> ('m, 'p, ('m, 'p) pending_challenge option) answered_call" where
  "current_challenge w team s =
     (if \<not> team_id_text team then (Inl Challenge_invalid, s)
      else case lock_store w s of
          Inl e \<Rightarrow> (Inl e, s)
        | Inr s1 \<Rightarrow> (Inr (Option.bind (cs_by_team s1 team) (\<lambda>i. find_by pd_id i (cs_pending s1))), s1))"

datatype 'e claim_refused = Claim_store challenge_error | Claim_commit 'e

definition claim_after ::
    "call_world \<Rightarrow> string \<Rightarrow> string \<Rightarrow> (('m, 'p) pending_challenge \<Rightarrow> 'e + unit) \<Rightarrow> ('m, 'p) challenge_store
       \<Rightarrow> ('e claim_refused + ('m, 'p) pending_challenge) \<times> ('m, 'p) challenge_store" where
  "claim_after w team i commit s = (case checked_lock w team i s of
      Inl e \<Rightarrow> (Inl (Claim_store e), s)
    | Inr s1 \<Rightarrow> (case available team i s1 of
          Inl e \<Rightarrow> (Inl (Claim_store e), s1)
        | Inr c \<Rightarrow> (case commit c of
              Inl e \<Rightarrow> (Inl (Claim_commit e), s1)
            | Inr _ \<Rightarrow> (Inr c, s1\<lparr>
                cs_pending := filter (\<lambda>q. pd_id q \<noteq> i) (cs_pending s1),
                cs_by_team := (if cs_by_team s1 team = Some i then (cs_by_team s1)(team := None) else cs_by_team s1)\<rparr>))))"

definition claim_challenge ::
    "call_world \<Rightarrow> string \<Rightarrow> string \<Rightarrow> ('m, 'p) challenge_store \<Rightarrow> ('m, 'p, ('m, 'p) pending_challenge) answered_call" where
  "claim_challenge w team i s =
     map_prod (map_sum (\<lambda>e. case e of Claim_store e \<Rightarrow> e | Claim_commit e \<Rightarrow> e) id) id
       (claim_after w team i (\<lambda>_. Inr () :: challenge_error + unit) s)"

definition withdraw_team ::
    "call_world \<Rightarrow> string \<Rightarrow> ('m, 'p) challenge_store \<Rightarrow> ('m, 'p, ('m, 'p) pending_challenge option) answered_call" where
  \<comment> \<open>takes the lock itself: nothing expires here\<close>
  "withdraw_team w team s =
     (if \<not> team_id_text team then (Inl Challenge_invalid, s)
      else if cw_poisoned w then (Inl Challenge_unavailable, s)
      else case cs_by_team s team of
          None \<Rightarrow> (Inr None, s)
        | Some i \<Rightarrow> (Inr (find_by pd_id i (cs_pending s)), s\<lparr>cs_by_team := (cs_by_team s)(team := None),
            cs_pending := filter (\<lambda>q. pd_id q \<noteq> i) (cs_pending s)\<rparr>))"

definition cancel_team ::
    "call_world \<Rightarrow> string \<Rightarrow> ('m, 'p) challenge_store \<Rightarrow> ('m, 'p, bool) answered_call" where
  "cancel_team w team s = map_prod (map_sum id (\<lambda>c. c \<noteq> None)) id (withdraw_team w team s)"

definition cancel_all :: "call_world \<Rightarrow> ('m, 'p) challenge_store \<Rightarrow> ('m, 'p, nat) answered_call" where
  "cancel_all w s =
     (if cw_poisoned w then (Inl Challenge_unavailable, s)
      else (Inr (length (cs_pending s)), s\<lparr>cs_pending := [], cs_by_team := Map.empty, cs_expired := []\<rparr>))"

definition drain_expired ::
    "call_world \<Rightarrow> string option \<Rightarrow> ('m, 'p) challenge_store \<Rightarrow> ('m, 'p, ('m, 'p) pending_challenge list) answered_call" where
  "drain_expired w team s =
     (if \<not> cl_retain_expired (cs_limits s) then (Inl Challenge_not_retained, s)
      else if (case team of None \<Rightarrow> False | Some t \<Rightarrow> \<not> team_id_text t) then (Inl Challenge_invalid, s)
      else case lock_store w s of
          Inl e \<Rightarrow> (Inl e, s)
        | Inr s1 \<Rightarrow>
            let mine = (\<lambda>c. case team of None \<Rightarrow> True | Some t \<Rightarrow> pd_team c = t) in
            (Inr (filter mine (cs_expired s1)), s1\<lparr>cs_expired := filter (\<lambda>c. \<not> mine c) (cs_expired s1)\<rparr>))"


section \<open>The invariant\<close>

definition live_ids :: "('m, 'p) challenge_store \<Rightarrow> string set" where
  "live_ids s = pd_id ` set (cs_pending s)"

definition store_ok :: "('m, 'p) challenge_store \<Rightarrow> bool" where
  "store_ok s \<longleftrightarrow> limits_valid (cs_limits s) \<and> distinct (map pd_id (cs_pending s))
     \<and> length (cs_pending s) \<le> cl_capacity (cs_limits s)
     \<and> (\<forall>c \<in> set (cs_pending s). cs_by_team s (pd_team c) = Some (pd_id c) \<and> challenge_id (pd_id c) \<and> team_id_text (pd_team c)
          \<and> cs_admit s (pd_metadata c))
     \<and> (\<forall>t i. cs_by_team s t = Some i \<longrightarrow> (\<exists>c \<in> set (cs_pending s). pd_id c = i \<and> pd_team c = t))"

lemma store_okD:
  assumes "store_ok s"
  shows "distinct (map pd_id (cs_pending s))" "length (cs_pending s) \<le> cl_capacity (cs_limits s)" "limits_valid (cs_limits s)"
    "c \<in> set (cs_pending s) \<Longrightarrow> cs_by_team s (pd_team c) = Some (pd_id c)"
    "c \<in> set (cs_pending s) \<Longrightarrow> challenge_id (pd_id c) \<and> team_id_text (pd_team c) \<and> cs_admit s (pd_metadata c)"
    "cs_by_team s t = Some i \<Longrightarrow> \<exists>c \<in> set (cs_pending s). pd_id c = i \<and> pd_team c = t"
  using assms by (simp_all add: store_ok_def)

lemma one_challenge:
  assumes "store_ok s" "c \<in> set (cs_pending s)" "d \<in> set (cs_pending s)"
  shows "pd_id c = pd_id d \<Longrightarrow> c = d" "pd_team c = pd_team d \<Longrightarrow> c = d"
proof -
  show same: "c = d" if "pd_id c = pd_id d"
    using store_okD(1) [OF assms(1)] assms(2,3) that by (simp add: distinct_map inj_on_def)
  show "c = d" if "pd_team c = pd_team d"
    using store_okD(4) [OF assms(1)] assms(2,3) that same by (metis option.inject)
qed

lemma find_pending:
  assumes "store_ok s"
  shows "find_by pd_id i (cs_pending s) = Some c \<longleftrightarrow> c \<in> set (cs_pending s) \<and> pd_id c = i"
  using find_by_distinct [OF store_okD(1) [OF assms]] find_by_Some_mem find_by_Some_key by metis

text \<open>Taking one live challenge out keeps the invariant.\<close>

definition without_challenge :: "('m, 'p) pending_challenge \<Rightarrow> ('m, 'p) challenge_store \<Rightarrow> ('m, 'p) challenge_store" where
  "without_challenge c s = s\<lparr>cs_pending := filter (\<lambda>q. pd_id q \<noteq> pd_id c) (cs_pending s),
     cs_by_team := (cs_by_team s)(pd_team c := None)\<rparr>"

lemma without_ok:
  assumes "store_ok s" "c \<in> set (cs_pending s)"
  shows "store_ok (without_challenge c s)"
proof -
  let ?rest = "filter (\<lambda>q. pd_id q \<noteq> pd_id c) (cs_pending s)"
  have "length ?rest \<le> cl_capacity (cs_limits s)"
    using store_okD(2) [OF assms(1)] length_filter_le le_trans by blast
  moreover have "distinct (map pd_id ?rest)" using store_okD(1) [OF assms(1)] by (simp add: distinct_map_filter)
  moreover have "((cs_by_team s)(pd_team c := None)) (pd_team q) = Some (pd_id q)" if "q \<in> set ?rest" for q
    using that store_okD(4) [OF assms(1)] one_challenge(2) [OF assms(1) _ assms(2)] by fastforce
  moreover have "\<exists>q \<in> set ?rest. pd_id q = i \<and> pd_team q = t" if "((cs_by_team s)(pd_team c := None)) t = Some i" for t i
  proof -
    from that have "t \<noteq> pd_team c" "cs_by_team s t = Some i" by (auto split: if_split_asm)
    from store_okD(6) [OF assms(1) this(2)] obtain q where q: "q \<in> set (cs_pending s)" "pd_id q = i" "pd_team q = t" by blast
    with one_challenge(1) [OF assms(1) q(1) assms(2)] \<open>t \<noteq> pd_team c\<close> show ?thesis by force
  qed
  ultimately show ?thesis using store_okD(3,5) [OF assms(1)] by (simp add: store_ok_def without_challenge_def)
qed

lemma expire_one_without:
  assumes "store_ok s" "c \<in> set (cs_pending s)"
  shows "expire_one c s = (without_challenge c s)\<lparr>cs_expired := (if cl_retain_expired (cs_limits s) then cs_expired s @ [c] else cs_expired s)\<rparr>"
  using store_okD(4) [OF assms] by (simp add: expire_one_def without_challenge_def)

lemma store_ok_expired [simp]: "store_ok (s\<lparr>cs_expired := xs\<rparr>) = store_ok s"
  by (simp add: store_ok_def)

lemma expire_fold:
  assumes "store_ok s" "set xs \<subseteq> set (cs_pending s)" "distinct (map pd_id xs)" "s' = fold expire_one xs s"
  shows "store_ok s' \<and> cs_pending s' = filter (\<lambda>q. pd_id q \<notin> pd_id ` set xs) (cs_pending s)
    \<and> cs_expired s' = cs_expired s @ (if cl_retain_expired (cs_limits s) then xs else [])
    \<and> cs_limits s' = cs_limits s \<and> cs_admit s' = cs_admit s"
  using assms
proof (induction xs arbitrary: s)
  case (Cons c xs)
  let ?s = "expire_one c s"
  have c: "c \<in> set (cs_pending s)" using Cons.prems by simp
  have ok: "store_ok ?s" using without_ok [OF Cons.prems(1) c] by (simp add: expire_one_without [OF Cons.prems(1) c])
  have eq: "cs_pending ?s = filter (\<lambda>q. pd_id q \<noteq> pd_id c) (cs_pending s)" "cs_limits ?s = cs_limits s" "cs_admit ?s = cs_admit s"
    "cs_expired ?s = cs_expired s @ (if cl_retain_expired (cs_limits s) then [c] else [])"
    by (simp_all add: expire_one_def)
  have "set xs \<subseteq> set (cs_pending ?s)" "distinct (map pd_id xs)" "s' = fold expire_one xs ?s"
    using Cons.prems by (auto simp: eq(1) image_iff)
  from Cons.IH [OF ok this] show ?case by (auto simp: eq intro: filter_cong)
qed simp

lemma expire_facts:
  assumes "store_ok s"
  shows "store_ok (expire now s)" "cs_pending (expire now s) = filter (\<lambda>c. now < pd_expires c) (cs_pending s)"
    "cs_expired (expire now s) = cs_expired s @
       (if cl_retain_expired (cs_limits s) then filter (\<lambda>c. pd_expires c \<le> now) (cs_pending s) else [])"
    "cs_limits (expire now s) = cs_limits s" "cs_admit (expire now s) = cs_admit s"
proof -
  let ?xs = "filter (\<lambda>c. pd_expires c \<le> now) (cs_pending s)"
  have xs: "set ?xs \<subseteq> set (cs_pending s)" "distinct (map pd_id ?xs)"
    using store_okD(1) [OF assms] by (auto simp: distinct_map inj_on_def)
  note facts = expire_fold [OF assms xs expire_def]
  have "pd_id q \<notin> pd_id ` set ?xs \<longleftrightarrow> now < pd_expires q" if "q \<in> set (cs_pending s)" for q
    using one_challenge(1) [OF assms] that by (auto simp: not_le [symmetric])
  then have "filter (\<lambda>q. pd_id q \<notin> pd_id ` set ?xs) (cs_pending s) = filter (\<lambda>c. now < pd_expires c) (cs_pending s)"
    by (intro filter_cong) auto
  with facts show "cs_pending (expire now s) = filter (\<lambda>c. now < pd_expires c) (cs_pending s)" by metis
  from facts show "store_ok (expire now s)" "cs_limits (expire now s) = cs_limits s" "cs_admit (expire now s) = cs_admit s"
    "cs_expired (expire now s) = cs_expired s @
       (if cl_retain_expired (cs_limits s) then filter (\<lambda>c. pd_expires c \<le> now) (cs_pending s) else [])"
    by metis+
qed

lemma insert_ok:
  assumes "store_ok s" "pd_id c \<notin> live_ids s" "length (cs_pending s) < cl_capacity (cs_limits s)"
    "cs_by_team s (pd_team c) = None" "challenge_id (pd_id c)" "team_id_text (pd_team c)" "cs_admit s (pd_metadata c)"
  shows "store_ok (insert_challenge c s)" "cs_pending (insert_challenge c s) = cs_pending s @ [c]"
proof -
  have keep: "filter (\<lambda>q. pd_id q \<noteq> pd_id c) (cs_pending s) = cs_pending s"
    using assms(2) by (intro filter_True) (auto simp: live_ids_def image_iff)
  then show p: "cs_pending (insert_challenge c s) = cs_pending s @ [c]" by (simp add: insert_challenge_def)
  have "pd_team q \<noteq> pd_team c" if "q \<in> set (cs_pending s)" for q
    using store_okD(4) [OF assms(1) that] assms(4) by force
  then show "store_ok (insert_challenge c s)"
    using assms unfolding store_ok_def live_ids_def
    by (auto simp: insert_challenge_def keep)
qed


lemma hex_of_digit: "n < 16 \<Longrightarrow> hex (hex_digit n)"
  by (simp only: less_Suc_eq numeral_eq_Suc) (auto simp: hex_digit_def hex_def digit_def between_def)

lemma token_hex_id:
  assumes "token_hex ent 16 = Some (i, rest)"
  shows "challenge_id i"
proof -
  from assms obtain bs where bs: "fill ent 16 = Some (bs, rest)" "i = concat (map hex_byte bs)"
    by (auto simp: token_hex_def)
  have nibble: "unat b div 16 < 16" for b :: byte
  proof -
    have "unat b < 2 ^ LENGTH(8)" by (rule unsigned_less)
    then show ?thesis by simp
  qed
  have "length (concat (map hex_byte xs)) = 2 * length xs \<and> list_all hex (concat (map hex_byte xs))" for xs
    by (induction xs) (simp_all add: hex_byte_def hex_of_digit nibble)
  then show ?thesis using fill_length [OF bs(1)] by (simp add: challenge_id_def bs(2))
qed

declare fresh_id.simps [simp del]

lemma fresh_id_new: "fresh_id ent s = Inr i \<Longrightarrow> i \<notin> live_ids s \<and> challenge_id i"
proof (induction ent s rule: fresh_id.induct)
  case (1 ent s)
  show ?case
  proof (cases "token_hex ent 16")
    case (Some p)
    obtain j rest where p: "p = (j, rest)" by (cases p)
    show ?thesis
    proof (cases "find_by pd_id j (cs_pending s) = None")
      case True
      with 1(2) Some p have "i = j" by (simp add: fresh_id.simps [of ent])
      with True token_hex_id [OF Some [unfolded p]] show ?thesis by (simp add: live_ids_def find_by_None)
    next
      case False
      with 1(2) Some p have "fresh_id rest s = Inr i" by (simp add: fresh_id.simps [of ent])
      with 1(1) [OF Some p [symmetric] False] show ?thesis by simp
    qed
  qed (use 1(2) in \<open>simp add: fresh_id.simps [of ent]\<close>)
qed

section \<open>Calls as steps\<close>

datatype ('m, 'p) challenge_call =
    Create_call string 'm 'p
  | Get_call string string
  | Restore_call string string nat 'm 'p
  | Reissue_call string string 'm
  | Current_call string
  | Claim_call string string "('m, 'p) pending_challenge \<Rightarrow> unit + unit"
  | Withdraw_call string
  | Cancel_all_call
  | Drain_call "string option"

datatype ('m, 'p) challenge_reply =
    Issued "('m, 'p) pending_challenge" \<comment> \<open>a challenge the call inserted\<close>
  | Shown "('m, 'p) pending_challenge option"
  | Taken "('m, 'p) pending_challenge option" \<comment> \<open>a challenge the call consumed\<close>
  | Cancelled nat
  | Drained "('m, 'p) pending_challenge list"

definition replied :: "('a \<Rightarrow> 'r) \<Rightarrow> ('e + 'a) \<times> 's \<Rightarrow> (unit + 'r) \<times> 's" where
  "replied f p = (map_sum (\<lambda>_. ()) f (fst p), snd p)"

fun challenge_step :: "call_world \<Rightarrow> ('m, 'p) challenge_call \<Rightarrow> ('m, 'p) challenge_store
    \<Rightarrow> (unit + ('m, 'p) challenge_reply) \<times> ('m, 'p) challenge_store" where
  "challenge_step w (Create_call team m p) s = replied Issued (create_challenge w team m p s)"
| "challenge_step w (Get_call team i) s = replied (Shown \<circ> Some) (get_challenge w team i s)"
| "challenge_step w (Restore_call team i remaining m p) s = replied Issued (restore_challenge w team i remaining m p s)"
| "challenge_step w (Reissue_call team i m) s = replied Issued (reissue_challenge w team i m s)"
| "challenge_step w (Current_call team) s = replied Shown (current_challenge w team s)"
| "challenge_step w (Claim_call team i commit) s = replied (Taken \<circ> Some) (claim_after w team i commit s)"
| "challenge_step w (Withdraw_call team) s = replied Taken (withdraw_team w team s)"
| "challenge_step w Cancel_all_call s = replied Cancelled (cancel_all w s)"
| "challenge_step w (Drain_call team) s = replied Drained (drain_expired w team s)"

text \<open>\<open>stepped w s p\<close>: the answer and store \<open>p\<close> keep the invariant, hold no challenge but the earlier ones and the one
  issued, and no lifetime but an earlier one or the store's.\<close>

definition stepped :: "call_world \<Rightarrow> ('m, 'p) challenge_store \<Rightarrow> (unit + ('m, 'p) challenge_reply) \<times> ('m, 'p) challenge_store \<Rightarrow> bool" where
  "stepped w s p \<longleftrightarrow> store_ok (snd p) \<and> cs_limits (snd p) = cs_limits s \<and> cs_admit (snd p) = cs_admit s
     \<and> (\<forall>c \<in> set (cs_pending (snd p)). c \<in> set (cs_pending s) \<or>
          fst p = Inr (Issued c) \<and> (pd_expires c \<le> cw_later w + cl_ttl (cs_limits s)
             \<or> (\<exists>d \<in> set (cs_pending s). pd_expires d = pd_expires c)))"

lemma stepped_refl: "store_ok s \<Longrightarrow> stepped w s (r, s)"
  by (simp add: stepped_def)

lemma stepped_expire: "store_ok s \<Longrightarrow> stepped w s (r, expire now s)"
  by (simp add: stepped_def expire_facts)

lemma lock_Inr: "lock_store w s = Inr s1 \<longleftrightarrow> \<not> cw_poisoned w \<and> s1 = expire (cw_now w) s"
  by (auto simp: lock_store_def)

lemma available_Inr: "store_ok s \<Longrightarrow> available team i s = Inr c \<longleftrightarrow> c \<in> set (cs_pending s) \<and> pd_id c = i \<and> pd_team c = team"
  using find_pending [of s i c] by (cases "find_by pd_id i (cs_pending s)") (auto simp: available_def dest: find_by_Some_key)

lemma room_Inr: "room team s = Inr u \<longleftrightarrow> cs_by_team s team = None \<and> length (cs_pending s) < cl_capacity (cs_limits s)"
  by (auto simp: room_def)

lemma stepped_insert:
  assumes ok: "store_ok s" and s1: "s1 = expire now s" and room: "room (pd_team c) s1 = Inr u" and new: "pd_id c \<notin> live_ids s1"
    and c: "challenge_id (pd_id c)" "team_id_text (pd_team c)" "cs_admit s (pd_metadata c)"
      "pd_expires c \<le> cw_later w + cl_ttl (cs_limits s)"
  shows "stepped w s (Inr (Issued c), insert_challenge c s1)"
proof -
  note e = expire_facts [OF ok, of now]
  have "store_ok (insert_challenge c s1)" "cs_pending (insert_challenge c s1) = cs_pending s1 @ [c]"
    using insert_ok [of s1 c] room new c by (auto simp: room_Inr e s1)
  then show ?thesis using c(4) by (auto simp: stepped_def insert_challenge_def s1 e)
qed

lemma stepped_without:
  assumes "store_ok s" "s1 = s \<or> s1 = expire now s" "c \<in> set (cs_pending s1)"
  shows "stepped w s (r, without_challenge c s1)"
proof -
  have "store_ok s1" "cs_limits s1 = cs_limits s" "cs_admit s1 = cs_admit s" "set (cs_pending s1) \<subseteq> set (cs_pending s)"
    using assms(1,2) expire_facts [OF assms(1)] by auto
  then show ?thesis using without_ok [OF _ assms(3)] by (auto simp: stepped_def without_challenge_def)
qed


lemma without_fields:
  assumes "store_ok s" "c \<in> set (cs_pending s)" "pd_id c = i" "pd_team c = team"
  shows "s\<lparr>cs_pending := filter (\<lambda>q. pd_id q \<noteq> i) (cs_pending s),
      cs_by_team := (if cs_by_team s team = Some i then (cs_by_team s)(team := None) else cs_by_team s)\<rparr> = without_challenge c s"
    "s\<lparr>cs_by_team := (cs_by_team s)(team := None), cs_pending := filter (\<lambda>q. pd_id q \<noteq> i) (cs_pending s)\<rparr> = without_challenge c s"
  using store_okD(4) [OF assms(1,2)] assms(3,4) by (auto simp: without_challenge_def)

lemma reissue_insert:
  assumes "store_ok s" "c \<in> set (cs_pending s)" "pd_id c = i" "pd_team c = team" "pd_id d \<noteq> i" "pd_team d = team"
  shows "insert_challenge d (s\<lparr>cs_pending := filter (\<lambda>q. pd_id q \<noteq> i) (cs_pending s)\<rparr>)
    = insert_challenge d (without_challenge c s)"
  using assms(3-6) by (simp add: insert_challenge_def without_challenge_def fun_upd_def cong: if_cong)

lemma stepped_reissue:
  assumes ok: "store_ok s" and s1: "s1 = expire now s" and c: "c \<in> set (cs_pending s1)"
    and d: "d = c\<lparr>pd_id := j, pd_team := pd_team c, pd_metadata := m\<rparr>" "j \<notin> live_ids s1" "challenge_id j" "cs_admit s m"
  shows "stepped w s (Inr (Issued d), insert_challenge d (s1\<lparr>cs_pending := filter (\<lambda>q. pd_id q \<noteq> pd_id c) (cs_pending s1)\<rparr>))"
proof -
  note e = expire_facts [OF ok, of now]
  have ok1: "store_ok s1" using e by (simp add: s1)
  have mem: "c \<in> set (cs_pending s)" using c by (simp add: s1 e)
  let ?o = "without_challenge c s1"
  have out: "store_ok ?o" by (rule without_ok [OF ok1 c])
  have "length (cs_pending ?o) < length (cs_pending s1)"
    using c by (auto simp: without_challenge_def intro: length_filter_less)
  then have room: "length (cs_pending ?o) < cl_capacity (cs_limits ?o)"
    using store_okD(2) [OF ok1] by (simp add: without_challenge_def)
  have "store_ok (insert_challenge d ?o)" "cs_pending (insert_challenge d ?o) = cs_pending ?o @ [d]"
    using insert_ok [OF out, of d] room d store_okD(5) [OF ok1 c]
    by (auto simp: live_ids_def without_challenge_def s1 e)
  moreover have "insert_challenge d (s1\<lparr>cs_pending := filter (\<lambda>q. pd_id q \<noteq> pd_id c) (cs_pending s1)\<rparr>) = insert_challenge d ?o"
    using d(1,2) c by (intro reissue_insert [OF ok1 c]) (auto simp: live_ids_def)
  ultimately show ?thesis
    using mem d(1) by (auto simp: stepped_def insert_challenge_def without_challenge_def s1 e)
qed

lemma create_stepped: "store_ok s \<Longrightarrow> stepped w s (replied Issued (create_challenge w team m p s))"
  by (auto simp: create_challenge_def replied_def Let_def lock_Inr rbind_eq_Inr fresh_id_new expire_facts
    intro!: stepped_refl stepped_expire stepped_insert split: sum.split)

lemma restore_stepped:
  assumes "store_ok s"
  shows "stepped w s (replied Issued (restore_challenge w team i remaining m p s))"
  using assms find_pending [OF expire_facts(1) [OF assms, of "cw_now w"], of i]
  by (auto simp: restore_challenge_def replied_def Let_def lock_Inr find_by_None live_ids_def
    intro!: stepped_refl stepped_expire stepped_insert split: sum.split)


lemma reissue_stepped:
  assumes "store_ok s"
  shows "stepped w s (replied Issued (reissue_challenge w team i m s))"
proof -
  have ok1: "store_ok (expire (cw_now w) s)" using expire_facts [OF assms] by simp
  show ?thesis
    using assms
    by (auto simp: reissue_challenge_def checked_lock_def replied_def Let_def lock_Inr rbind_eq_Inr available_Inr [OF ok1] fresh_id_new
      intro!: stepped_refl stepped_expire stepped_reissue split: sum.split)
qed

lemma claim_after_cases:
  assumes "store_ok s"
  obtains (refused) e where "claim_after w team i commit s = (Inl e, s) \<or> claim_after w team i commit s = (Inl e, expire (cw_now w) s)"
    | (claimed) c where "c \<in> set (cs_pending (expire (cw_now w) s))" "pd_id c = i" "pd_team c = team" "commit c = Inr ()"
        "claim_after w team i commit s = (Inr c, without_challenge c (expire (cw_now w) s))"
proof (cases "checked_lock w team i s")
  case (Inl e)
  then show thesis by (intro refused [of "Claim_store e"]) (simp add: claim_after_def)
next
  case (Inr s1)
  then have s1: "s1 = expire (cw_now w) s" by (auto simp: checked_lock_def lock_Inr split: if_split_asm)
  have ok1: "store_ok (expire (cw_now w) s)" using expire_facts [OF assms] by simp
  show thesis
  proof (cases "available team i s1")
    case (Inl e)
    with Inr s1 show thesis by (intro refused [of "Claim_store e"]) (simp add: claim_after_def)
  next
    fix c assume c: "available team i s1 = Inr c"
    show thesis
    proof (cases "commit c")
      case (Inl e)
      with Inr s1 c show thesis by (intro refused [of "Claim_commit e"]) (simp add: claim_after_def)
    next
      fix u assume u: "commit c = Inr u"
      have m: "c \<in> set (cs_pending (expire (cw_now w) s))" "pd_id c = i" "pd_team c = team"
        using c available_Inr [OF ok1] by (simp_all add: s1)
      have "claim_after w team i commit s = (Inr c, without_challenge c (expire (cw_now w) s))"
        using Inr c u without_fields(1) [OF ok1 m] by (simp add: claim_after_def s1)
      with m u show thesis by (intro claimed) auto
    qed
  qed
qed

lemma claim_stepped:
  assumes "store_ok s"
  shows "stepped w s (replied (Taken \<circ> Some) (claim_after w team i commit s))"
  by (rule claim_after_cases [OF assms, of w team i commit])
     (use assms in \<open>auto simp: replied_def intro!: stepped_refl stepped_expire stepped_without\<close>)

lemma withdraw_stepped:
  assumes "store_ok s"
  shows "stepped w s (replied Taken (withdraw_team w team s))"
proof (cases "cs_by_team s team")
  case (Some i)
  from store_okD(6) [OF assms Some] obtain c where c: "c \<in> set (cs_pending s)" "pd_id c = i" "pd_team c = team" by blast
  show ?thesis
    using assms stepped_without [OF assms _ c(1)] Some
    by (auto simp: withdraw_team_def replied_def without_fields(2) [OF assms c] intro!: stepped_refl)
qed (use assms in \<open>auto simp: withdraw_team_def replied_def intro!: stepped_refl\<close>)

lemma reading_stepped:
  assumes "store_ok s"
  shows "stepped w s (replied (Shown \<circ> Some) (get_challenge w team i s))" "stepped w s (replied Shown (current_challenge w team s))"
    "stepped w s (replied Drained (drain_expired w who s))" "stepped w s (replied Cancelled (cancel_all w s))"
  using assms expire_facts [OF assms, of "cw_now w"]
  by (auto simp: get_challenge_def current_challenge_def drain_expired_def cancel_all_def checked_lock_def replied_def lock_Inr
    Let_def stepped_def store_ok_def split: sum.split)

lemma step_stepped: "store_ok s \<Longrightarrow> stepped w s (challenge_step w call s)"
  by (cases call)
     (simp_all add: create_stepped restore_stepped reissue_stepped claim_stepped withdraw_stepped reading_stepped)


section \<open>Stores in use\<close>

text \<open>A store starts empty and answers calls at times that never go back.\<close>

inductive store_reached :: "challenge_limits \<Rightarrow> ('m \<Rightarrow> bool) \<Rightarrow> ('m, 'p) challenge_store \<Rightarrow> nat \<Rightarrow> bool" for l admit where
  started: "new_store l admit = Inr s \<Longrightarrow> store_reached l admit s t"
| called: "store_reached l admit s t \<Longrightarrow> t \<le> cw_now w \<Longrightarrow> cw_now w \<le> cw_later w \<Longrightarrow> challenge_step w call s = (r, s') \<Longrightarrow>
    store_reached l admit s' (cw_later w)"

lemma reached_ok:
  assumes "store_reached l admit s t"
  shows "store_ok s \<and> cs_limits s = l \<and> cs_admit s = admit \<and> (\<forall>c \<in> set (cs_pending s). pd_expires c \<le> t + cl_ttl l)"
  using assms
proof (induction rule: store_reached.induct)
  case (started s t)
  then show ?case by (auto simp: new_store_def store_ok_def split: if_split_asm)
next
  case (called s t w call r s')
  then have "stepped w s (r, s')" using step_stepped [of s w call] by simp
  moreover have "t + cl_ttl l \<le> cw_later w + cl_ttl l" using called.hyps(2,3) by simp
  ultimately show ?case using called.IH by (fastforce simp: stepped_def dest: order_trans)
qed

text \<open>C21: However a challenge store is used, whatever its random source, its clock and its callers answer, each Team has at most one
  live challenge, the store never holds more than its capacity, ids are unique and canonical, every live challenge carries
  metadata the store admitted, the index by Team names exactly the live challenges, and none outlives the store's lifetime.\<close>

theorem challenges_invariant:
  assumes "store_reached l admit s t"
  shows "length (cs_pending s) \<le> cl_capacity l \<and> distinct (map pd_id (cs_pending s)) \<and> distinct (map pd_team (cs_pending s))
    \<and> (\<forall>c \<in> set (cs_pending s). challenge_id (pd_id c) \<and> team_id_text (pd_team c) \<and> admit (pd_metadata c)
         \<and> pd_expires c \<le> t + cl_ttl l)
    \<and> (\<forall>team i. cs_by_team s team = Some i \<longleftrightarrow> (\<exists>c \<in> set (cs_pending s). pd_team c = team \<and> pd_id c = i))"
proof -
  note ok = reached_ok [OF assms]
  then have s: "store_ok s" by simp
  have "inj_on pd_team (set (cs_pending s))" using one_challenge(2) [OF s] by (auto simp: inj_on_def)
  then have "distinct (map pd_team (cs_pending s))" using store_okD(1) [OF s] by (auto simp: distinct_map)
  moreover have "cs_by_team s team = Some i \<longleftrightarrow> (\<exists>c \<in> set (cs_pending s). pd_team c = team \<and> pd_id c = i)" for team i
    using store_okD(4,6) [OF s] by metis
  ultimately show ?thesis using ok store_okD(1,2,5) [OF s] by auto
qed

fun run_calls :: "(call_world \<times> ('m, 'p) challenge_call) list \<Rightarrow> ('m, 'p) challenge_store \<Rightarrow> ('m, 'p) challenge_store" where
  "run_calls [] s = s"
| "run_calls ((w, call) # es) s = run_calls es (snd (challenge_step w call s))"

fun never_issued :: "string \<Rightarrow> (call_world \<times> ('m, 'p) challenge_call) list \<Rightarrow> ('m, 'p) challenge_store \<Rightarrow> bool" where
  "never_issued i [] s = True"
| "never_issued i ((w, call) # es) s =
     ((case fst (challenge_step w call s) of Inr (Issued c) \<Rightarrow> pd_id c \<noteq> i | _ \<Rightarrow> True)
      \<and> never_issued i es (snd (challenge_step w call s)))"

text \<open>The calls that can issue the id \<open>i\<close>: a restore of it, and a creation or a reissue whose random source answers its bytes.\<close>

definition draws :: "string \<Rightarrow> entropy \<Rightarrow> bool" where
  "draws i ent \<longleftrightarrow> list_ex (\<lambda>drawn. map_option fst (token_hex [drawn] 16) = Some i) ent"

fun may_issue :: "string \<Rightarrow> call_world \<Rightarrow> ('m, 'p) challenge_call \<Rightarrow> bool" where
  "may_issue i w (Create_call team m p) = draws i (cw_entropy w)"
| "may_issue i w (Reissue_call team j m) = draws i (cw_entropy w)"
| "may_issue i w (Restore_call team j remaining m p) \<longleftrightarrow> j = i"
| "may_issue i w _ = False"

lemma fresh_id_draws: "fresh_id ent s = Inr i \<Longrightarrow> draws i ent"
proof (induction ent s rule: fresh_id.induct)
  case (1 ent s)
  then obtain j rest where t: "token_hex ent 16 = Some (j, rest)" by (cases "token_hex ent 16") (auto simp: fresh_id.simps [of ent])
  then obtain x where x: "ent = x # rest" "map_option fst (token_hex [x] 16) = Some j"
    by (auto simp: token_hex_def fill_def split: list.split_asm option.split_asm)
  show ?case
  proof (cases "find_by pd_id j (cs_pending s) = None")
    case True
    with 1(2) t have "i = j" by (simp add: fresh_id.simps [of ent])
    with x show ?thesis by (simp add: draws_def)
  next
    case False
    with 1(2) t have "fresh_id rest s = Inr i" by (simp add: fresh_id.simps [of ent])
    with 1(1) [OF t refl False] x(1) show ?thesis by (simp add: draws_def)
  qed
qed

lemma issued_may:
  fixes s :: "('m, 'p) challenge_store"
  assumes "fst (challenge_step w call s) = Inr (Issued c)"
  shows "may_issue (pd_id c) w call"
proof (cases call)
  case (Reissue_call team i m)
  with assms obtain s1 :: "('m, 'p) challenge_store" where "fresh_id (cw_entropy w) s1 = Inr (pd_id c)"
    by (auto simp: replied_def reissue_challenge_def Let_def rbind_eq_Inr map_sum_def split: sum.split_asm if_split_asm)
  then show ?thesis using Reissue_call fresh_id_draws by auto
qed (use assms in \<open>auto simp: replied_def create_challenge_def restore_challenge_def Let_def rbind_eq_Inr map_sum_def
    intro: fresh_id_draws split: sum.split_asm if_split_asm\<close>)

lemma never_issued_run: "list_all (\<lambda>(w, call). \<not> may_issue i w call) es \<Longrightarrow> never_issued i es s"
  by (induction i es s rule: never_issued.induct) (auto dest: issued_may split: sum.split challenge_reply.split)

lemma run_absent:
  "store_ok s \<Longrightarrow> i \<notin> live_ids s \<Longrightarrow> never_issued i es s \<Longrightarrow> store_ok (run_calls es s) \<and> i \<notin> live_ids (run_calls es s)"
proof (induction i es s rule: never_issued.induct)
  case (2 i w call es s)
  have "stepped w s (challenge_step w call s)" by (rule step_stepped [OF 2(2)])
  then have "store_ok (snd (challenge_step w call s))" "i \<notin> live_ids (snd (challenge_step w call s))"
    using 2(3,4) by (auto simp: stepped_def live_ids_def)
  with 2 show ?case by simp
qed simp

lemma absent_refused:
  assumes "store_ok s" "i \<notin> live_ids s"
  shows "fst (challenge_step w (Claim_call team i commit) s) = Inl ()" "fst (challenge_step w (Get_call team i) s) = Inl ()"
    "fst (challenge_step w (Reissue_call team i m) s) = Inl ()"
    "fst (challenge_step w (Current_call team) s) = Inr (Shown (Some d)) \<Longrightarrow> pd_id d \<noteq> i"
proof -
  let ?s = "expire (cw_now w) s"
  have no: "i \<notin> live_ids ?s" using assms expire_facts(2) [OF assms(1), of "cw_now w"] by (auto simp: live_ids_def)
  then have av: "available team i ?s = Inl Challenge_not_found"
    by (simp add: available_def find_by_None [THEN iffD2] live_ids_def)
  show "fst (challenge_step w (Claim_call team i commit) s) = Inl ()" "fst (challenge_step w (Get_call team i) s) = Inl ()"
    "fst (challenge_step w (Reissue_call team i m) s) = Inl ()"
    using av by (simp_all add: replied_def claim_after_def get_challenge_def reissue_challenge_def checked_lock_def lock_store_def)
  show "pd_id d \<noteq> i" if "fst (challenge_step w (Current_call team) s) = Inr (Shown (Some d))"
    using that no
    by (auto simp: replied_def current_challenge_def lock_store_def live_ids_def dest: find_by_Some_mem
      split: if_split_asm option.split_asm bind_splits)
qed

text \<open>C20: A challenge is answered by its own Team, in time, and once. When a claim consumes a challenge, it was live in the store
  under that id and Team, had not expired, and its commit succeeded; and from then on, through any further calls that neither
  restore that id nor draw it again at random, no Team can claim, read or reissue it, and no Team is shown it.\<close>

theorem challenge_used_once:
  assumes "store_reached l admit s t" "challenge_step w (Claim_call team i commit) s = (Inr (Taken (Some c)), s1)"
    and "list_all (\<lambda>(w, call). \<not> may_issue i w call) es"
  shows "c \<in> set (cs_pending s) \<and> pd_id c = i \<and> pd_team c = team \<and> cw_now w < pd_expires c \<and> commit c = Inr ()
    \<and> fst (challenge_step w' (Claim_call team' i commit') (run_calls es s1)) = Inl ()
    \<and> fst (challenge_step w' (Get_call team' i) (run_calls es s1)) = Inl ()
    \<and> fst (challenge_step w' (Reissue_call team' i m) (run_calls es s1)) = Inl ()
    \<and> (fst (challenge_step w' (Current_call team') (run_calls es s1)) = Inr (Shown (Some d)) \<longrightarrow> pd_id d \<noteq> i)"
proof -
  have ok: "store_ok s" using reached_ok [OF assms(1)] by simp
  note e = expire_facts [OF ok, of "cw_now w"]
  have "claim_after w team i commit s = (Inr c, s1)"
    using assms(2) by (cases "fst (claim_after w team i commit s)") (auto simp: replied_def prod_eq_iff)
  then have c: "c \<in> set (cs_pending (expire (cw_now w) s)) \<and> pd_id c = i \<and> pd_team c = team \<and> commit c = Inr ()" (is ?c)
    and s1: "s1 = without_challenge c (expire (cw_now w) s)" (is ?s1)
    using claim_after_cases [OF ok, of w team i commit "?c \<and> ?s1"] by auto
  have "store_ok s1" "i \<notin> live_ids s1" using without_ok [OF e(1)] c by (auto simp: s1 live_ids_def without_challenge_def)
  from run_absent [OF this never_issued_run [OF assms(3)]] have "store_ok (run_calls es s1)" "i \<notin> live_ids (run_calls es s1)" by auto
  with absent_refused [OF this] c e(2) show ?thesis by auto
qed

section \<open>A store at work\<close>

definition sample_limits :: challenge_limits where
  "sample_limits = \<lparr>cl_capacity = MAX_PENDING_CHALLENGES, cl_ttl = 300 * NANOS, cl_retain_expired = True\<rparr>"

definition sample_world :: "nat \<Rightarrow> call_world" where
  "sample_world now = \<lparr>cw_poisoned = False, cw_now = now, cw_later = now, cw_entropy = [Some (replicate 16 0)]\<rparr>"

definition sample_store :: "(nat, nat) challenge_store" where
  "sample_store = snd (challenge_step (sample_world 5) (Create_call ''ops'' 1 2)
     (projr (new_store sample_limits (\<lambda>m. m < 9))))"

definition sample_id :: string where "sample_id = replicate 32 (CHR ''0'')"

definition sample_pending :: "(nat, nat) pending_challenge" where
  "sample_pending = \<lparr>pd_id = sample_id, pd_team = ''ops'', pd_expires = 5 + 300 * NANOS, pd_metadata = 1, pd_payload = 2\<rparr>"

lemma sample_token: "token_hex [Some (replicate 16 0)] 16 = Some (sample_id, [])"
proof -
  have zero: "hex_byte 0 = ''00''" by code_simp
  have "concat (map hex_byte (replicate n 0)) = replicate (2 * n) (CHR ''0'')" for n
    by (induction n) (simp_all add: zero)
  from this [of 16] show ?thesis by (simp add: token_hex_def fill_def sample_id_def)
qed

lemma sample_texts: "challenge_id sample_id" "team_id_text ''ops''"
  using token_hex_id [OF sample_token] by (simp_all add: team_id_text_def lower_def digit_def between_def)

lemma sample_store_eq: "sample_store = \<lparr>cs_limits = sample_limits, cs_admit = (\<lambda>m. m < 9), cs_pending = [sample_pending],
    cs_by_team = [''ops'' \<mapsto> sample_id], cs_expired = []\<rparr>"
  unfolding sample_store_def sample_pending_def
  by (simp add: replied_def create_challenge_def lock_store_def expire_def room_def fresh_id.simps sample_world_def new_store_def
    limits_valid_def sample_limits_def MAX_PENDING_CHALLENGES_def NANOS_def sample_token sample_texts insert_challenge_def rbind_def
    Let_def)

lemma sample_reached: "store_reached sample_limits (\<lambda>m. m < 9) sample_store 5"
proof -
  have new: "new_store sample_limits (\<lambda>m. m < (9::nat)) = Inr (projr (new_store sample_limits (\<lambda>m. m < (9::nat))))"
    by (simp add: new_store_def limits_valid_def sample_limits_def MAX_PENDING_CHALLENGES_def NANOS_def)
  have "store_reached sample_limits (\<lambda>m. m < 9) sample_store (cw_later (sample_world 5))"
    unfolding sample_store_def
    by (rule store_reached.called [OF store_reached.started [OF new, of 0] _ _ prod.collapse [symmetric]]) (simp_all add: sample_world_def)
  then show ?thesis by (simp add: sample_world_def)
qed

theorem challenges_invariant_witness:
  "distinct (map pd_team (cs_pending sample_store)) \<and> cs_by_team sample_store ''ops'' = Some sample_id
    \<and> pd_expires sample_pending \<le> 5 + cl_ttl sample_limits"
  using challenges_invariant [OF sample_reached] by (simp add: sample_store_eq sample_pending_def)

definition sample_claim :: "(nat, nat) challenge_call" where
  "sample_claim = Claim_call ''ops'' sample_id (\<lambda>_. Inr ())"

lemma sample_claimed: "challenge_step (sample_world 9) sample_claim sample_store
    = (Inr (Taken (Some sample_pending)), sample_store\<lparr>cs_pending := [], cs_by_team := Map.empty\<rparr>)"
  by (simp add: sample_store_eq sample_claim_def replied_def claim_after_def checked_lock_def lock_store_def expire_def available_def
    sample_world_def sample_pending_def NANOS_def sample_texts)

definition sample_next :: "call_world \<times> (nat, nat) challenge_call" where
  "sample_next = ((sample_world 9)\<lparr>cw_entropy := [Some (replicate 16 1)]\<rparr>, Create_call ''ops'' 3 4)"

theorem challenge_used_once_witness:
  "cw_now (sample_world 9) < pd_expires sample_pending
    \<and> fst (challenge_step (sample_world 10) sample_claim
        (run_calls [sample_next] (snd (challenge_step (sample_world 9) sample_claim sample_store)))) = Inl ()"
proof -
  have "map_option fst (token_hex [Some (replicate 16 1)] 16) \<noteq> Some sample_id" by code_simp
  then have "list_all (\<lambda>(w, call). \<not> may_issue sample_id w call) [sample_next]"
    by (simp add: sample_next_def draws_def sample_world_def)
  from challenge_used_once [OF sample_reached sample_claimed [unfolded sample_claim_def] this, of "sample_world 10" "''ops''" "\<lambda>_. Inr ()"]
  have "cw_now (sample_world 9) < pd_expires sample_pending"
    "fst (challenge_step (sample_world 10) (Claim_call ''ops'' sample_id (\<lambda>_. Inr ()))
       (run_calls [sample_next] (sample_store\<lparr>cs_pending := [], cs_by_team := Map.empty\<rparr>))) = Inl ()"
    by blast+
  then show ?thesis unfolding sample_claimed snd_conv by (simp only: sample_claim_def)
qed

section \<open>Where the documentation says otherwise\<close>

text \<open>The constant is documented as the largest capacity of a store; a store of 1024 challenges is admitted.\<close>

theorem capacity_above_documented:
  "MAX_PENDING_CHALLENGES < cl_capacity \<lparr>cl_capacity = 1024, cl_ttl = 300 * NANOS, cl_retain_expired = True\<rparr>
    \<and> limits_valid \<lparr>cl_capacity = 1024, cl_ttl = 300 * NANOS, cl_retain_expired = True\<rparr>"
  by (simp add: limits_valid_def MAX_PENDING_CHALLENGES_def NANOS_def)

text \<open>Cancelling is documented to answer whether the Team had a live challenge; it does not look at the clock, so a challenge whose time
  has passed counts, one that reading at the same moment no longer shows.\<close>

theorem expired_challenge_cancelled:
  "fst (cancel_team (sample_world (400 * NANOS)) ''ops'' sample_store) = Inr True
    \<and> fst (current_challenge (sample_world (400 * NANOS)) ''ops'' sample_store) = Inr None"
  by (simp add: sample_store_eq cancel_team_def withdraw_team_def current_challenge_def lock_store_def expire_def expire_one_def
    sample_world_def sample_pending_def sample_texts NANOS_def)

end
