(* ===== verification/Spec2Isabelle.thy ===== *)
theory Spec2Isabelle
  imports Journal_Properties Routine_Properties Routine_Changes Cursor_Example Egress_Policy Action_Batch Challenge_Store
begin

text \<open>
  A verification library for the core logic of a Shimpz Team: what makes an Assistant's Action run at most once, and what
  makes a Routine run when it should, once, within its budgets, and with nothing lost when it is interrupted.

  \<^bold>\<open>The program.\<close> A Team is a set of Rust crates under \<^verbatim>\<open>src/\<close>. The Action journal (\<^verbatim>\<open>action/src/journal\<close>) records each
  operation of a batch in SQLite before it is executed, so a crash never repeats an effect. The Action runner
  (\<^verbatim>\<open>action/src/runner\<close>) is its client: a batch prepares the operations of one suspension, and an invoke admits one of them,
  begins it in the journal, sends one invocation to the Assistant's workload over Docker exec (\<^verbatim>\<open>rpc\<close>, \<^verbatim>\<open>frames\<close>), projects the
  frame that comes back (\<^verbatim>\<open>projection.rs\<close>) and settles the journal; what a person answered on the way is a transcript
  (\<^verbatim>\<open>human\<close>), which also decides whether a file's bytes travel (\<^verbatim>\<open>files\<close>). Routines (\<^verbatim>\<open>routine/src\<close>) are
  recorded plans of Action steps that fire on a schedule: \<^verbatim>\<open>record\<close> holds the definitions, runs and notices, \<^verbatim>\<open>claim\<close> leases a
  due run to the worker, \<^verbatim>\<open>runs\<close> and \<^verbatim>\<open>hold\<close> move it through freezing, thawing, incidents and its end, \<^verbatim>\<open>schedule\<close> and
  \<^verbatim>\<open>dates\<close> say when it fires. \<^verbatim>\<open>protocol/http/rust\<close> and \<^verbatim>\<open>vendor/strict-json\<close> carry the grammars and the JSON they all share. Each
  of these crates is free of I/O or hides it behind one transaction, which is what makes them modelled here as functions.

  \<^bold>\<open>Conventions\<close> (\<open>Team_Prelude\<close>). A \<open>Result\<close> is a sum with the error on the left and \<open>rbind\<close> is \<open>?\<close>; every early
  return is a branch. A \<open>String\<close> is its bytes. An \<open>i64\<close> is an \<open>int\<close> with its range, checked and saturating operations
  written out. A random source is the list of its answers. State is a record, passed and returned. A definition keeps the
  name of the function it translates where Isabelle allows it.

  \<^bold>\<open>Theories and the code they model.\<close>
  \<^item> \<open>Strict_Json\<close>: values and their readers (\<^verbatim>\<open>vendor/strict-json/src/value.rs\<close>, \<^verbatim>\<open>routine/src/json.rs\<close>), the canonical writer
    (\<^verbatim>\<open>protocol/http/rust/src/python/json.rs\<close>) and the bounds of an Action result (\<^verbatim>\<open>action/src/result.rs\<close>).
  \<^item> \<open>Json_Parser\<close>, \<open>Json_Roundtrip\<close>, \<open>Json_Soundness\<close>: the strict parser (\<^verbatim>\<open>vendor/strict-json/src\<close>); parsing the canonical
    bytes answers the value with its members sorted, and whatever parses has the shape the other components rely on.
  \<^item> \<open>Text_Patterns\<close>: the declared identifier patterns of \<^verbatim>\<open>protocol/http/rust\<close> as predicates.
  \<^item> \<open>Action_Journal\<close>: the journal's tables, statements and commands (\<^verbatim>\<open>action/src/journal/\<close>); a command is a transaction
    on \<open>db\<close>, committed or rolled back, on a storage that may refuse; stored results are read back with \<open>Json_Parser\<close>. \<open>Journal_Invariant\<close>: the database invariant.
    \<open>Journal_Machine\<close>: commands as one type, the reachable journals, and the abstract slot of one generation they refine.
    \<open>Journal_Properties\<close>: at most one execution, replay of results, retirement, capacity, repeated preparation.
  \<^item> \<open>Calendar\<close>, \<open>Schedule\<close>, \<open>Schedule_Properties\<close>: dates (\<^verbatim>\<open>routine/src/dates/date.rs\<close>,
    \<^verbatim>\<open>protocol/http/rust/src/python/datetime.rs\<close>) and next firings (\<^verbatim>\<open>routine/src/schedule/mod.rs\<close>).
  \<^item> \<open>Routine_Record\<close>, \<open>Routine_Define\<close>, \<open>Routine_Claim\<close>, \<open>Routine_Runs\<close>: a Team's Routine state and every transition of it
    (\<^verbatim>\<open>routine/src/record/\<close>, \<^verbatim>\<open>definition.rs\<close>, \<^verbatim>\<open>claim/\<close>, \<^verbatim>\<open>runs/mod.rs\<close>, \<^verbatim>\<open>hold/mod.rs\<close>). \<open>Routine_Invariant\<close> and
    \<open>Routine_Machine\<close>: the transitions as one event type, the reachable Teams and their invariant. \<open>Routine_Runs_Machine\<close>: the
    abstract life of one run and the simulation. \<open>Routine_Properties\<close>, \<open>Routine_Notices\<close>, \<open>Routine_Changes\<close>: what that gives
    for leases, generations, notices, failures, changes and deletion; \<open>Routine_Example\<close> is the Team the witnesses apply it to.

  \<^item> \<open>Routine_Plan\<close>, \<open>Plan_Walk\<close>, \<open>Plan_Admit\<close>: plans (\<^verbatim>\<open>routine/src/plan/mod.rs\<close>, \<^verbatim>\<open>plan/walk.rs\<close>): pointers and selection with
    Python's equality, resolving a step's input, the schemas a supplied value reaches, admission. \<open>Plan_Closed\<close>: what an
    admitted plan guarantees.
  \<^item> \<open>Shown_Output\<close>, \<open>Routine_Cursor\<close>, \<open>Cursor_Codec\<close>: the shown-output contract
    (\<^verbatim>\<open>protocol/http/rust/src/routine/output.rs\<close>) and a run's cursor (\<^verbatim>\<open>routine/src/cursor/mod.rs\<close>): its transitions, its closed
    shape, and its sealed form, which reads back. \<open>Cursor_Machine\<close>: the transitions as events with restarts between them,
    and what every reached cursor keeps. \<open>Cursor_Properties\<close>: a step's inputs are there, one operation per step, recovery
    once; \<open>Cursor_Example\<close> is the plan and run the witnesses apply it to.
  \<^item> \<open>File_Store\<close>: Team-held files (\<^verbatim>\<open>storage/src/custody.rs\<close>, \<^verbatim>\<open>storage/src/durable.rs\<close>): custody, the strict read and durable
    replacement over a file system whose every call may be refused, with every state a crash can leave; replacement is atomic.
  \<^item> \<open>Egress_Policy\<close>: the egress policy store (\<^verbatim>\<open>egress/src/\<close>) over those files and the strict parser: what validation accepts.

  \<^item> \<open>Ascii_Json\<close>, \<open>Action_Cause\<close>: the ASCII writer (\<^verbatim>\<open>protocol/http/rust/src/python/json.rs\<close>) and the closed causes of failures
    (\<^verbatim>\<open>protocol/http/rust/src/payload/cause.rs\<close>), whose documents read back within their bounds.
  \<^item> \<open>Assistant_Request\<close>, \<open>Human_Transcript\<close>: human requests, their answers and the authorization they give
    (\<^verbatim>\<open>vendor/assistant-protocol/src/human_request.rs\<close>, \<^verbatim>\<open>action/src/human/mod.rs\<close>).
  \<^item> \<open>Action_Executor\<close>, \<open>Action_Files\<close>, \<open>Action_Projection\<close>: the seam's errors (\<^verbatim>\<open>action/src/executor.rs\<close>), file delivery
    (\<^verbatim>\<open>action/src/files/mod.rs\<close>, \<^verbatim>\<open>vendor/assistant-protocol/src/input_file.rs\<close>) and the projection of a terminal frame
    (\<^verbatim>\<open>action/src/projection.rs\<close>).
  \<^item> \<open>Exec_Frames\<close>, \<open>Action_Rpc\<close>: Docker's multiplexed frames (\<^verbatim>\<open>action/src/frames/mod.rs\<close>) and one bounded call with its
    fail-stop (\<^verbatim>\<open>action/src/rpc/mod.rs\<close>).
  \<^item> \<open>Action_Runner\<close>, \<open>Action_Batch\<close>: one attempt as a list of effects (\<^verbatim>\<open>action/src/runner/mod.rs\<close>) and the batch over the journal
    (\<^verbatim>\<open>action/src/runner/batch.rs\<close>): nothing is sent unrecorded, nothing is sent into a blocked workload, and an uncertain
    operation is never sent again.
  \<^item> \<open>Challenge_Store\<close>: one-use challenges with a lifetime (\<^verbatim>\<open>integrations/src/challenge.rs\<close>), which carry a paused turn's human
    request or Integration consent: one per Team, answered in time and once.

  \<^bold>\<open>Interfaces.\<close> Locales state what one part relies on of another and are interpreted on the model's definitions:
  \<open>keyed_table\<close> (lookup and replacement in a vector searched by id) on Routines and runs, \<open>value_reader\<close> (what the parser's
  loops rely on of the value parser) on \<open>parse_value\<close>, \<open>closed_words\<close> (a closed vocabulary and its wire texts) on the four
  vocabularies of a cause, \<open>held_operation\<close> (a state no allowed step loosens and in which none sends) on the journal, the batches
  and an operation left executing.

  \<^bold>\<open>Bounds and fuel.\<close> The journal's loops and the Routine sweeps are structural. The calendar search of a firing counts down
  the days the code's own loop allows, and \<open>next_run_answers\<close> shows it answers. The parser's loops carry the length of the
  unread text as fuel; \<open>array_loop_fuel\<close> and \<open>object_loop_fuel\<close> show that more changes nothing.

  \<^bold>\<open>Arguments of the model.\<close> Code outside the repository is an argument of the definitions that use it: SHA-256, base64, the
  timezone database, SQLite's refusals, reading a float literal, the schema compiler, which characters print. What Docker, the
  workload, the private stores, the audit log, the clock and Stop answer one call is a record with a field per question
  (\<open>rpc_world\<close>, \<open>attempt_world\<close>, \<open>batch_world\<close>), and \<open>tools\<close> carries the rest, of the Team's own code the redaction of a handled
  failure. The records
  \<open>walker\<close> and \<open>plan_host\<close> carry what plan admission uses of them and of the Unicode tables and clock formats. The record \<open>host\<close> also carries, of the Team's own code, the
  Unicode rules of names, the shape of a plan document, its wire projection and the details of a completed or created
  notice, on which the transitions branch without looking inside; every theorem holds for all of them.

  \<^bold>\<open>Idealisations.\<close> A command that errs before it commits leaves the earlier database: the code ignores the answer of its
  \<^verbatim>\<open>ROLLBACK\<close>, which SQLite refuses only where no transaction is active. A new file's group is the process's own, so a
  directory that hands down its group is outside the model. A cursor's count of attempts and an \<open>Instant\<close> are numbers without
  the upper end of \<^verbatim>\<open>i64\<close> and of the platform's clock, where the code would overflow.

  \<^bold>\<open>Not modelled.\<close> Chat orchestration, inference, the OAuth flows of integrations, browser tasks, installation, the encrypted stores, file preparation and the
  Local host: they are asynchronous I/O around external services, processes and files. The composition and refinement of plans
  and their provenance, the provider broker, the redaction of handled failures and the ISO 8601 parser are left out.
\<close>

end
